(* ===== verification/Aisy_Prelude.thy ===== *)
theory Aisy_Prelude
  imports Complex_Main "HOL-Library.AList" "HOL-Library.Char_ord" "HOL-Library.List_Lexorder"
    "HOL-Library.Sublist"
begin

text \<open>
  Shared vocabulary of the development: the JavaScript containers and string primitives that every
  component of the harness uses, the lemma collections the component proofs draw from, and the
  generic contracts (state machines with an invariant, latches) stated once as locales.

  Conventions.
  \<^item> A JavaScript string is modelled by the bytes of its UTF-8 encoding (\<^typ>\<open>string\<close>). Comparison,
    concatenation, splitting at a separator and substring search agree with the source; lengths,
    case mapping and white space agree on ASCII text.
  \<^item> A \<open>Map\<close> is an association list in insertion order, updated by \<^const>\<open>AList.update\<close> (which keeps
    the position of an existing key, as \<open>Map.set\<close> does) and \<^const>\<open>AList.delete\<close>.
  \<^item> A thrown error is the left injection of a sum; an optional property is an \<open>option\<close>.
\<close>

named_theorems js_simps \<open>evaluation of the string and container primitives\<close>
named_theorems machine_intros \<open>steps that keep a component invariant\<close>

type_synonym ('k, 'v) jsmap = "('k \<times> 'v) list"

abbreviation map_keys :: "('k, 'v) jsmap \<Rightarrow> 'k list" where
  "map_keys m \<equiv> map fst m"

abbreviation map_values :: "('k, 'v) jsmap \<Rightarrow> 'v list" where
  "map_values m \<equiv> map snd m"

abbreviation wf_map :: "('k, 'v) jsmap \<Rightarrow> bool" where
  "wf_map m \<equiv> distinct (map fst m)"


section \<open>String primitives\<close>

definition is_upper :: "char \<Rightarrow> bool" where
  "is_upper c \<longleftrightarrow> 65 \<le> (of_char c :: nat) \<and> (of_char c :: nat) \<le> 90"

definition is_lower :: "char \<Rightarrow> bool" where
  "is_lower c \<longleftrightarrow> 97 \<le> (of_char c :: nat) \<and> (of_char c :: nat) \<le> 122"

definition is_digit :: "char \<Rightarrow> bool" where
  "is_digit c \<longleftrightarrow> 48 \<le> (of_char c :: nat) \<and> (of_char c :: nat) \<le> 57"

definition is_alnum :: "char \<Rightarrow> bool" where
  "is_alnum c \<longleftrightarrow> is_upper c \<or> is_lower c \<or> is_digit c"

definition is_word :: "char \<Rightarrow> bool" where
  "is_word c \<longleftrightarrow> is_alnum c \<or> c = CHR ''_''"

definition is_space :: "char \<Rightarrow> bool" where
  "is_space c \<longleftrightarrow> c \<in> set [CHR 0x09, CHR 0x0A, CHR 0x0B, CHR 0x0C, CHR 0x0D, CHR '' '']"

definition to_lower :: "char \<Rightarrow> char" where
  "to_lower c = (if is_upper c then char_of ((of_char c :: nat) + 32) else c)"

definition to_upper :: "char \<Rightarrow> char" where
  "to_upper c = (if is_lower c then char_of ((of_char c :: nat) - 32) else c)"

definition toLowerCase :: "string \<Rightarrow> string" where
  "toLowerCase s = map to_lower s"

definition toUpperCase :: "string \<Rightarrow> string" where
  "toUpperCase s = map to_upper s"

definition trimStart :: "string \<Rightarrow> string" where
  "trimStart s = dropWhile is_space s"

definition trimEnd :: "string \<Rightarrow> string" where
  "trimEnd s = rev (dropWhile is_space (rev s))"

definition trim :: "string \<Rightarrow> string" where
  "trim s = trimEnd (trimStart s)"

definition startsWith :: "string \<Rightarrow> string \<Rightarrow> bool" where
  "startsWith s p \<longleftrightarrow> take (length p) s = p"

definition endsWith :: "string \<Rightarrow> string \<Rightarrow> bool" where
  "endsWith s p \<longleftrightarrow> startsWith (rev s) (rev p)"

fun str_includes :: "string \<Rightarrow> string \<Rightarrow> bool" where
  "str_includes [] p = startsWith [] p"
| "str_includes (c # cs) p = (startsWith (c # cs) p \<or> str_includes cs p)"

text \<open>\<open>s.split(sep)\<close> for a non-empty separator: left to right, occurrences do not overlap.\<close>

fun split_acc :: "string \<Rightarrow> string \<Rightarrow> string \<Rightarrow> string list" where
  "split_acc sep acc [] = [rev acc]"
| "split_acc sep acc (c # cs) =
     (if sep \<noteq> [] \<and> startsWith (c # cs) sep
      then rev acc # split_acc sep [] (drop (length sep - 1) cs)
      else split_acc sep (c # acc) cs)"

definition js_split :: "string \<Rightarrow> string \<Rightarrow> string list" where
  "js_split s sep = split_acc sep [] s"

fun js_join :: "string \<Rightarrow> string list \<Rightarrow> string" where
  "js_join sep [] = []"
| "js_join sep [x] = x"
| "js_join sep (x # y # ys) = x @ sep @ js_join sep (y # ys)"

fun digits_of :: "nat \<Rightarrow> string" where
  "digits_of n = (if n < 10 then [char_of (48 + n)] else digits_of (n div 10) @ [char_of (48 + n mod 10)])"

declare digits_of.simps [simp del]

definition string_of_int :: "int \<Rightarrow> string" where
  "string_of_int i = (if i < 0 then ''-'' @ digits_of (nat (- i)) else digits_of (nat i))"

text \<open>\<open>[...new Set(xs)]\<close>: the first occurrence of every element, in order.\<close>

fun dedup_acc :: "'a list \<Rightarrow> 'a list \<Rightarrow> 'a list" where
  "dedup_acc seen [] = []"
| "dedup_acc seen (x # xs) =
     (if x \<in> set seen then dedup_acc seen xs else x # dedup_acc (x # seen) xs)"

definition dedup :: "'a list \<Rightarrow> 'a list" where
  "dedup xs = dedup_acc [] xs"


section \<open>Lemmas on the primitives\<close>

lemma startsWith_iff_prefix: "startsWith s p \<longleftrightarrow> prefix p s"
  unfolding startsWith_def by (metis append_eq_conv_conj prefix_def)

lemma startsWith_append [simp]: "startsWith (p @ s) p"
  by (simp add: startsWith_def)

lemma startsWith_Nil [simp]: "startsWith s []"
  by (simp add: startsWith_def)

lemma endsWith_iff_suffix: "endsWith s p \<longleftrightarrow> suffix p s"
  by (simp add: endsWith_def startsWith_iff_prefix suffix_to_prefix)

lemma str_includes_iff: "str_includes s p \<longleftrightarrow> sublist p s"
  by (induction s) (auto simp: startsWith_iff_prefix sublist_Cons_right)

lemma str_includesI [intro]: "str_includes (a @ p @ b) p"
  by (simp add: str_includes_iff)

lemma sublist_mid: "sublist w x \<Longrightarrow> sublist w (a @ x @ b)"
  by (meson sublist_append_leftI sublist_append_rightI sublist_order.order_trans)

text \<open>A separator that does not occur in a text keeps its occurrences on one side.\<close>

lemma sublist_sep:
  assumes "c \<notin> set w"
  shows "sublist w (a @ c # b) \<longleftrightarrow> sublist w a \<or> sublist w b"
proof
  assume "sublist w (a @ c # b)"
  then obtain x y where e: "a @ c # b = x @ w @ y" by (auto simp: sublist_def)
  show "sublist w a \<or> sublist w b"
  proof (cases "length x + length w \<le> length a")
    case True
    have "a = x @ w @ take (length a - length x - length w) y"
      using arg_cong [OF e, of "take (length a)"] True by simp
    then show ?thesis by (auto simp: sublist_def)
  next
    case False
    show ?thesis
    proof (cases "length x \<le> length a")
      case True
      then have "(a @ c # b) ! length a = w ! (length a - length x)"
        using e False by (auto simp: nth_append)
      then have "c \<in> set w" using False True by auto
      with assms show ?thesis by simp
    next
      case xl: False
      then have "drop (Suc (length a)) (a @ c # b) = drop (Suc (length a)) x @ w @ y"
        using e by simp
      then have "b = drop (Suc (length a)) x @ w @ y" by simp
      then show ?thesis by (metis sublist_def)
    qed
  qed
next
  assume "sublist w a \<or> sublist w b"
  then show "sublist w (a @ c # b)"
  proof
    assume "sublist w a"
    then show ?thesis by (simp add: sublist_append)
  next
    assume "sublist w b"
    then have "sublist w (c # b)" by (simp add: sublist_Cons_right)
    then show ?thesis by (simp add: sublist_append)
  qed
qed

lemma str_includesE:
  assumes "str_includes s p"
  obtains a b where "s = a @ p @ b"
  using assms by (auto simp: str_includes_iff sublist_def)

lemma set_dedup_acc: "set (dedup_acc seen xs) = set xs - set seen"
  by (induction xs arbitrary: seen) auto

lemma set_dedup [simp]: "set (dedup xs) = set xs"
  by (simp add: dedup_def set_dedup_acc)

lemma distinct_dedup_acc: "distinct (dedup_acc seen xs)"
  by (induction xs arbitrary: seen) (auto simp: set_dedup_acc)

lemma distinct_dedup [simp]: "distinct (dedup xs)"
  by (simp add: dedup_def distinct_dedup_acc)

lemma map_of_update [simp]: "map_of (AList.update k v m) = (map_of m)(k \<mapsto> v)"
  by (rule update_conv')

lemma map_of_delete [simp]: "map_of (AList.delete k m) = (map_of m)(k := None)"
  by (rule delete_conv')

lemma wf_map_update [simp]: "wf_map m \<Longrightarrow> wf_map (AList.update k v m)"
  by (rule distinct_update)

lemma wf_map_delete [simp]: "wf_map m \<Longrightarrow> wf_map (AList.delete k m)"
  by (rule distinct_delete)

lemma wf_map_filter [simp]: "wf_map m \<Longrightarrow> wf_map (filter P m)"
  by (rule distinct_map_filter)

lemma map_values_filterD: "v \<in> set (map_values (filter P m)) \<Longrightarrow> v \<in> set (map_values m)"
  by auto

lemma map_of_in_values: "map_of m k = Some v \<Longrightarrow> v \<in> set (map_values m)"
  by (metis image_eqI list.set_map map_of_SomeD snd_conv)

lemma set_update_subset: "set (AList.update k v m) \<subseteq> insert (k, v) (set m)"
  by (induction m) auto

lemma in_set_update [simp]: "(k, v) \<in> set (AList.update k v m)"
  by (induction m) auto

lemma value_in_update [simp]: "v \<in> snd ` set (AList.update k v m)"
  by (induction m) auto

lemma length_filter_mono: "(\<And>x. x \<in> set xs \<Longrightarrow> P x \<Longrightarrow> Q x) \<Longrightarrow> length (filter P xs) \<le> length (filter Q xs)"
  by (induction xs) (auto simp: le_SucI)

lemma length_filter_strict:
  "y \<in> set xs \<Longrightarrow> Q y \<Longrightarrow> \<not> P y \<Longrightarrow> (\<And>x. x \<in> set xs \<Longrightarrow> P x \<Longrightarrow> Q x) \<Longrightarrow>
     length (filter P xs) < length (filter Q xs)"
proof (induction xs)
  case (Cons x xs)
  show ?case
  proof (cases "x = y")
    case True
    have "length (filter P xs) \<le> length (filter Q xs)"
      by (rule length_filter_mono) (simp add: Cons.prems)
    with True Cons.prems show ?thesis by simp
  next
    case False
    with Cons show ?thesis by auto
  qed
qed simp

lemma length_trimEnd: "length (trimEnd s) \<le> length s"
  unfolding trimEnd_def by (metis length_dropWhile_le length_rev)

lemma length_trim: "length (trim s) \<le> length s"
  unfolding trim_def trimStart_def
  by (meson length_dropWhile_le length_trimEnd le_trans)

lemma set_trim: "set (trim s) \<subseteq> set s"
  unfolding trim_def trimStart_def trimEnd_def
  by (auto dest!: set_dropWhileD)

text \<open>Trimming is idempotent, so a cleaned field is a fixed point of the cleaning.\<close>

lemma dropWhile_again [simp]: "dropWhile P (dropWhile P s) = dropWhile P s"
  by (induction s) auto

lemma trimEnd_idem [simp]: "trimEnd (trimEnd s) = trimEnd s"
  by (simp add: trimEnd_def)

lemma hd_dropWhile_not: "dropWhile P s \<noteq> [] \<Longrightarrow> \<not> P (hd (dropWhile P s))"
  by (rule hd_dropWhile)

lemma trimEnd_prefix: "prefix (trimEnd s) s"
  unfolding trimEnd_def by (metis rev_rev_ident suffix_dropWhile suffix_to_prefix)

lemma trim_idem [simp]: "trim (trim s) = trim s"
proof -
  let ?u = "trimStart s"
  have start: "trimStart (trimEnd ?u) = trimEnd ?u"
  proof (cases "trimEnd ?u")
    case Nil
    then show ?thesis by (simp add: trimStart_def)
  next
    case (Cons c cs)
    then obtain z where "?u = (c # cs) @ z"
      using trimEnd_prefix [of ?u] by (auto simp: prefix_def)
    then have "\<not> is_space c"
      using hd_dropWhile_not [of is_space s] by (simp add: trimStart_def)
    with Cons show ?thesis by (simp add: trimStart_def)
  qed
  then show ?thesis by (simp add: trim_def)
qed


section \<open>Joining with a separator\<close>

lemma js_join_Cons: "xs \<noteq> [] \<Longrightarrow> js_join sep (x # xs) = x @ sep @ js_join sep xs"
  by (cases xs) auto

text \<open>
  Keys built by \<open>[...].join('\\u0000')\<close> are injective as soon as one of the two key tuples is free
  of the separator.
\<close>

lemma count_join:
  "xs \<noteq> [] \<Longrightarrow> count_list (js_join [z] xs) z = sum_list (map (\<lambda>x. count_list x z) xs) + (length xs - 1)"
  by (induction xs rule: induct_list012) (auto simp: count_list_append)

lemma split_at_sep:
  "x @ z # u = y @ z # v \<Longrightarrow> z \<notin> set x \<Longrightarrow> z \<notin> set y \<Longrightarrow> x = y \<and> u = v"
  by (induction x arbitrary: y) (auto simp: Cons_eq_append_conv append_eq_Cons_conv)

lemma join_sep_inj_free:
  assumes "length xs = length ys"
    and "\<forall>x \<in> set xs. z \<notin> set x" and "\<forall>y \<in> set ys. z \<notin> set y"
    and "js_join [z] xs = js_join [z] ys"
  shows "xs = ys"
  using assms
proof (induction xs ys rule: list_induct2)
  case Nil
  then show ?case by simp
next
  case (Cons x xs y ys)
  show ?case
  proof (cases xs)
    case Nil
    with Cons show ?thesis by simp
  next
    case (Cons a as)
    note xs = this
    then obtain b bs where ys: "ys = b # bs"
      using Cons.hyps by (cases ys) auto
    from Cons.prems(3) xs ys have eq: "x @ z # js_join [z] xs = y @ z # js_join [z] ys"
      by (simp add: js_join_Cons)
    moreover have "z \<notin> set x" "z \<notin> set y"
      using Cons.prems by auto
    ultimately have "x = y" "js_join [z] xs = js_join [z] ys"
      by (auto dest: split_at_sep)
    then show ?thesis
      using Cons.IH Cons.prems by simp
  qed
qed

lemma join_sep_inj:
  assumes len: "length xs = length ys" and free: "\<forall>x \<in> set xs. z \<notin> set x"
    and eq: "js_join [z] xs = js_join [z] ys"
  shows "xs = ys"
proof (cases "xs = []")
  case True
  with len show ?thesis by simp
next
  case False
  then have ys: "ys \<noteq> []" using len by auto
  have "sum_list (map (\<lambda>x. count_list x z) xs) = 0"
    using free by (simp add: count_list_0_iff)
  with eq False ys len have "sum_list (map (\<lambda>y. count_list y z) ys) = 0"
    by (metis add_diff_cancel_right' count_join diff_self_eq_0)
  then have "\<forall>y \<in> set ys. z \<notin> set y"
    by (simp add: count_list_0_iff)
  with len free eq show ?thesis by (intro join_sep_inj_free)
qed


section \<open>Contracts of state machines\<close>

text \<open>
  A component with a step function and a well-formedness invariant: whatever sequence of events
  it sees, the invariant holds.
\<close>

locale invariant_machine =
  fixes step :: "'s \<Rightarrow> 'e \<Rightarrow> 's"
    and inv :: "'s \<Rightarrow> bool"
  assumes inv_step: "inv s \<Longrightarrow> inv (step s e)"
begin

lemma inv_run: "inv s \<Longrightarrow> inv (foldl step s es)"
  by (induction es arbitrary: s) (auto intro: inv_step)

lemma inv_prefix: "inv s \<Longrightarrow> inv (foldl step s (take n es))"
  by (rule inv_run)

end

text \<open>A latch: a condition that no event of the machine clears.\<close>

locale latch_machine =
  fixes step :: "'s \<Rightarrow> 'e \<Rightarrow> 's"
    and latched :: "'s \<Rightarrow> bool"
  assumes latch_step: "latched s \<Longrightarrow> latched (step s e)"
begin

lemma latch_run: "latched s \<Longrightarrow> latched (foldl step s es)"
  by (induction es arbitrary: s) (auto intro: latch_step)

lemma latch_later: "latched (foldl step s es) \<Longrightarrow> latched (foldl step s (es @ es'))"
  by (simp add: latch_run)

end

sublocale latch_machine \<subseteq> invariant_machine step latched
  by unfold_locales (rule latch_step)

end
