(* ===== verification/Js_Regex.thy ===== *)
theory Js_Regex
  imports Aisy_Prelude
begin

text \<open>
  The fragment of JavaScript regular expressions the harness uses: character classes, sequence,
  ordered alternation, greedy repetition, \<open>\\b\<close>, \<open>^\<close> and \<open>$\<close>. A position in the subject is
  the character before it (none at the start) and the rest of the subject. \<open>rx_ends r p\<close> lists
  the end positions of the matches of \<open>r\<close> at \<open>p\<close> in the order the backtracking matcher of the
  language tries them, so its head is the match the language reports. An iteration that consumes
  nothing is dropped, as the language's repetition rule demands; the fuel of a repetition is the
  length of the rest, and \<open>star_ends_fuel\<close> shows that more fuel changes nothing.
\<close>

datatype rx =
    Eps
  | Cls "char \<Rightarrow> bool"
  | Seq rx rx
  | Alt rx rx
  | Star rx
  | WordB
  | Bol
  | Eol

type_synonym rpos = "char option \<times> string"

definition word_at :: "char option \<Rightarrow> bool" where
  "word_at c = (case c of None \<Rightarrow> False | Some x \<Rightarrow> is_word x)"

definition next_char :: "string \<Rightarrow> char option" where
  "next_char s = (case s of [] \<Rightarrow> None | c # _ \<Rightarrow> Some c)"

fun star_ends :: "nat \<Rightarrow> (rpos \<Rightarrow> rpos list) \<Rightarrow> rpos \<Rightarrow> rpos list" where
  "star_ends 0 f p = [p]"
| "star_ends (Suc n) f p =
     concat (map (star_ends n f) (filter (\<lambda>q. length (snd q) < length (snd p)) (f p))) @ [p]"

primrec rx_ends :: "rx \<Rightarrow> rpos \<Rightarrow> rpos list" where
  "rx_ends Eps p = [p]"
| "rx_ends (Cls f) p = (case snd p of [] \<Rightarrow> [] | c # cs \<Rightarrow> if f c then [(Some c, cs)] else [])"
| "rx_ends (Seq r s) p = concat (map (rx_ends s) (rx_ends r p))"
| "rx_ends (Alt r s) p = rx_ends r p @ rx_ends s p"
| "rx_ends (Star r) p = star_ends (length (snd p)) (rx_ends r) p"
| "rx_ends WordB p = (if word_at (fst p) \<noteq> word_at (next_char (snd p)) then [p] else [])"
| "rx_ends Bol p = (if fst p = None then [p] else [])"
| "rx_ends Eol p = (if snd p = [] then [p] else [])"

fun rx_search :: "rx \<Rightarrow> char option \<Rightarrow> string \<Rightarrow> bool" where
  "rx_search r pv [] = (rx_ends r (pv, []) \<noteq> [])"
| "rx_search r pv (c # cs) = (rx_ends r (pv, c # cs) \<noteq> [] \<or> rx_search r (Some c) cs)"

text \<open>\<open>re.test(s)\<close>.\<close>

definition rx_test :: "rx \<Rightarrow> string \<Rightarrow> bool" where
  "rx_test r s = rx_search r None s"

text \<open>
  \<open>s.replace(re, f)\<close> with the global flag: at every position the first match in matcher order is
  replaced; after an empty match one character is copied. The last argument of \<open>rx_repl\<close> counts
  the characters of the current match that are still to be skipped.
\<close>

fun rx_repl :: "rx \<Rightarrow> (string \<Rightarrow> string) \<Rightarrow> char option \<Rightarrow> nat \<Rightarrow> string \<Rightarrow> string" where
  "rx_repl r f pv k [] =
     (if k = 0 then (case rx_ends r (pv, []) of [] \<Rightarrow> [] | _ \<Rightarrow> f []) else [])"
| "rx_repl r f pv (Suc k) (c # cs) = rx_repl r f (Some c) k cs"
| "rx_repl r f pv 0 (c # cs) =
     (case rx_ends r (pv, c # cs) of
        [] \<Rightarrow> c # rx_repl r f (Some c) 0 cs
      | q # _ \<Rightarrow>
          (let n = length (c # cs) - length (snd q)
           in if n = 0 then f [] @ c # rx_repl r f (Some c) 0 cs
              else f (take n (c # cs)) @ rx_repl r f (Some c) (n - 1) cs))"

definition rx_replace_all :: "rx \<Rightarrow> (string \<Rightarrow> string) \<Rightarrow> string \<Rightarrow> string" where
  "rx_replace_all r f s = rx_repl r f None 0 s"


section \<open>Derived forms\<close>

definition rx_char :: "char \<Rightarrow> rx" where
  "rx_char c = Cls (\<lambda>x. x = c)"

fun rx_lit :: "string \<Rightarrow> rx" where
  "rx_lit [] = Eps"
| "rx_lit [c] = rx_char c"
| "rx_lit (c # d # cs) = Seq (rx_char c) (rx_lit (d # cs))"

fun rx_seq :: "rx list \<Rightarrow> rx" where
  "rx_seq [] = Eps"
| "rx_seq [r] = r"
| "rx_seq (r # s # rs) = Seq r (rx_seq (s # rs))"

fun rx_alt :: "rx list \<Rightarrow> rx" where
  "rx_alt [] = Cls (\<lambda>_. False)"
| "rx_alt [r] = r"
| "rx_alt (r # s # rs) = Alt r (rx_alt (s # rs))"

definition rx_plus :: "rx \<Rightarrow> rx" where
  "rx_plus r = Seq r (Star r)"

definition rx_opt :: "rx \<Rightarrow> rx" where
  "rx_opt r = Alt r Eps"

fun rx_times :: "nat \<Rightarrow> rx \<Rightarrow> rx" where
  "rx_times 0 r = Eps"
| "rx_times (Suc n) r = Seq r (rx_times n r)"

fun rx_upto :: "nat \<Rightarrow> rx \<Rightarrow> rx" where
  "rx_upto 0 r = Eps"
| "rx_upto (Suc n) r = rx_opt (Seq r (rx_upto n r))"

text \<open>The \<open>i\<close> flag: a class matches a character of either case.\<close>

primrec rx_ci :: "rx \<Rightarrow> rx" where
  "rx_ci Eps = Eps"
| "rx_ci (Cls f) = Cls (\<lambda>c. f (to_lower c) \<or> f (to_upper c))"
| "rx_ci (Seq r s) = Seq (rx_ci r) (rx_ci s)"
| "rx_ci (Alt r s) = Alt (rx_ci r) (rx_ci s)"
| "rx_ci (Star r) = Star (rx_ci r)"
| "rx_ci WordB = WordB"
| "rx_ci Bol = Bol"
| "rx_ci Eol = Eol"

abbreviation rx_sp :: rx where "rx_sp \<equiv> Cls is_space"
abbreviation rx_nsp :: rx where "rx_nsp \<equiv> Cls (\<lambda>c. \<not> is_space c)"

definition is_line_end :: "char \<Rightarrow> bool" where
  "is_line_end c \<longleftrightarrow> c = CHR 0x0A \<or> c = CHR 0x0D"

abbreviation rx_any :: rx where "rx_any \<equiv> Cls (\<lambda>c. \<not> is_line_end c)"


section \<open>Declarative reading of the matcher\<close>

text \<open>\<open>adv p u q\<close>: the match consumes \<open>u\<close> and moves from position \<open>p\<close> to position \<open>q\<close>.\<close>

definition adv :: "rpos \<Rightarrow> string \<Rightarrow> rpos \<Rightarrow> bool" where
  "adv p u q \<longleftrightarrow> snd p = u @ snd q \<and> fst q = (if u = [] then fst p else Some (last u))"

lemma adv_Nil [simp]: "adv p [] q \<longleftrightarrow> q = p"
  by (auto simp: adv_def prod_eq_iff)

lemma adv_trans: "adv p u q \<Longrightarrow> adv q v w \<Longrightarrow> adv p (u @ v) w"
  by (auto simp: adv_def)

lemma star_ends_shorter: "q \<in> set (star_ends n f p) \<Longrightarrow> length (snd q) \<le> length (snd p)"
  by (induction n arbitrary: p) fastforce+

lemma star_ends_adv:
  assumes f: "\<And>p q. q \<in> set (f p) \<Longrightarrow> \<exists>u. adv p u q"
  shows "q \<in> set (star_ends n f p) \<Longrightarrow> \<exists>u. adv p u q"
proof (induction n arbitrary: p)
  case 0
  then have "adv p [] q" by simp
  then show ?case by blast
next
  case (Suc n)
  from Suc.prems consider "q = p" | w where "w \<in> set (f p)" "q \<in> set (star_ends n f w)"
    by auto
  then show ?case
  proof cases
    case 1
    then have "adv p [] q" by simp
    then show ?thesis by blast
  next
    case 2
    then show ?thesis using f [of w p] Suc.IH [of w] by (blast intro: adv_trans)
  qed
qed

text \<open>Every match of every expression consumes a prefix of the rest.\<close>

lemma rx_ends_adv: "q \<in> set (rx_ends r p) \<Longrightarrow> \<exists>u. adv p u q"
proof (induction r arbitrary: p q)
  case Eps
  then have "adv p [] q" by simp
  then show ?case by blast
next
  case (Cls f)
  then obtain c cs where "snd p = c # cs" "q = (Some c, cs)"
    by (cases "snd p") (auto split: if_splits)
  then have "adv p [c] q" by (simp add: adv_def)
  then show ?case by blast
next
  case (Seq r s)
  then obtain w where "w \<in> set (rx_ends r p)" "q \<in> set (rx_ends s w)" by auto
  then show ?case using Seq.IH by (blast intro: adv_trans)
next
  case (Alt r s)
  then have "q \<in> set (rx_ends r p) \<or> q \<in> set (rx_ends s p)" by simp
  then show ?case using Alt.IH by blast
next
  case (Star r)
  then show ?case using star_ends_adv [of "rx_ends r" q] by auto
next
  case WordB
  then have "adv p [] q" by (simp split: if_splits)
  then show ?case by blast
next
  case Bol
  then have "adv p [] q" by (simp split: if_splits)
  then show ?case by blast
next
  case Eol
  then have "adv p [] q" by (simp split: if_splits)
  then show ?case by blast
qed

lemma rx_ends_le: "q \<in> set (rx_ends r p) \<Longrightarrow> length (snd q) \<le> length (snd p)"
  by (auto simp: adv_def dest!: rx_ends_adv)

text \<open>The fuel of a repetition is enough: extra fuel gives the same ends in the same order.\<close>

lemma star_ends_fuel:
  "length (snd p) \<le> n \<Longrightarrow> star_ends n f p = star_ends (length (snd p)) f p"
proof (induction "length (snd p)" arbitrary: p n rule: less_induct)
  case less
  show ?case
  proof (cases "length (snd p)")
    case 0
    then show ?thesis by (cases n) auto
  next
    case (Suc m)
    then obtain n' where n: "n = Suc n'" "m \<le> n'"
      using less.prems by (cases n) auto
    have "star_ends n' f q = star_ends m f q" if "length (snd q) < length (snd p)" for q
      using less.hyps [OF that, of n'] less.hyps [OF that, of m] that Suc n by simp
    then have "map (star_ends n' f) (filter (\<lambda>q. length (snd q) < length (snd p)) (f p)) =
               map (star_ends m f) (filter (\<lambda>q. length (snd q) < length (snd p)) (f p))"
      by (intro map_cong) auto
    with Suc n show ?thesis by (simp only: star_ends.simps)
  qed
qed

lemma rx_search_iff:
  "rx_search r pv s \<longleftrightarrow> (\<exists>u v. s = u @ v \<and> rx_ends r (if u = [] then pv else Some (last u), v) \<noteq> [])"
proof (induction s arbitrary: pv)
  case Nil
  then show ?case by auto
next
  case (Cons c cs)
  show ?case (is "_ = ?R")
  proof
    assume "rx_search r pv (c # cs)"
    then consider "rx_ends r (pv, c # cs) \<noteq> []"
      | u v where "cs = u @ v" "rx_ends r (if u = [] then Some c else Some (last u), v) \<noteq> []"
      using Cons.IH [of "Some c"] by auto
    then show ?R
    proof cases
      case 1
      then show ?thesis by (intro exI [of _ "[]"] exI [of _ "c # cs"]) simp
    next
      case 2
      then show ?thesis by (intro exI [of _ "c # u"] exI [of _ v]) (auto split: if_splits)
    qed
  next
    assume ?R
    then obtain u v where uv: "c # cs = u @ v" "rx_ends r (if u = [] then pv else Some (last u), v) \<noteq> []"
      by blast
    show "rx_search r pv (c # cs)"
    proof (cases u)
      case Nil
      with uv have "rx_ends r (pv, c # cs) \<noteq> []" by simp
      then show ?thesis by simp
    next
      case (Cons d us)
      with uv have "cs = us @ v" "rx_ends r (if us = [] then Some c else Some (last us), v) \<noteq> []"
        by (auto split: if_splits)
      then have "rx_search r (Some c) cs" using Cons.IH [of "Some c"] by blast
      then show ?thesis by simp
    qed
  qed
qed

lemma rx_test_iff:
  "rx_test r s \<longleftrightarrow> (\<exists>u v. s = u @ v \<and> rx_ends r (if u = [] then None else Some (last u), v) \<noteq> [])"
  by (simp add: rx_test_def rx_search_iff)

lemma rx_ends_lit:
  "rx_ends (rx_lit w) (pv, s) =
     (if startsWith s w then [(if w = [] then pv else Some (last w), drop (length w) s)] else [])"
proof (induction w arbitrary: pv s rule: rx_lit.induct)
  case 1
  then show ?case by (simp add: startsWith_def)
next
  case (2 c)
  then show ?case by (cases s) (auto simp: rx_char_def startsWith_def)
next
  case (3 c d cs)
  then show ?case by (cases s) (auto simp: rx_char_def startsWith_def)
qed

text \<open>A literal pattern tests for a substring.\<close>

lemma rx_test_lit: "rx_test (rx_lit w) s \<longleftrightarrow> str_includes s w"
proof
  assume "rx_test (rx_lit w) s"
  then obtain u v where "s = u @ v" "startsWith v w"
    by (auto simp: rx_test_iff rx_ends_lit split: if_splits)
  then show "str_includes s w"
    by (auto simp: startsWith_iff_prefix prefix_def)
next
  assume "str_includes s w"
  then obtain a b where "s = a @ w @ b" by (rule str_includesE)
  then show "rx_test (rx_lit w) s"
    unfolding rx_test_iff
    by (intro exI [of _ a] exI [of _ "w @ b"]) (simp add: rx_ends_lit)
qed

lemma rx_test_alt: "rx_test (Alt r t) s \<longleftrightarrow> rx_test r s \<or> rx_test t s"
  by (auto simp: rx_test_iff)

lemma ends_SeqI: "q \<in> set (rx_ends r p) \<Longrightarrow> x \<in> set (rx_ends t q) \<Longrightarrow> x \<in> set (rx_ends (Seq r t) p)"
  by auto

lemma ends_Eps_all: "concat (map (rx_ends Eps) ps) = ps"
  by (induction ps) simp_all

lemma rx_ends_seq_Cons: "rx_ends (rx_seq (r # rs)) p = concat (map (rx_ends (rx_seq rs)) (rx_ends r p))"
  by (cases rs) (simp_all add: ends_Eps_all)

lemma ends_litI: "(if w = [] then pv else Some (last w), v) \<in> set (rx_ends (rx_lit w) (pv, w @ v))"
  by (simp add: rx_ends_lit)

lemma ends_Star_Cls:
  "\<forall>c \<in> set u. f c \<Longrightarrow> (if u = [] then pv else Some (last u), v) \<in> set (rx_ends (Star (Cls f)) (pv, u @ v))"
proof (induction u arbitrary: pv)
  case Nil
  then show ?case by (cases v) auto
next
  case (Cons c u)
  then have "(if u = [] then Some c else Some (last u), v) \<in> set (star_ends (length (u @ v)) (rx_ends (Cls f)) (Some c, u @ v))"
    by simp
  with Cons.prems show ?case by auto
qed

lemma ends_plus_Cls:
  assumes "u \<noteq> []" and "\<forall>c \<in> set u. f c"
  shows "(Some (last u), v) \<in> set (rx_ends (rx_plus (Cls f)) (pv, u @ v))"
proof -
  from assms(1) obtain c u' where u: "u = c # u'" by (cases u) auto
  show ?thesis
    unfolding rx_plus_def u
    by (rule ends_SeqI [of "(Some c, u' @ v)"]) (use assms(2) u ends_Star_Cls [of u' f "Some c" v] in auto)
qed

text \<open>A match of a pattern at some split of the subject makes the test succeed.\<close>

lemma rx_testI: "q \<in> set (rx_ends r (if u = [] then None else Some (last u), v)) \<Longrightarrow> rx_test r (u @ v)"
  unfolding rx_test_iff by (intro exI [of _ u] exI [of _ v]) auto


section \<open>Global replacement\<close>

text \<open>Skipping the rest of a match amounts to starting after it.\<close>

lemma rx_repl_skip:
  "k \<le> length s \<Longrightarrow> rx_repl r f pv k s = rx_repl r f (if k = 0 then pv else Some (s ! (k - 1))) 0 (drop k s)"
proof (induction s arbitrary: pv k)
  case Nil
  then show ?case by simp
next
  case (Cons c cs)
  show ?case
  proof (cases k)
    case (Suc j)
    with Cons.prems have "rx_repl r f (Some c) j cs =
        rx_repl r f (if j = 0 then Some c else Some (cs ! (j - 1))) 0 (drop j cs)"
      by (intro Cons.IH) simp
    with Suc show ?thesis by (simp add: nth_Cons' del: rx_repl.simps(3))
  qed simp
qed

text \<open>One round of the replacement at a position that is not the end.\<close>

lemma rx_repl_step:
  assumes "s \<noteq> []"
  obtains (copy) "rx_ends r (pv, s) = []" and "rx_repl r f pv 0 s = hd s # rx_repl r f (Some (hd s)) 0 (tl s)"
  | (insert) q where "q \<in> set (rx_ends r (pv, s))" and "length s \<le> length (snd q)"
      and "rx_repl r f pv 0 s = f [] @ hd s # rx_repl r f (Some (hd s)) 0 (tl s)"
  | (replace) n pv' where "0 < n" and "n \<le> length s"
      and "rx_repl r f pv 0 s = f (take n s) @ rx_repl r f pv' 0 (drop n s)"
proof -
  from assms obtain c cs where s: "s = c # cs" by (cases s) auto
  show ?thesis
  proof (cases "rx_ends r (pv, s)")
    case Nil
    then show ?thesis using copy s by simp
  next
    case (Cons q qs)
    define n where "n = length s - length (snd q)"
    show ?thesis
    proof (cases "n = 0")
      case True
      then show ?thesis using insert [of q] s Cons by (simp add: n_def)
    next
      case False
      then have "n \<le> length s" "n - 1 \<le> length cs" "drop (n - 1) cs = drop n s"
        using s by (auto simp: n_def drop_Cons')
      then show ?thesis
        using replace [of n "if n - 1 = 0 then Some c else Some (cs ! (n - 1 - 1))"] False Cons s
          rx_repl_skip [of "n - 1" cs r f "Some c"] by (simp add: n_def Let_def)
    qed
  qed
qed

text \<open>
  Replacements that put a text \<open>M\<close> before or in place of each match. When \<open>w\<close> can neither lie in nor
  straddle \<open>M\<close>, a subject without \<open>w\<close> stays without it. The letters are read through \<open>h\<close>.
\<close>

lemma repl_apart:
  assumes ap: "\<And>a b. sublist w (map h (a @ M @ b)) \<Longrightarrow> sublist w (map h a) \<or> sublist w (map h b)"
    and f: "\<And>m. f m = M @ m \<or> f m = M" and w: "w \<noteq> []"
  shows "\<not> sublist w (map h (x @ s)) \<Longrightarrow> \<not> sublist w (map h (x @ rx_repl p f pv 0 s))"
proof (induction "length s" arbitrary: x s pv rule: less_induct)
  case less
  have apart: "\<not> sublist w (map h (x @ M @ y))" if "\<not> sublist w (map h y)" for y
    using ap [of x y] that less.prems by (auto simp: sublist_append)
  have none: "\<not> sublist w (map h [])" using w by simp
  show ?case
  proof (cases s)
    case Nil
    have "f [] = M" using f [of "[]"] by auto
    then show ?thesis using Nil less.prems apart [OF none] by (auto split: list.splits)
  next
    case (Cons c cs)
    then have ne: "s \<noteq> []" by simp
    have cs: "\<not> sublist w (map h ((x @ [c]) @ rx_repl p f (Some c) 0 cs))"
      using less.hyps [of cs "x @ [c]"] less.prems Cons by simp
    show ?thesis
    proof (cases rule: rx_repl_step [OF ne, of p pv f])
      case 1
      with cs Cons show ?thesis by simp
    next
      case (2 q)
      have "f [] = M" using f [of "[]"] by auto
      moreover have "\<not> sublist w (map h (c # rx_repl p f (Some c) 0 cs))"
        using cs by (auto simp: sublist_append)
      ultimately show ?thesis
        using apart [of "c # rx_repl p f (Some c) 0 cs"] 2(3) Cons by (simp del: rx_repl.simps)
    next
      case (3 n pv')
      have rest: "\<not> sublist w (map h (y @ rx_repl p f pv' 0 (drop n s)))" if "\<not> sublist w (map h (y @ drop n s))" for y
        using less.hyps [of "drop n s" y pv'] 3(1,2) that by simp
      have "\<not> sublist w (map h (take n s @ drop n s))" "\<not> sublist w (map h ([] @ drop n s))"
        using less.prems sublist_order.order_trans sublist_drop [of n s]
        by (auto simp: sublist_append map_mono_sublist simp flip: drop_map)
      from apart [OF rest [OF this(1)]] apart [OF rest [OF this(2)]] show ?thesis
        using 3(3) f [of "take n s"] by auto
    qed
  qed
qed

end
