(* ===== verification/Js_Json.thy ===== *)
theory Js_Json
  imports Js_Regex
begin

text \<open>
  The dynamic values the harness passes around (tool arguments, journal payloads, persisted
  state) and the library functions the source applies to them: \<open>JSON.stringify\<close>, \<open>String(...)\<close>,
  \<open>decodeURIComponent\<close>, \<open>path.posix.normalize\<close> and \<open>path.posix.basename\<close>.

  \<open>JExotic\<close> is an object that is not a plain data object (a proxy, a class instance, accessor or
  symbol properties); \<open>JFun\<close> stands for functions and symbols, \<open>JNonFin\<close> for the non-finite
  numbers. Finite numbers are integers here.
\<close>

datatype jv =
    JUndef
  | JNull
  | JBool bool
  | JNum int
  | JNonFin
  | JStr string
  | JArr "jv list"
  | JObj "(string \<times> jv) list"
  | JExotic "(string \<times> jv) list"
  | JFun

text \<open>Structural induction with the entries of an object as pairs.\<close>

lemma jv_induct [case_names JUndef JNull JBool JNum JNonFin JStr JArr JObj JExotic JFun]:
  assumes "P JUndef" "P JNull" "\<And>b. P (JBool b)" "\<And>n. P (JNum n)" "P JNonFin" "\<And>s. P (JStr s)"
    and "\<And>vs. (\<And>v. v \<in> set vs \<Longrightarrow> P v) \<Longrightarrow> P (JArr vs)"
    and "\<And>kvs. (\<And>k v. (k, v) \<in> set kvs \<Longrightarrow> P v) \<Longrightarrow> P (JObj kvs)"
    and "\<And>kvs. (\<And>k v. (k, v) \<in> set kvs \<Longrightarrow> P v) \<Longrightarrow> P (JExotic kvs)"
    and "P JFun"
  shows "P v"
  by (induction v) (use assms in \<open>auto simp: prod_set_defs intro: assms\<close>)

text \<open>Property access \<open>o[k]\<close> on an entry list: a missing property is \<open>undefined\<close>.\<close>

definition getprop :: "(string \<times> jv) list \<Rightarrow> string \<Rightarrow> jv" where
  "getprop o1 k = (case map_of o1 k of None \<Rightarrow> JUndef | Some v \<Rightarrow> v)"

definition hex_digit :: "nat \<Rightarrow> char" where
  "hex_digit n = (if n < 10 then char_of (48 + n) else char_of (87 + n))"

definition json_escape :: "char \<Rightarrow> string" where
  "json_escape c =
     (if c = CHR 0x22 then [CHR 0x5C, CHR 0x22]
      else if c = CHR 0x5C then [CHR 0x5C, CHR 0x5C]
      else if c = CHR 0x08 then [CHR 0x5C, CHR ''b'']
      else if c = CHR 0x0C then [CHR 0x5C, CHR ''f'']
      else if c = CHR 0x0A then [CHR 0x5C, CHR ''n'']
      else if c = CHR 0x0D then [CHR 0x5C, CHR ''r'']
      else if c = CHR 0x09 then [CHR 0x5C, CHR ''t'']
      else if (of_char c :: nat) < 32 then
        [CHR 0x5C, CHR ''u'', CHR ''0'', CHR ''0'',
         hex_digit ((of_char c :: nat) div 16), hex_digit ((of_char c :: nat) mod 16)]
      else [c])"

definition json_string :: "string \<Rightarrow> string" where
  "json_string s = [CHR 0x22] @ concat (map json_escape s) @ [CHR 0x22]"

definition json_member :: "string \<times> string option \<Rightarrow> string list" where
  "json_member kv = (case snd kv of None \<Rightarrow> [] | Some v \<Rightarrow> [json_string (fst kv) @ '':'' @ v])"

definition json_object :: "(string \<times> string option) list \<Rightarrow> string" where
  "json_object kvs = ''{'' @ js_join '','' (concat (map json_member kvs)) @ ''}''"

definition json_array :: "string option list \<Rightarrow> string" where
  "json_array vs =
     ''['' @ js_join '','' (map (\<lambda>v. case v of None \<Rightarrow> ''null'' | Some s \<Rightarrow> s) vs) @ '']''"

text \<open>\<open>JSON.stringify\<close>: \<open>None\<close> is the result \<open>undefined\<close>.\<close>

primrec stringify :: "jv \<Rightarrow> string option" where
  "stringify JUndef = None"
| "stringify JNull = Some ''null''"
| "stringify (JBool b) = Some (if b then ''true'' else ''false'')"
| "stringify (JNum n) = Some (string_of_int n)"
| "stringify JNonFin = Some ''null''"
| "stringify (JStr s) = Some (json_string s)"
| "stringify (JArr vs) = Some (json_array (map stringify vs))"
| "stringify (JObj kvs) = Some (json_object (map (map_prod id stringify) kvs))"
| "stringify (JExotic kvs) = Some (json_object (map (map_prod id stringify) kvs))"
| "stringify JFun = None"

definition json_text :: "jv \<Rightarrow> string" where
  "json_text v = (case stringify v of None \<Rightarrow> ''undefined'' | Some s \<Rightarrow> s)"

text \<open>\<open>String(v)\<close>.\<close>

primrec to_string :: "jv \<Rightarrow> string" where
  "to_string JUndef = ''undefined''"
| "to_string JNull = ''null''"
| "to_string (JBool b) = (if b then ''true'' else ''false'')"
| "to_string (JNum n) = string_of_int n"
| "to_string JNonFin = ''NaN''"
| "to_string (JStr s) = s"
| "to_string (JArr vs) = js_join '','' (map (\<lambda>x. if fst x then [] else snd x)
     (map (\<lambda>v. (v = JUndef \<or> v = JNull, to_string v)) vs))"
| "to_string (JObj kvs) = ''[object Object]''"
| "to_string (JExotic kvs) = ''[object Object]''"
| "to_string JFun = ''function''"

text \<open>\<open>String(v ?? '')\<close>.\<close>

definition to_string_or_empty :: "jv \<Rightarrow> string" where
  "to_string_or_empty v = (if v = JUndef \<or> v = JNull then [] else to_string v)"

text \<open>Object keys sorted recursively, the canonical form the hashing code uses.\<close>

definition sort_entries :: "(string \<times> 'a) list \<Rightarrow> (string \<times> 'a) list" where
  "sort_entries kvs = sort_key fst kvs"

primrec sort_keys :: "jv \<Rightarrow> jv" where
  "sort_keys JUndef = JUndef"
| "sort_keys JNull = JNull"
| "sort_keys (JBool b) = JBool b"
| "sort_keys (JNum n) = JNum n"
| "sort_keys JNonFin = JNonFin"
| "sort_keys (JStr s) = JStr s"
| "sort_keys (JArr vs) = JArr (map sort_keys vs)"
| "sort_keys (JObj kvs) = JObj (sort_entries (map (map_prod id sort_keys) kvs))"
| "sort_keys (JExotic kvs) = JObj (sort_entries (map (map_prod id sort_keys) kvs))"
| "sort_keys JFun = JFun"


section \<open>decodeURIComponent\<close>

definition hex_val :: "char \<Rightarrow> nat option" where
  "hex_val c =
     (let n = (of_char c :: nat) in
      if 48 \<le> n \<and> n \<le> 57 then Some (n - 48)
      else if 65 \<le> n \<and> n \<le> 70 then Some (n - 55)
      else if 97 \<le> n \<and> n \<le> 102 then Some (n - 87)
      else None)"

text \<open>One \<open>%XX\<close> escape at the head of the rest.\<close>

fun pct_byte :: "string \<Rightarrow> (nat \<times> string) option" where
  "pct_byte (p # a # b # cs) =
     (if p = CHR ''%'' then
        (case (hex_val a, hex_val b) of
           (Some h, Some l) \<Rightarrow> Some (16 * h + l, cs)
         | _ \<Rightarrow> None)
      else None)"
| "pct_byte _ = None"

text \<open>The number of bytes of the UTF-8 sequence a lead byte opens (\<open>None\<close>: not a lead byte).\<close>

definition utf8_len :: "nat \<Rightarrow> nat option" where
  "utf8_len b = (if b < 128 then Some 1 else if b < 192 then None else if b < 224 then Some 2
     else if b < 240 then Some 3 else if b < 248 then Some 4 else None)"

fun utf8_point :: "nat list \<Rightarrow> nat" where
  "utf8_point [a] = a"
| "utf8_point [a, b] = (a mod 32) * 64 + b mod 64"
| "utf8_point [a, b, c] = ((a mod 16) * 64 + b mod 64) * 64 + c mod 64"
| "utf8_point [a, b, c, d] = (((a mod 8) * 64 + b mod 64) * 64 + c mod 64) * 64 + d mod 64"
| "utf8_point _ = 0"

definition utf8_ok :: "nat list \<Rightarrow> bool" where
  "utf8_ok bs =
     (list_all (\<lambda>b. 128 \<le> b \<and> b < 192) (tl bs) \<and>
      (let p = utf8_point bs in
       (length bs = 1 \<or> length bs = 2 \<and> 128 \<le> p \<or> length bs = 3 \<and> 2048 \<le> p \<and> \<not> (55296 \<le> p \<and> p < 57344)
        \<or> length bs = 4 \<and> 65536 \<le> p \<and> p < 1114112)))"

fun pct_bytes :: "nat \<Rightarrow> string \<Rightarrow> (nat list \<times> string) option" where
  "pct_bytes 0 s = Some ([], s)"
| "pct_bytes (Suc n) s =
     (case pct_byte s of
        None \<Rightarrow> None
      | Some (b, s') \<Rightarrow>
          (case pct_bytes n s' of None \<Rightarrow> None | Some (bs, s'') \<Rightarrow> Some (b # bs, s'')))"

lemma pct_byte_shorter: "pct_byte s = Some (b, s') \<Longrightarrow> length s' < length s"
  by (cases s rule: pct_byte.cases) (auto split: if_splits option.splits)

lemma pct_bytes_shorter: "pct_bytes n s = Some (bs, s') \<Longrightarrow> length s' \<le> length s"
  by (induction n arbitrary: s bs)
     (force split: option.splits dest: pct_byte_shorter)+

text \<open>\<open>None\<close> is the \<open>URIError\<close> of a malformed sequence.\<close>

function decodeURIComponent :: "string \<Rightarrow> string option" where
  "decodeURIComponent [] = Some []"
| "decodeURIComponent (c # cs) =
     (if c = CHR ''%'' then
        (case pct_byte (c # cs) of
           None \<Rightarrow> None
         | Some (b, s') \<Rightarrow>
             (case utf8_len b of
                None \<Rightarrow> None
              | Some n \<Rightarrow>
                  (case pct_bytes (n - 1) s' of
                     None \<Rightarrow> None
                   | Some (bs, s'') \<Rightarrow>
                       if utf8_ok (b # bs)
                       then map_option (\<lambda>t. map char_of (b # bs) @ t) (decodeURIComponent s'')
                       else None)))
      else map_option (\<lambda>t. c # t) (decodeURIComponent cs))"
  by pat_completeness auto
termination
  by (relation "measure length") (auto dest!: pct_byte_shorter pct_bytes_shorter)

text \<open>Text without a percent sign decodes to itself.\<close>

lemma decode_plain: "CHR ''%'' \<notin> set s \<Longrightarrow> decodeURIComponent s = Some s"
  by (induction s) auto


section \<open>POSIX paths\<close>

text \<open>
  \<open>path.posix.normalize\<close>: segments are resolved from left to right on a stack of the kept ones
  (innermost first); in a relative path a \<open>..\<close> with nothing to cancel is kept.
\<close>

definition dot :: string where "dot = ''.''"
definition dotdot :: string where "dotdot = ''..''"

fun norm_segs :: "bool \<Rightarrow> string list \<Rightarrow> string list \<Rightarrow> string list" where
  "norm_segs absolute stack [] = rev stack"
| "norm_segs absolute stack (x # xs) =
     (if x = [] \<or> x = dot then norm_segs absolute stack xs
      else if x = dotdot then
        (case stack of
           [] \<Rightarrow> norm_segs absolute (if absolute then [] else [dotdot]) xs
         | y # ys \<Rightarrow> if y = dotdot then norm_segs absolute (dotdot # y # ys) xs
                     else norm_segs absolute ys xs)
      else norm_segs absolute (x # stack) xs)"

definition posix_normalize :: "string \<Rightarrow> string" where
  "posix_normalize p =
     (if p = [] then dot
      else
        (let absolute = startsWith p ''/'';
             trailing = endsWith p ''/'';
             body = js_join ''/'' (norm_segs absolute [] (js_split p ''/''))
         in if body = [] then (if absolute then ''/'' else if trailing then ''./'' else dot)
            else (if absolute then ''/'' else []) @ body @ (if trailing then ''/'' else [])))"

definition strip_trailing_slashes :: "string \<Rightarrow> string" where
  "strip_trailing_slashes p = rev (dropWhile (\<lambda>c. c = CHR ''/'') (rev p))"

definition posix_basename :: "string \<Rightarrow> string" where
  "posix_basename p = last (js_split (strip_trailing_slashes p) ''/'')"

text \<open>
  In the segments of a normalised relative path every \<open>..\<close> stands before every other segment, so
  a normalised relative path that does not start with \<open>..\<close> has none at all.
\<close>

definition ups_first :: "string list \<Rightarrow> bool" where
  "ups_first segs \<longleftrightarrow> (\<exists>n rest. segs = replicate n dotdot @ rest \<and> dotdot \<notin> set rest)"

lemma ups_first_snoc_up: "ups_first segs \<Longrightarrow> (segs \<noteq> [] \<Longrightarrow> last segs = dotdot) \<Longrightarrow> ups_first (segs @ [dotdot])"
proof -
  assume "ups_first segs" and l: "segs \<noteq> [] \<Longrightarrow> last segs = dotdot"
  then obtain n rest where segs: "segs = replicate n dotdot @ rest" and nin: "dotdot \<notin> set rest"
    by (auto simp: ups_first_def)
  have "rest = []"
  proof (rule ccontr)
    assume "rest \<noteq> []"
    with segs l have "last rest = dotdot" by auto
    with \<open>rest \<noteq> []\<close> nin show False by (metis last_in_set)
  qed
  with segs have "segs @ [dotdot] = replicate (Suc n) dotdot @ []"
    by (simp add: replicate_append_same)
  then show ?thesis unfolding ups_first_def by (metis empty_iff empty_set)
qed

lemma ups_first_snoc: "ups_first segs \<Longrightarrow> x \<noteq> dotdot \<Longrightarrow> ups_first (segs @ [x])"
  unfolding ups_first_def by (metis append_assoc set_append UnE set_ConsD empty_iff empty_set)

lemma ups_first_butlast: "ups_first (segs @ [x]) \<Longrightarrow> ups_first segs"
proof -
  assume "ups_first (segs @ [x])"
  then obtain n rest where e: "segs @ [x] = replicate n dotdot @ rest" "dotdot \<notin> set rest"
    by (auto simp: ups_first_def)
  show ?thesis
  proof (cases rest rule: rev_cases)
    case Nil
    with e have "segs @ [x] = replicate n dotdot" by simp
    then have "segs = replicate (n - 1) dotdot @ []"
      by (metis append_Nil2 append_butlast_last_id butlast_snoc length_append_singleton length_replicate
          replicate_append_same snoc_eq_iff_butlast diff_Suc_1 replicate_Suc replicate_length_same
          in_set_replicate append_eq_conv_conj take_replicate min_def)
    then show ?thesis unfolding ups_first_def by (metis empty_iff empty_set)
  next
    case (snoc ys y)
    with e have "segs = replicate n dotdot @ ys" "dotdot \<notin> set ys" by auto
    then show ?thesis unfolding ups_first_def by blast
  qed
qed

lemma norm_segs_ups_first: "ups_first (rev stack) \<Longrightarrow> ups_first (norm_segs absolute stack xs)"
proof (induction absolute stack xs rule: norm_segs.induct)
  case (1 absolute stack)
  then show ?case by simp
next
  case (2 absolute stack x xs)
  show ?case
  proof (cases "x = [] \<or> x = dot")
    case True
    with "2.IH"(1) "2.prems" show ?thesis by auto
  next
    case False
    note nd = this
    show ?thesis
    proof (cases "x = dotdot")
      case True
      show ?thesis
      proof (cases stack)
        case Nil
        have "ups_first (rev (if absolute then [] else [dotdot]))"
          using ups_first_snoc_up [of "[]"] "2.prems" Nil by auto
        with "2.IH"(2) [OF nd True Nil] nd True Nil show ?thesis by simp
      next
        case (Cons y ys)
        show ?thesis
        proof (cases "y = dotdot")
          case yes: True
          have "ups_first (rev (dotdot # y # ys))"
            using ups_first_snoc_up [of "rev stack"] "2.prems" Cons yes by simp
          with "2.IH"(3) [OF nd True Cons yes] nd True Cons yes show ?thesis by simp
        next
          case no: False
          have "ups_first (rev ys)"
            using ups_first_butlast [of "rev ys" y] "2.prems" Cons by simp
          with "2.IH"(4) [OF nd True Cons no] nd True Cons no show ?thesis by simp
        qed
      qed
    next
      case False
      have "ups_first (rev (x # stack))"
        using ups_first_snoc "2.prems" False by simp
      with "2.IH"(5) [OF nd False] nd False show ?thesis by simp
    qed
  qed
qed

lemma norm_segs_no_up:
  assumes "norm_segs absolute [] xs \<noteq> []" and "hd (norm_segs absolute [] xs) \<noteq> dotdot"
  shows "dotdot \<notin> set (norm_segs absolute [] xs)"
proof -
  have "ups_first (norm_segs absolute [] xs)"
    by (rule norm_segs_ups_first) (auto simp: ups_first_def)
  then obtain n rest where e: "norm_segs absolute [] xs = replicate n dotdot @ rest" "dotdot \<notin> set rest"
    by (auto simp: ups_first_def)
  with assms have "n = 0" by (cases n) auto
  with e show ?thesis by simp
qed

end
