(* ===== verification/Safety_Types.thy ===== *)
theory Safety_Types
  imports Js_Json
begin

text \<open>
  The data of the safety component (\<open>core-ts/src/safety/types.ts\<close>). A value the source types as
  \<open>unknown\<close> at run time (a dynamic tier, a raw binding, tool arguments) is a \<^typ>\<open>jv\<close>.
\<close>

text \<open>\<open>Unparsable\<close> stands for an absent or unknown provenance marker.\<close>

datatype provenance = Operator | Untrusted | Unparsable

record context_span =
  cs_text :: string
  cs_provenance :: provenance
  cs_source :: string

type_synonym tier = nat

record tool_call =
  tc_tool :: string
  tc_args :: "(string \<times> jv) list"
  tc_argsTainted :: "bool option"
  tc_policyTier :: jv
  tc_outboundSink :: jv

record confirmation_card =
  cc_tier :: tier
  cc_summary :: string
  cc_hash :: string
  cc_nonce :: string
  cc_issuedAt :: int

datatype verdict =
    Allow
  | Deny string string
  | Ask tier confirmation_card
  | Modify tool_call

datatype injection_verdict = Clean | Suspicious | Injection

datatype grant_scope = ScopeSession | ScopeAlways

datatype binding_scope = BWorkspace | BProject | BSession

record grant_binding =
  gb_operatorId :: string
  gb_profileId :: string
  gb_projectId :: string
  gb_sessionId :: "string option"
  gb_scope :: binding_scope

record session_grant =
  sg_tool :: string
  sg_binding :: grant_binding

record grant_v2 =
  g2_tool :: string
  g2_binding :: grant_binding
  g2_createdAt :: string

record grant_v3 =
  g3_tool :: string
  g3_operation :: string
  g3_resourceHash :: string
  g3_policyRevision :: string
  g3_binding :: grant_binding
  g3_createdAt :: string

text \<open>Every v3 record carries the literal risk ceiling 2.\<close>

definition riskCeiling :: nat where "riskCeiling = 2"

datatype egress_mode = ReadOnly | ReadWrite

record egress_entry =
  ee_host :: string
  ee_methods :: "string list"
  ee_mode :: egress_mode

record outbound_request =
  or_host :: string
  or_method :: string
  or_queryString :: "string option"
  or_body :: "string option"

datatype approval_status =
    Approved
  | RejectedReplay
  | RejectedStale
  | RejectedHashMismatch
  | RejectedToctou
  | RejectedSecondFactor

record approval_record =
  ar_nonce :: string
  ar_actionHash :: string
  ar_op :: string
  ar_tapTimestamp :: int
  ar_secondFactorOk :: bool
  ar_stagedHashAtAccept :: string
  ar_stagedHashAtPromote :: string

record approval_result =
  res_status :: approval_status
  res_record :: "approval_record option"

record mount_spec =
  ms_hostPath :: string
  ms_containerPath :: string
  ms_readOnly :: bool

record sandbox_config =
  sc_image :: string
  sc_mounts :: "mount_spec list"
  sc_egressBridge :: "string option"
  sc_taskId :: string

datatype security_level = Full | DegradedNoGvisor

record trifecta_state =
  hasUntrustedContent :: bool
  hasPrivateData :: bool
  hasOutboundChannel :: bool

end
