(* ===== verification/Grants.thy ===== *)
theory Grants
  imports Safety_Types
begin

text \<open>
  Context-bound approval grants (\<open>core-ts/src/safety/grants.ts\<close>): cleaning of tools and bindings,
  the coverage relation, the v3 similarity projection, the persisted form and the grant store with
  its operations. Parameters: the digest \<open>H\<close>, the URL parser \<open>parseURL\<close> (protocol and host name of
  a valid URL), the liveness check of a binding and the persistence port.

  A store operation returns the new store and either an error or its result, so that the effect of
  a failed write is part of the model.
\<close>

datatype grant_error = INVALID_TOOL | INVALID_BINDING | PERSIST_FAILED

definition as_record :: "jv \<Rightarrow> (string \<times> jv) list option" where
  "as_record v = (case v of JObj kvs \<Rightarrow> Some kvs | JExotic kvs \<Rightarrow> Some kvs | JArr _ \<Rightarrow> Some [] | _ \<Rightarrow> None)"

definition cleanTool :: "jv \<Rightarrow> grant_error + string" where
  "cleanTool v = (case v of
     JStr s \<Rightarrow> if length (trim s) = 0 \<or> length s > 200 then Inl INVALID_TOOL else Inr (trim s)
   | _ \<Rightarrow> Inl INVALID_TOOL)"

definition nonblank :: "jv \<Rightarrow> string option" where
  "nonblank v = (case v of JStr s \<Rightarrow> if length (trim s) = 0 then None else Some (trim s) | _ \<Rightarrow> None)"

definition parse_scope :: "jv \<Rightarrow> binding_scope option" where
  "parse_scope v = (if v = JStr ''workspace'' then Some BWorkspace
     else if v = JStr ''project'' then Some BProject
     else if v = JStr ''session'' then Some BSession else None)"

definition cleanBinding :: "jv \<Rightarrow> grant_error + grant_binding" where
  "cleanBinding v =
     (case as_record v of
        None \<Rightarrow> Inl INVALID_BINDING
      | Some input \<Rightarrow>
          (case (nonblank (getprop input ''operatorId''), nonblank (getprop input ''profileId''),
                 nonblank (getprop input ''projectId''), parse_scope (getprop input ''scope'')) of
             (Some op1, Some prof, Some proj, Some scope) \<Rightarrow>
               (let raw = getprop input ''sessionId'' in
                if raw \<noteq> JUndef \<and> nonblank raw = None then Inl INVALID_BINDING
                else if scope = BSession \<and> raw = JUndef then Inl INVALID_BINDING
                else Inr \<lparr>gb_operatorId = op1, gb_profileId = prof, gb_projectId = proj,
                          gb_sessionId = nonblank raw, gb_scope = scope\<rparr>)
           | _ \<Rightarrow> Inl INVALID_BINDING))"

definition sameOwner :: "grant_binding \<Rightarrow> grant_binding \<Rightarrow> bool" where
  "sameOwner a b \<longleftrightarrow> gb_operatorId a = gb_operatorId b \<and> gb_profileId a = gb_profileId b"

definition covers :: "grant_binding \<Rightarrow> grant_binding \<Rightarrow> bool" where
  "covers grant current \<longleftrightarrow>
     (if \<not> sameOwner grant current \<or> gb_projectId grant \<noteq> gb_projectId current then False
      else if gb_scope grant = BSession then gb_sessionId grant = gb_sessionId current
      else gb_scope grant = gb_scope current)"

definition contextBinding :: "jv \<Rightarrow> grant_scope \<Rightarrow> grant_error + grant_binding" where
  "contextBinding raw scope =
     (case cleanBinding raw of
        Inl e \<Rightarrow> Inl e
      | Inr clean \<Rightarrow>
          if scope = ScopeSession then
            (if gb_sessionId clean = None then Inl INVALID_BINDING
             else Inr (clean\<lparr>gb_scope := BSession\<rparr>))
          else if gb_scope clean = BSession then Inr clean
          else Inr (clean\<lparr>gb_sessionId := None\<rparr>))"

definition NUL :: char where "NUL = CHR 0x00"

fun scope_text :: "binding_scope \<Rightarrow> string" where
  "scope_text BWorkspace = ''workspace''"
| "scope_text BProject = ''project''"
| "scope_text BSession = ''session''"

definition binding_parts :: "grant_binding \<Rightarrow> string list" where
  "binding_parts b = [gb_operatorId b, gb_profileId b, gb_projectId b, scope_text (gb_scope b),
     (case gb_sessionId b of None \<Rightarrow> [] | Some s \<Rightarrow> s)]"

definition bindingKey :: "grant_binding \<Rightarrow> string" where
  "bindingKey b = js_join [NUL] (binding_parts b)"

text \<open>\<open>grantKey\<close> cleans the tool again; on a cleaned tool this is the identity.\<close>

definition grantKey :: "string \<Rightarrow> grant_binding \<Rightarrow> string" where
  "grantKey tool b = trim tool @ [NUL] @ bindingKey b"


section \<open>The similarity projection\<close>

record similar_descriptor =
  sd_tool :: string
  sd_operation :: string
  sd_resourceHash :: string
  sd_policyRevision :: string

definition is_hash_text :: "string \<Rightarrow> bool" where
  "is_hash_text s \<longleftrightarrow> rx_test (rx_seq [Bol, rx_times 64 (Cls (\<lambda>c. (97 \<le> (of_char c :: nat) \<and>
     (of_char c :: nat) \<le> 102) \<or> is_digit c)), Eol]) s"

definition simple_shell_char :: "char \<Rightarrow> bool" where
  "simple_shell_char c \<longleftrightarrow> is_alnum c \<or> c \<in> set ''_@%+=:,./- '' \<or> c = CHR 0x09"

definition rx_simple_shell :: rx where
  "rx_simple_shell = rx_seq [Bol, rx_plus (Cls simple_shell_char), Eol]"

definition SUBCOMMAND_TOOLS :: "string list" where
  "SUBCOMMAND_TOOLS = [''cargo'', ''docker'', ''gh'', ''git'', ''go'', ''kubectl'', ''npm'', ''pnpm'', ''uv'', ''yarn'']"

definition SHELL_INTERPRETERS :: "string list" where
  "SHELL_INTERPRETERS = [''bash'', ''dash'', ''fish'', ''sh'', ''zsh'']"

definition hashResource :: "(string \<Rightarrow> string) \<Rightarrow> jv \<Rightarrow> string" where
  "hashResource H v = H (json_text v)"

text \<open>
  \<open>safeArgs\<close>: a bounded deep copy with sorted keys. The counters are the visited nodes and the bytes
  of strings; \<open>None\<close> is any of the thrown errors.
\<close>

type_synonym snap_state = "nat \<times> nat"
type_synonym snap = "nat \<Rightarrow> snap_state \<Rightarrow> (jv \<times> snap_state) option"

fun run_all :: "(snap_state \<Rightarrow> (jv \<times> snap_state) option) list \<Rightarrow> snap_state \<Rightarrow>
    (jv list \<times> snap_state) option" where
  "run_all [] st = Some ([], st)"
| "run_all (f # fs) st =
     (case f st of
        None \<Rightarrow> None
      | Some (v, st') \<Rightarrow>
          (case run_all fs st' of None \<Rightarrow> None | Some (vs, st'') \<Rightarrow> Some (v # vs, st'')))"

definition enter :: "nat \<Rightarrow> snap_state \<Rightarrow> (snap_state \<Rightarrow> (jv \<times> snap_state) option) \<Rightarrow> (jv \<times> snap_state) option" where
  "enter depth st k =
     (let nodes = fst st + 1 in
      if nodes > 2048 \<or> depth > 16 then None else k (nodes, snd st))"

definition snap_object :: "(string \<times> snap) list \<Rightarrow> nat \<Rightarrow> snap_state \<Rightarrow> (jv \<times> snap_state) option" where
  "snap_object kfs depth st =
     (if length kfs > 128 then None
      else (let sorted = sort_entries kfs in
            case run_all (map (\<lambda>(k, f). f (depth + 1)) sorted) st of
              None \<Rightarrow> None
            | Some (vs, st') \<Rightarrow> Some (JObj (zip (map fst sorted) vs), st')))"

primrec snapshot :: "jv \<Rightarrow> snap" where
  "snapshot JUndef = (\<lambda>depth st. None)"
| "snapshot JNull = (\<lambda>depth st. enter depth st (\<lambda>s. Some (JNull, s)))"
| "snapshot (JBool b) = (\<lambda>depth st. enter depth st (\<lambda>s. Some (JBool b, s)))"
| "snapshot (JNum n) = (\<lambda>depth st. enter depth st (\<lambda>s. Some (JNum n, s)))"
| "snapshot JNonFin = (\<lambda>depth st. None)"
| "snapshot (JStr t) = (\<lambda>depth st. enter depth st (\<lambda>s.
     let total = snd s + length t in if total > 64 * 1024 then None else Some (JStr t, (fst s, total))))"
| "snapshot (JArr vs) = (\<lambda>depth st. enter depth st (\<lambda>s.
     if length vs > 256 then None
     else (case run_all (map (\<lambda>f. f (depth + 1)) (map snapshot vs)) s of
             None \<Rightarrow> None | Some (ws, s') \<Rightarrow> Some (JArr ws, s'))))"
| "snapshot (JObj kvs) = (\<lambda>depth st. enter depth st (snap_object (map (map_prod id snapshot) kvs) depth))"
| "snapshot (JExotic kvs) = (\<lambda>depth st. None)"
| "snapshot JFun = (\<lambda>depth st. None)"

definition safeArgs :: "(string \<times> jv) list \<Rightarrow> (string \<times> jv) list option" where
  "safeArgs args = (case snapshot (JObj args) 0 (0, 0) of
     Some (JObj kvs, _) \<Rightarrow> Some kvs | _ \<Rightarrow> None)"

definition httpsHost :: "(string \<Rightarrow> (string \<times> string) option) \<Rightarrow> jv \<Rightarrow> string option" where
  "httpsHost parseURL v =
     (case v of
        JStr s \<Rightarrow>
          if length s = 0 \<or> length s > 8192 then None
          else (case parseURL s of
                  None \<Rightarrow> None
                | Some (protocol, hostname) \<Rightarrow>
                    if protocol \<noteq> ''https:'' \<or> length hostname = 0 then None
                    else Some (toLowerCase hostname))
      | _ \<Rightarrow> None)"

definition backslashes_to_slashes :: "string \<Rightarrow> string" where
  "backslashes_to_slashes s = map (\<lambda>c. if c = CHR 0x5C then CHR ''/'' else c) s"

definition safeRelativePath :: "jv \<Rightarrow> string option" where
  "safeRelativePath v =
     (case v of
        JStr s \<Rightarrow>
          if length s = 0 \<or> length s > 4096 \<or> str_includes s [NUL] then None
          else (let normalized = posix_normalize (backslashes_to_slashes s) in
                if normalized = ''..'' \<or> startsWith normalized ''../'' \<or> startsWith normalized ''/''
                then None else Some normalized)
      | _ \<Rightarrow> None)"

text \<open>\<open>cmd.trim().split(/\s+/)\<close>.\<close>

function split_spaces :: "string \<Rightarrow> string \<Rightarrow> string list" where
  "split_spaces acc [] = [rev acc]"
| "split_spaces acc (c # cs) =
     (if is_space c then rev acc # split_spaces [] (dropWhile is_space cs)
      else split_spaces (c # acc) cs)"
  by pat_completeness auto
termination
  by (relation "measure (\<lambda>(acc, s). length s)") (auto simp: le_imp_less_Suc length_dropWhile_le)

definition bash_descriptor :: "(string \<Rightarrow> string) \<Rightarrow> string \<Rightarrow> jv \<Rightarrow> similar_descriptor option" where
  "bash_descriptor H rev1 cmd =
     (case cmd of
        JStr s \<Rightarrow>
          if length s = 0 \<or> length s > 8192 \<or> \<not> rx_test rx_simple_shell s then None
          else
            (let tokens = split_spaces [] (trim s) in
             if length tokens = 0 \<or> length tokens > 64 then None
             else
               (let executable = toLowerCase (posix_basename (hd tokens)) in
                if str_includes executable ''='' \<or> executable = ''env'' \<or> executable = ''export''
                   \<or> executable \<in> set SHELL_INTERPRETERS then None
                else
                  (let hasSub = (executable \<in> set SUBCOMMAND_TOOLS \<and> length tokens > 1 \<and>
                         \<not> startsWith (tokens ! 1) ''-'' \<and> \<not> str_includes (tokens ! 1) ''/'' \<and>
                         \<not> str_includes (tokens ! 1) ''='');
                       operation = ''bash:'' @ executable @
                         (if hasSub then '':'' @ toLowerCase (tokens ! 1) else []);
                       operands = drop (if hasSub then 2 else 1) tokens
                   in Some \<lparr>sd_tool = ''bash'', sd_operation = operation,
                            sd_resourceHash = hashResource H (JObj [(''operands'', JArr (map JStr operands))]),
                            sd_policyRevision = rev1\<rparr>)))
      | _ \<Rightarrow> None)"

definition similarDescriptor :: "(string \<Rightarrow> string) \<Rightarrow> (string \<Rightarrow> (string \<times> string) option) \<Rightarrow>
    tool_call \<Rightarrow> tier \<Rightarrow> string \<Rightarrow> similar_descriptor option" where
  "similarDescriptor H parseURL call risk rev1 =
     (if risk \<noteq> 2 then None
      else
        (case cleanTool (JStr (tc_tool call)) of
           Inl _ \<Rightarrow> None
         | Inr tool \<Rightarrow>
             (case safeArgs (tc_args call) of
                None \<Rightarrow> None
              | Some args \<Rightarrow>
                  if tool = ''write_file'' \<or> tool = ''write_knowledge'' then
                    (case safeRelativePath (getprop args ''path'') of
                       None \<Rightarrow> None
                     | Some path \<Rightarrow> Some \<lparr>sd_tool = tool, sd_operation = ''write'',
                         sd_resourceHash = hashResource H (JObj [(''path'', JStr path)]), sd_policyRevision = rev1\<rparr>)
                  else if tool = ''remember'' then
                    (let topic = (case getprop args ''topic'' of
                         JStr t \<Rightarrow> if length t \<le> 64 then
                                     (let x = toLowerCase (trim t) in if x = [] then ''general'' else x)
                                   else ''general''
                       | _ \<Rightarrow> ''general'')
                     in Some \<lparr>sd_tool = tool, sd_operation = ''remember'',
                          sd_resourceHash = hashResource H (JObj [(''topic'', JStr topic)]), sd_policyRevision = rev1\<rparr>)
                  else if tool = ''bash'' then bash_descriptor H rev1 (getprop args ''cmd'')
                  else if tool = ''fetch_url'' then
                    (case httpsHost parseURL (getprop args ''url'') of
                       None \<Rightarrow> None
                     | Some host \<Rightarrow> Some \<lparr>sd_tool = tool, sd_operation = ''fetch'',
                         sd_resourceHash = hashResource H (JObj [(''host'', JStr host)]), sd_policyRevision = rev1\<rparr>)
                  else if tool = ''spawn_subagent'' then None
                  else if length (json_text (JObj args)) > 64 * 1024 then None
                  else Some \<lparr>sd_tool = tool, sd_operation = tool,
                         sd_resourceHash = hashResource H (JObj args), sd_policyRevision = rev1\<rparr>)))"

definition autonomyWorkflowStep :: "(string \<Rightarrow> string) \<Rightarrow> (string \<Rightarrow> (string \<times> string) option) \<Rightarrow>
    tool_call \<Rightarrow> (string \<times> string \<times> string) option" where
  "autonomyWorkflowStep H parseURL call =
     map_option (\<lambda>d. (sd_tool d, sd_operation d, sd_resourceHash d))
       (similarDescriptor H parseURL call 2 ''autonomy'')"

definition similarKey :: "similar_descriptor \<Rightarrow> grant_binding \<Rightarrow> string" where
  "similarKey d b = js_join [NUL] [sd_tool d, sd_operation d, sd_resourceHash d, sd_policyRevision d,
     digits_of riskCeiling, bindingKey b]"

definition descriptor_of :: "grant_v3 \<Rightarrow> similar_descriptor" where
  "descriptor_of g = \<lparr>sd_tool = g3_tool g, sd_operation = g3_operation g,
     sd_resourceHash = g3_resourceHash g, sd_policyRevision = g3_policyRevision g\<rparr>"



section \<open>Cleaned bindings and their keys\<close>

definition wf_binding :: "grant_binding \<Rightarrow> bool" where
  "wf_binding b \<longleftrightarrow> gb_operatorId b \<noteq> [] \<and> gb_profileId b \<noteq> [] \<and> gb_projectId b \<noteq> [] \<and>
     gb_sessionId b \<noteq> Some [] \<and> (gb_scope b = BSession \<longrightarrow> gb_sessionId b \<noteq> None)"

definition nul_free :: "grant_binding \<Rightarrow> bool" where
  "nul_free b \<longleftrightarrow> (\<forall>x \<in> set (binding_parts b). NUL \<notin> set x)"

lemma nonblank_SomeD: "nonblank v = Some s \<Longrightarrow> s \<noteq> [] \<and> trim s = s"
  by (auto simp: nonblank_def split: jv.splits if_splits)

lemma cleanTool_InrD: "cleanTool v = Inr t \<Longrightarrow> t \<noteq> [] \<and> trim t = t"
  by (auto simp: cleanTool_def split: jv.splits if_splits)

lemma cleanTool_again: "cleanTool v = Inr t \<Longrightarrow> cleanTool (JStr t) = Inr t"
proof -
  assume a: "cleanTool v = Inr t"
  then obtain s where "v = JStr s" "length s \<le> 200" "t = trim s" "trim s \<noteq> []"
    by (auto simp: cleanTool_def split: jv.splits if_splits)
  then show ?thesis using length_trim [of s] by (simp add: cleanTool_def)
qed

lemma cleanBinding_wf: "cleanBinding v = Inr b \<Longrightarrow> wf_binding b"
  by (auto simp: cleanBinding_def wf_binding_def Let_def dest: nonblank_SomeD
      split: option.splits if_splits prod.splits)

lemma contextBinding_wf: "contextBinding raw scope = Inr b \<Longrightarrow> wf_binding b"
  by (auto simp: contextBinding_def wf_binding_def dest!: cleanBinding_wf split: sum.splits if_splits)

text \<open>A grant recorded for a context covers that context.\<close>

lemma covers_context:
  "cleanBinding raw = Inr b \<Longrightarrow> contextBinding raw scope = Inr c \<Longrightarrow> covers c b"
  by (auto simp: contextBinding_def covers_def sameOwner_def split: if_splits)

lemma covers_refl [simp]: "covers b b"
  by (simp add: covers_def sameOwner_def)

lemma covers_owner: "covers g b \<Longrightarrow>
  gb_operatorId g = gb_operatorId b \<and> gb_profileId g = gb_profileId b \<and> gb_projectId g = gb_projectId b"
  by (auto simp: covers_def sameOwner_def split: if_splits)

lemma scope_text_inj: "scope_text a = scope_text b \<Longrightarrow> a = b"
  by (cases a; cases b) auto

lemma binding_parts_inj:
  assumes "wf_binding a" and "wf_binding b" and "binding_parts a = binding_parts b"
  shows "a = b"
  using assms
  by (cases a; cases b) (auto simp: wf_binding_def binding_parts_def scope_text_inj split: option.splits)

lemma grantKey_join: "grantKey t b = js_join [NUL] (trim t # binding_parts b)"
  by (simp add: grantKey_def bindingKey_def js_join_Cons binding_parts_def)

lemma grantKey_inj:
  assumes "wf_binding a" and "wf_binding b" and "trim t = t" and "trim u = u"
    and "NUL \<notin> set t" and "nul_free a" and "grantKey t a = grantKey u b"
  shows "t = u \<and> a = b"
proof -
  have "t # binding_parts a = u # binding_parts b"
  proof (rule join_sep_inj)
    show "length (t # binding_parts a) = length (u # binding_parts b)" by (simp add: binding_parts_def)
    show "\<forall>x \<in> set (t # binding_parts a). NUL \<notin> set x" using assms by (simp add: nul_free_def)
    show "js_join [NUL] (t # binding_parts a) = js_join [NUL] (u # binding_parts b)"
      using assms by (simp add: grantKey_join)
  qed
  with binding_parts_inj assms(1,2) show ?thesis by auto
qed

definition descriptor_parts :: "similar_descriptor \<Rightarrow> string list" where
  "descriptor_parts d = [sd_tool d, sd_operation d, sd_resourceHash d, sd_policyRevision d]"

definition nul_free_descriptor :: "similar_descriptor \<Rightarrow> bool" where
  "nul_free_descriptor d \<longleftrightarrow> (\<forall>x \<in> set (descriptor_parts d). NUL \<notin> set x)"

lemma descriptor_parts_inj: "descriptor_parts d = descriptor_parts e \<Longrightarrow> d = e"
  by (cases d; cases e) (simp add: descriptor_parts_def)

lemma digits_of_riskCeiling: "digits_of riskCeiling = ''2''"
  by code_simp

lemma similarKey_join: "similarKey d b = js_join [NUL] (descriptor_parts d @ ''2'' # binding_parts b)"
  by (simp add: similarKey_def bindingKey_def descriptor_parts_def binding_parts_def digits_of_riskCeiling)

lemma similarKey_inj:
  assumes "wf_binding a" and "wf_binding b" and "nul_free_descriptor d" and "nul_free a"
    and "similarKey d a = similarKey e b"
  shows "d = e \<and> a = b"
proof -
  have "descriptor_parts d @ ''2'' # binding_parts a = descriptor_parts e @ ''2'' # binding_parts b"
  proof (rule join_sep_inj)
    show "length (descriptor_parts d @ ''2'' # binding_parts a) = length (descriptor_parts e @ ''2'' # binding_parts b)"
      by (simp add: descriptor_parts_def binding_parts_def)
    show "\<forall>x \<in> set (descriptor_parts d @ ''2'' # binding_parts a). NUL \<notin> set x"
      using assms by (auto simp: nul_free_def nul_free_descriptor_def NUL_def)
    show "js_join [NUL] (descriptor_parts d @ ''2'' # binding_parts a) =
          js_join [NUL] (descriptor_parts e @ ''2'' # binding_parts b)"
      using assms by (simp add: similarKey_join)
  qed
  then have "descriptor_parts d = descriptor_parts e" "binding_parts a = binding_parts b"
    by (auto simp: descriptor_parts_def)
  with descriptor_parts_inj binding_parts_inj assms(1,2) show ?thesis by blast
qed

lemma similarDescriptor_tier2: "similarDescriptor H url call risk rev1 = Some d \<Longrightarrow> risk = 2"
  by (auto simp: similarDescriptor_def split: if_splits)

lemma similarDescriptor_revision: "similarDescriptor H url call risk rev1 = Some d \<Longrightarrow> sd_policyRevision d = rev1"
  by (auto simp: similarDescriptor_def bash_descriptor_def Let_def
      split: if_splits sum.splits option.splits jv.splits)

lemma similarDescriptor_tool:
  "similarDescriptor H url call risk rev1 = Some d \<Longrightarrow> cleanTool (JStr (tc_tool call)) = Inr (sd_tool d)"
  by (auto simp: similarDescriptor_def bash_descriptor_def Let_def
      split: if_splits sum.splits option.splits jv.splits)


section \<open>A remembered path stays inside the project\<close>

lemma split_acc_slash_free:
  "CHR ''/'' \<notin> set acc \<Longrightarrow> x \<in> set (split_acc ''/'' acc s) \<Longrightarrow> CHR ''/'' \<notin> set x"
  by (induction "''/''" acc s rule: split_acc.induct) (auto simp: startsWith_def split: if_splits)

lemma norm_segs_subset: "set (norm_segs absolute stack xs) \<subseteq> set stack \<union> set xs \<union> {dotdot}"
proof (induction absolute stack xs rule: norm_segs.induct)
  case (2 absolute stack x xs)
  then show ?case
    by (cases "x = [] \<or> x = dot"; cases "x = dotdot"; cases stack) (auto split: if_splits)
qed auto

lemma norm_segs_nonempty: "[] \<notin> set stack \<Longrightarrow> [] \<notin> set (norm_segs absolute stack xs)"
proof (induction absolute stack xs rule: norm_segs.induct)
  case (2 absolute stack x xs)
  then show ?case
    by (cases "x = [] \<or> x = dot"; cases "x = dotdot"; cases stack) (auto simp: dotdot_def split: if_splits)
qed simp


lemma split_acc_plain: "CHR ''/'' \<notin> set s \<Longrightarrow> split_acc ''/'' acc s = [rev acc @ s]"
  by (induction s arbitrary: acc) (auto simp: startsWith_def)

lemma split_acc_slash:
  "CHR ''/'' \<notin> set x \<Longrightarrow> split_acc ''/'' acc (x @ CHR ''/'' # s) = (rev acc @ x) # split_acc ''/'' [] s"
  by (induction x arbitrary: acc) (auto simp: startsWith_def)

lemma split_join_slash:
  "segs \<noteq> [] \<Longrightarrow> \<forall>x \<in> set segs. CHR ''/'' \<notin> set x \<Longrightarrow> js_split (js_join ''/'' segs) ''/'' = segs"
proof (induction segs rule: induct_list012)
  case (2 x)
  then show ?case by (simp add: js_split_def split_acc_plain)
next
  case (3 x y zs)
  then show ?case by (simp add: js_split_def split_acc_slash)
qed simp

lemma js_join_snoc_empty: "segs \<noteq> [] \<Longrightarrow> js_join sep segs @ sep = js_join sep (segs @ [[]])"
  by (induction segs rule: induct_list012) auto

lemma norm_segs_slash_free: "x \<in> set (norm_segs absolute [] (js_split p ''/'')) \<Longrightarrow> CHR ''/'' \<notin> set x"
  using norm_segs_subset [of absolute "[]" "js_split p ''/''"] split_acc_slash_free [of "[]" x p]
  by (auto simp: js_split_def dotdot_def)

text \<open>A path that survives \<open>safeRelativePath\<close> is relative and climbs nowhere.\<close>

lemma safeRelativePath_stays:
  assumes "safeRelativePath v = Some r"
  shows "\<not> startsWith r ''/'' \<and> dotdot \<notin> set (js_split r ''/'')"
proof -
  obtain s where r: "r = posix_normalize (backslashes_to_slashes s)" and s: "s \<noteq> []"
    and g: "r \<noteq> ''..''" "\<not> startsWith r ''../''" "\<not> startsWith r ''/''"
    using assms by (auto simp: safeRelativePath_def Let_def split: jv.splits if_splits)
  let ?p = "backslashes_to_slashes s"
  let ?abs = "startsWith ?p ''/''"
  let ?segs = "norm_segs ?abs [] (js_split ?p ''/'')"
  let ?tr = "endsWith ?p ''/''"
  have p: "?p \<noteq> []" using s by (simp add: backslashes_to_slashes_def)
  have rel: "\<not> ?abs"
  proof
    assume ?abs
    then have "startsWith r ''/''" using p unfolding r posix_normalize_def
      by (auto simp: Let_def startsWith_def)
    with g show False by simp
  qed
  show ?thesis
  proof (cases "js_join ''/'' ?segs = []")
    case True
    then have "r = ''./'' \<or> r = dot" using p rel unfolding r posix_normalize_def by (auto simp: Let_def)
    then show ?thesis by (auto simp: dot_def dotdot_def js_split_def startsWith_def)
  next
    case False
    then have ne: "?segs \<noteq> []" by auto
    have rj: "r = js_join ''/'' (if ?tr then ?segs @ [[]] else ?segs)"
      using False p rel js_join_snoc_empty [OF ne, of "''/''"]
      unfolding r posix_normalize_def by (simp add: Let_def)
    have sf: "\<forall>x \<in> set (if ?tr then ?segs @ [[]] else ?segs). CHR ''/'' \<notin> set x"
      using norm_segs_slash_free by auto
    have js: "js_split r ''/'' = (if ?tr then ?segs @ [[]] else ?segs)"
      unfolding rj by (rule split_join_slash) (use ne sf in auto)
    have "hd ?segs \<noteq> dotdot"
    proof
      assume h: "hd ?segs = dotdot"
      then obtain rest where "?segs = dotdot # rest" using ne by (cases ?segs) auto
      with rj g show False by (cases rest) (auto simp: dotdot_def startsWith_def split: if_splits)
    qed
    with norm_segs_no_up [OF ne] have "dotdot \<notin> set ?segs" by simp
    with js g show ?thesis by (auto simp: dotdot_def)
  qed
qed

end
