(* ===== verification/Grant_Store.thy ===== *)
theory Grant_Store
  imports Grants
begin

text \<open>
  The grant store of \<open>core-ts/src/safety/grants.ts\<close>: reading the persisted state, the four maps of
  live grants and the operations \<open>has\<close>, \<open>record\<close>, \<open>hasSimilar\<close>, \<open>canRememberSimilar\<close>,
  \<open>recordSimilar\<close>, \<open>revoke\<close>, \<open>revokeAll\<close> and \<open>list\<close>. The lemmas show what a grant authorises, that a
  recorded grant is found, that a revoked one is not, and that a failed write grants nothing.
\<close>

record loaded_grants =
  lg_grants :: "grant_v2 list"
  lg_similar :: "grant_v3 list"
  lg_quarantined :: "string list"
  lg_invalid :: nat

abbreviation no_grants :: "string list \<Rightarrow> nat \<Rightarrow> loaded_grants" where
  "no_grants q n \<equiv> \<lparr>lg_grants = [], lg_similar = [], lg_quarantined = q, lg_invalid = n\<rparr>"

definition clean_tools :: "jv list \<Rightarrow> string list" where
  "clean_tools vs = dedup (concat (map (\<lambda>v. case cleanTool v of Inl _ \<Rightarrow> [] | Inr t \<Rightarrow> [t]) vs))"

definition nonblank_text :: "jv \<Rightarrow> string option" where
  "nonblank_text v = (case v of JStr s \<Rightarrow> if length (trim s) = 0 then None else Some s | _ \<Rightarrow> None)"

definition bounded_text :: "nat \<Rightarrow> jv \<Rightarrow> string option" where
  "bounded_text n v = (case v of JStr s \<Rightarrow> if length s = 0 \<or> length s > n then None else Some s | _ \<Rightarrow> None)"

definition parse_v2 :: "jv \<Rightarrow> grant_v2 option" where
  "parse_v2 v =
     (case as_record v of
        None \<Rightarrow> None
      | Some item \<Rightarrow>
          if getprop item ''schemaVersion'' \<noteq> JNum 2 \<or> getprop item ''scope'' \<noteq> JStr ''always'' then None
          else (case (nonblank_text (getprop item ''createdAt''), cleanTool (getprop item ''tool''),
                      cleanBinding (getprop item ''binding'')) of
                  (Some created, Inr tool, Inr b) \<Rightarrow> Some \<lparr>g2_tool = tool, g2_binding = b, g2_createdAt = created\<rparr>
                | _ \<Rightarrow> None))"

definition parse_v3 :: "jv \<Rightarrow> grant_v3 option" where
  "parse_v3 v =
     (case as_record v of
        None \<Rightarrow> None
      | Some item \<Rightarrow>
          if getprop item ''schemaVersion'' \<noteq> JNum 3 \<or> getprop item ''kind'' \<noteq> JStr ''similar'' \<or>
             getprop item ''scope'' \<noteq> JStr ''always'' \<or> getprop item ''riskCeiling'' \<noteq> JNum 2 then None
          else (case (bounded_text 240 (getprop item ''operation''),
                      bounded_text 128 (getprop item ''policyRevision''),
                      nonblank_text (getprop item ''createdAt'')) of
                  (Some op1, Some rev1, Some created) \<Rightarrow>
                    (case getprop item ''resourceHash'' of
                       JStr h \<Rightarrow>
                         if \<not> is_hash_text h then None
                         else (case (cleanTool (getprop item ''tool''), cleanBinding (getprop item ''binding'')) of
                                 (Inr tool, Inr b) \<Rightarrow>
                                   Some \<lparr>g3_tool = tool, g3_operation = op1, g3_resourceHash = h,
                                         g3_policyRevision = rev1, g3_binding = b, g3_createdAt = created\<rparr>
                               | _ \<Rightarrow> None)
                     | _ \<Rightarrow> None)
                | _ \<Rightarrow> None))"

definition good :: "'a option list \<Rightarrow> 'a list" where
  "good xs = concat (map (\<lambda>x. case x of None \<Rightarrow> [] | Some y \<Rightarrow> [y]) xs)"

definition bad_count :: "'a option list \<Rightarrow> nat" where
  "bad_count xs = length (filter (\<lambda>x. x = None) xs)"

definition safe_count :: "jv \<Rightarrow> nat" where
  "safe_count v = (case v of JNum n \<Rightarrow> if 0 \<le> n \<and> n \<le> 9007199254740991 then nat n else 0 | _ \<Rightarrow> 0)"

definition as_array :: "jv \<Rightarrow> jv list option" where
  "as_array v = (case v of JArr vs \<Rightarrow> Some vs | _ \<Rightarrow> None)"

definition parsePersisted :: "jv \<Rightarrow> loaded_grants" where
  "parsePersisted v =
     (case as_record v of
        None \<Rightarrow> no_grants [] 0
      | Some input \<Rightarrow>
          (case as_array (getprop input ''always'') of
             Some names \<Rightarrow> no_grants (clean_tools names) 0
           | None \<Rightarrow>
               (let version = getprop input ''schemaVersion'' in
                if version \<noteq> JNum 2 \<and> version \<noteq> JNum 3 then no_grants [] 1
                else
                  (let legacy = getprop input ''legacyToolGrants'';
                       rawLegacy = (if version = JNum 2 then getprop input ''grants''
                                    else if legacy = JUndef \<or> legacy = JNull then JArr [] else legacy);
                       rawSimilar = (if version = JNum 3 then getprop input ''similarGrants'' else JArr [])
                   in case (as_array rawLegacy, as_array rawSimilar) of
                        (Some ls, Some ss) \<Rightarrow>
                          (let v2 = map parse_v2 ls; v3 = map parse_v3 ss in
                           \<lparr>lg_grants = good v2, lg_similar = good v3,
                            lg_quarantined = (case as_array (getprop input ''quarantinedLegacyTools'') of
                                                Some qs \<Rightarrow> clean_tools qs | None \<Rightarrow> []),
                            lg_invalid = safe_count (getprop input ''invalidRecordCount'')
                                         + bad_count v2 + bad_count v3\<rparr>)
                      | _ \<Rightarrow> no_grants [] 1))))"


section \<open>The store\<close>

record grant_store =
  gs_session :: "(string, session_grant) jsmap"
  gs_always :: "(string, grant_v2) jsmap"
  gs_simSession :: "(string, grant_v3) jsmap"
  gs_simAlways :: "(string, grant_v3) jsmap"
  gs_quarantined :: "string list"
  gs_invalid :: nat

text \<open>The state handed to the persistence port.\<close>

datatype saved_grants =
    SavedV2 "grant_v2 list" "string list" nat
  | SavedV3 "grant_v3 list" "grant_v2 list" "string list" nat

text \<open>
  The dependencies: \<open>gd_usable\<close> answers \<open>None\<close> when the lifecycle check throws; \<open>gd_save\<close> is absent
  for a process-local store and answers \<open>False\<close> when writing throws.
\<close>

record grant_deps =
  gd_H :: "string \<Rightarrow> string"
  gd_parseURL :: "string \<Rightarrow> (string \<times> string) option"
  gd_usable :: "grant_binding \<Rightarrow> bool option"
  gd_save :: "(saved_grants \<Rightarrow> bool) option"
  gd_revision :: string

definition rx_revision :: rx where
  "rx_revision = rx_seq [Bol, Cls is_alnum,
     rx_upto 127 (Cls (\<lambda>c. is_alnum c \<or> c \<in> set ''._-'')), Eol]"

definition set_all :: "(string \<times> 'v) list \<Rightarrow> (string, 'v) jsmap" where
  "set_all kvs = foldl (\<lambda>m (k, v). AList.update k v m) [] kvs"

definition makeGrantStore :: "grant_deps \<Rightarrow> jv \<Rightarrow> grant_error + grant_store" where
  "makeGrantStore deps persisted =
     (let loaded = parsePersisted persisted in
      if \<not> rx_test rx_revision (gd_revision deps) then Inl INVALID_BINDING
      else Inr \<lparr>gs_session = [],
                gs_always = set_all (map (\<lambda>g. (grantKey (g2_tool g) (g2_binding g), g)) (lg_grants loaded)),
                gs_simSession = [],
                gs_simAlways = set_all (map (\<lambda>g. (similarKey (descriptor_of g) (g3_binding g), g)) (lg_similar loaded)),
                gs_quarantined = lg_quarantined loaded,
                gs_invalid = lg_invalid loaded\<rparr>)"

definition usable :: "grant_deps \<Rightarrow> grant_binding \<Rightarrow> bool" where
  "usable deps b = (case gd_usable deps b of None \<Rightarrow> False | Some r \<Rightarrow> r)"

definition saved_state :: "grant_store \<Rightarrow> saved_grants" where
  "saved_state st =
     (if gs_simAlways st = [] then SavedV2 (map_values (gs_always st)) (gs_quarantined st) (gs_invalid st)
      else SavedV3 (map_values (gs_simAlways st)) (map_values (gs_always st)) (gs_quarantined st) (gs_invalid st))"

definition persist :: "grant_deps \<Rightarrow> grant_store \<Rightarrow> grant_error + unit" where
  "persist deps st = (case gd_save deps of None \<Rightarrow> Inr ()
     | Some save \<Rightarrow> if save (saved_state st) then Inr () else Inl PERSIST_FAILED)"

definition grant_has :: "grant_deps \<Rightarrow> grant_store \<Rightarrow> jv \<Rightarrow> jv \<Rightarrow> bool" where
  "grant_has deps st tool raw =
     (if raw = JUndef then False
      else (case (cleanBinding raw, cleanTool tool) of
              (Inr b, Inr t) \<Rightarrow>
                if \<not> usable deps b then False
                else list_ex (\<lambda>g. sg_tool g = t \<and> covers (sg_binding g) b \<and> usable deps (sg_binding g))
                       (map_values (gs_session st)) \<or>
                     list_ex (\<lambda>g. g2_tool g = t \<and> covers (g2_binding g) b \<and> usable deps (g2_binding g))
                       (map_values (gs_always st))
            | _ \<Rightarrow> False))"

definition grant_record :: "grant_deps \<Rightarrow> string \<Rightarrow> grant_store \<Rightarrow> jv \<Rightarrow> grant_scope \<Rightarrow> jv \<Rightarrow>
    grant_store \<times> (grant_error + unit)" where
  "grant_record deps now st tool scope raw =
     (if raw = JUndef then (st, Inl INVALID_BINDING)
      else (case cleanTool tool of
         Inl e \<Rightarrow> (st, Inl e)
       | Inr t \<Rightarrow>
           (case contextBinding raw scope of
              Inl e \<Rightarrow> (st, Inl e)
            | Inr b \<Rightarrow>
                if \<not> usable deps b then (st, Inl INVALID_BINDING)
                else
                  (let key = grantKey t b in
                   if scope = ScopeAlways then
                     (let st1 = st\<lparr>gs_session := AList.delete key (gs_session st)\<rparr> in
                      if map_of (gs_always st1) key = None then
                        (let st2 = st1\<lparr>gs_always := AList.update key
                               \<lparr>g2_tool = t, g2_binding = b, g2_createdAt = now\<rparr> (gs_always st1)\<rparr> in
                         case persist deps st2 of
                           Inr _ \<Rightarrow> (st2, Inr ())
                         | Inl e \<Rightarrow> (st2\<lparr>gs_always := AList.delete key (gs_always st2)\<rparr>, Inl e))
                      else (st1, Inr ()))
                   else if map_of (gs_always st) key = None then
                     (st\<lparr>gs_session := AList.update key \<lparr>sg_tool = t, sg_binding = b\<rparr> (gs_session st)\<rparr>, Inr ())
                   else (st, Inr ())))))"

definition similar_match :: "grant_deps \<Rightarrow> similar_descriptor \<Rightarrow> tier \<Rightarrow> grant_binding \<Rightarrow> grant_v3 \<Rightarrow> bool" where
  "similar_match deps d risk b g \<longleftrightarrow>
     g3_tool g = sd_tool d \<and> g3_operation g = sd_operation d \<and> g3_resourceHash g = sd_resourceHash d \<and>
     risk \<le> riskCeiling \<and> g3_policyRevision g = sd_policyRevision d \<and>
     covers (g3_binding g) b \<and> usable deps (g3_binding g)"

definition grant_hasSimilar :: "grant_deps \<Rightarrow> grant_store \<Rightarrow> tool_call \<Rightarrow> tier \<Rightarrow> jv \<Rightarrow> bool" where
  "grant_hasSimilar deps st call risk raw =
     (if raw = JUndef then False
      else (case cleanBinding raw of
         Inl _ \<Rightarrow> False
       | Inr b \<Rightarrow>
           if \<not> usable deps b then False
           else (case similarDescriptor (gd_H deps) (gd_parseURL deps) call risk (gd_revision deps) of
                   None \<Rightarrow> False
                 | Some d \<Rightarrow> list_ex (similar_match deps d risk b)
                     (map_values (gs_simSession st) @ map_values (gs_simAlways st)))))"

definition canRememberSimilar :: "grant_deps \<Rightarrow> tool_call \<Rightarrow> tier \<Rightarrow> bool" where
  "canRememberSimilar deps call risk =
     (similarDescriptor (gd_H deps) (gd_parseURL deps) call risk (gd_revision deps) \<noteq> None)"

definition similar_grant :: "similar_descriptor \<Rightarrow> grant_binding \<Rightarrow> string \<Rightarrow> grant_v3" where
  "similar_grant d b now = \<lparr>g3_tool = sd_tool d, g3_operation = sd_operation d,
     g3_resourceHash = sd_resourceHash d, g3_policyRevision = sd_policyRevision d,
     g3_binding = b, g3_createdAt = now\<rparr>"

definition grant_recordSimilar :: "grant_deps \<Rightarrow> string \<Rightarrow> grant_store \<Rightarrow> tool_call \<Rightarrow> tier \<Rightarrow> grant_scope \<Rightarrow> jv \<Rightarrow>
    grant_store \<times> (grant_error + unit)" where
  "grant_recordSimilar deps now st call risk scope raw =
     (if raw = JUndef then (st, Inl INVALID_BINDING)
      else (case similarDescriptor (gd_H deps) (gd_parseURL deps) call risk (gd_revision deps) of
         None \<Rightarrow> (st, Inl INVALID_TOOL)
       | Some d \<Rightarrow>
           (case contextBinding raw scope of
              Inl e \<Rightarrow> (st, Inl e)
            | Inr b \<Rightarrow>
                if \<not> usable deps b then (st, Inl INVALID_BINDING)
                else
                  (let key = similarKey d b in
                   if scope = ScopeAlways then
                     (let st1 = st\<lparr>gs_simSession := AList.delete key (gs_simSession st)\<rparr> in
                      if map_of (gs_simAlways st1) key = None then
                        (let st2 = st1\<lparr>gs_simAlways := AList.update key (similar_grant d b now) (gs_simAlways st1)\<rparr> in
                         case persist deps st2 of
                           Inr _ \<Rightarrow> (st2, Inr ())
                         | Inl e \<Rightarrow> (st2\<lparr>gs_simAlways := AList.delete key (gs_simAlways st2)\<rparr>, Inl e))
                      else (st1, Inr ()))
                   else if map_of (gs_simAlways st) key = None then
                     (st\<lparr>gs_simSession := AList.update key (similar_grant d b now) (gs_simSession st)\<rparr>, Inr ())
                   else (st, Inr ())))))"

text \<open>
  Revocation deletes the grants a predicate on (tool, binding) selects from all four maps and
  persists when a durable one was deleted. A failing write leaves the maps revoked.
\<close>

definition revoke_where :: "grant_deps \<Rightarrow> (string \<Rightarrow> grant_binding \<Rightarrow> bool) \<Rightarrow> grant_store \<Rightarrow>
    grant_store \<times> (grant_error + unit)" where
  "revoke_where deps sel st =
     (let st' = st\<lparr>gs_session := filter (\<lambda>(k, g). \<not> sel (sg_tool g) (sg_binding g)) (gs_session st),
                   gs_always := filter (\<lambda>(k, g). \<not> sel (g2_tool g) (g2_binding g)) (gs_always st),
                   gs_simSession := filter (\<lambda>(k, g). \<not> sel (g3_tool g) (g3_binding g)) (gs_simSession st),
                   gs_simAlways := filter (\<lambda>(k, g). \<not> sel (g3_tool g) (g3_binding g)) (gs_simAlways st)\<rparr>;
          changed = (list_ex (\<lambda>g. sel (g2_tool g) (g2_binding g)) (map_values (gs_always st)) \<or>
                     list_ex (\<lambda>g. sel (g3_tool g) (g3_binding g)) (map_values (gs_simAlways st)))
      in if changed then (st', persist deps st') else (st', Inr ()))"

definition grant_revoke :: "grant_deps \<Rightarrow> grant_store \<Rightarrow> jv \<Rightarrow> jv \<Rightarrow> grant_store \<times> (grant_error + unit)" where
  "grant_revoke deps st tool raw =
     (case cleanTool tool of
        Inl e \<Rightarrow> (st, Inl e)
      | Inr t \<Rightarrow>
          if raw = JUndef then revoke_where deps (\<lambda>x _. x = t) st
          else (case cleanBinding raw of
                  Inl e \<Rightarrow> (st, Inl e)
                | Inr b \<Rightarrow> revoke_where deps (\<lambda>x g. x = t \<and> covers g b) st))"

definition grant_revokeAll :: "grant_deps \<Rightarrow> grant_store \<Rightarrow> jv \<Rightarrow> grant_store \<times> (grant_error + unit)" where
  "grant_revokeAll deps st raw =
     (if raw = JUndef then revoke_where deps (\<lambda>_ _. True) st
      else (case cleanBinding raw of
              Inl e \<Rightarrow> (st, Inl e)
            | Inr b \<Rightarrow> revoke_where deps (\<lambda>_ g. covers g b) st))"

datatype grant_kind = LegacyTool | Similar | Quarantined

datatype disabled_reason = ContextUnavailable | LegacyUnscoped | PolicyRevisionMismatch

record grant_list_entry =
  gl_tool :: string
  gl_scope :: grant_scope
  gl_kind :: grant_kind
  gl_operation :: "string option"
  gl_hashPrefix :: "string option"
  gl_binding :: "grant_binding option"
  gl_disabled :: "disabled_reason option"

definition list_legacy :: "grant_deps \<Rightarrow> string \<Rightarrow> grant_scope \<Rightarrow> grant_binding \<Rightarrow> grant_list_entry" where
  "list_legacy deps tool scope b =
     \<lparr>gl_tool = tool, gl_scope = scope, gl_kind = LegacyTool, gl_operation = None, gl_hashPrefix = None,
      gl_binding = Some b, gl_disabled = (if usable deps b then None else Some ContextUnavailable)\<rparr>"

definition list_similar :: "grant_deps \<Rightarrow> grant_store \<Rightarrow> grant_v3 \<Rightarrow> grant_list_entry" where
  "list_similar deps st g =
     (let revisionMatches = (g3_policyRevision g = gd_revision deps);
          active = (usable deps (g3_binding g) \<and> revisionMatches)
      in \<lparr>gl_tool = g3_tool g,
          gl_scope = (if map_of (gs_simAlways st) (similarKey (descriptor_of g) (g3_binding g)) \<noteq> None
                      then ScopeAlways else ScopeSession),
          gl_kind = Similar, gl_operation = Some (g3_operation g),
          gl_hashPrefix = Some (take 12 (g3_resourceHash g)), gl_binding = Some (g3_binding g),
          gl_disabled = (if active then None else if revisionMatches then Some ContextUnavailable
                         else Some PolicyRevisionMismatch)\<rparr>)"

definition grant_list :: "grant_deps \<Rightarrow> grant_store \<Rightarrow> jv \<Rightarrow> grant_error + grant_list_entry list" where
  "grant_list deps st raw =
     (let build = (\<lambda>shown.
        map (\<lambda>g. list_legacy deps (g2_tool g) ScopeAlways (g2_binding g))
            (filter (\<lambda>g. shown (g2_binding g)) (map_values (gs_always st))) @
        map (\<lambda>g. list_legacy deps (sg_tool g) ScopeSession (sg_binding g))
            (filter (\<lambda>g. shown (sg_binding g)) (map_values (gs_session st))) @
        map (list_similar deps st)
            (filter (\<lambda>g. shown (g3_binding g)) (map_values (gs_simAlways st) @ map_values (gs_simSession st))) @
        map (\<lambda>t. \<lparr>gl_tool = t, gl_scope = ScopeAlways, gl_kind = Quarantined, gl_operation = None,
                   gl_hashPrefix = None, gl_binding = None, gl_disabled = Some LegacyUnscoped\<rparr>)
            (gs_quarantined st))
      in if raw = JUndef then Inr (build (\<lambda>_. True))
         else (case cleanBinding raw of Inl e \<Rightarrow> Inl e | Inr b \<Rightarrow> Inr (build (\<lambda>g. covers g b))))"



section \<open>Well-formed stores\<close>

definition wf_legacy :: "string \<Rightarrow> string \<Rightarrow> grant_binding \<Rightarrow> bool" where
  "wf_legacy key tool b \<longleftrightarrow> key = grantKey tool b \<and> trim tool = tool \<and> wf_binding b"

definition wf_similar :: "string \<Rightarrow> grant_v3 \<Rightarrow> bool" where
  "wf_similar key g \<longleftrightarrow> key = similarKey (descriptor_of g) (g3_binding g) \<and> wf_binding (g3_binding g)"

definition store_wf :: "grant_store \<Rightarrow> bool" where
  "store_wf st \<longleftrightarrow>
     (\<forall>(k, g) \<in> set (gs_session st). wf_legacy k (sg_tool g) (sg_binding g)) \<and>
     (\<forall>(k, g) \<in> set (gs_always st). wf_legacy k (g2_tool g) (g2_binding g)) \<and>
     (\<forall>(k, g) \<in> set (gs_simSession st). wf_similar k g) \<and>
     (\<forall>(k, g) \<in> set (gs_simAlways st). wf_similar k g)"

lemma set_delete_subset: "set (AList.delete k m) \<subseteq> set m"
  by (auto simp: AList.delete_eq)

lemma parse_v2_wf: "parse_v2 v = Some g \<Longrightarrow> trim (g2_tool g) = g2_tool g \<and> wf_binding (g2_binding g)"
  by (auto simp: parse_v2_def dest: cleanTool_InrD cleanBinding_wf split: option.splits sum.splits if_splits)

lemma parse_v3_wf: "parse_v3 v = Some g \<Longrightarrow> wf_binding (g3_binding g)"
  by (auto simp: parse_v3_def dest: cleanBinding_wf split: option.splits sum.splits if_splits jv.splits)

lemma set_good: "x \<in> set (good xs) \<longleftrightarrow> Some x \<in> set xs"
  by (auto simp: good_def split: option.splits intro!: bexI)

lemma parsePersisted_sources:
  "g \<in> set (lg_grants (parsePersisted v)) \<Longrightarrow> \<exists>x. parse_v2 x = Some g"
  "h \<in> set (lg_similar (parsePersisted v)) \<Longrightarrow> \<exists>x. parse_v3 x = Some h"
proof -
  have good_map: "y \<in> set (good (map f xs)) \<Longrightarrow> \<exists>x. f x = Some y" for f :: "jv \<Rightarrow> 'x option" and xs y
    by (auto simp: set_good)
  show "g \<in> set (lg_grants (parsePersisted v)) \<Longrightarrow> \<exists>x. parse_v2 x = Some g"
    by (auto simp: parsePersisted_def Let_def intro: good_map split: option.splits if_splits)
  show "h \<in> set (lg_similar (parsePersisted v)) \<Longrightarrow> \<exists>x. parse_v3 x = Some h"
    by (auto simp: parsePersisted_def Let_def intro: good_map split: option.splits if_splits)
qed

lemma parsePersisted_wf:
  "g \<in> set (lg_grants (parsePersisted v)) \<Longrightarrow> trim (g2_tool g) = g2_tool g \<and> wf_binding (g2_binding g)"
  "h \<in> set (lg_similar (parsePersisted v)) \<Longrightarrow> wf_binding (g3_binding h)"
  using parsePersisted_sources parse_v2_wf parse_v3_wf by blast+

lemma foldl_update_subset:
  "set (foldl (\<lambda>m (k, v). AList.update k v m) m0 kvs) \<subseteq> set m0 \<union> set kvs"
proof (induction kvs arbitrary: m0)
  case (Cons p kvs)
  obtain k v where p: "p = (k, v)" by force
  have "set (foldl (\<lambda>m (k, v). AList.update k v m) (AList.update k v m0) kvs) \<subseteq>
        set (AList.update k v m0) \<union> set kvs" by (rule Cons.IH)
  also have "\<dots> \<subseteq> insert p (set m0) \<union> set kvs" using set_update_subset p by fastforce
  finally show ?case using p by auto
qed simp

lemma set_all_subset: "set (set_all kvs) \<subseteq> set kvs"
  using foldl_update_subset [of "[]" kvs] by (simp add: set_all_def)

lemma makeGrantStore_wf:
  assumes "makeGrantStore deps v = Inr st"
  shows "store_wf st"
  using assms parsePersisted_wf [of _ v]
    set_all_subset [of "map (\<lambda>g. (grantKey (g2_tool g) (g2_binding g), g)) (lg_grants (parsePersisted v))"]
    set_all_subset [of "map (\<lambda>g. (similarKey (descriptor_of g) (g3_binding g), g)) (lg_similar (parsePersisted v))"]
  by (fastforce simp: makeGrantStore_def store_wf_def wf_legacy_def wf_similar_def Let_def split: if_splits)

lemma grant_record_wf:
  assumes "store_wf st"
  shows "store_wf (fst (grant_record deps now st tool scope raw))"
proof -
  have leg: "wf_legacy (grantKey t b) t b" if "cleanTool tool = Inr t" "contextBinding raw scope = Inr b" for t b
    using that by (auto simp: wf_legacy_def dest: cleanTool_InrD contextBinding_wf)
  show ?thesis
    using assms
    by (auto simp: grant_record_def Let_def store_wf_def leg case_prod_beta
        dest!: subsetD [OF set_update_subset] subsetD [OF set_delete_subset] split: sum.splits)
qed

lemma descriptor_of_similar_grant [simp]: "descriptor_of (similar_grant d b now) = d"
  by (simp add: descriptor_of_def similar_grant_def)

lemma g3_binding_similar_grant [simp]: "g3_binding (similar_grant d b now) = b"
  by (simp add: similar_grant_def)

lemma grant_recordSimilar_wf:
  assumes "store_wf st"
  shows "store_wf (fst (grant_recordSimilar deps now st call risk scope raw))"
proof -
  have sim: "wf_similar (similarKey d b) (similar_grant d b now)" if "contextBinding raw scope = Inr b" for d b
    using that by (auto simp: wf_similar_def dest: contextBinding_wf)
  show ?thesis
    using assms
    by (auto simp: grant_recordSimilar_def Let_def store_wf_def sim case_prod_beta
        dest!: subsetD [OF set_update_subset] subsetD [OF set_delete_subset] split: sum.splits option.splits)
qed

lemma revoke_where_store:
  "fst (revoke_where deps sel st) =
     st\<lparr>gs_session := filter (\<lambda>(k, g). \<not> sel (sg_tool g) (sg_binding g)) (gs_session st),
        gs_always := filter (\<lambda>(k, g). \<not> sel (g2_tool g) (g2_binding g)) (gs_always st),
        gs_simSession := filter (\<lambda>(k, g). \<not> sel (g3_tool g) (g3_binding g)) (gs_simSession st),
        gs_simAlways := filter (\<lambda>(k, g). \<not> sel (g3_tool g) (g3_binding g)) (gs_simAlways st)\<rparr>"
  by (simp add: revoke_where_def Let_def)

lemma revoke_where_wf: "store_wf st \<Longrightarrow> store_wf (fst (revoke_where deps sel st))"
  by (auto simp: revoke_where_store store_wf_def)

datatype grant_op =
    OpRecord string jv grant_scope jv
  | OpRecordSimilar string tool_call tier grant_scope jv
  | OpRevoke jv jv
  | OpRevokeAll jv

fun grant_step :: "grant_deps \<Rightarrow> grant_store \<Rightarrow> grant_op \<Rightarrow> grant_store" where
  "grant_step deps st (OpRecord now tool scope raw) = fst (grant_record deps now st tool scope raw)"
| "grant_step deps st (OpRecordSimilar now call risk scope raw) = fst (grant_recordSimilar deps now st call risk scope raw)"
| "grant_step deps st (OpRevoke tool raw) = fst (grant_revoke deps st tool raw)"
| "grant_step deps st (OpRevokeAll raw) = fst (grant_revokeAll deps st raw)"

lemma grant_step_wf: "store_wf st \<Longrightarrow> store_wf (grant_step deps st e)"
  by (cases e) (auto simp: grant_record_wf grant_recordSimilar_wf grant_revoke_def grant_revokeAll_def
      revoke_where_wf split: sum.splits)

interpretation grant_machine: invariant_machine "grant_step deps" store_wf for deps
  by unfold_locales (rule grant_step_wf)


section \<open>What a grant authorises\<close>

lemma grant_has_iff:
  "grant_has deps st tool raw \<longleftrightarrow>
     (\<exists>b t. raw \<noteq> JUndef \<and> cleanBinding raw = Inr b \<and> cleanTool tool = Inr t \<and> usable deps b \<and>
        ((\<exists>g \<in> set (map_values (gs_session st)). sg_tool g = t \<and> covers (sg_binding g) b \<and> usable deps (sg_binding g)) \<or>
         (\<exists>g \<in> set (map_values (gs_always st)). g2_tool g = t \<and> covers (g2_binding g) b \<and> usable deps (g2_binding g))))"
  by (auto simp: grant_has_def list_ex_iff split: sum.splits)

lemma grant_hasSimilar_iff:
  "grant_hasSimilar deps st call risk raw \<longleftrightarrow>
     (\<exists>b d. raw \<noteq> JUndef \<and> cleanBinding raw = Inr b \<and> usable deps b \<and>
        similarDescriptor (gd_H deps) (gd_parseURL deps) call risk (gd_revision deps) = Some d \<and>
        (\<exists>g \<in> set (map_values (gs_simSession st)) \<union> set (map_values (gs_simAlways st)). similar_match deps d risk b g))"
  by (auto simp: grant_hasSimilar_def list_ex_iff split: sum.splits option.splits)

text \<open>The context a request can be answered in: readable, live and free of the key separator.\<close>

definition grantable :: "grant_deps \<Rightarrow> jv \<Rightarrow> jv \<Rightarrow> bool" where
  "grantable deps tool raw \<longleftrightarrow>
     (case (cleanTool tool, cleanBinding raw) of
        (Inr t, Inr b) \<Rightarrow> raw \<noteq> JUndef \<and> NUL \<notin> set t \<and> nul_free b \<and> usable deps b
      | _ \<Rightarrow> False)"

lemma nul_free_context: "cleanBinding raw = Inr b \<Longrightarrow> contextBinding raw scope = Inr c \<Longrightarrow> nul_free b \<Longrightarrow> nul_free c"
  by (auto simp: contextBinding_def nul_free_def binding_parts_def NUL_def split: if_splits option.splits)

lemma grant_record_ok:
  assumes "grant_record deps now st tool scope raw = (st', Inr ())" and "cleanTool tool = Inr t"
    and "contextBinding raw scope = Inr c"
  shows "(map_of (gs_always st) (grantKey t c) = None \<and>
      gs_always st' = AList.update (grantKey t c) \<lparr>g2_tool = t, g2_binding = c, g2_createdAt = now\<rparr> (gs_always st)) \<or>
    (map_of (gs_always st) (grantKey t c) \<noteq> None \<and> gs_always st' = gs_always st) \<or>
    gs_session st' = AList.update (grantKey t c) \<lparr>sg_tool = t, sg_binding = c\<rparr> (gs_session st)"
  using assms
  by (cases scope; cases "map_of (gs_always st) (grantKey t c)")
     (auto simp: grant_record_def Let_def split: if_split_asm sum.split_asm)

lemma record_has:
  assumes wf: "store_wf st" and g: "grantable deps tool raw"
    and ok: "grant_record deps now st tool scope raw = (st', Inr ())"
  shows "grant_has deps st' tool raw"
proof -
  from g obtain t b where t: "cleanTool tool = Inr t" and b: "cleanBinding raw = Inr b"
    and raw: "raw \<noteq> JUndef" and nt: "NUL \<notin> set t" and nb: "nul_free b" and ub: "usable deps b"
    by (auto simp: grantable_def split: sum.splits)
  from ok t raw obtain c where c: "contextBinding raw scope = Inr c" and uc: "usable deps c"
    by (auto simp: grant_record_def split: sum.splits if_splits)
  have cov: "covers c b" by (rule covers_context [OF b c])
  have tt: "trim t = t" using cleanTool_InrD [OF t] by simp
  have stored: "g2_tool g = t \<and> g2_binding g = c"
    if "map_of (gs_always st) (grantKey t c) = Some g" for g
  proof -
    from that have "(grantKey t c, g) \<in> set (gs_always st)" by (rule map_of_SomeD)
    with wf have "wf_legacy (grantKey t c) (g2_tool g) (g2_binding g)" by (auto simp: store_wf_def)
    then show ?thesis
      using grantKey_inj [of c "g2_binding g" t "g2_tool g"] contextBinding_wf [OF c] tt nt
        nul_free_context [OF b c nb] by (auto simp: wf_legacy_def)
  qed
  have old: "\<exists>g \<in> set (map_values (gs_always st)). g2_tool g = t \<and> covers (g2_binding g) b \<and> usable deps (g2_binding g)"
    if "map_of (gs_always st) (grantKey t c) \<noteq> None"
    using that stored cov uc by (metis map_of_in_values not_None_eq)
  let ?new = "\<lparr>g2_tool = t, g2_binding = c, g2_createdAt = now\<rparr>"
  let ?ses = "\<lparr>sg_tool = t, sg_binding = c\<rparr>"
  from grant_record_ok [OF ok t c] show ?thesis
  proof (elim disjE conjE)
    assume "gs_always st' = AList.update (grantKey t c) ?new (gs_always st)"
    then have "?new \<in> set (map_values (gs_always st'))"
      by simp
    with cov uc show ?thesis unfolding grant_has_iff using raw b t ub by fastforce
  next
    assume "map_of (gs_always st) (grantKey t c) \<noteq> None" and "gs_always st' = gs_always st"
    with old show ?thesis unfolding grant_has_iff using raw b t ub by metis
  next
    assume "gs_session st' = AList.update (grantKey t c) ?ses (gs_session st)"
    then have "?ses \<in> set (map_values (gs_session st'))"
      by simp
    with cov uc show ?thesis unfolding grant_has_iff using raw b t ub by fastforce
  qed
qed

lemma revoke_not_has:
  assumes "cleanTool tool = Inr t" and "cleanBinding raw = Inr b"
  shows "\<not> grant_has deps (fst (grant_revoke deps st tool raw)) tool raw"
  using assms
  by (auto simp: grant_has_iff grant_revoke_def revoke_where_store)

lemma revoke_everywhere_not_has:
  "cleanTool tool = Inr t \<Longrightarrow> \<not> grant_has deps (fst (grant_revoke deps st tool JUndef)) tool raw"
  by (auto simp: grant_has_iff grant_revoke_def revoke_where_store)

text \<open>An operation that fails never authorises anything new.\<close>

lemma record_failure_grants_nothing:
  assumes "grant_record deps now st tool scope raw = (st', Inl e)" and "grant_has deps st' tool' raw'"
  shows "grant_has deps st tool' raw'"
proof -
  have sub: "set (gs_session st') \<subseteq> set (gs_session st)" "set (gs_always st') \<subseteq> set (gs_always st)"
    using assms(1) set_delete_subset
    by (auto simp: grant_record_def Let_def AList.delete_update AList.delete_eq
        dest!: subsetD [OF set_update_subset] split: if_splits sum.splits)
  have "set (map_values (gs_session st')) \<subseteq> set (map_values (gs_session st))"
    "set (map_values (gs_always st')) \<subseteq> set (map_values (gs_always st))"
    using sub by auto
  with assms(2) show ?thesis unfolding grant_has_iff by blast
qed


section \<open>Similarity grants\<close>

definition similar_grantable :: "grant_deps \<Rightarrow> tool_call \<Rightarrow> jv \<Rightarrow> bool" where
  "similar_grantable deps call raw \<longleftrightarrow>
     (case (similarDescriptor (gd_H deps) (gd_parseURL deps) call 2 (gd_revision deps), cleanBinding raw) of
        (Some d, Inr b) \<Rightarrow> raw \<noteq> JUndef \<and> nul_free_descriptor d \<and> nul_free b \<and> usable deps b
      | _ \<Rightarrow> False)"

lemma grant_recordSimilar_ok:
  assumes "grant_recordSimilar deps now st call risk scope raw = (st', Inr ())"
    and "similarDescriptor (gd_H deps) (gd_parseURL deps) call risk (gd_revision deps) = Some d"
    and "contextBinding raw scope = Inr c"
  shows "(map_of (gs_simAlways st) (similarKey d c) = None \<and>
      gs_simAlways st' = AList.update (similarKey d c) (similar_grant d c now) (gs_simAlways st)) \<or>
    (map_of (gs_simAlways st) (similarKey d c) \<noteq> None \<and> gs_simAlways st' = gs_simAlways st) \<or>
    gs_simSession st' = AList.update (similarKey d c) (similar_grant d c now) (gs_simSession st)"
  using assms
  by (cases scope; cases "map_of (gs_simAlways st) (similarKey d c)")
     (auto simp: grant_recordSimilar_def Let_def split: if_split_asm sum.split_asm)

lemma recordSimilar_has:
  assumes wf: "store_wf st" and g: "similar_grantable deps call raw"
    and ok: "grant_recordSimilar deps now st call 2 scope raw = (st', Inr ())"
  shows "grant_hasSimilar deps st' call 2 raw"
proof -
  from g obtain d b where d: "similarDescriptor (gd_H deps) (gd_parseURL deps) call 2 (gd_revision deps) = Some d"
    and b: "cleanBinding raw = Inr b" and raw: "raw \<noteq> JUndef" and nd: "nul_free_descriptor d"
    and nb: "nul_free b" and ub: "usable deps b"
    by (auto simp: similar_grantable_def split: option.splits sum.splits)
  from ok d raw obtain c where c: "contextBinding raw scope = Inr c" and uc: "usable deps c"
    by (auto simp: grant_recordSimilar_def split: sum.splits if_splits)
  have cov: "covers c b" by (rule covers_context [OF b c])
  have match: "similar_match deps d 2 b g" if "descriptor_of g = d" "g3_binding g = c" for g
    using that cov uc by (auto simp: similar_match_def descriptor_of_def riskCeiling_def)
  have stored: "similar_match deps d 2 b g" if "map_of (gs_simAlways st) (similarKey d c) = Some g" for g
  proof (rule match)
    from that have "(similarKey d c, g) \<in> set (gs_simAlways st)" by (rule map_of_SomeD)
    with wf have "wf_similar (similarKey d c) g" by (auto simp: store_wf_def)
    then have "d = descriptor_of g \<and> c = g3_binding g"
      using similarKey_inj [of c "g3_binding g" d "descriptor_of g"] contextBinding_wf [OF c] nd
        nul_free_context [OF b c nb] by (auto simp: wf_similar_def)
    then show "descriptor_of g = d" "g3_binding g = c" by auto
  qed
  have hit: "grant_hasSimilar deps st' call 2 raw"
    if "g \<in> set (map_values (gs_simSession st')) \<union> set (map_values (gs_simAlways st'))" "similar_match deps d 2 b g" for g
    unfolding grant_hasSimilar_iff using raw b ub d that by blast
  from grant_recordSimilar_ok [OF ok d c] show ?thesis
  proof (elim disjE conjE)
    assume "gs_simAlways st' = AList.update (similarKey d c) (similar_grant d c now) (gs_simAlways st)"
    then show ?thesis by (intro hit [of "similar_grant d c now"] match) simp_all
  next
    assume "map_of (gs_simAlways st) (similarKey d c) \<noteq> None" and "gs_simAlways st' = gs_simAlways st"
    then show ?thesis using stored hit map_of_in_values by fastforce
  next
    assume "gs_simSession st' = AList.update (similarKey d c) (similar_grant d c now) (gs_simSession st)"
    then show ?thesis by (intro hit [of "similar_grant d c now"] match) simp_all
  qed
qed

lemma revoke_not_hasSimilar:
  assumes "cleanTool (JStr (tc_tool call)) = Inr t" and "cleanBinding raw = Inr b"
  shows "\<not> grant_hasSimilar deps (fst (grant_revoke deps st (JStr (tc_tool call)) raw)) call risk raw"
proof
  let ?st = "fst (grant_revoke deps st (JStr (tc_tool call)) raw)"
  assume h: "grant_hasSimilar deps ?st call risk raw"
  then obtain d g where raw: "raw \<noteq> JUndef"
    and d: "similarDescriptor (gd_H deps) (gd_parseURL deps) call risk (gd_revision deps) = Some d"
    and g: "g \<in> set (map_values (gs_simSession ?st)) \<union> set (map_values (gs_simAlways ?st))"
    and m: "similar_match deps d risk b g"
    unfolding grant_hasSimilar_iff using assms(2) by auto
  have "g3_tool g = t \<and> covers (g3_binding g) b"
    using m similarDescriptor_tool [OF d] assms(1) by (auto simp: similar_match_def)
  with g raw assms show False by (auto simp: grant_revoke_def revoke_where_store)
qed

lemma hasSimilar_only_tier2: "grant_hasSimilar deps st call risk raw \<Longrightarrow> risk = 2"
  unfolding grant_hasSimilar_iff by (auto dest: similarDescriptor_tier2)


section \<open>The contract the policy relies on\<close>

text \<open>
  A grant authority answers requests of type \<open>'q\<close> in a context. What is remembered successfully is
  found, what is revoked is not, and both keep the authority's invariant.
\<close>

locale grant_authority =
  fixes has :: "'s \<Rightarrow> 'q \<Rightarrow> jv \<Rightarrow> bool"
    and remember :: "'s \<Rightarrow> 'q \<Rightarrow> grant_scope \<Rightarrow> jv \<Rightarrow> 's \<times> (grant_error + unit)"
    and forget :: "'s \<Rightarrow> 'q \<Rightarrow> jv \<Rightarrow> 's"
    and inv :: "'s \<Rightarrow> bool"
    and ok :: "'q \<Rightarrow> jv \<Rightarrow> bool"
  assumes remember_found: "inv s \<Longrightarrow> ok q raw \<Longrightarrow> remember s q scope raw = (s', Inr ()) \<Longrightarrow> has s' q raw"
    and remember_inv: "inv s \<Longrightarrow> inv (fst (remember s q scope raw))"
    and forget_gone: "ok q raw \<Longrightarrow> \<not> has (forget s q raw) q raw"
    and forget_inv: "inv s \<Longrightarrow> inv (forget s q raw)"
begin

lemma forget_after_remember: "ok q raw \<Longrightarrow> \<not> has (forget (fst (remember s q scope raw)) q raw) q raw"
  by (rule forget_gone)

lemma remember_after_forget:
  "inv s \<Longrightarrow> ok q raw \<Longrightarrow> remember (forget s q raw) q scope raw = (s', Inr ()) \<Longrightarrow> has s' q raw"
  by (rule remember_found [OF forget_inv])

lemma regrant_cycle:
  assumes "inv s" and "ok q raw" and "remember s q scope raw = (s1, Inr ())"
    and "remember (forget s1 q raw) q scope' raw = (s2, Inr ())"
  shows "has s1 q raw \<and> \<not> has (forget s1 q raw) q raw \<and> has s2 q raw"
proof -
  have "inv s1" using remember_inv [OF assms(1), of q scope raw] assms(3) by simp
  then show ?thesis
    using assms remember_found forget_gone remember_after_forget by blast
qed

end

interpretation tool_grants: grant_authority
  "\<lambda>st tool raw. grant_has deps st tool raw"
  "\<lambda>st tool scope raw. grant_record deps now st tool scope raw"
  "\<lambda>st tool raw. fst (grant_revoke deps st tool raw)"
  store_wf "grantable deps" for deps now
proof unfold_locales
  fix s s' q raw scope
  show "store_wf s \<Longrightarrow> grantable deps q raw \<Longrightarrow> grant_record deps now s q scope raw = (s', Inr ()) \<Longrightarrow>
      grant_has deps s' q raw" by (rule record_has)
  show "store_wf s \<Longrightarrow> store_wf (fst (grant_record deps now s q scope raw))" by (rule grant_record_wf)
  show "\<not> grant_has deps (fst (grant_revoke deps s q raw)) q raw" if "grantable deps q raw"
    using that revoke_not_has by (auto simp: grantable_def split: sum.splits)
  show "store_wf s \<Longrightarrow> store_wf (fst (grant_revoke deps s q raw))"
    using grant_step_wf [of s deps "OpRevoke q raw"] by simp
qed

interpretation similar_grants: grant_authority
  "\<lambda>st call raw. grant_hasSimilar deps st call 2 raw"
  "\<lambda>st call scope raw. grant_recordSimilar deps now st call 2 scope raw"
  "\<lambda>st call raw. fst (grant_revoke deps st (JStr (tc_tool call)) raw)"
  store_wf "similar_grantable deps" for deps now
proof unfold_locales
  fix s s' q raw scope
  show "store_wf s \<Longrightarrow> similar_grantable deps q raw \<Longrightarrow>
      grant_recordSimilar deps now s q 2 scope raw = (s', Inr ()) \<Longrightarrow> grant_hasSimilar deps s' q 2 raw"
    by (rule recordSimilar_has)
  show "store_wf s \<Longrightarrow> store_wf (fst (grant_recordSimilar deps now s q 2 scope raw))"
    by (rule grant_recordSimilar_wf)
  show "\<not> grant_hasSimilar deps (fst (grant_revoke deps s (JStr (tc_tool q)) raw)) q 2 raw"
    if "similar_grantable deps q raw"
    using that revoke_not_hasSimilar similarDescriptor_tool
    by (auto simp: similar_grantable_def split: option.splits sum.splits)
  show "store_wf s \<Longrightarrow> store_wf (fst (grant_revoke deps s (JStr (tc_tool q)) raw))"
    using grant_step_wf [of s deps "OpRevoke (JStr (tc_tool q)) raw"] by simp
qed

lemma record_entries:
  "x \<in> set (gs_session (fst (grant_record deps now st tool scope raw))) \<Longrightarrow> x \<in> set (gs_session st) \<or>
     (cleanTool tool = Inr (sg_tool (snd x)) \<and> contextBinding raw scope = Inr (sg_binding (snd x)))"
  "y \<in> set (gs_always (fst (grant_record deps now st tool scope raw))) \<Longrightarrow> y \<in> set (gs_always st) \<or>
     (cleanTool tool = Inr (g2_tool (snd y)) \<and> contextBinding raw scope = Inr (g2_binding (snd y)))"
  by (auto simp: grant_record_def Let_def dest!: subsetD [OF set_update_subset] subsetD [OF set_delete_subset]
      split: if_splits sum.splits)


section \<open>Properties of the grant store\<close>

text \<open>
  C40: however the persisted file looks and whatever sequence of records and revocations follows, every
  entry of the store is filed under the key of its own tool and binding, with a cleaned tool name and a
  well-formed binding.
\<close>

theorem grant_store_stays_wf:
  assumes "makeGrantStore deps persisted = Inr st"
  shows "store_wf (foldl (grant_step deps) st ops)"
  using grant_machine.inv_run [OF makeGrantStore_wf [OF assms]] .

definition demo_grant_deps :: grant_deps where
  "demo_grant_deps = \<lparr>gd_H = id, gd_parseURL = \<lambda>_. None, gd_usable = \<lambda>_. Some True, gd_save = None, gd_revision = ''r1''\<rparr>"

definition demo_store :: grant_store where
  "demo_store = \<lparr>gs_session = [], gs_always = [], gs_simSession = [], gs_simAlways = [], gs_quarantined = [], gs_invalid = 0\<rparr>"

definition demo_binding :: jv where
  "demo_binding = JObj [(''operatorId'', JStr ''op''), (''profileId'', JStr ''pr''), (''projectId'', JStr ''pj''),
     (''scope'', JStr ''session''), (''sessionId'', JStr ''s1'')]"

theorem grant_store_stays_wf_witness:
  "store_wf (foldl (grant_step demo_grant_deps) demo_store
     [OpRecord ''t0'' (JStr ''bash'') ScopeSession demo_binding, OpRevoke (JStr ''bash'') demo_binding])"
proof (rule grant_store_stays_wf)
  show "makeGrantStore demo_grant_deps JNull = Inr demo_store" by code_simp
qed

text \<open>
  Recording a grant for a tool under a context gives authority to that tool only, and only to
  requests of the same operator, profile and project.
\<close>

theorem record_grants_only_itself:
  assumes "grant_has deps (fst (grant_record deps now st tool scope raw)) tool' raw'"
    and "\<not> grant_has deps st tool' raw'"
  shows "\<exists>t b b'. cleanTool tool = Inr t \<and> cleanTool tool' = Inr t \<and> cleanBinding raw = Inr b \<and> cleanBinding raw' = Inr b' \<and>
    gb_operatorId b' = gb_operatorId b \<and> gb_profileId b' = gb_profileId b \<and> gb_projectId b' = gb_projectId b"
proof -
  obtain b' t' where q: "raw' \<noteq> JUndef" "cleanBinding raw' = Inr b'" "cleanTool tool' = Inr t'" "usable deps b'"
    and has: "(\<exists>g \<in> set (map_values (gs_session (fst (grant_record deps now st tool scope raw)))).
          sg_tool g = t' \<and> covers (sg_binding g) b' \<and> usable deps (sg_binding g)) \<or>
       (\<exists>g \<in> set (map_values (gs_always (fst (grant_record deps now st tool scope raw)))).
          g2_tool g = t' \<and> covers (g2_binding g) b' \<and> usable deps (g2_binding g))"
    using assms(1) unfolding grant_has_iff by blast
  let ?st' = "fst (grant_record deps now st tool scope raw)"
  have old: "\<not> (\<exists>g \<in> set (map_values (gs_session st)). sg_tool g = t' \<and> covers (sg_binding g) b' \<and> usable deps (sg_binding g))"
    "\<not> (\<exists>g \<in> set (map_values (gs_always st)). g2_tool g = t' \<and> covers (g2_binding g) b' \<and> usable deps (g2_binding g))"
    using assms(2) q unfolding grant_has_iff by blast+
  have "cleanTool tool = Inr t' \<and> (\<exists>c. contextBinding raw scope = Inr c \<and> covers c b')"
    using has
  proof
    assume "\<exists>g \<in> set (map_values (gs_session ?st')). sg_tool g = t' \<and> covers (sg_binding g) b' \<and> usable deps (sg_binding g)"
    then obtain k g where "(k, g) \<in> set (gs_session ?st')" "sg_tool g = t'" "covers (sg_binding g) b'" "usable deps (sg_binding g)"
      by auto
    with record_entries(1) [of "(k, g)"] old(1) show ?thesis by force
  next
    assume "\<exists>g \<in> set (map_values (gs_always ?st')). g2_tool g = t' \<and> covers (g2_binding g) b' \<and> usable deps (g2_binding g)"
    then obtain k g where "(k, g) \<in> set (gs_always ?st')" "g2_tool g = t'" "covers (g2_binding g) b'" "usable deps (g2_binding g)"
      by auto
    with record_entries(2) [of "(k, g)"] old(2) show ?thesis by force
  qed
  then obtain c where c: "cleanTool tool = Inr t'" "contextBinding raw scope = Inr c" "covers c b'" by blast
  then obtain b where "cleanBinding raw = Inr b" "covers c b"
    using covers_context by (auto simp: contextBinding_def split: sum.splits)
  with q c covers_owner [of c b] covers_owner [of c b'] show ?thesis by auto
qed

theorem record_grants_only_itself_witness:
  "grant_has demo_grant_deps (fst (grant_record demo_grant_deps ''t0'' demo_store (JStr ''bash'') ScopeSession demo_binding))
     (JStr '' bash'') demo_binding \<and>
   (\<exists>t b b'. cleanTool (JStr ''bash'') = Inr t \<and> cleanTool (JStr '' bash'') = Inr t \<and>
     cleanBinding demo_binding = Inr b \<and> cleanBinding demo_binding = Inr b' \<and>
     gb_operatorId b' = gb_operatorId b \<and> gb_profileId b' = gb_profileId b \<and> gb_projectId b' = gb_projectId b)"
proof -
  have a: "grant_has demo_grant_deps (fst (grant_record demo_grant_deps ''t0'' demo_store (JStr ''bash'') ScopeSession demo_binding))
      (JStr '' bash'') demo_binding" by code_simp
  have b: "\<not> grant_has demo_grant_deps demo_store (JStr '' bash'') demo_binding" by code_simp
  from record_grants_only_itself [OF a b] a show ?thesis by blast
qed

text \<open>
  Recording a tool grant that reports an error authorises nothing that was not authorised
  before, even though the identical session grant has already been dropped when persisting fails.
\<close>

theorem failed_record_grants_nothing:
  assumes "grant_record deps now st tool scope raw = (st', Inl e)" and "grant_has deps st' tool' raw'"
  shows "grant_has deps st tool' raw'"
  using record_failure_grants_nothing [OF assms] .

theorem failed_record_grants_nothing_witness:
  "(let deps = demo_grant_deps\<lparr>gd_save := Some (\<lambda>_. False)\<rparr>;
        st = fst (grant_record deps ''t0'' demo_store (JStr ''read'') ScopeSession demo_binding);
        st' = fst (grant_record deps ''t1'' st (JStr ''bash'') ScopeAlways demo_binding)
    in grant_has deps st' (JStr ''read'') demo_binding \<and> grant_has deps st (JStr ''read'') demo_binding)"
proof -
  let ?deps = "demo_grant_deps\<lparr>gd_save := Some (\<lambda>_. False)\<rparr>"
  let ?st = "fst (grant_record ?deps ''t0'' demo_store (JStr ''read'') ScopeSession demo_binding)"
  let ?st' = "fst (grant_record ?deps ''t1'' ?st (JStr ''bash'') ScopeAlways demo_binding)"
  have "snd (grant_record ?deps ''t1'' ?st (JStr ''bash'') ScopeAlways demo_binding) = Inl PERSIST_FAILED" by code_simp
  then have r: "grant_record ?deps ''t1'' ?st (JStr ''bash'') ScopeAlways demo_binding = (?st', Inl PERSIST_FAILED)"
    by (metis prod.collapse)
  have h: "grant_has ?deps ?st' (JStr ''read'') demo_binding" by code_simp
  from failed_record_grants_nothing [OF r h] h show ?thesis by (simp add: Let_def)
qed

text \<open>
  A similarity grant suppresses a confirmation only for a tier-2 call whose tool, operation and
  resource hash are the ones it was recorded for, under the policy revision in force and for the same
  operator, profile and project.
\<close>

theorem similar_grant_is_exact:
  assumes "grant_hasSimilar deps st call risk raw"
  shows "risk = 2 \<and> (\<exists>d b g. similarDescriptor (gd_H deps) (gd_parseURL deps) call 2 (gd_revision deps) = Some d \<and>
    cleanBinding raw = Inr b \<and> g \<in> set (map_values (gs_simSession st)) \<union> set (map_values (gs_simAlways st)) \<and>
    descriptor_of g = d \<and> g3_policyRevision g = gd_revision deps \<and>
    gb_operatorId (g3_binding g) = gb_operatorId b \<and> gb_profileId (g3_binding g) = gb_profileId b \<and>
    gb_projectId (g3_binding g) = gb_projectId b)"
proof -
  obtain b d g where h: "cleanBinding raw = Inr b"
    "similarDescriptor (gd_H deps) (gd_parseURL deps) call risk (gd_revision deps) = Some d"
    "g \<in> set (map_values (gs_simSession st)) \<union> set (map_values (gs_simAlways st))" "similar_match deps d risk b g"
    using assms unfolding grant_hasSimilar_iff by blast
  have "risk = 2" using hasSimilar_only_tier2 [OF assms] .
  moreover have "descriptor_of g = d" "g3_policyRevision g = gd_revision deps" "covers (g3_binding g) b"
    using h(4) similarDescriptor_revision [OF h(2)] by (auto simp: similar_match_def descriptor_of_def)
  ultimately show ?thesis using h covers_owner by blast
qed

theorem similar_grant_is_exact_witness:
  "(let call = \<lparr>tc_tool = ''remember'', tc_args = [], tc_argsTainted = None, tc_policyTier = JUndef, tc_outboundSink = JUndef\<rparr>;
        st = fst (grant_recordSimilar demo_grant_deps ''t0'' demo_store call 2 ScopeSession demo_binding)
    in grant_hasSimilar demo_grant_deps st call 2 demo_binding \<and>
      (\<exists>g \<in> set (map_values (gs_simSession st)) \<union> set (map_values (gs_simAlways st)). g3_policyRevision g = ''r1''))"
proof -
  let ?call = "\<lparr>tc_tool = ''remember'', tc_args = [], tc_argsTainted = None, tc_policyTier = JUndef, tc_outboundSink = JUndef\<rparr>"
  let ?st = "fst (grant_recordSimilar demo_grant_deps ''t0'' demo_store ?call 2 ScopeSession demo_binding)"
  have h: "grant_hasSimilar demo_grant_deps ?st ?call 2 demo_binding" by code_simp
  have "gd_revision demo_grant_deps = ''r1''" by (simp add: demo_grant_deps_def)
  with similar_grant_is_exact [OF h] h show ?thesis unfolding Let_def by metis
qed

text \<open>
  The path a write grant is bound to is relative and has no parent segment, so no file outside the
  project root can share its resource hash by path.
\<close>

theorem safe_path_is_confined:
  assumes "safeRelativePath v = Some r"
  shows "\<not> startsWith r ''/'' \<and> ''..'' \<notin> set (js_split r ''/'')"
  using safeRelativePath_stays [OF assms] by (simp add: dotdot_def)

theorem safe_path_is_confined_witness:
  "safeRelativePath (JStr ''a/./b/../c.txt'') = Some ''a/c.txt'' \<and> \<not> startsWith ''a/c.txt'' ''/'' \<and> ''..'' \<notin> set (js_split ''a/c.txt'' ''/'')"
proof -
  have "safeRelativePath (JStr ''a/./b/../c.txt'') = Some ''a/c.txt''" by code_simp
  with safe_path_is_confined [OF this] show ?thesis by blast
qed

end
