(* ===== verification/Safety_Policy.thy ===== *)
theory Safety_Policy
  imports Grant_Store
begin

text \<open>
  The deterministic policy of \<open>core-ts/src/safety/index.ts\<close>: the normalised haystack and the
  \<open>HARD_DENY\<close> rules, the tier of a call, the confirmation card, \<open>SafetyPolicy.evaluate\<close> in the order
  of its early returns, the input guard, the egress guard and the lethal-trifecta detector.

  Parameters: the digest \<open>H\<close> (SHA-256 in hex), the URL parser, the random nonce and the clock reading
  of a card, the injected classifier of the input guard.
\<close>

section \<open>Normalisation and the deny rules\<close>

definition normalizeHaystack :: "tool_call \<Rightarrow> string" where
  "normalizeHaystack call =
     (let s = toLowerCase (tc_tool call @ '' '' @ json_text (JObj (tc_args call)))
      in case decodeURIComponent s of None \<Rightarrow> s | Some d \<Rightarrow> d)"

type_synonym deny_rule = "string \<times> rx"

definition rx_rm_rf :: rx where
  "rx_rm_rf = rx_seq [WordB, rx_lit ''rm'', rx_plus rx_sp, rx_lit ''-'', Star (Cls is_lower),
     rx_alt [rx_lit ''rf'', rx_lit ''fr''], WordB]"

definition rx_tf_destroy :: rx where
  "rx_tf_destroy = rx_seq [rx_lit ''terraform'', rx_plus rx_sp, rx_lit ''destroy'']"

definition rx_force_push :: rx where
  "rx_force_push = rx_seq [rx_lit ''git'', rx_plus rx_sp, rx_lit ''push'',
     Star (Seq (rx_plus rx_sp) (rx_plus rx_nsp)), rx_plus rx_sp,
     rx_alt [rx_lit ''--force'', rx_lit ''-f''], WordB]"

definition rx_drop_table :: rx where
  "rx_drop_table = rx_seq [WordB, rx_lit ''drop'', rx_plus rx_sp, rx_lit ''table'', WordB]"

definition rx_truncate_table :: rx where
  "rx_truncate_table = rx_seq [WordB, rx_lit ''truncate'', rx_plus rx_sp, rx_lit ''table'', WordB]"

definition rx_money :: rx where
  "rx_money = rx_alt [rx_lit ''stripe.'', rx_lit ''createcharge'',
     rx_seq [WordB, rx_lit ''transfer'', rx_plus rx_sp, rx_lit ''funds'', WordB],
     rx_seq [WordB, rx_lit ''payout'', WordB]]"

definition rx_secret_file :: rx where
  "rx_secret_file = rx_alt [rx_lit ''etc/shadow'', rx_lit ''etc/passwd'',
     rx_seq [rx_lit ''id_rsa'', WordB], rx_lit ''.aws/credentials'']"

definition HARD_DENY :: "deny_rule list" where
  "HARD_DENY =
     [(''FS_DESTRUCTION_RM_RF'', rx_rm_rf),
      (''INFRA_DESTRUCTION_TF'', rx_tf_destroy),
      (''HISTORY_REWRITE_FORCE_PUSH'', rx_force_push),
      (''DB_DROP_TABLE'', rx_drop_table),
      (''DB_TRUNCATE'', rx_truncate_table),
      (''MONEY_OP'', rx_money),
      (''SECRET_FILE_READ'', rx_secret_file)]"

definition rx_delete_from :: rx where
  "rx_delete_from = rx_seq [WordB, rx_lit ''delete'', rx_plus rx_sp, rx_lit ''from'', WordB]"

definition rx_where :: rx where
  "rx_where = rx_seq [WordB, rx_lit ''where'', WordB]"

definition unbounded_delete_text :: "jv \<Rightarrow> bool" where
  "unbounded_delete_text v = (case v of
     JStr t \<Rightarrow> (let s = toLowerCase t in rx_test rx_delete_from s \<and> \<not> rx_test rx_where s)
   | _ \<Rightarrow> False)"

definition isUnboundedDelete :: "tool_call \<Rightarrow> bool" where
  "isUnboundedDelete call = list_ex (\<lambda>kv. unbounded_delete_text (snd kv)) (tc_args call)"

definition rx_outbound_tool :: rx where
  "rx_outbound_tool = Seq Bol (rx_alt [rx_lit ''telegram.'', rx_lit ''http.'', rx_lit ''mcp:write''])"

definition rx_word_lit :: "string \<Rightarrow> rx" where
  "rx_word_lit w = rx_seq [WordB, rx_lit w, WordB]"

definition rx_outbound_cmd :: rx where
  "rx_outbound_cmd = rx_alt [rx_seq [rx_lit ''git'', rx_plus rx_sp, rx_lit ''push''], rx_lit ''curl'',
     rx_lit ''wget'', rx_word_lit ''ssh'', rx_word_lit ''scp'', rx_word_lit ''nc'']"

definition rx_network_cmd :: rx where
  "rx_network_cmd = rx_alt [rx_lit ''curl'', rx_lit ''wget'', rx_word_lit ''ssh'', rx_word_lit ''nc'']"

definition shell_command :: "tool_call \<Rightarrow> string" where
  "shell_command call = to_string_or_empty (getprop (tc_args call) ''cmd'')"

definition isOutboundOrSideEffecting :: "tool_call \<Rightarrow> bool" where
  "isOutboundOrSideEffecting call =
     (if tc_outboundSink call = JBool True then True
      else if rx_test rx_outbound_tool (tc_tool call) then True
      else if tc_tool call = ''bash'' then rx_test rx_outbound_cmd (shell_command call)
      else False)"

definition isHighRiskShell :: "tool_call \<Rightarrow> bool" where
  "isHighRiskShell call =
     (if tc_tool call \<noteq> ''bash'' then False else rx_test rx_network_cmd (shell_command call))"

definition rx_tier3_tool :: rx where
  "rx_tier3_tool = rx_alt [rx_lit ''drop-database'', rx_lit ''drop_database'', rx_lit ''delete-repo'']"

definition rx_tier2_tool :: rx where
  "rx_tier2_tool = rx_alt [Seq Bol (rx_lit ''git.''), Seq Bol (rx_lit ''db.''),
     Seq Bol (rx_lit ''telegram.''), Seq Bol (rx_lit ''http.'')]"

definition rx_write_send :: rx where
  "rx_write_send = rx_alt [rx_lit ''write'', rx_lit ''send'']"

definition name_tier :: "string \<Rightarrow> tier" where
  "name_tier tool =
     (if rx_test rx_tier3_tool tool then 3
      else if rx_test rx_tier2_tool tool \<or> tool = ''bash'' \<or> rx_test rx_write_send tool then 2
      else 0)"

text \<open>
  A dynamic tier wins over the name. \<open>evaluate\<close> asks for the tier only after it has refused every
  dynamic tier other than 0, 1, 2 and 3.
\<close>

definition tierOf :: "tool_call \<Rightarrow> tier" where
  "tierOf call = (case tc_policyTier call of JNum n \<Rightarrow> nat n | _ \<Rightarrow> name_tier (tc_tool call))"


section \<open>The confirmation card\<close>

definition utf8 :: "nat list \<Rightarrow> string" where
  "utf8 bs = map char_of bs"

text \<open>The operator-facing Russian phrases of \<open>actionSummary\<close>, as UTF-8 bytes.\<close>

definition RU_ASK_BEFORE_DELETE :: string where
  "RU_ASK_BEFORE_DELETE = utf8 [209, 129, 208, 191, 209, 128, 208, 176, 209, 136, 208, 184, 208,
     178, 208, 176, 209, 130, 209, 140, 32, 208, 191, 208, 181, 209, 128, 208, 181, 208, 180, 32,
     209, 131, 208, 180, 208, 176, 208, 187, 208, 181, 208, 189, 208, 184, 208, 181, 208, 188]"

definition RU_CONFIRM_WRITES :: string where
  "RU_CONFIRM_WRITES = utf8 [208, 191, 208, 190, 208, 180, 209, 130, 208, 178, 208, 181, 209, 128,
     208, 182, 208, 180, 208, 176, 209, 130, 209, 140, 32, 208, 184, 208, 183, 208, 188, 208, 181,
     208, 189, 208, 181, 208, 189, 208, 184, 209, 143]"

definition RU_READ_ONLY :: string where
  "RU_READ_ONLY = utf8 [209, 130, 208, 190, 208, 187, 209, 140, 208, 186, 208, 190, 32, 209, 135,
     209, 130, 208, 181, 208, 189, 208, 184, 208, 181]"

definition RU_NO_EGRESS :: string where
  "RU_NO_EGRESS = utf8 [208, 177, 208, 181, 208, 183, 32, 208, 178, 208, 189, 208, 181, 209, 136,
     208, 189, 208, 184, 209, 133, 32, 208, 191, 208, 190, 208, 180, 208, 186, 208, 187, 209, 142,
     209, 135, 208, 181, 208, 189, 208, 184, 208, 185]"

definition RU_STRICT :: string where
  "RU_STRICT = utf8 [209, 129, 209, 130, 209, 128, 208, 190, 208, 179, 208, 184, 208, 185, 32, 209,
     128, 208, 181, 208, 182, 208, 184, 208, 188]"

definition RU_PROJECT :: string where
  "RU_PROJECT = utf8 [208, 180, 208, 187, 209, 143, 32, 208, 178, 209, 129, 208, 181, 208, 179, 208,
     190, 32, 208, 191, 209, 128, 208, 190, 208, 181, 208, 186, 209, 130, 208, 176]"

definition RU_FOLDER :: string where
  "RU_FOLDER = utf8 [208, 180, 208, 187, 209, 143, 32, 208, 191, 208, 176, 208, 191, 208, 186, 208,
     184, 32, 194, 171]"

definition RU_SELECTED :: string where
  "RU_SELECTED = utf8 [208, 180, 208, 187, 209, 143, 32, 208, 178, 209, 139, 208, 177, 209, 128,
     208, 176, 208, 189, 208, 189, 208, 190, 208, 185, 32, 208, 191, 208, 176, 208, 191, 208, 186,
     208, 184]"

definition RU_RELAX :: string where
  "RU_RELAX = utf8 [208, 158, 209, 129, 208, 187, 208, 176, 208, 177, 208, 184, 209, 130, 209, 140,
     32, 208, 189, 208, 176, 209, 129, 209, 130, 209, 128, 208, 190, 208, 185, 208, 186, 209, 131,
     32, 194, 171]"

definition RU_CLOSE :: string where
  "RU_CLOSE = utf8 [194, 187, 32]"

definition RU_AFTER :: string where
  "RU_AFTER = utf8 [46, 32, 208, 159, 208, 190, 209, 129, 208, 187, 208, 181, 32, 209, 141, 209,
     130, 208, 190, 208, 179, 208, 190, 32, 208, 176, 208, 179, 208, 181, 208, 189, 209, 130, 32,
     208, 191, 208, 190, 208, 187, 209, 131, 209, 135, 208, 184, 209, 130, 32, 208, 177, 208, 190,
     208, 187, 209, 140, 209, 136, 208, 181, 32, 209, 129, 208, 178, 208, 190, 208, 177, 208, 190,
     208, 180, 209, 139, 46]"

definition ELLIPSIS :: string where
  "ELLIPSIS = utf8 [226, 128, 166]"

definition EM_DASH :: string where
  "EM_DASH = utf8 [226, 128, 148]"

definition GUIL :: string where
  "GUIL = utf8 [194, 187]"

definition CARD_ARG_CHARS :: nat where "CARD_ARG_CHARS = 120"

definition cardArgument :: "jv \<Rightarrow> string option" where
  "cardArgument v =
     (case v of
        JStr s \<Rightarrow>
          (let flat = trim (rx_replace_all (rx_plus rx_sp) (\<lambda>_. '' '') s) in
           if length flat = 0 then None
           else if length flat \<le> CARD_ARG_CHARS then Some flat
           else Some (take CARD_ARG_CHARS flat @ ELLIPSIS))
      | _ \<Rightarrow> None)"

text \<open>
  The classes \<open>Cc\<close> and \<open>Cf\<close> on code points, and the code points of a UTF-8 text (a byte that starts no
  well-formed sequence stands for itself).
\<close>

definition cc_cf_ranges :: "(nat \<times> nat) list" where
  "cc_cf_ranges = [(0x00, 0x1F), (0x7F, 0x9F), (0xAD, 0xAD), (0x600, 0x605), (0x61C, 0x61C), (0x6DD, 0x6DD),
     (0x70F, 0x70F), (0x890, 0x891), (0x8E2, 0x8E2), (0x180E, 0x180E), (0x200B, 0x200F), (0x202A, 0x202E),
     (0x2060, 0x2064), (0x2066, 0x206F), (0xFEFF, 0xFEFF), (0xFFF9, 0xFFFB), (0x110BD, 0x110BD),
     (0x110CD, 0x110CD), (0x13430, 0x1343F), (0x1BCA0, 0x1BCA3), (0x1D173, 0x1D17A), (0xE0001, 0xE0001),
     (0xE0020, 0xE007F)]"

definition is_cc_cf :: "nat \<Rightarrow> bool" where
  "is_cc_cf n = list_ex (\<lambda>(lo, hi). lo \<le> n \<and> n \<le> hi) cc_cf_ranges"

fun code_points :: "nat \<Rightarrow> string \<Rightarrow> nat list" where
  "code_points skip [] = []"
| "code_points (Suc skip) (c # cs) = code_points skip cs"
| "code_points 0 (c # cs) =
     (case utf8_len (of_char c) of
        None \<Rightarrow> of_char c # code_points 0 cs
      | Some n \<Rightarrow>
          (let bs = map of_char (take n (c # cs)) in
           if length bs = n \<and> utf8_ok bs then utf8_point bs # code_points (n - 1) cs
           else of_char c # code_points 0 cs))"

definition policyPathArgument :: "(string \<Rightarrow> string) \<Rightarrow> jv \<Rightarrow> string option" where
  "policyPathArgument H v =
     (case v of
        JStr s \<Rightarrow>
          if length s = 0 \<or> list_ex is_cc_cf (code_points 0 s) then None
          else if length s \<le> 240 then Some s
          else Some (take 96 s @ ELLIPSIS @ drop (length s - 96) s @ '' ['' @ H s @ '']'')
      | _ \<Rightarrow> None)"

definition relax_label :: "jv \<Rightarrow> string" where
  "relax_label v =
     (if v = JStr ''ask-before-delete'' then RU_ASK_BEFORE_DELETE
      else if v = JStr ''confirm-writes'' then RU_CONFIRM_WRITES
      else if v = JStr ''read-only'' then RU_READ_ONLY
      else if v = JStr ''no-egress'' then RU_NO_EGRESS
      else RU_STRICT)"

definition relax_place :: "(string \<Rightarrow> string) \<Rightarrow> (string \<times> jv) list \<Rightarrow> string" where
  "relax_place H args =
     (let policyScope = getprop args ''policyScope'' in
      if policyScope = JStr ''project'' then RU_PROJECT
      else (case policyPathArgument H (getprop args ''policyPath'') of
              Some path \<Rightarrow> if policyScope = JStr ''path'' then RU_FOLDER @ path @ GUIL else RU_SELECTED
            | None \<Rightarrow> RU_SELECTED))"

definition is_policy_relax :: "tool_call \<Rightarrow> bool" where
  "is_policy_relax call \<longleftrightarrow> tc_tool call = ''configure_agent'' \<and>
     (case getprop (tc_args call) ''operation'' of JStr operation \<Rightarrow> startsWith operation ''policy.relax-'' | _ \<Rightarrow> False)"

definition argument_names :: "tool_call \<Rightarrow> string" where
  "argument_names call = tc_tool call @ ''('' @ js_join '', '' (map fst (tc_args call)) @ '')''"

definition actionSummary :: "(string \<Rightarrow> string) \<Rightarrow> (string \<Rightarrow> (string \<times> string) option) \<Rightarrow> tool_call \<Rightarrow> string" where
  "actionSummary H parseURL call =
     (if is_policy_relax call then
        RU_RELAX @ relax_label (getprop (tc_args call) ''value'') @ RU_CLOSE @ relax_place H (tc_args call) @ RU_AFTER
      else if tc_tool call = ''fetch_url'' then
        (case httpsHost parseURL (getprop (tc_args call) ''url'') of
           Some host \<Rightarrow> ''fetch_url('' @ host @ '')'' | None \<Rightarrow> argument_names call)
      else if tc_tool call = ''deep_research'' then
        (case cardArgument (getprop (tc_args call) ''question'') of
           Some question \<Rightarrow> ''deep_research('' @ question @ '')'' | None \<Rightarrow> argument_names call)
      else argument_names call)"

text \<open>The surroundings of one evaluation: digest, URL parser, fresh nonce, clock.\<close>

record card_env =
  ce_H :: "string \<Rightarrow> string"
  ce_parseURL :: "string \<Rightarrow> (string \<times> string) option"
  ce_nonce :: string
  ce_now :: int

definition action_hash :: "(string \<Rightarrow> string) \<Rightarrow> tool_call \<Rightarrow> string" where
  "action_hash H call = H (json_text (JObj [(''tool'', JStr (tc_tool call)), (''args'', JObj (tc_args call))]))"

definition makeCard :: "card_env \<Rightarrow> tool_call \<Rightarrow> tier \<Rightarrow> confirmation_card" where
  "makeCard env call t =
     \<lparr>cc_tier = t, cc_summary = actionSummary (ce_H env) (ce_parseURL env) call,
      cc_hash = action_hash (ce_H env) call, cc_nonce = ce_nonce env, cc_issuedAt = ce_now env\<rparr>"


section \<open>SafetyPolicy\<close>

record policy_deps =
  pd_ready :: "bool option"
  pd_sandbox :: "security_level option"
  pd_grants :: "(grant_deps \<times> grant_store) option"
  pd_binding :: jv

definition policy_ready :: "policy_deps \<Rightarrow> bool" where
  "policy_ready deps = (case pd_ready deps of None \<Rightarrow> True | Some r \<Rightarrow> r)"

definition sandbox_level :: "policy_deps \<Rightarrow> security_level" where
  "sandbox_level deps = (case pd_sandbox deps of None \<Rightarrow> Full | Some l \<Rightarrow> l)"

definition isNarrowed :: "context_span list \<Rightarrow> bool" where
  "isNarrowed ctx = list_ex (\<lambda>sp. cs_provenance sp \<noteq> Operator) ctx"

definition invalid_dynamic_policy :: "tool_call \<Rightarrow> bool" where
  "invalid_dynamic_policy call \<longleftrightarrow>
     (tc_policyTier call \<noteq> JUndef \<and> tc_policyTier call \<notin> set [JNum 0, JNum 1, JNum 2, JNum 3]) \<or>
     (tc_outboundSink call \<noteq> JUndef \<and> (case tc_outboundSink call of JBool _ \<Rightarrow> False | _ \<Rightarrow> True))"

fun first_match :: "deny_rule list \<Rightarrow> string \<Rightarrow> string option" where
  "first_match [] s = None"
| "first_match ((i, p) # rules) s = (if rx_test p s then Some i else first_match rules s)"

definition granted :: "policy_deps \<Rightarrow> tool_call \<Rightarrow> tier \<Rightarrow> bool" where
  "granted deps call t =
     (case pd_grants deps of
        None \<Rightarrow> False
      | Some (gd, st) \<Rightarrow> grant_hasSimilar gd st call t (pd_binding deps) \<or>
          grant_has gd st (JStr (tc_tool call)) (pd_binding deps))"

definition evaluate :: "card_env \<Rightarrow> policy_deps \<Rightarrow> tool_call \<Rightarrow> context_span list \<Rightarrow> verdict" where
  "evaluate env deps call ctx =
     (if \<not> policy_ready deps then Deny ''COLD_START'' (''safety policy not loaded '' @ EM_DASH @ '' fail-closed'')
      else if invalid_dynamic_policy call then Deny ''INVALID_DYNAMIC_POLICY'' ''invalid code-owned tool policy''
      else if getprop (tc_args call) ''hookError'' = JBool True then
        Deny ''HOOK_ERROR'' (''PreToolUse hook error/timeout '' @ EM_DASH @ '' fail-closed'')
      else
        (case first_match HARD_DENY (normalizeHaystack call) of
           Some rule \<Rightarrow> Deny rule (''matched HARD_DENY '' @ rule)
         | None \<Rightarrow>
             if isUnboundedDelete call then Deny ''DB_DELETE_NO_WHERE'' ''DELETE without WHERE''
             else if tc_argsTainted call = Some True then
               Deny ''TAINTED_ARGS'' ''args derived from untrusted span''
             else if isNarrowed ctx \<and> isOutboundOrSideEffecting call then
               Deny ''NARROWED_OUTBOUND'' (''untrusted span in context '' @ EM_DASH @ '' outbound locked'')
             else if sandbox_level deps = DegradedNoGvisor \<and> isHighRiskShell call then
               Deny ''DEGRADED_SANDBOX'' (''gVisor unavailable '' @ EM_DASH @ '' high-risk tool denied'')
             else
               (let t = tierOf call in
                if t = 3 then Ask t (makeCard env call t)
                else if t = 2 then
                  (if granted deps call t then Allow else Ask t (makeCard env call t))
                else Allow)))"


section \<open>InputGuard\<close>

definition INJECTION_PATTERNS :: "rx list" where
  "INJECTION_PATTERNS =
     [rx_ci (rx_seq [rx_lit ''ignore'', rx_plus rx_sp, rx_opt (Seq (rx_lit ''all'') (rx_plus rx_sp)),
        rx_lit ''previous'', rx_plus rx_sp, rx_lit ''instructions'']),
      rx_ci (rx_seq [rx_lit ''new'', rx_plus rx_sp, rx_lit ''system'', Star rx_sp,
        rx_alt [rx_lit ''prompt'', rx_lit '':'']]),
      rx_ci (rx_lit ''exfiltrate'')]"

definition rx_markdown_image :: rx where
  "rx_markdown_image = rx_seq [rx_lit ''!['', Star (Cls (\<lambda>c. c \<noteq> CHR '']'')), rx_lit ''](''  ,
     Star (Cls (\<lambda>c. c \<noteq> CHR '')'')), rx_lit '')'']"

definition defang_text :: "string \<Rightarrow> string" where
  "defang_text s0 =
     (let s1 = rx_replace_all rx_markdown_image (\<lambda>_. ''[image removed]'') s0;
          s2 = rx_replace_all (rx_ci (rx_lit ''https://'')) (\<lambda>_. ''hxxps://'') s1;
          s3 = rx_replace_all (rx_ci (rx_lit ''http://'')) (\<lambda>_. ''hxxp://'') s2
      in foldl (\<lambda>s p. rx_replace_all p (\<lambda>m. ''[defanged] '' @ m) s) s3 INJECTION_PATTERNS)"

definition defang :: "context_span \<Rightarrow> context_span" where
  "defang sp = sp\<lparr>cs_text := defang_text (cs_text sp)\<rparr>"

definition rx_suspicious :: rx where
  "rx_suspicious = rx_ci (rx_alt [rx_lit ''password'', rx_lit ''secret'',
     rx_seq [rx_lit ''send'', rx_plus rx_sp, rx_lit ''all'', rx_plus rx_sp, rx_lit ''data'']])"

text \<open>An injected classifier answers \<open>None\<close> when its promise rejects.\<close>

definition classify :: "(context_span \<Rightarrow> injection_verdict option) option \<Rightarrow> context_span \<Rightarrow> injection_verdict" where
  "classify classifier sp =
     (case classifier of
        Some f \<Rightarrow> (case f sp of Some v \<Rightarrow> v | None \<Rightarrow> Suspicious)
      | None \<Rightarrow>
          if list_ex (\<lambda>p. rx_test p (cs_text sp)) INJECTION_PATTERNS then Injection
          else if rx_test rx_suspicious (cs_text sp) then Suspicious
          else Clean)"


section \<open>EgressGuard\<close>

record egress_deps =
  ed_allowlist :: "egress_entry list option"
  ed_proxyAvailable :: "bool option"
  ed_maxBodyBytes :: "nat option"

datatype egress_decision = EgressAllow | EgressDeny string

definition shannonEntropy :: "string \<Rightarrow> real" where
  "shannonEntropy s =
     (if s = [] then 0
      else sum_list (map (\<lambda>c. let p = real (count_list s c) / real (length s) in - (p * log 2 p)) (dedup s)))"

definition token_char :: "char \<Rightarrow> bool" where
  "token_char c \<longleftrightarrow> is_alnum c \<or> c = CHR ''_'' \<or> c = CHR ''-''"

definition JWT_SHAPE :: rx where
  "JWT_SHAPE = rx_seq [rx_lit ''eyJ'', rx_plus (Cls token_char), rx_lit ''.'', rx_plus (Cls token_char),
     rx_lit ''.'', rx_plus (Cls token_char)]"

definition SECRET_SHAPES :: "rx list" where
  "SECRET_SHAPES =
     [rx_ci (Seq (rx_lit ''sk_live_'') (rx_plus (Cls (\<lambda>c. is_lower c \<or> is_digit c)))),
      rx_seq [WordB, rx_lit ''AKIA'', rx_plus (Cls (\<lambda>c. is_upper c \<or> is_digit c \<or> c = CHR ''_''))],
      JWT_SHAPE]"

definition secret_shaped :: "string \<Rightarrow> bool" where
  "secret_shaped s = list_ex (\<lambda>p. rx_test p s) SECRET_SHAPES"

definition inspectBody :: "egress_deps \<Rightarrow> outbound_request \<Rightarrow> context_span list \<Rightarrow> egress_decision" where
  "inspectBody deps req ctx =
     (if ed_proxyAvailable deps = Some False then EgressDeny ''egress proxy unavailable''
      else
        (case find (\<lambda>e. ee_host e = or_host req) (case ed_allowlist deps of None \<Rightarrow> [] | Some es \<Rightarrow> es) of
           None \<Rightarrow> EgressDeny ''host not on egress allowlist''
         | Some entry \<Rightarrow>
             (let verb = toUpperCase (or_method req);
                  isRead = (verb \<in> set [''GET'', ''HEAD'']);
                  body = (case or_body req of None \<Rightarrow> [] | Some b \<Rightarrow> b);
                  maxBody = (case ed_maxBodyBytes deps of None \<Rightarrow> 1000000 | Some n \<Rightarrow> n);
                  query = (case or_queryString req of None \<Rightarrow> [] | Some q \<Rightarrow> q)
              in if \<not> list_ex (\<lambda>m. toUpperCase m = verb) (ee_methods entry) then
                   EgressDeny ''method not on host egress allowlist''
                 else if ee_mode entry = ReadOnly \<and> (\<not> isRead \<or> or_body req \<noteq> None) then
                   EgressDeny ''write to read-only destination''
                 else if length body > maxBody then EgressDeny ''body exceeds size cap''
                 else if length body > 256 \<and> shannonEntropy body > 11 / 2 then
                   EgressDeny ''high-entropy body (possible encrypted exfil)''
                 else if secret_shaped body then EgressDeny ''secret-shaped pattern in outbound body''
                 else if isNarrowed ctx \<and> query \<noteq> [] then
                   EgressDeny ''free-text query string while narrowed''
                 else EgressAllow)))"


section \<open>LethalTrifectaDetector\<close>

definition rx_private_data :: rx where
  "rx_private_data = rx_ci (rx_alt [rx_seq [rx_lit ''api'', rx_opt (Cls (\<lambda>c. c = CHR ''-'' \<or> c = CHR ''_'')),
     rx_lit ''key''], rx_seq [rx_lit ''.env'', WordB]])"

definition private_span :: "context_span \<Rightarrow> bool" where
  "private_span sp \<longleftrightarrow> secret_shaped (cs_text sp) \<or>
     rx_test rx_private_data (cs_text sp @ [CHR 0x0A] @ cs_source sp)"

definition trifecta_evaluate :: "tool_call \<Rightarrow> context_span list \<Rightarrow> bool \<times> trifecta_state" where
  "trifecta_evaluate call ctx =
     (let st = \<lparr>hasUntrustedContent = list_ex (\<lambda>sp. cs_provenance sp \<noteq> Operator) ctx,
                hasPrivateData = list_ex private_span ctx,
                hasOutboundChannel = isOutboundOrSideEffecting call\<rparr>
      in (hasUntrustedContent st \<and> hasPrivateData st \<and> hasOutboundChannel st, st))"

section \<open>The verdict as a denial followed by the autonomy gradient\<close>

text \<open>The deny checks in order. Neither the grants nor the card take part.\<close>

definition denied :: "policy_deps \<Rightarrow> tool_call \<Rightarrow> context_span list \<Rightarrow> bool" where
  "denied deps call ctx \<longleftrightarrow>
     \<not> policy_ready deps \<or> invalid_dynamic_policy call \<or> getprop (tc_args call) ''hookError'' = JBool True \<or>
     first_match HARD_DENY (normalizeHaystack call) \<noteq> None \<or> isUnboundedDelete call \<or>
     tc_argsTainted call = Some True \<or> (isNarrowed ctx \<and> isOutboundOrSideEffecting call) \<or>
     (sandbox_level deps = DegradedNoGvisor \<and> isHighRiskShell call)"

lemma evaluate_denied: "denied deps call ctx \<Longrightarrow> \<exists>rule reason. evaluate env deps call ctx = Deny rule reason"
  by (auto simp: evaluate_def denied_def split: option.splits)

lemma evaluate_gradient:
  "\<not> denied deps call ctx \<Longrightarrow> evaluate env deps call ctx =
     (if tierOf call = 3 \<or> (tierOf call = 2 \<and> \<not> granted deps call 2)
      then Ask (tierOf call) (makeCard env call (tierOf call)) else Allow)"
  by (auto simp: evaluate_def denied_def Let_def)

lemma evaluate_deny_iff: "(\<exists>rule reason. evaluate env deps call ctx = Deny rule reason) \<longleftrightarrow> denied deps call ctx"
  using evaluate_denied evaluate_gradient by (metis verdict.distinct(1) verdict.distinct(7))

lemma denied_grants: "denied (deps\<lparr>pd_grants := g, pd_binding := b\<rparr>) call ctx = denied deps call ctx"
  by (simp add: denied_def policy_ready_def sandbox_level_def)

lemma isNarrowed_mono: "isNarrowed ctx \<Longrightarrow> set ctx \<subseteq> set ctx' \<Longrightarrow> isNarrowed ctx'"
  by (auto simp: isNarrowed_def list_ex_iff)

lemma denied_mono: "denied deps call ctx \<Longrightarrow> set ctx \<subseteq> set ctx' \<Longrightarrow> denied deps call ctx'"
  using isNarrowed_mono by (auto simp: denied_def)

lemma first_match_None: "first_match rules s = None \<longleftrightarrow> (\<forall>(i, p) \<in> set rules. \<not> rx_test p s)"
  by (induction rules s rule: first_match.induct) auto

lemma name_tier_range: "name_tier t \<in> {0, 2, 3}"
  by (simp add: name_tier_def)

lemma tierOf_range: "\<not> invalid_dynamic_policy call \<Longrightarrow> tierOf call \<le> 3"
  using name_tier_range [of "tc_tool call"]
  by (auto simp: tierOf_def invalid_dynamic_policy_def split: jv.splits)


section \<open>What the haystack shows of an argument\<close>

definition json_plain :: "char \<Rightarrow> bool" where
  "json_plain c \<longleftrightarrow> json_escape c = [c]"

lemma json_plain_text: "\<forall>c \<in> set w. json_plain c \<Longrightarrow> concat (map json_escape w) = w"
  by (induction w) (auto simp: json_plain_def)

lemma sublist_concat: "x \<in> set xs \<Longrightarrow> sublist x (concat xs)"
  by (induction xs) (auto simp: sublist_append)

lemma sublist_js_join: "x \<in> set xs \<Longrightarrow> sublist x (js_join sep xs)"
proof (induction xs rule: induct_list012)
  case (3 y z zs)
  then show ?case by (auto simp: sublist_append js_join_Cons)
qed auto

lemma sublist_of_member: "(k, Some t) \<in> set kvs \<Longrightarrow> sublist t (json_object kvs)"
proof -
  assume m: "(k, Some t) \<in> set kvs"
  have "sublist t (json_string k @ '':'' @ t)"
    using sublist_mid [of t t "json_string k @ '':''" "[]"] by simp
  moreover have "json_string k @ '':'' @ t \<in> set (concat (map json_member kvs))"
    using m by (force simp: json_member_def)
  ultimately have "sublist t (js_join '','' (concat (map json_member kvs)))"
    using sublist_js_join sublist_order.order_trans by blast
  then show ?thesis unfolding json_object_def by (rule sublist_mid)
qed

lemma haystack_shows:
  assumes arg: "(k, JStr (a @ w @ b)) \<in> set (tc_args call)" and plain: "\<forall>c \<in> set w. json_plain c"
    and nopct: "CHR ''%'' \<notin> set (toLowerCase (tc_tool call @ '' '' @ json_text (JObj (tc_args call))))"
  shows "sublist (toLowerCase w) (normalizeHaystack call)"
proof -
  have "sublist w (concat (map json_escape (a @ w @ b)))"
    using sublist_mid [of w w] json_plain_text [OF plain] by simp
  then have "sublist w (json_string (a @ w @ b))"
    unfolding json_string_def by (rule sublist_mid)
  moreover have "(k, Some (json_string (a @ w @ b))) \<in> set (map (map_prod id stringify) (tc_args call))"
    using arg by (force simp: image_iff)
  then have "sublist (json_string (a @ w @ b)) (json_text (JObj (tc_args call)))"
    by (simp add: json_text_def sublist_of_member)
  ultimately have "sublist w (tc_tool call @ '' '' @ json_text (JObj (tc_args call)))"
    by (meson sublist_append_leftI sublist_order.order_trans)
  then obtain x y where "tc_tool call @ '' '' @ json_text (JObj (tc_args call)) = x @ w @ y"
    by (auto simp: sublist_def)
  then have "sublist (toLowerCase w) (toLowerCase (tc_tool call @ '' '' @ json_text (JObj (tc_args call))))"
    unfolding toLowerCase_def by (metis map_append sublist_appendI)
  then show ?thesis using decode_plain [OF nopct] by (simp add: normalizeHaystack_def Let_def)
qed

lemma rx_tf_destroy_hit:
  assumes "u \<noteq> []" and "\<forall>c \<in> set u. is_space c"
  shows "rx_test rx_tf_destroy (a @ ''terraform'' @ u @ ''destroy'' @ b)"
proof (rule rx_testI)
  let ?p = "if a = [] then None else Some (last a)"
  have "(Some (CHR ''m''), u @ ''destroy'' @ b) \<in> set (rx_ends (rx_lit ''terraform'') (?p, ''terraform'' @ u @ ''destroy'' @ b))"
    using ends_litI [of "''terraform''" ?p "u @ ''destroy'' @ b"] by simp
  moreover have "(Some (last u), ''destroy'' @ b) \<in> set (rx_ends (rx_plus rx_sp) (Some (CHR ''m''), u @ ''destroy'' @ b))"
    by (rule ends_plus_Cls [OF assms])
  moreover have "(Some (CHR ''y''), b) \<in> set (rx_ends (rx_lit ''destroy'') (Some (last u), ''destroy'' @ b))"
    using ends_litI [of "''destroy''" "Some (last u)" b] by simp
  ultimately show "(Some (CHR ''y''), b) \<in> set (rx_ends rx_tf_destroy (?p, ''terraform'' @ u @ ''destroy'' @ b))"
    unfolding rx_tf_destroy_def rx_seq.simps by (blast intro: ends_SeqI)
qed

lemma lower_plain: "is_lower (to_lower c) \<Longrightarrow> json_plain c"
proof -
  assume "is_lower (to_lower c)"
  then have "is_upper c \<or> is_lower c" by (auto simp: to_lower_def split: if_splits)
  then have r: "65 \<le> (of_char c :: nat)" "(of_char c :: nat) \<noteq> 92"
    unfolding is_lower_def is_upper_def by linarith+
  have "c \<noteq> CHR 0x5C" using r(2) by auto
  moreover have "c \<notin> {CHR 0x22, CHR 0x08, CHR 0x0C, CHR 0x0A, CHR 0x0D, CHR 0x09}" using r(1) by auto
  ultimately show ?thesis using r(1) by (simp add: json_plain_def json_escape_def)
qed

lemma text_plain: "\<forall>c \<in> set (toLowerCase w). is_lower c \<Longrightarrow> \<forall>c \<in> set w. json_plain c"
  by (auto simp: toLowerCase_def lower_plain)

lemma space_plain: "json_plain (CHR '' '')"
  by (simp add: json_plain_def json_escape_def)

lemma toLowerCase_spaces: "\<forall>c \<in> set u. c = CHR '' '' \<Longrightarrow> toLowerCase u = u"
  by (induction u) (auto simp: toLowerCase_def to_lower_def is_upper_def)

lemma toLowerCase_append: "toLowerCase (a @ b) = toLowerCase a @ toLowerCase b"
  by (simp add: toLowerCase_def)

lemma terraform_destroy_denied:
  assumes arg: "(k, JStr (a @ (t @ u @ d) @ b)) \<in> set (tc_args call)"
    and t: "toLowerCase t = ''terraform''" and d: "toLowerCase d = ''destroy''"
    and u: "u \<noteq> []" "\<forall>c \<in> set u. c = CHR '' ''"
    and nopct: "CHR ''%'' \<notin> set (toLowerCase (tc_tool call @ '' '' @ json_text (JObj (tc_args call))))"
  shows "denied deps call ctx"
proof -
  have "\<forall>c \<in> set (t @ u @ d). json_plain c"
    using text_plain [of t] text_plain [of d] t d u space_plain by (auto simp: is_lower_def)
  from haystack_shows [OF arg this nopct] obtain x y
    where "normalizeHaystack call = x @ toLowerCase (t @ u @ d) @ y"
    by (auto simp: sublist_def)
  then have "normalizeHaystack call = x @ ''terraform'' @ u @ ''destroy'' @ y"
    by (simp add: toLowerCase_append t d toLowerCase_spaces [OF u(2)])
  moreover have "is_space (CHR '' '')" by (simp add: is_space_def)
  then have "\<forall>c \<in> set u. is_space c" using u(2) by metis
  ultimately have "rx_test rx_tf_destroy (normalizeHaystack call)"
    using rx_tf_destroy_hit [OF u(1)] by simp
  then have "first_match HARD_DENY (normalizeHaystack call) \<noteq> None"
    unfolding first_match_None HARD_DENY_def by auto
  then show ?thesis by (simp add: denied_def)
qed


section \<open>Defanged text holds no live URL\<close>

lemma case_match: "\<not> is_upper x \<Longrightarrow> (to_lower c = x \<or> to_upper c = x) \<longleftrightarrow> to_lower c = x"
proof (cases "is_lower c")
  case True
  then have r: "97 \<le> (of_char c :: nat)" "(of_char c :: nat) \<le> 122"
    by (auto simp: is_lower_def)
  then have "((of_char c :: nat) - 32) mod 256 = (of_char c :: nat) - 32" by (intro mod_less) linarith
  with True r have "is_upper (to_upper c)" by (simp add: to_upper_def is_upper_def) arith
  moreover assume "\<not> is_upper x"
  ultimately show ?thesis by auto
next
  case False
  then have "to_upper c = c" by (simp add: to_upper_def)
  moreover assume "\<not> is_upper x"
  ultimately show ?thesis by (auto simp: to_lower_def)
qed

lemma ci_match:
  "\<forall>c \<in> set w. \<not> is_upper c \<Longrightarrow> rx_ends (rx_ci (rx_lit w)) (pv, s) \<noteq> [] \<longleftrightarrow> prefix w (toLowerCase s)"
proof (induction w arbitrary: pv s rule: rx_lit.induct)
  case 1
  then show ?case by simp
next
  case (2 c)
  then show ?case by (cases s) (auto simp: rx_char_def toLowerCase_def case_match)
next
  case (3 c d cs)
  then show ?case by (cases s) (auto simp: rx_char_def toLowerCase_def case_match)
qed

definition consuming :: "rx \<Rightarrow> bool" where
  "consuming p \<longleftrightarrow> (\<forall>pv s. \<forall>q \<in> set (rx_ends p (pv, s)). length (snd q) < length s)"

lemma consuming_Nil: "consuming p \<Longrightarrow> rx_ends p (pv, []) = []"
  unfolding consuming_def by (metis list.set_intros(1) list.size(3) neq_Nil_conv not_less_zero)

lemma ci_lit_length: "q \<in> set (rx_ends (rx_ci (rx_lit w)) (pv, s)) \<Longrightarrow> length s = length w + length (snd q)"
proof (induction w arbitrary: pv s rule: rx_lit.induct)
  case (2 c)
  then show ?case by (cases s) (auto simp: rx_char_def split: if_splits)
next
  case (3 c d cs)
  then show ?case by (cases s) (force simp: rx_char_def split: if_splits)+
qed simp

lemma ci_lit_consuming: "w \<noteq> [] \<Longrightarrow> consuming (rx_ci (rx_lit w))"
  by (auto simp: consuming_def dest!: ci_lit_length)

text \<open>
  A replacement text that starts with the first character of \<open>w\<close> and that \<open>w\<close> can neither lie in nor
  straddle; the first character of \<open>w\<close> occurs in \<open>w\<close> once.
\<close>

definition shields :: "string \<Rightarrow> string \<Rightarrow> bool" where
  "shields r w \<longleftrightarrow> (\<exists>h r' t. r = h # r' \<and> w = h # t \<and> h \<notin> set t) \<and> toLowerCase r = r \<and>
     (\<forall>a b. sublist w (a @ r @ b) \<longrightarrow> sublist w a \<or> sublist w b)"

lemma repl_tail_prefix:
  assumes "consuming p" and "toLowerCase (h # r') = h # r'"
  shows "h \<notin> set t \<Longrightarrow> prefix t (toLowerCase (rx_repl p (\<lambda>_. h # r') pv 0 s)) \<Longrightarrow> prefix t (toLowerCase s)"
proof (induction s arbitrary: pv t)
  case Nil
  with consuming_Nil [OF assms(1)] show ?case by (simp add: toLowerCase_def)
next
  case (Cons c cs)
  have ne: "c # cs \<noteq> []" by simp
  show ?case
  proof (cases rule: rx_repl_step [OF ne, of p pv "\<lambda>_. h # r'"])
    case 1
    with Cons show ?thesis by (cases t) (auto simp: toLowerCase_def)
  next
    case (2 q)
    with assms(1) show ?thesis by (fastforce simp: consuming_def)
  next
    case (3 n pv')
    with Cons.prems assms(2) show ?thesis by (cases t) (auto simp: toLowerCase_def)
  qed
qed

lemma repl_shields:
  assumes p: "consuming p" and sh: "shields r w"
  shows "(\<And>v pv. suffix v s \<Longrightarrow> rx_ends p (pv, v) = [] \<Longrightarrow> \<not> prefix w (toLowerCase v)) \<Longrightarrow>
    \<not> sublist w (toLowerCase (rx_repl p (\<lambda>_. r) pv 0 s))"
proof (induction "length s" arbitrary: s pv rule: less_induct)
  case less
  obtain h r' t where hr: "r = h # r'" "w = h # t" "h \<notin> set t" and low: "toLowerCase r = r"
    and bl: "\<And>a b. sublist w (a @ r @ b) \<Longrightarrow> sublist w a \<or> sublist w b"
    using sh unfolding shields_def by blast
  have IH: "\<not> sublist w (toLowerCase (rx_repl p (\<lambda>_. r) pv' 0 s'))" if "suffix s' s" "length s' < length s" for s' pv'
    using less.hyps [OF that(2)] less.prems that(1) by (meson suffix_order.order_trans)
  show ?case
  proof (cases s)
    case Nil
    with consuming_Nil [OF p] hr show ?thesis by (simp add: toLowerCase_def)
  next
    case (Cons c cs)
    then have ne: "s \<noteq> []" by simp
    show ?thesis
    proof (cases rule: rx_repl_step [OF ne, of p pv "\<lambda>_. r"])
      case 1
      have "\<not> prefix w (toLowerCase (c # rx_repl p (\<lambda>_. r) (Some c) 0 cs))"
      proof
        assume "prefix w (toLowerCase (c # rx_repl p (\<lambda>_. r) (Some c) 0 cs))"
        then have "to_lower c = h" "prefix t (toLowerCase cs)"
          using repl_tail_prefix [OF p, of h r' t "Some c" cs] hr low by (auto simp: toLowerCase_def)
        then have "prefix w (toLowerCase s)" using hr Cons by (simp add: toLowerCase_def)
        with less.prems [of s pv] 1 show False by simp
      qed
      moreover have "\<not> sublist w (toLowerCase (rx_repl p (\<lambda>_. r) (Some c) 0 cs))"
        using IH [of cs] Cons by (simp add: suffix_ConsI)
      ultimately show ?thesis using 1 Cons by (simp add: toLowerCase_def sublist_Cons_right)
    next
      case (2 q)
      with p show ?thesis by (fastforce simp: consuming_def)
    next
      case (3 n pv')
      then have "\<not> sublist w (toLowerCase (rx_repl p (\<lambda>_. r) pv' 0 (drop n s)))"
        using IH [of "drop n s"] by (simp add: suffix_drop)
      with bl [of "[]" "toLowerCase (rx_repl p (\<lambda>_. r) pv' 0 (drop n s))"] show ?thesis
        using 3 low hr(2) by (auto simp: toLowerCase_append)
    qed
  qed
qed

text \<open>The visible mark in front of an injection phrase only takes texts apart.\<close>

definition MARK :: string where "MARK = ''[defanged] ''"

definition unmarked :: "string \<Rightarrow> bool" where
  "unmarked w \<longleftrightarrow> w \<noteq> [] \<and> CHR ''['' \<notin> set w \<and> CHR '']'' \<notin> set w \<and> CHR '' '' \<notin> set w \<and> \<not> sublist w ''defanged''"

lemma mark_apart:
  assumes "unmarked w" and "sublist w (a @ MARK @ b)"
  shows "sublist w a \<or> sublist w b"
proof -
  have e: "a @ MARK @ b = a @ CHR ''['' # ''defanged'' @ CHR '']'' # [] @ CHR '' '' # b"
    by (simp add: MARK_def)
  have c: "CHR ''['' \<notin> set w" "CHR '']'' \<notin> set w" "CHR '' '' \<notin> set w" and n: "w \<noteq> []" "\<not> sublist w ''defanged''"
    using assms(1) by (auto simp: unmarked_def)
  show ?thesis
    using assms(2) n unfolding e by (simp only: sublist_sep [OF c(1)] sublist_sep [OF c(2)] sublist_sep [OF c(3)]) auto
qed

lemma toLowerCase_mark: "toLowerCase MARK = MARK"
  by (simp add: MARK_def toLowerCase_def to_lower_def is_upper_def)

lemma mark_free:
  assumes "unmarked w" and "\<not> sublist w (toLowerCase s)"
  shows "\<not> sublist w (toLowerCase (rx_replace_all p (\<lambda>m. ''[defanged] '' @ m) s))"
proof -
  have "sublist w (map to_lower (a @ MARK @ b)) \<Longrightarrow> sublist w (map to_lower a) \<or> sublist w (map to_lower b)" for a b
    using mark_apart [OF assms(1), of "map to_lower a" "map to_lower b"] toLowerCase_mark
    by (simp add: toLowerCase_def)
  then have "\<not> sublist w (map to_lower ([] @ rx_repl p (\<lambda>m. MARK @ m) None 0 s))"
    using assms by (intro repl_apart) (auto simp: toLowerCase_def unmarked_def)
  then show ?thesis by (simp add: toLowerCase_def rx_replace_all_def MARK_def)
qed

lemma mark_all_free:
  "unmarked w \<Longrightarrow> \<not> sublist w (toLowerCase s) \<Longrightarrow>
     \<not> sublist w (toLowerCase (foldl (\<lambda>s p. rx_replace_all p (\<lambda>m. ''[defanged] '' @ m) s) s ps))"
  by (induction ps arbitrary: s) (simp_all add: mark_free del: append.simps)

lemma sublist_snocD: "sublist w (a @ [c]) \<Longrightarrow> w \<noteq> [] \<Longrightarrow> last w \<noteq> c \<Longrightarrow> sublist w a"
  by (auto simp: sublist_snoc suffix_snoc)

lemma sublist_dropD: "sublist w (u @ b) \<Longrightarrow> w = h # t \<Longrightarrow> h \<notin> set u \<Longrightarrow> sublist w b"
  by (induction u) (auto simp: sublist_Cons_right)

lemma shieldsI:
  assumes "h \<notin> set t" and "t \<noteq> []" and "x \<notin> set (h # t)" and "h \<notin> set r'" and "toLowerCase (h # x # r') = h # x # r'"
  shows "shields (h # x # r') (h # t)"
proof -
  have "sublist (h # t) a \<or> sublist (h # t) b" if "sublist (h # t) (a @ (h # x # r') @ b)" for a b
  proof -
    have "sublist (h # t) ((a @ [h]) @ x # (r' @ b))" using that by simp
    then consider "sublist (h # t) (a @ [h])" | "sublist (h # t) (r' @ b)"
      using sublist_sep [OF assms(3)] by blast
    then show ?thesis
    proof cases
      case 1
      have "last (h # t) \<noteq> h" using assms(1,2) by (metis last_ConsR last_in_set)
      with 1 show ?thesis using sublist_snocD [of "h # t" a h] by simp
    next
      case 2
      with assms(4) show ?thesis using sublist_dropD [of "h # t" r' b h t] by simp
    qed
  qed
  moreover have "\<exists>h' u t'. h # x # r' = h' # u \<and> h # t = h' # t' \<and> h' \<notin> set t'" using assms(1) by simp
  ultimately show ?thesis unfolding shields_def using assms(5) by simp
qed

lemma shields_url:
  "shields ''hxxp://'' ''http://''" "shields ''hxxp://'' ''https://''" "shields ''hxxps://'' ''https://''"
  by (rule shieldsI; simp add: toLowerCase_def to_lower_def is_upper_def)+

definition live_url :: "string \<Rightarrow> bool" where
  "live_url s \<longleftrightarrow> str_includes (toLowerCase s) ''http://'' \<or> str_includes (toLowerCase s) ''https://''"

lemma replace_ci_free:
  assumes "shields r w" and "\<forall>c \<in> set p. \<not> is_upper c" and "p \<noteq> []"
    and "p = w \<or> \<not> sublist w (toLowerCase s)"
  shows "\<not> sublist w (toLowerCase (rx_replace_all (rx_ci (rx_lit p)) (\<lambda>_. r) s))"
  unfolding rx_replace_all_def
proof (rule repl_shields [OF ci_lit_consuming [OF assms(3)] assms(1)])
  fix v pv assume v: "suffix v s" and n: "rx_ends (rx_ci (rx_lit p)) (pv, v) = []"
  have "\<not> prefix p (toLowerCase v)" using ci_match [OF assms(2), of pv v] n by simp
  moreover have "sublist (toLowerCase v) (toLowerCase s)"
    using v by (auto simp: suffix_def toLowerCase_append)
  ultimately show "\<not> prefix w (toLowerCase v)"
    using assms(4) prefix_imp_sublist sublist_order.order_trans by blast
qed

lemma defang_text_no_url: "\<not> live_url (defang_text s)"
proof -
  define s2 where "s2 = rx_replace_all (rx_ci (rx_lit ''https://'')) (\<lambda>_. ''hxxps://'')
    (rx_replace_all rx_markdown_image (\<lambda>_. ''[image removed]'') s)"
  define s3 where "s3 = rx_replace_all (rx_ci (rx_lit ''http://'')) (\<lambda>_. ''hxxp://'') s2"
  have low: "\<forall>c \<in> set ''http://''. \<not> is_upper c" "\<forall>c \<in> set ''https://''. \<not> is_upper c"
    by (simp_all add: is_upper_def)
  have "\<not> sublist ''https://'' (toLowerCase s2)"
    unfolding s2_def by (rule replace_ci_free [OF shields_url(3) low(2)]) simp_all
  then have "\<not> sublist ''https://'' (toLowerCase s3)"
    unfolding s3_def by (intro replace_ci_free [OF shields_url(2) low(1)]) simp_all
  moreover have "\<not> sublist ''http://'' (toLowerCase s3)"
    unfolding s3_def by (rule replace_ci_free [OF shields_url(1) low(1)]) simp_all
  moreover have "unmarked ''http://''" "unmarked ''https://''"
    by (simp_all add: unmarked_def sublist_Cons_right)
  ultimately show ?thesis
    unfolding live_url_def str_includes_iff defang_text_def Let_def s2_def [symmetric] s3_def [symmetric]
    using mark_all_free by blast
qed

section \<open>Concrete inputs\<close>

definition demo_env :: card_env where
  "demo_env = \<lparr>ce_H = id, ce_parseURL = \<lambda>_. None, ce_nonce = ''nonce'', ce_now = 0\<rparr>"

definition demo_deps :: policy_deps where
  "demo_deps = \<lparr>pd_ready = None, pd_sandbox = None, pd_grants = None, pd_binding = JUndef\<rparr>"

definition demo_call :: "string \<Rightarrow> (string \<times> jv) list \<Rightarrow> tool_call" where
  "demo_call tool args = \<lparr>tc_tool = tool, tc_args = args, tc_argsTainted = None, tc_policyTier = JUndef, tc_outboundSink = JUndef\<rparr>"

definition demo_web :: context_span where
  "demo_web = \<lparr>cs_text = ''page'', cs_provenance = Untrusted, cs_source = ''web''\<rparr>"


section \<open>Properties of the policy\<close>

text \<open>
  C1: a call is allowed outright exactly when the rule set is loaded, the code-owned policy fields are
  well-formed, no hook failed, no \<open>HARD_DENY\<close> pattern matches the normalised haystack, no argument
  deletes without bound, no argument is tainted, an untrusted context does not meet an outbound call, a
  degraded sandbox does not meet a network shell, and the tier is 0 or 1, or 2 with a matching grant.
\<close>

theorem evaluate_allow_iff:
  "evaluate env deps call ctx = Allow \<longleftrightarrow>
     policy_ready deps \<and> \<not> invalid_dynamic_policy call \<and> getprop (tc_args call) ''hookError'' \<noteq> JBool True \<and>
     list_all (\<lambda>(i, p). \<not> rx_test p (normalizeHaystack call)) HARD_DENY \<and> \<not> isUnboundedDelete call \<and>
     tc_argsTainted call \<noteq> Some True \<and> \<not> (isNarrowed ctx \<and> isOutboundOrSideEffecting call) \<and>
     \<not> (sandbox_level deps = DegradedNoGvisor \<and> isHighRiskShell call) \<and>
     (tierOf call < 2 \<or> tierOf call = 2 \<and> granted deps call 2)"
proof (cases "denied deps call ctx")
  case True
  with evaluate_denied [OF True, of env] show ?thesis
    by (auto simp: denied_def first_match_None list_all_iff)
next
  case False
  then have "tierOf call \<le> 3" by (intro tierOf_range) (simp add: denied_def)
  then have "tierOf call = 3 \<or> (tierOf call = 2 \<and> \<not> granted deps call 2) \<longleftrightarrow>
      \<not> (tierOf call < 2 \<or> tierOf call = 2 \<and> granted deps call 2)"
    by linarith
  with False show ?thesis
    unfolding evaluate_gradient [OF False] by (auto simp: denied_def first_match_None list_all_iff)
qed

text \<open>
  C11: whatever the grant store holds, it changes the verdict in one way only: a confirmation asked for a
  tier-2 call becomes an allow. A denial and a tier-3 confirmation are untouched by every grant.
\<close>

theorem grants_only_lift_tier2:
  "evaluate env (deps\<lparr>pd_grants := g, pd_binding := b\<rparr>) call ctx = evaluate env (deps\<lparr>pd_grants := None\<rparr>) call ctx \<or>
   evaluate env (deps\<lparr>pd_grants := g, pd_binding := b\<rparr>) call ctx = Allow \<and>
   evaluate env (deps\<lparr>pd_grants := None\<rparr>) call ctx = Ask 2 (makeCard env call 2)"
proof -
  have pr: "policy_ready (deps\<lparr>pd_grants := g, pd_binding := b\<rparr>) = policy_ready (deps\<lparr>pd_grants := None\<rparr>)"
    "sandbox_level (deps\<lparr>pd_grants := g, pd_binding := b\<rparr>) = sandbox_level (deps\<lparr>pd_grants := None\<rparr>)"
    by (simp_all add: policy_ready_def sandbox_level_def)
  have "\<not> granted (deps\<lparr>pd_grants := None\<rparr>) call t" for t by (simp add: granted_def)
  then show ?thesis unfolding evaluate_def pr Let_def by (auto split: option.split)
qed

text \<open>
  C13: adding spans to the context never relaxes a verdict: it stays the same or becomes a denial.
\<close>

theorem evaluate_context_antitone:
  assumes "set ctx \<subseteq> set ctx'"
  shows "evaluate env deps call ctx' = evaluate env deps call ctx \<or>
    (\<exists>rule reason. evaluate env deps call ctx' = Deny rule reason)"
proof (cases "denied deps call ctx'")
  case True
  then show ?thesis using evaluate_denied by blast
next
  case False
  then have "\<not> denied deps call ctx" using denied_mono assms by blast
  with False show ?thesis by (simp add: evaluate_gradient)
qed

theorem evaluate_context_antitone_witness:
  "evaluate demo_env demo_deps (demo_call ''http.post'' []) [demo_web] = evaluate demo_env demo_deps (demo_call ''http.post'' []) [] \<or>
    (\<exists>rule reason. evaluate demo_env demo_deps (demo_call ''http.post'' []) [demo_web] = Deny rule reason)"
  by (rule evaluate_context_antitone) simp



text \<open>
  When the lethal-trifecta detector fires (untrusted content, private data and an outbound channel
  in the same turn), the policy denies the call.
\<close>

theorem trifecta_is_denied:
  assumes "fst (trifecta_evaluate call ctx)"
  shows "\<exists>rule reason. evaluate env deps call ctx = Deny rule reason"
proof (rule evaluate_denied)
  from assms show "denied deps call ctx"
    by (simp add: trifecta_evaluate_def denied_def isNarrowed_def)
qed

theorem trifecta_is_denied_witness:
  "fst (trifecta_evaluate (demo_call ''http.post'' []) [demo_web\<lparr>cs_text := ''my api_key''\<rparr>]) \<and>
   (\<exists>rule reason. evaluate demo_env demo_deps (demo_call ''http.post'' []) [demo_web\<lparr>cs_text := ''my api_key''\<rparr>] = Deny rule reason)"
proof -
  have "fst (trifecta_evaluate (demo_call ''http.post'' []) [demo_web\<lparr>cs_text := ''my api_key''\<rparr>])"
    by code_simp
  with trifecta_is_denied [OF this] show ?thesis by blast
qed

text \<open>
  C6: defanged text holds no \<open>http://\<close> or \<open>https://\<close> in any capitalisation, and the provenance and
  the source of the span are the ones it came with.
\<close>

theorem defang_neutralises:
  "\<not> live_url (cs_text (defang sp)) \<and> cs_provenance (defang sp) = cs_provenance sp \<and> cs_source (defang sp) = cs_source sp"
  by (simp add: defang_def defang_text_no_url)

text \<open>
  An outbound request leaves only through an available proxy, to a host and with a method on the
  allowlist; a read-only destination gets neither a write method nor a body; the body is within the size
  cap, is not a long high-entropy text and shows no secret shape; a narrowed context sends no query.
\<close>

theorem egress_allow_iff:
  "inspectBody deps req ctx = EgressAllow \<longleftrightarrow>
     ed_proxyAvailable deps \<noteq> Some False \<and>
     (\<exists>entry es body. ed_allowlist deps = Some es \<and> find (\<lambda>e. ee_host e = or_host req) es = Some entry \<and>
        body = (case or_body req of None \<Rightarrow> [] | Some b \<Rightarrow> b) \<and>
        toUpperCase (or_method req) \<in> set (map toUpperCase (ee_methods entry)) \<and>
        \<not> (ee_mode entry = ReadOnly \<and> \<not> (or_body req = None \<and> toUpperCase (or_method req) \<in> {''GET'', ''HEAD''})) \<and>
        length body \<le> (case ed_maxBodyBytes deps of None \<Rightarrow> 1000000 | Some n \<Rightarrow> n) \<and>
        \<not> (256 < length body \<and> 11 / 2 < shannonEntropy body) \<and> \<not> secret_shaped body \<and>
        \<not> (isNarrowed ctx \<and> \<not> (or_queryString req = None \<or> or_queryString req = Some [])))"
proof (cases "ed_allowlist deps")
  case None
  then show ?thesis by (simp add: inspectBody_def)
next
  case (Some es)
  show ?thesis
  proof (cases "find (\<lambda>e. ee_host e = or_host req) es")
    case None
    with Some show ?thesis by (simp add: inspectBody_def)
  next
    case found: (Some entry)
    have q: "(case or_queryString req of None \<Rightarrow> [] | Some q \<Rightarrow> q) \<noteq> [] \<longleftrightarrow>
        \<not> (or_queryString req = None \<or> or_queryString req = Some [])"
      by (cases "or_queryString req") auto
    have m: "list_ex (\<lambda>m. toUpperCase m = x) ms \<longleftrightarrow> x \<in> set (map toUpperCase ms)" for x ms
      by (auto simp: list_ex_iff)
    have "x \<in> set [''GET'', ''HEAD''] \<longleftrightarrow> x \<in> {''GET'', ''HEAD''}" for x by simp
    then show ?thesis
      unfolding inspectBody_def Let_def q m using Some found by (simp del: set_map map_map) blast
  qed
qed

text \<open>
  The serialised haystack spells a tabulator as the two characters of its JSON escape, so the blank
  class of the deny patterns does not see it: the first command is denied, the second is not.
\<close>

lemma tab_hides_rm_rf:
  "first_match HARD_DENY (normalizeHaystack (demo_call ''bash'' [(''cmd'', JStr ''rm -rf /'')])) = Some ''FS_DESTRUCTION_RM_RF''"
  "first_match HARD_DENY (normalizeHaystack (demo_call ''bash'' [(''cmd'', JStr (''rm'' @ [CHR 0x09] @ ''-rf /''))])) = None"
  by code_simp+

end
