(* ===== verification/Hash_Chain.thy ===== *)
theory Hash_Chain
  imports Js_Json
begin

text \<open>
  The contract of a hash-chained append-only log, stated once: the audit journal
  (\<open>observability/index.ts\<close>) and the forget-list (\<open>memory/index.ts\<close>) are both instances. The hash
  function is a parameter. Tamper evidence is proved as a reduction: two accepted logs of the same
  length with the same tip agree entry by entry, or some position of the two logs exhibits a
  collision of the hash function on the two texts that were hashed there.
\<close>

locale hash_chain =
  fixes chain_ok :: "string \<Rightarrow> 'e list \<Rightarrow> bool"
    and link_ok :: "string \<Rightarrow> 'e \<Rightarrow> bool"
    and next_link :: "'e \<Rightarrow> string"
  assumes chain_ok_Nil: "chain_ok p []"
    and chain_ok_Cons: "chain_ok p (e # es) \<longleftrightarrow> link_ok p e \<and> chain_ok (next_link e) es"
begin

definition tip :: "string \<Rightarrow> 'e list \<Rightarrow> string" where
  "tip p es = (if es = [] then p else next_link (last es))"

lemma tip_Nil [simp]: "tip p [] = p"
  by (simp add: tip_def)

lemma tip_Cons [simp]: "tip p (e # es) = tip (next_link e) es"
  by (simp add: tip_def)

lemma tip_snoc [simp]: "tip p (es @ [e]) = next_link e"
  by (simp add: tip_def)

lemma chain_ok_append: "chain_ok p (es @ fs) \<longleftrightarrow> chain_ok p es \<and> chain_ok (tip p es) fs"
  by (induction es arbitrary: p) (auto simp: chain_ok_Nil chain_ok_Cons)

lemma chain_ok_snoc: "chain_ok p (es @ [e]) \<longleftrightarrow> chain_ok p es \<and> link_ok (tip p es) e"
  by (simp add: chain_ok_append chain_ok_Cons chain_ok_Nil)

lemma chain_ok_take: "chain_ok p es \<Longrightarrow> chain_ok p (take n es)"
  by (metis append_take_drop_id chain_ok_append)

lemma chain_broken_at:
  assumes "chain_ok p es" and "i < length es"
  shows "link_ok (tip p (take i es)) (es ! i)"
  using assms
proof (induction es arbitrary: p i)
  case Nil
  then show ?case by simp
next
  case (Cons e es)
  then show ?case by (cases i) (auto simp: chain_ok_Cons)
qed

end

locale tamper_evident_chain = hash_chain chain_ok link_ok next_link
  for chain_ok :: "string \<Rightarrow> 'e list \<Rightarrow> bool"
    and link_ok :: "string \<Rightarrow> 'e \<Rightarrow> bool"
    and next_link :: "'e \<Rightarrow> string" +
  fixes H :: "string \<Rightarrow> string"
    and preimage :: "'e \<Rightarrow> string"
    and body :: "'e \<Rightarrow> 'b"
    and clean :: "'e \<Rightarrow> bool"
  assumes next_is_hash: "link_ok p e \<Longrightarrow> next_link e = H (preimage e)"
    and preimage_inj: "link_ok p e \<Longrightarrow> link_ok q f \<Longrightarrow> clean e \<Longrightarrow> clean f \<Longrightarrow>
      preimage e = preimage f \<Longrightarrow> p = q \<and> body e = body f"
begin

lemma same_tip_same_log:
  assumes "length es = length fs" and "chain_ok p es" and "chain_ok q fs"
    and "\<forall>e \<in> set es. clean e" and "\<forall>f \<in> set fs. clean f"
    and "tip p es = tip q fs" and "es \<noteq> []"
  shows "(p = q \<and> map body es = map body fs) \<or>
    (\<exists>i < length es. preimage (es ! i) \<noteq> preimage (fs ! i) \<and>
        H (preimage (es ! i)) = H (preimage (fs ! i)))"
  using assms
proof (induction es fs arbitrary: p q rule: list_induct2)
  case Nil
  then show ?case by simp
next
  case (Cons e es f fs)
  have le: "link_ok p e" and lf: "link_ok q f"
    and ces: "chain_ok (next_link e) es" and cfs: "chain_ok (next_link f) fs"
    using Cons.prems by (auto simp: chain_ok_Cons)
  have heads: "?case" if eq: "next_link e = next_link f" and tails: "map body es = map body fs"
  proof (cases "preimage e = preimage f")
    case True
    with preimage_inj [OF le lf] Cons.prems have "p = q \<and> body e = body f" by auto
    with tails show ?thesis by simp
  next
    case False
    moreover have "H (preimage e) = H (preimage f)"
      using eq next_is_hash [OF le] next_is_hash [OF lf] by simp
    ultimately show ?thesis by force
  qed
  show ?case
  proof (cases "es = []")
    case True
    then have "fs = []" using Cons.hyps by simp
    with True Cons.prems heads show ?thesis by simp
  next
    case False
    from Cons.IH [OF ces cfs] Cons.prems False
    consider "next_link e = next_link f" "map body es = map body fs"
      | i where "i < length es" "preimage (es ! i) \<noteq> preimage (fs ! i)"
          "H (preimage (es ! i)) = H (preimage (fs ! i))"
      by auto
    then show ?thesis
    proof cases
      case 1
      then show ?thesis by (rule heads)
    next
      case 2
      then have "Suc i < length (e # es) \<and> preimage ((e # es) ! Suc i) \<noteq> preimage ((f # fs) ! Suc i) \<and>
        H (preimage ((e # es) ! Suc i)) = H (preimage ((f # fs) ! Suc i))" by simp
      then show ?thesis by blast
    qed
  qed
qed

end


section \<open>JSON string literals are uniquely readable\<close>

lemma json_escape_plain:
  "c \<noteq> CHR 0x22 \<Longrightarrow> c \<noteq> CHR 0x5C \<Longrightarrow> \<not> (of_char c :: nat) < 32 \<Longrightarrow> json_escape c = [c]"
  by (auto simp: json_escape_def)

lemma json_escape_special:
  assumes "c = CHR 0x22 \<or> c = CHR 0x5C \<or> (of_char c :: nat) < 32"
  shows "\<exists>d ds. json_escape c = CHR 0x5C # d # ds"
  using assms by (auto simp: json_escape_def)

lemma json_escape_not_quote: "\<exists>d ds. json_escape c = d # ds \<and> d \<noteq> CHR 0x22"
  by (cases "c = CHR 0x22 \<or> c = CHR 0x5C \<or> (of_char c :: nat) < 32")
     (use json_escape_special [of c] json_escape_plain [of c] in auto)

lemma hex_digit_inj: "n < 16 \<Longrightarrow> m < 16 \<Longrightarrow> hex_digit n = hex_digit m \<Longrightarrow> n = m"
proof -
  assume a: "n < 16" "m < 16" "hex_digit n = hex_digit m"
  then have "(of_char (hex_digit n) :: nat) = of_char (hex_digit m)" by simp
  with a(1,2) show ?thesis by (auto simp: hex_digit_def split: if_splits)
qed

lemma of_char_eq_char: "(of_char c :: nat) = of_char d \<Longrightarrow> c = d"
  by (metis char_of_char)

lemma json_escape_prefix_free:
  assumes "json_escape c @ x = json_escape d @ y"
  shows "c = d \<and> x = y"
proof -
  let ?sp = "\<lambda>c. c = CHR 0x22 \<or> c = CHR 0x5C \<or> (of_char c :: nat) < 32"
  consider "\<not> ?sp c" "\<not> ?sp d" | "?sp c" "\<not> ?sp d" | "\<not> ?sp c" "?sp d" | "?sp c" "?sp d"
    by blast
  then show ?thesis
  proof cases
    case 1
    with assms show ?thesis by (simp add: json_escape_plain)
  next
    case 2
    with assms json_escape_special [of c] show ?thesis by (auto simp: json_escape_plain)
  next
    case 3
    with assms json_escape_special [of d] show ?thesis by (auto simp: json_escape_plain)
  next
    case 4
    let ?c = "(of_char c :: nat)" and ?d = "(of_char d :: nat)"
    have "c = d" if "?c < 32" "?d < 32" "hex_digit (?c div 16) = hex_digit (?d div 16)"
      "hex_digit (?c mod 16) = hex_digit (?d mod 16)"
    proof -
      have "?c div 16 = ?d div 16" "?c mod 16 = ?d mod 16"
        using that hex_digit_inj [of "?c div 16" "?d div 16"] hex_digit_inj [of "?c mod 16" "?d mod 16"]
        by auto
      then have "?c = ?d" by (metis div_mod_decomp)
      then show ?thesis by (rule of_char_eq_char)
    qed
    with 4 assms show ?thesis by (auto simp: json_escape_def split: if_splits)
  qed
qed

lemma json_escapes_inj:
  "concat (map json_escape s) @ CHR 0x22 # x = concat (map json_escape t) @ CHR 0x22 # y \<Longrightarrow>
   s = t \<and> x = y"
proof (induction s arbitrary: t)
  case Nil
  show ?case
  proof (cases t)
    case (Cons d ds)
    with Nil show ?thesis using json_escape_not_quote [of d] by auto
  qed (use Nil in simp)
next
  case (Cons c s)
  show ?case
  proof (cases t)
    case Nil
    with Cons.prems show ?thesis using json_escape_not_quote [of c] by auto
  next
    case (Cons d ds)
    with Cons.prems
    have "json_escape c @ (concat (map json_escape s) @ CHR 0x22 # x) =
          json_escape d @ (concat (map json_escape ds) @ CHR 0x22 # y)" by simp
    then have "c = d \<and> concat (map json_escape s) @ CHR 0x22 # x = concat (map json_escape ds) @ CHR 0x22 # y"
      by (rule json_escape_prefix_free)
    with Cons Cons.IH show ?thesis by blast
  qed
qed

lemma json_string_inj: "json_string s @ x = json_string t @ y \<Longrightarrow> s = t \<and> x = y"
  by (auto simp: json_string_def dest: json_escapes_inj)

lemma json_string_cancel [simp]: "json_string s @ x = json_string t @ y \<longleftrightarrow> s = t \<and> x = y"
  using json_string_inj by blast

lemma json_string_eq [simp]: "json_string s = json_string t \<longleftrightarrow> s = t"
  using json_string_cancel [of s "[]" t "[]"] by simp


section \<open>Decimal numerals are uniquely readable\<close>

definition digit_value :: "string \<Rightarrow> nat" where
  "digit_value s = foldl (\<lambda>n c. 10 * n + ((of_char c :: nat) - 48)) 0 s"

lemma digit_value_snoc: "digit_value (s @ [c]) = 10 * digit_value s + ((of_char c :: nat) - 48)"
  by (simp add: digit_value_def)

lemma digit_value_digits_of: "digit_value (digits_of n) = n"
proof (induction n rule: digits_of.induct)
  case (1 n)
  show ?case
  proof (cases "n < 10")
    case True
    then show ?thesis
      by (subst digits_of.simps) (simp add: digit_value_def)
  next
    case False
    with 1 have "digit_value (digits_of (n div 10)) = n div 10" by simp
    with False show ?thesis
      by (subst digits_of.simps) (simp add: digit_value_snoc)
  qed
qed

lemma digits_of_inj: "digits_of n = digits_of m \<Longrightarrow> n = m"
  by (metis digit_value_digits_of)

lemma set_digits_of: "c \<in> set (digits_of n) \<Longrightarrow> is_digit c"
proof (induction n rule: digits_of.induct)
  case (1 n)
  have d: "is_digit (char_of (48 + k mod 10))" for k :: nat
  proof -
    have "k mod 10 < 10" by simp
    then have "(48 + k mod 10) mod 256 = 48 + k mod 10" by simp
    then show ?thesis by (simp add: is_digit_def)
  qed
  show ?case
  proof (cases "n < 10")
    case True
    with 1 have "c = char_of (48 + n mod 10)" by (simp add: digits_of.simps)
    then show ?thesis using d by simp
  next
    case False
    with "1.prems" have "c \<in> set (digits_of (n div 10)) \<or> c = char_of (48 + n mod 10)"
      by (subst (asm) digits_of.simps) auto
    with False "1.IH" d show ?thesis by blast
  qed
qed

lemma comma_notin_digits: "CHR '','' \<notin> set (digits_of n)"
  using set_digits_of [of "CHR '',''" n] by (auto simp: is_digit_def)

lemma digits_comma_inj: "digits_of n @ CHR '','' # x = digits_of m @ CHR '','' # y \<Longrightarrow> n = m \<and> x = y"
  using split_at_sep [OF _ comma_notin_digits comma_notin_digits] digits_of_inj by blast

end
