(* ===== verification/Observability.thy ===== *)
theory Observability
  imports Hash_Chain
begin

text \<open>
  Observability and verification (\<open>core-ts/src/observability\<close>): the trace verifier, the plan
  linter R1--R5, the cycle detector with the loop guardian, the secret redactor and the
  append-only, hash-chained audit journal. The SHA-256 function and the effect probe are
  parameters: \<open>H\<close> maps the hashed text to its digest, a probe answers or throws.
\<close>


section \<open>Verification traces\<close>

datatype row_op = RowEq | RowGt | RowGe

datatype row_pred = RowsExactly int | RowsOp row_op int

text \<open>\<open>TOther\<close> is a trace whose \<open>kind\<close> is outside the enumeration (lint rule R5).\<close>

datatype verification_trace =
    TFile string bool "string option"
  | TSql string row_pred
  | THttp string string int
  | TExit "string list" int
  | TOther string

record effect_probe =
  probe_file :: "string \<Rightarrow> string + (bool \<times> string option)"
  probe_sql :: "string \<Rightarrow> string + int"
  probe_http :: "string \<Rightarrow> string \<Rightarrow> string + int"
  probe_exit :: "string list \<Rightarrow> string + int"

datatype observed = ObsNull | ObsFile bool "string option" | ObsRows int | ObsStatus int | ObsCode int

record trace_result =
  tr_pass :: bool
  tr_kind :: string
  tr_observed :: observed
  tr_reason :: "string option"

datatype verify_outcome = Verified trace_result | ProbeUnbound | VerifyUndefined

definition bool_text :: "bool \<Rightarrow> string" where
  "bool_text b = (if b then ''true'' else ''false'')"

fun matchRows :: "int \<Rightarrow> row_pred \<Rightarrow> bool" where
  "matchRows rows (RowsExactly n) = (rows = n)"
| "matchRows rows (RowsOp RowEq n) = (rows = n)"
| "matchRows rows (RowsOp RowGt n) = (rows > n)"
| "matchRows rows (RowsOp RowGe n) = (rows \<ge> n)"

fun row_pred_json :: "row_pred \<Rightarrow> string" where
  "row_pred_json (RowsExactly n) = string_of_int n"
| "row_pred_json (RowsOp oper n) =
     json_text (JObj [(''op'', JStr (case oper of RowEq \<Rightarrow> ''='' | RowGt \<Rightarrow> ''>'' | RowGe \<Rightarrow> ''>='')),
                      (''n'', JNum n)])"

abbreviation pass_result :: "string \<Rightarrow> observed \<Rightarrow> trace_result" where
  "pass_result k obs \<equiv> \<lparr>tr_pass = True, tr_kind = k, tr_observed = obs, tr_reason = None\<rparr>"

abbreviation fail_result :: "string \<Rightarrow> observed \<Rightarrow> string \<Rightarrow> trace_result" where
  "fail_result k obs why \<equiv> \<lparr>tr_pass = False, tr_kind = k, tr_observed = obs, tr_reason = Some why\<rparr>"

definition probe_error :: "string \<Rightarrow> string \<Rightarrow> trace_result" where
  "probe_error k msg = fail_result k ObsNull (''probe error: '' @ msg)"

fun verify :: "verification_trace \<Rightarrow> effect_probe option \<Rightarrow> verify_outcome" where
  "verify trace None = ProbeUnbound"
| "verify (TFile path expected sha) (Some probe) =
     (case probe_file probe path of
        Inl msg \<Rightarrow> Verified (probe_error ''file'' msg)
      | Inr (present, seen) \<Rightarrow>
          Verified (let obs = ObsFile present seen in
            if present \<noteq> expected
            then fail_result ''file'' obs
                   (''file exists='' @ bool_text present @ '', expected '' @ bool_text expected)
            else if sha \<noteq> None \<and> seen \<noteq> sha
            then fail_result ''file'' obs
                   (''sha256 '' @ (case seen of None \<Rightarrow> ''<none>'' | Some h \<Rightarrow> h) @ '' != declared '' @ the sha)
            else pass_result ''file'' obs))"
| "verify (TSql query expectRows) (Some probe) =
     (case probe_sql probe query of
        Inl msg \<Rightarrow> Verified (probe_error ''sql'' msg)
      | Inr rows \<Rightarrow>
          Verified (if matchRows rows expectRows then pass_result ''sql'' (ObsRows rows)
            else fail_result ''sql'' (ObsRows rows)
                   (''rows '' @ string_of_int rows @ '' fails predicate '' @ row_pred_json expectRows)))"
| "verify (THttp method url expectStatus) (Some probe) =
     (case probe_http probe method url of
        Inl msg \<Rightarrow> Verified (probe_error ''http'' msg)
      | Inr status \<Rightarrow>
          Verified (if status = expectStatus then pass_result ''http'' (ObsStatus status)
            else fail_result ''http'' (ObsStatus status)
                   (''status '' @ string_of_int status @ '' != expected '' @ string_of_int expectStatus)))"
| "verify (TExit argv expectCode) (Some probe) =
     (case probe_exit probe argv of
        Inl msg \<Rightarrow> Verified (probe_error ''exit'' msg)
      | Inr code \<Rightarrow>
          Verified (if code = expectCode then pass_result ''exit'' (ObsCode code)
            else fail_result ''exit'' (ObsCode code)
                   (''exit '' @ string_of_int code @ '' != expected '' @ string_of_int expectCode)))"
| "verify (TOther k) (Some probe) = VerifyUndefined"

text \<open>The declared effect, read off the probe: what a closed step certifies about the world.\<close>

fun effect_holds :: "verification_trace \<Rightarrow> effect_probe \<Rightarrow> bool" where
  "effect_holds (TFile path expected sha) probe =
     (\<exists>seen. probe_file probe path = Inr (expected, seen) \<and> (sha = None \<or> seen = sha))"
| "effect_holds (TSql query expectRows) probe =
     (\<exists>rows. probe_sql probe query = Inr rows \<and> matchRows rows expectRows)"
| "effect_holds (THttp method url expectStatus) probe = (probe_http probe method url = Inr expectStatus)"
| "effect_holds (TExit argv expectCode) probe = (probe_exit probe argv = Inr expectCode)"
| "effect_holds (TOther k) probe = False"

definition step_closes :: "verify_outcome \<Rightarrow> bool" where
  "step_closes v = (case v of Verified r \<Rightarrow> tr_pass r | _ \<Rightarrow> False)"

lemma verify_closes_iff: "step_closes (verify trace (Some probe)) \<longleftrightarrow> effect_holds trace probe"
  by (cases trace)
     (auto simp: step_closes_def probe_error_def Let_def split: sum.splits prod.splits)

lemma verify_unbound_never_closes: "\<not> step_closes (verify trace None)"
  by (simp add: step_closes_def)


section \<open>The plan linter\<close>

datatype lint_rule = R1 | R2 | R3 | R4 | R5

record lintable_step =
  st_trace :: "verification_trace option"
  st_irreversible :: bool
  st_tools :: "string list"
  st_produces :: "string option"

definition rx_tier2_verb :: rx where
  "rx_tier2_verb = rx_ci (rx_alt (map rx_lit [''write'', ''send'', ''delete'', ''exec'', ''drop'', ''push'']))"

definition rx_tier2_prefix :: rx where
  "rx_tier2_prefix = rx_ci (rx_seq [Bol, rx_alt (map rx_lit [''git'', ''db'', ''telegram'', ''http'', ''fs'']),
     Cls (\<lambda>c. c = CHR ''.'' \<or> c = CHR ''_'')])"

definition isTier2Tool :: "string \<Rightarrow> bool" where
  "isTier2Tool tool \<longleftrightarrow> rx_test rx_tier2_verb tool \<or> rx_test rx_tier2_prefix tool \<or> tool = ''bash''"

definition isNoOpArgv :: "string list \<Rightarrow> bool" where
  "isNoOpArgv argv = (case argv of [] \<Rightarrow> True
     | cmd # _ \<Rightarrow> cmd = ''echo'' \<or> cmd = ''true'' \<or> cmd = '':'' \<or> cmd = ''printf'')"

definition isSelfReferentialPath :: "string \<Rightarrow> bool" where
  "isSelfReferentialPath path =
     (let base = last (js_split path ''/'') in base = ''PLAN.md'' \<or> base = ''TODO.md'')"

definition rx_loopback :: rx where
  "rx_loopback = rx_ci (rx_seq [Bol, rx_lit ''http'', rx_opt (rx_char CHR ''s''), rx_lit ''://'',
     rx_alt (map rx_lit [''localhost'', ''127.0.0.1'', ''[::1]''])])"

definition isLoopback :: "string \<Rightarrow> bool" where
  "isLoopback url = rx_test rx_loopback url"

definition isReadMethod :: "string \<Rightarrow> bool" where
  "isReadMethod method = (toUpperCase method \<in> set [''GET'', ''HEAD''])"

definition produced_paths :: "lintable_step list \<Rightarrow> string list" where
  "produced_paths steps = concat (map (\<lambda>s. case st_produces s of None \<Rightarrow> [] | Some p \<Rightarrow> [p]) steps)"

text \<open>The body of the loop of \<open>lint\<close>: the rule the step violates, in the order of the checks.\<close>

definition lint_step :: "string list \<Rightarrow> lintable_step \<Rightarrow> lint_rule option" where
  "lint_step produced step =
     (case st_trace step of
        None \<Rightarrow> Some R1
      | Some trace \<Rightarrow>
          if (case trace of TOther _ \<Rightarrow> True | _ \<Rightarrow> False) then Some R5
          else if \<not> st_irreversible step \<and> list_ex isTier2Tool (st_tools step) then Some R2
          else if (case trace of TFile path _ _ \<Rightarrow> isSelfReferentialPath path | _ \<Rightarrow> False) then Some R4
          else if (case trace of TExit argv _ \<Rightarrow> isNoOpArgv argv | _ \<Rightarrow> False) then Some R3
          else if (case trace of THttp method url _ \<Rightarrow> isLoopback url \<and> isReadMethod method | _ \<Rightarrow> False)
          then Some R3
          else if (case trace of TFile path _ _ \<Rightarrow> path \<notin> set produced | _ \<Rightarrow> False) then Some R3
          else None)"

fun lint_from :: "string list \<Rightarrow> nat \<Rightarrow> lintable_step list \<Rightarrow> (lint_rule \<times> nat) option" where
  "lint_from produced i [] = None"
| "lint_from produced i (s # ss) =
     (case lint_step produced s of Some r \<Rightarrow> Some (r, i) | None \<Rightarrow> lint_from produced (Suc i) ss)"

definition lint :: "lintable_step list \<Rightarrow> (lint_rule \<times> nat) option" where
  "lint steps = lint_from (produced_paths steps) 0 steps"

lemma lint_from_None: "lint_from produced i ss = None \<longleftrightarrow> (\<forall>s \<in> set ss. lint_step produced s = None)"
  by (induction ss arbitrary: i) (auto split: option.splits)

lemma lint_from_Some:
  "lint_from produced i ss = Some (r, k) \<longleftrightarrow>
     i \<le> k \<and> k - i < length ss \<and> lint_step produced (ss ! (k - i)) = Some r \<and>
     (\<forall>j < k - i. lint_step produced (ss ! j) = None)"
proof (induction ss arbitrary: i)
  case Nil
  then show ?case by simp
next
  case (Cons s ss)
  show ?case
  proof (cases "lint_step produced s")
    case (Some r')
    then show ?thesis
      by (cases "k - i") (auto dest: spec [of _ 0])
  next
    case None
    have "(\<forall>j < k - i. lint_step produced ((s # ss) ! j) = None) \<longleftrightarrow>
          (\<forall>j < k - Suc i. lint_step produced (ss ! j) = None)" if "Suc i \<le> k"
      using that None by (auto simp: nth_Cons split: nat.splits)
    moreover have "k - i = Suc (k - Suc i)" if "Suc i \<le> k"
      using that by simp
    ultimately show ?thesis
      using None Cons.IH [of "Suc i"] by (cases "Suc i \<le> k") (auto simp: le_Suc_eq)
  qed
qed

text \<open>What an accepted step guarantees.\<close>

definition effective_step :: "string list \<Rightarrow> lintable_step \<Rightarrow> bool" where
  "effective_step produced step =
     (case st_trace step of
        None \<Rightarrow> False
      | Some (TOther _) \<Rightarrow> False
      | Some (TFile path _ _) \<Rightarrow> \<not> isSelfReferentialPath path \<and> path \<in> set produced
      | Some (TSql _ _) \<Rightarrow> True
      | Some (THttp method url _) \<Rightarrow> \<not> (isLoopback url \<and> isReadMethod method)
      | Some (TExit argv _) \<Rightarrow> \<not> isNoOpArgv argv)"

lemma lint_step_None:
  "lint_step produced step = None \<longleftrightarrow>
     effective_step produced step \<and> (st_irreversible step \<or> \<not> list_ex isTier2Tool (st_tools step))"
  by (auto simp: lint_step_def effective_step_def split: option.splits verification_trace.splits)


section \<open>Cycle detector\<close>

definition matchesPeriod :: "string list \<Rightarrow> nat \<Rightarrow> nat \<Rightarrow> bool" where
  "matchesPeriod window p threshold =
     (let needed = p * threshold + 1 in
      if length window < needed then False
      else (let start = length window - needed in
            list_all (\<lambda>i. window ! i = window ! (i - p)) [start + p ..< length window]))"

definition detect :: "nat \<Rightarrow> string list \<Rightarrow> nat option" where
  "detect threshold window = find (\<lambda>p. matchesPeriod window p threshold) [1, 2, 3]"

text \<open>The same condition on the trailing run itself: shifted by \<open>p\<close> it agrees with its own front.\<close>

definition lastn :: "nat \<Rightarrow> 'a list \<Rightarrow> 'a list" where
  "lastn n xs = drop (length xs - n) xs"

definition periodic :: "nat \<Rightarrow> 'a list \<Rightarrow> bool" where
  "periodic p xs \<longleftrightarrow> (\<forall>i. p \<le> i \<and> i < length xs \<longrightarrow> xs ! i = xs ! (i - p))"

lemma length_lastn [simp]: "length (lastn n xs) = min n (length xs)"
  by (simp add: lastn_def)

lemma lastn_all: "length xs \<le> n \<Longrightarrow> lastn n xs = xs"
  by (simp add: lastn_def)

lemma lastn_snoc_lastn: "lastn n (lastn n xs @ [x]) = lastn n (xs @ [x])"
  by (cases "length xs \<le> n") (auto simp: lastn_def drop_append Suc_diff_le)

lemma matchesPeriod_iff:
  assumes "0 < p"
  shows "matchesPeriod window p threshold \<longleftrightarrow>
    p * threshold + 1 \<le> length window \<and> periodic p (lastn (p * threshold + 1) window)"
proof (cases "p * threshold + 1 \<le> length window")
  case False
  then show ?thesis by (simp add: matchesPeriod_def)
next
  case True
  let ?n = "p * threshold + 1"
  let ?s = "length window - ?n"
  have nth: "lastn ?n window ! i = window ! (?s + i)" if "i < ?n" for i
    using True that by (simp add: lastn_def)
  have "periodic p (lastn ?n window) \<longleftrightarrow>
      (\<forall>i. p \<le> i \<and> i < ?n \<longrightarrow> lastn ?n window ! i = lastn ?n window ! (i - p))"
    using True by (simp add: periodic_def)
  also have "\<dots> \<longleftrightarrow> (\<forall>i. p \<le> i \<and> i < ?n \<longrightarrow> window ! (?s + i) = window ! (?s + (i - p)))"
    by (metis nth less_imp_diff_less)
  also have "\<dots> \<longleftrightarrow> (\<forall>j. ?s + p \<le> j \<and> j < length window \<longrightarrow> window ! j = window ! (j - p))"
    (is "?A \<longleftrightarrow> ?B")
  proof
    assume ?A
    show ?B
    proof (intro allI impI)
      fix j assume j: "?s + p \<le> j \<and> j < length window"
      then have "p \<le> j - ?s \<and> j - ?s < ?n" using True by linarith
      with \<open>?A\<close> have "window ! (?s + (j - ?s)) = window ! (?s + (j - ?s - p))" by blast
      moreover have "?s + (j - ?s) = j" "?s + (j - ?s - p) = j - p" using j by auto
      ultimately show "window ! j = window ! (j - p)" by simp
    qed
  next
    assume ?B
    show ?A
    proof (intro allI impI)
      fix i assume i: "p \<le> i \<and> i < ?n"
      then have "?s + p \<le> ?s + i \<and> ?s + i < length window" using True by linarith
      with \<open>?B\<close> have "window ! (?s + i) = window ! (?s + i - p)" by blast
      then show "window ! (?s + i) = window ! (?s + (i - p))" using i by simp
    qed
  qed
  finally show ?thesis
    using True by (auto simp: matchesPeriod_def Let_def list_all_iff)
qed

lemma detect_SomeD:
  "detect threshold window = Some p \<Longrightarrow>
     p \<in> {1, 2, 3} \<and> matchesPeriod window p threshold \<and>
     (\<forall>q. 0 < q \<and> q < p \<longrightarrow> \<not> matchesPeriod window q threshold)"
  by (auto simp: detect_def split: if_splits) (auto simp: less_Suc_eq numeral_3_eq_3 numeral_2_eq_2)

lemma detect_None_iff:
  "detect threshold window = None \<longleftrightarrow> (\<forall>p \<in> {1, 2, 3}. \<not> matchesPeriod window p threshold)"
  by (auto simp: detect_def)

lemma detect_Nil [simp]: "detect threshold [] = None"
  by (simp add: detect_None_iff matchesPeriod_def)


section \<open>Loop guardian\<close>

record guardian_state =
  g_window :: "string list"
  g_tripped :: bool

definition guardian_init :: guardian_state where
  "guardian_init = \<lparr>g_window = [], g_tripped = False\<rparr>"

record guardian_verdict =
  gv_trip :: bool
  gv_period :: "nat option"

text \<open>\<open>observe\<close> on the signature of a call; the journal note of a trip is the third component.\<close>

definition g_observe :: "int \<Rightarrow> nat \<Rightarrow> guardian_state \<Rightarrow> string \<Rightarrow>
    guardian_state \<times> guardian_verdict \<times> (string list \<times> nat) option" where
  "g_observe windowSize threshold g sig =
     (if windowSize \<le> 0 then (g, \<lparr>gv_trip = True, gv_period = None\<rparr>, None)
      else if g_tripped g then (g, \<lparr>gv_trip = True, gv_period = None\<rparr>, None)
      else
        (let pushed = g_window g @ [sig];
             window = (if int (length pushed) > windowSize
                       then drop (length pushed - nat windowSize) pushed else pushed)
         in case detect threshold window of
              Some p \<Rightarrow> (g\<lparr>g_window := window, g_tripped := True\<rparr>,
                         \<lparr>gv_trip = True, gv_period = Some p\<rparr>, Some (window, p))
            | None \<Rightarrow> (g\<lparr>g_window := window\<rparr>, \<lparr>gv_trip = False, gv_period = None\<rparr>, None)))"

definition g_note :: "guardian_state \<Rightarrow> guardian_state" where
  "g_note g = g\<lparr>g_window := []\<rparr>"

text \<open>The signature of a tool call: order-insensitive in the arguments.\<close>

definition call_signature :: "(string \<Rightarrow> string) \<Rightarrow> string \<Rightarrow> jv \<Rightarrow> string" where
  "call_signature H name args = H (name @ '' '' @ json_text (sort_keys args))"

datatype guardian_event = Observe string | Replan

fun g_step :: "int \<Rightarrow> nat \<Rightarrow> guardian_state \<Rightarrow> guardian_event \<Rightarrow> guardian_state" where
  "g_step n t g (Observe sig) = fst (g_observe n t g sig)"
| "g_step n t g Replan = g_note g"

definition g_run :: "int \<Rightarrow> nat \<Rightarrow> guardian_event list \<Rightarrow> guardian_state" where
  "g_run n t es = foldl (g_step n t) guardian_init es"

text \<open>The signatures of the current re-plan epoch, the reference for the bounded window.\<close>

fun epoch_acc :: "string list \<Rightarrow> guardian_event list \<Rightarrow> string list" where
  "epoch_acc acc [] = acc"
| "epoch_acc acc (Observe sig # es) = epoch_acc (acc @ [sig]) es"
| "epoch_acc acc (Replan # es) = epoch_acc [] es"

definition epoch :: "guardian_event list \<Rightarrow> string list" where
  "epoch es = epoch_acc [] es"

lemma epoch_acc_snoc:
  "epoch_acc acc (es @ [e]) = (case e of Observe sig \<Rightarrow> epoch_acc acc es @ [sig] | Replan \<Rightarrow> [])"
  by (induction acc es rule: epoch_acc.induct) (auto split: guardian_event.splits)

lemma epoch_snoc: "epoch (es @ [e]) = (case e of Observe sig \<Rightarrow> epoch es @ [sig] | Replan \<Rightarrow> [])"
  by (simp add: epoch_def epoch_acc_snoc split: guardian_event.splits)

lemma g_step_latched: "g_tripped g \<Longrightarrow> g_tripped (g_step n t g e)"
  by (cases e) (auto simp: g_observe_def g_note_def)

interpretation obs_guardian: latch_machine "g_step n t" g_tripped for n t
  by unfold_locales (rule g_step_latched)

lemma g_run_snoc: "g_run n t (es @ [e]) = g_step n t (g_run n t es) e"
  by (simp add: g_run_def)

lemma observe_window:
  assumes "0 < n" and "g_window g = lastn (nat n) xs"
  shows "(let pushed = g_window g @ [sig] in
          if int (length pushed) > n then drop (length pushed - nat n) pushed else pushed)
         = lastn (nat n) (xs @ [sig])"
proof -
  let ?p = "g_window g @ [sig]"
  have "lastn (nat n) ?p = lastn (nat n) (xs @ [sig])"
    using assms lastn_snoc_lastn by metis
  moreover have "(if int (length ?p) > n then drop (length ?p - nat n) ?p else ?p) = lastn (nat n) ?p"
    using assms(1) by (auto simp: lastn_def)
  ultimately show ?thesis by (simp add: Let_def)
qed

text \<open>
  The bounded window refines the epoch: as long as the guardian has not tripped it holds exactly
  the last \<open>windowSize\<close> signatures, and it has tripped iff some earlier window held a cycle.
\<close>

lemma g_run_refines:
  assumes n: "0 < n"
  shows "(\<not> g_tripped (g_run n t es) \<longrightarrow> g_window (g_run n t es) = lastn (nat n) (epoch es)) \<and>
    (g_tripped (g_run n t es) \<longleftrightarrow>
       (\<exists>k \<le> length es. detect t (lastn (nat n) (epoch (take k es))) \<noteq> None))"
proof (induction es rule: rev_induct)
  case Nil
  then show ?case by (simp add: g_run_def guardian_init_def epoch_def lastn_def)
next
  case (snoc e es)
  let ?g = "g_run n t es"
  have split: "(\<exists>k \<le> length (es @ [e]). detect t (lastn (nat n) (epoch (take k (es @ [e])))) \<noteq> None) \<longleftrightarrow>
      (\<exists>k \<le> length es. detect t (lastn (nat n) (epoch (take k es))) \<noteq> None) \<or>
      detect t (lastn (nat n) (epoch (es @ [e]))) \<noteq> None" (is "?L \<longleftrightarrow> ?R")
  proof
    assume ?L
    then obtain k where k: "k \<le> Suc (length es)" "detect t (lastn (nat n) (epoch (take k (es @ [e])))) \<noteq> None"
      by auto
    show ?R
    proof (cases "k = Suc (length es)")
      case True
      with k show ?thesis by simp
    next
      case False
      with k show ?thesis by (auto simp: le_Suc_eq)
    qed
  next
    assume ?R
    then show ?L
    proof
      assume "\<exists>k \<le> length es. detect t (lastn (nat n) (epoch (take k es))) \<noteq> None"
      then obtain k where "k \<le> length es" "detect t (lastn (nat n) (epoch (take k es))) \<noteq> None" by blast
      then show ?L by (intro exI [of _ k]) simp
    next
      assume "detect t (lastn (nat n) (epoch (es @ [e]))) \<noteq> None"
      then show ?L by (intro exI [of _ "Suc (length es)"]) simp
    qed
  qed
  show ?case
  proof (cases "g_tripped ?g")
    case True
    then have "g_tripped (g_run n t (es @ [e]))"
      by (simp add: g_run_snoc g_step_latched)
    with True snoc split show ?thesis by blast
  next
    case False
    with snoc have w: "g_window ?g = lastn (nat n) (epoch es)" by blast
    show ?thesis
    proof (cases e)
      case (Observe sig)
      have win: "(let pushed = g_window ?g @ [sig] in
          if int (length pushed) > n then drop (length pushed - nat n) pushed else pushed)
         = lastn (nat n) (epoch es @ [sig])"
        by (rule observe_window [OF n w])
      show ?thesis
        using False snoc n win split Observe
        by (cases "detect t (lastn (nat n) (epoch es @ [sig]))")
           (auto simp: g_run_snoc g_observe_def epoch_snoc Let_def)
    next
      case Replan
      with False snoc split show ?thesis
        by (auto simp: g_run_snoc g_note_def epoch_snoc lastn_def)
    qed
  qed
qed


section \<open>Secret redactor\<close>

definition placeholder :: string where
  "placeholder = [CHR 0xC2, CHR 0xAB] @ ''redacted'' @ [CHR 0xC2, CHR 0xBB]"

definition base64_char :: "nat \<Rightarrow> char" where
  "base64_char n = (if n < 26 then char_of (65 + n) else if n < 52 then char_of (71 + n)
     else if n < 62 then char_of (n - 4) else if n = 62 then CHR ''+'' else CHR ''/'')"

fun base64 :: "string \<Rightarrow> string" where
  "base64 (a # b # c # cs) =
     (let n = ((of_char a :: nat) * 256 + of_char b) * 256 + of_char c
      in map base64_char [n div 262144, (n div 4096) mod 64, (n div 64) mod 64, n mod 64] @ base64 cs)"
| "base64 [a, b] =
     (let n = ((of_char a :: nat) * 256 + of_char b) * 4
      in map base64_char [n div 4096, (n div 64) mod 64, n mod 64] @ ''='')"
| "base64 [a] =
     (let n = (of_char a :: nat) * 16 in map base64_char [n div 64, n mod 64] @ ''=='')"
| "base64 [] = []"

definition hex_upper :: "nat \<Rightarrow> char" where
  "hex_upper n = (if n < 10 then char_of (48 + n) else char_of (55 + n))"

definition uri_unreserved :: "char \<Rightarrow> bool" where
  "uri_unreserved c \<longleftrightarrow> is_alnum c \<or> c \<in> set [CHR ''-'', CHR ''_'', CHR ''.'', CHR ''!'', CHR ''~'', CHR ''*'', CHR 0x27, CHR ''('', CHR '')'']"

definition encodeURIComponent :: "string \<Rightarrow> string" where
  "encodeURIComponent s = concat (map (\<lambda>c. if uri_unreserved c then [c]
     else [CHR ''%'', hex_upper ((of_char c :: nat) div 16), hex_upper ((of_char c :: nat) mod 16)]) s)"

definition to_hex :: "string \<Rightarrow> string" where
  "to_hex s = concat (map (\<lambda>c. [hex_digit ((of_char c :: nat) div 16), hex_digit ((of_char c :: nat) mod 16)]) s)"

definition encodingsOf :: "string \<Rightarrow> string list" where
  "encodingsOf secret = [secret, base64 secret, encodeURIComponent secret, to_hex secret]"

record secret_redactor =
  sr_loaded :: bool
  sr_needles :: "string list"

definition redactor_init :: secret_redactor where
  "redactor_init = \<lparr>sr_loaded = False, sr_needles = []\<rparr>"

definition redact_one :: "string \<Rightarrow> string \<Rightarrow> string" where
  "redact_one s needle = js_join placeholder (js_split s needle)"

fun redact_with :: "string list \<Rightarrow> string \<Rightarrow> string" where
  "redact_with [] s = s"
| "redact_with (n # ns) s = redact_with ns (if n = [] then s else redact_one s n)"

definition redactString :: "secret_redactor \<Rightarrow> string \<Rightarrow> string" where
  "redactString r s = redact_with (sr_needles r) s"

primrec redact_walk :: "secret_redactor \<Rightarrow> jv \<Rightarrow> jv" where
  "redact_walk r JUndef = JUndef"
| "redact_walk r JNull = JNull"
| "redact_walk r (JBool b) = JBool b"
| "redact_walk r (JNum n) = JNum n"
| "redact_walk r JNonFin = JNonFin"
| "redact_walk r (JStr s) = JStr (redactString r s)"
| "redact_walk r (JArr vs) = JArr (map (redact_walk r) vs)"
| "redact_walk r (JObj kvs) = JObj (map (map_prod id (redact_walk r)) kvs)"
| "redact_walk r (JExotic kvs) = JObj (map (map_prod id (redact_walk r)) kvs)"
| "redact_walk r JFun = JFun"

definition loadVaultValues :: "string list \<Rightarrow> secret_redactor \<Rightarrow> secret_redactor" where
  "loadVaultValues values r =
     \<lparr>sr_loaded = True, sr_needles = concat (map encodingsOf (filter (\<lambda>s. s \<noteq> []) values))\<rparr>"

text \<open>The string values of a structure; property names are not among them.\<close>

primrec string_values :: "jv \<Rightarrow> string list" where
  "string_values JUndef = []"
| "string_values JNull = []"
| "string_values (JBool b) = []"
| "string_values (JNum n) = []"
| "string_values JNonFin = []"
| "string_values (JStr s) = [s]"
| "string_values (JArr vs) = concat (map string_values vs)"
| "string_values (JObj kvs) = concat (map snd (map (map_prod id string_values) kvs))"
| "string_values (JExotic kvs) = concat (map snd (map (map_prod id string_values) kvs))"
| "string_values JFun = []"

text \<open>
  A needle that the placeholder can neither contain nor complete: it is not empty, holds no byte of
  the guillemets, and is no part of the word inside them.
\<close>

definition redactable :: "string \<Rightarrow> bool" where
  "redactable n \<longleftrightarrow> n \<noteq> [] \<and> CHR 0xC2 \<notin> set n \<and> CHR 0xAB \<notin> set n \<and> CHR 0xBB \<notin> set n \<and>
     \<not> str_includes ''redacted'' n"

lemma placeholder_free:
  assumes "redactable w"
  shows "sublist w (a @ placeholder @ b) \<longleftrightarrow> sublist w a \<or> sublist w b"
proof -
  have [simp]: "\<not> sublist w ''redacted''" "\<not> sublist w []" "w \<noteq> []"
    and c: "CHR 0xC2 \<notin> set w" "CHR 0xAB \<notin> set w" "CHR 0xBB \<notin> set w"
    using assms by (auto simp: redactable_def str_includes_iff)
  have split: "a @ placeholder @ b =
      a @ CHR 0xC2 # [] @ CHR 0xAB # ''redacted'' @ CHR 0xC2 # [] @ CHR 0xBB # b"
    by (simp add: placeholder_def)
  show ?thesis
    unfolding split by (simp only: sublist_sep [OF c(1)] sublist_sep [OF c(2)] sublist_sep [OF c(3)]) simp
qed

lemma join_free:
  assumes "redactable w" and "\<forall>x \<in> set xs. \<not> sublist w x"
  shows "\<not> sublist w (js_join placeholder xs)"
  using assms(2)
proof (induction xs rule: induct_list012)
  case 1
  then show ?case using assms(1) by (simp add: redactable_def)
next
  case (2 x)
  then show ?case by simp
next
  case (3 x y zs)
  then show ?case by (simp add: placeholder_free [OF assms(1)])
qed

lemma split_acc_sublist: "x \<in> set (split_acc sep acc s) \<Longrightarrow> sublist x (rev acc @ s)"
proof (induction sep acc s rule: split_acc.induct)
  case (1 sep acc)
  then show ?case by simp
next
  case (2 sep acc c cs)
  show ?case
  proof (cases "sep \<noteq> [] \<and> startsWith (c # cs) sep")
    case True
    with "2.prems" consider "x = rev acc" | "x \<in> set (split_acc sep [] (drop (length sep - 1) cs))"
      by auto
    then show ?thesis
    proof cases
      case 1
      then show ?thesis by (simp add: sublist_append_rightI)
    next
      case b: 2
      from "2.IH"(1) [OF True b] have "sublist x (drop (length sep - 1) cs)" by simp
      then have "sublist x cs" by (meson sublist_drop sublist_order.order_trans)
      then show ?thesis by (simp add: sublist_append sublist_Cons_right)
    qed
  next
    case False
    with "2.prems" "2.IH"(2) show ?thesis by auto
  qed
qed

lemma piece_no_sep:
  assumes "sep \<noteq> []" and "\<forall>i < length u. \<not> startsWith (drop i u @ s) sep"
  shows "\<not> sublist sep u"
proof
  assume "sublist sep u"
  then obtain a b where e: "u = a @ sep @ b" by (auto simp: sublist_def)
  with assms(1) have "length a < length u" by simp
  with assms(2) have "\<not> startsWith (drop (length a) u @ s) sep" by blast
  moreover have "drop (length a) u @ s = sep @ (b @ s)" using e by simp
  ultimately show False by simp
qed

lemma split_acc_no_sep:
  "sep \<noteq> [] \<Longrightarrow> \<forall>i < length acc. \<not> startsWith (drop i (rev acc) @ s) sep \<Longrightarrow>
   x \<in> set (split_acc sep acc s) \<Longrightarrow> \<not> sublist sep x"
proof (induction sep acc s rule: split_acc.induct)
  case (1 sep acc)
  then show ?case using piece_no_sep [of sep "rev acc" "[]"] by simp
next
  case (2 sep acc c cs)
  show ?case
  proof (cases "startsWith (c # cs) sep")
    case True
    with "2.prems" consider "x = rev acc" | "x \<in> set (split_acc sep [] (drop (length sep - 1) cs))"
      by auto
    then show ?thesis
    proof cases
      case 1
      with "2.prems" show ?thesis using piece_no_sep [of sep "rev acc" "c # cs"] by simp
    next
      case b: 2
      with "2.IH"(1) "2.prems"(1) True show ?thesis by simp
    qed
  next
    case False
    have "\<not> startsWith (drop i (rev (c # acc)) @ cs) sep" if "i < length (c # acc)" for i
      using that False "2.prems"(2) by (cases "i = length acc") auto
    with "2.IH"(2) "2.prems" False show ?thesis by auto
  qed
qed

lemma redact_one_free: "redactable w \<Longrightarrow> \<not> sublist w s \<Longrightarrow> \<not> sublist w (redact_one s n)"
  unfolding redact_one_def js_split_def
  by (rule join_free) (auto dest: split_acc_sublist intro: sublist_order.order_trans)

lemma redactable_nonempty: "redactable w \<Longrightarrow> w \<noteq> []"
  by (simp add: redactable_def)

lemma redact_one_removes:
  assumes w: "redactable w"
  shows "\<not> sublist w (redact_one s w)"
proof -
  have "\<not> sublist w x" if "x \<in> set (split_acc w [] s)" for x
    using split_acc_no_sep [of w "[]" s x] that redactable_nonempty [OF w] by simp
  then show ?thesis
    unfolding redact_one_def js_split_def by (intro join_free w) blast
qed

lemma redact_with_keeps_free: "redactable w \<Longrightarrow> \<not> sublist w s \<Longrightarrow> \<not> sublist w (redact_with ns s)"
  by (induction ns arbitrary: s) (simp_all add: redact_one_free)

lemma redact_with_removes: "redactable w \<Longrightarrow> w \<in> set ns \<Longrightarrow> \<not> sublist w (redact_with ns s)"
proof (induction ns arbitrary: s)
  case Nil
  then show ?case by simp
next
  case (Cons n ns)
  show ?case
  proof (cases "w = n")
    case True
    with Cons.prems redactable_nonempty show ?thesis
      by (simp add: redact_with_keeps_free redact_one_removes)
  next
    case False
    with Cons show ?thesis by simp
  qed
qed

lemma redactString_removes: "redactable w \<Longrightarrow> w \<in> set (sr_needles r) \<Longrightarrow> \<not> str_includes (redactString r s) w"
  by (simp add: redactString_def str_includes_iff redact_with_removes)

lemma string_values_redacted: "s \<in> set (string_values (redact_walk r v)) \<Longrightarrow> \<exists>t. s = redactString r t"
  by (induction v rule: jv_induct) auto

lemma redact_walk_removes:
  "redactable w \<Longrightarrow> w \<in> set (sr_needles r) \<Longrightarrow> s \<in> set (string_values (redact_walk r v)) \<Longrightarrow>
   \<not> str_includes s w"
  using string_values_redacted redactString_removes by blast


section \<open>The audit journal\<close>

record journal_entry =
  je_seq :: nat
  je_ts :: string
  je_source :: string
  je_kind :: string
  je_prevHash :: string
  je_payloadHash :: string
  je_payload :: jv

record journal_filter =
  jf_kind :: "string option"
  jf_since :: "nat option"

datatype journal_error = SecretSetNotLoaded | ChainBroken nat

definition GENESIS_HASH :: string where
  "GENESIS_HASH = replicate 64 (CHR ''0'')"

definition entry_text :: "journal_entry \<Rightarrow> string" where
  "entry_text e = json_text (sort_keys (JObj
     [(''seq'', JNum (int (je_seq e))), (''ts'', JStr (je_ts e)), (''source'', JStr (je_source e)),
      (''kind'', JStr (je_kind e)), (''prevHash'', JStr (je_prevHash e)),
      (''payloadHash'', JStr (je_payloadHash e))]))"

definition entryHash :: "(string \<Rightarrow> string) \<Rightarrow> journal_entry \<Rightarrow> string" where
  "entryHash H e = H (entry_text e)"

definition audit_append :: "(string \<Rightarrow> string) \<Rightarrow> secret_redactor \<Rightarrow> string \<Rightarrow> string \<Rightarrow> string \<Rightarrow> jv \<Rightarrow>
    journal_entry list \<Rightarrow> journal_error + (journal_entry \<times> journal_entry list)" where
  "audit_append H red now source kind payload entries =
     (if \<not> sr_loaded red then Inl SecretSetNotLoaded
      else
        (let redacted = redact_walk red payload;
             prevHash = (if entries = [] then GENESIS_HASH else entryHash H (last entries));
             entry = \<lparr>je_seq = length entries + 1, je_ts = now, je_source = source, je_kind = kind,
                      je_prevHash = prevHash, je_payloadHash = H (json_text (sort_keys redacted)),
                      je_payload = redacted\<rparr>
         in Inr (entry, entries @ [entry])))"

fun audit_chain_ok :: "(string \<Rightarrow> string) \<Rightarrow> string \<Rightarrow> journal_entry list \<Rightarrow> bool" where
  "audit_chain_ok H expectedPrev [] = True"
| "audit_chain_ok H expectedPrev (e # es) =
     (je_prevHash e = expectedPrev \<and> audit_chain_ok H (entryHash H e) es)"

fun first_break :: "(string \<Rightarrow> string) \<Rightarrow> string \<Rightarrow> journal_entry list \<Rightarrow> nat option" where
  "first_break H expectedPrev [] = None"
| "first_break H expectedPrev (e # es) =
     (if je_prevHash e \<noteq> expectedPrev then Some (je_seq e) else first_break H (entryHash H e) es)"

definition audit_read :: "(string \<Rightarrow> string) \<Rightarrow> journal_filter \<Rightarrow> journal_entry list \<Rightarrow>
    journal_error + journal_entry list" where
  "audit_read H flt entries =
     (case first_break H GENESIS_HASH entries of
        Some s \<Rightarrow> Inl (ChainBroken s)
      | None \<Rightarrow> Inr (filter (\<lambda>e. (jf_kind flt = None \<or> jf_kind flt = Some (je_kind e)) \<and>
                                 (jf_since flt = None \<or> the (jf_since flt) \<le> je_seq e)) entries))"

lemma first_break_None: "first_break H p es = None \<longleftrightarrow> audit_chain_ok H p es"
  by (induction es arbitrary: p) auto

lemma entry_text_eq:
  "entry_text e = ''{'' @ json_string ''kind'' @ '':'' @ json_string (je_kind e) @
     '','' @ json_string ''payloadHash'' @ '':'' @ json_string (je_payloadHash e) @
     '','' @ json_string ''prevHash'' @ '':'' @ json_string (je_prevHash e) @
     '','' @ json_string ''seq'' @ '':'' @ digits_of (je_seq e) @
     '','' @ json_string ''source'' @ '':'' @ json_string (je_source e) @
     '','' @ json_string ''ts'' @ '':'' @ json_string (je_ts e) @ ''}''"
  by (simp add: entry_text_def json_text_def sort_entries_def json_object_def json_member_def
      less_char_def string_of_int_def)

lemma entry_text_inj:
  assumes "entry_text e = entry_text f"
  shows "je_kind e = je_kind f \<and> je_payloadHash e = je_payloadHash f \<and> je_prevHash e = je_prevHash f \<and>
    je_seq e = je_seq f \<and> je_source e = je_source f \<and> je_ts e = je_ts f"
  using assms unfolding entry_text_eq by (auto dest: digits_comma_inj)

interpretation audit: tamper_evident_chain "audit_chain_ok H" "\<lambda>p e. je_prevHash e = p" "entryHash H"
  H entry_text "\<lambda>e. (je_seq e, je_ts e, je_source e, je_kind e, je_payloadHash e)" "\<lambda>_. True" for H
proof unfold_locales
  show "audit_chain_ok H p []" for p by simp
  show "audit_chain_ok H p (e # es) \<longleftrightarrow> je_prevHash e = p \<and> audit_chain_ok H (entryHash H e) es" for p e es
    by simp
  show "entryHash H e = H (entry_text e)" for e by (simp add: entryHash_def)
  show "p = q \<and> (je_seq e, je_ts e, je_source e, je_kind e, je_payloadHash e) =
      (je_seq f, je_ts f, je_source f, je_kind f, je_payloadHash f)"
    if "je_prevHash e = p" "je_prevHash f = q" "entry_text e = entry_text f" for p q e f
    using that(1,2) entry_text_inj [OF that(3)] by simp
qed

text \<open>What a journal built by \<open>append\<close> satisfies: an unbroken chain and gap-free numbering.\<close>

definition journal_wf :: "(string \<Rightarrow> string) \<Rightarrow> journal_entry list \<Rightarrow> bool" where
  "journal_wf H es \<longleftrightarrow> audit_chain_ok H GENESIS_HASH es \<and> map je_seq es = [1 ..< Suc (length es)]"

lemma audit_append_wf:
  "audit_append H red now src k payload es = Inr (e, es') \<Longrightarrow> journal_wf H es \<Longrightarrow> journal_wf H es'"
  by (auto simp: audit_append_def journal_wf_def Let_def audit.chain_ok_snoc audit.tip_def split: if_splits)

fun audit_step :: "(string \<Rightarrow> string) \<Rightarrow> journal_entry list \<Rightarrow>
    secret_redactor \<times> string \<times> string \<times> string \<times> jv \<Rightarrow> journal_entry list" where
  "audit_step H es (red, now, src, k, payload) =
     (case audit_append H red now src k payload es of Inl _ \<Rightarrow> es | Inr (_, es') \<Rightarrow> es')"

interpretation audit_log: invariant_machine "audit_step H" "journal_wf H" for H
proof unfold_locales
  show "journal_wf H (audit_step H s e)" if "journal_wf H s" for s e
    using that by (cases e) (auto split: sum.splits dest: audit_append_wf)
qed

lemma audit_chain_payload_blind:
  "audit_chain_ok H p (map (\<lambda>e. e\<lparr>je_payload := f e\<rparr>) es) = audit_chain_ok H p es"
proof -
  have "entryHash H (e\<lparr>je_payload := f e\<rparr>) = entryHash H e" for e
    by (simp add: entryHash_def entry_text_def)
  then show ?thesis by (induction es arbitrary: p) auto
qed

section \<open>Properties of the observability component\<close>

text \<open>
  A plan step closes exactly when a probe is bound and what the probe observes is the declared
  effect; a probe error, a missing probe and an unknown trace kind never close it.
\<close>

theorem step_closes_iff_effect:
  "step_closes (verify trace port) \<longleftrightarrow> (\<exists>probe. port = Some probe \<and> effect_holds trace probe)"
  using verify_closes_iff verify_unbound_never_closes by (cases port) auto

text \<open>
  The linter accepts a plan exactly when every step has an effective trace and declares itself
  irreversible wherever it uses a tier-2 tool; otherwise it names the first step that does not and
  a rule that step breaks.
\<close>

theorem lint_is_exact:
  "(case lint steps of
      None \<Rightarrow> list_all (\<lambda>s. effective_step (produced_paths steps) s \<and>
                \<not> (list_ex isTier2Tool (st_tools s) \<and> \<not> st_irreversible s)) steps
    | Some (rule, k) \<Rightarrow> k < length steps \<and> lint_step (produced_paths steps) (steps ! k) = Some rule \<and>
        list_all (\<lambda>s. lint_step (produced_paths steps) s = None) (take k steps))"
proof (cases "lint steps")
  case None
  then have "\<forall>s \<in> set steps. lint_step (produced_paths steps) s = None" by (simp add: lint_def lint_from_None)
  with None show ?thesis by (auto simp: lint_step_None list_all_iff)
next
  case (Some p)
  then obtain rule k where p: "lint steps = Some (rule, k)" by (cases p) auto
  then have "k < length steps" "lint_step (produced_paths steps) (steps ! k) = Some rule"
    "\<forall>j < k. lint_step (produced_paths steps) (steps ! j) = None"
    by (auto simp: lint_def lint_from_Some)
  with p show ?thesis by (auto simp: list_all_length)
qed

text \<open>
  C21: the loop guardian is tripped after a history exactly when at some earlier point, among the last
  \<open>n\<close> calls since the last replan, one of the periods 1, 2 and 3 had repeated \<open>t\<close> times past its first
  occurrence; nothing but that trips it, and no replan clears it.
\<close>

theorem guardian_trips_iff:
  assumes "0 < n"
  shows "g_tripped (g_run n t es) \<longleftrightarrow>
    (\<exists>k \<le> length es. \<exists>p \<in> {1, 2, 3}. p * t + 1 \<le> length (lastn (nat n) (epoch (take k es))) \<and>
       periodic p (lastn (p * t + 1) (lastn (nat n) (epoch (take k es)))))"
proof -
  have "detect t w \<noteq> None \<longleftrightarrow> (\<exists>p \<in> {1, 2, 3}. p * t + 1 \<le> length w \<and> periodic p (lastn (p * t + 1) w))" for w
    unfolding detect_None_iff using matchesPeriod_iff [of _ w t] by auto
  then show ?thesis using g_run_refines [OF assms] by simp
qed

theorem guardian_trips_iff_witness:
  "g_tripped (g_run 8 3 (replicate 4 (Observe ''a''))) \<and>
   (\<exists>k \<le> length (replicate 4 (Observe ''a'')). \<exists>p \<in> {1, 2, 3}.
      p * 3 + 1 \<le> length (lastn (nat 8) (epoch (take k (replicate 4 (Observe ''a''))))) \<and>
      periodic p (lastn (p * 3 + 1) (lastn (nat 8) (epoch (take k (replicate 4 (Observe ''a'')))))))"
proof -
  have "g_tripped (g_run 8 3 (replicate 4 (Observe ''a'')))" by code_simp
  with guardian_trips_iff [of 8 3 "replicate 4 (Observe ''a'')"] show ?thesis by simp
qed

text \<open>
  Nothing is journalled before the secret set is loaded; an entry journalled after it holds, in
  none of the strings of its payload, any loaded secret in its plain, base64, URL or hex form (for forms
  that the placeholder itself does not spell).
\<close>

theorem journal_holds_no_secret:
  assumes "audit_append H (loadVaultValues values r) now source kind payload es = Inr (e, es')"
    and "secret \<in> set values" and "secret \<noteq> []" and "w \<in> set (encodingsOf secret)" and "redactable w"
    and "s \<in> set (string_values (je_payload e))"
  shows "\<not> str_includes s w"
proof (rule redact_walk_removes [OF assms(5)])
  show "w \<in> set (sr_needles (loadVaultValues values r))"
    using assms(2-4) by (auto simp: loadVaultValues_def)
  show "s \<in> set (string_values (redact_walk (loadVaultValues values r) payload))"
    using assms(1,6) by (auto simp: audit_append_def Let_def split: if_splits)
qed

theorem journal_holds_no_secret_witness:
  "(case audit_append id (loadVaultValues [''hunter2''] redactor_init) ''t0'' ''core'' ''note'' (JStr ''pw hunter2'') [] of
      Inl _ \<Rightarrow> False
    | Inr (e, es') \<Rightarrow> list_all (\<lambda>s. \<not> str_includes s ''hunter2'') (string_values (je_payload e)))"
proof -
  let ?red = "loadVaultValues [''hunter2''] redactor_init"
  obtain e es' where e: "audit_append id ?red ''t0'' ''core'' ''note'' (JStr ''pw hunter2'') [] = Inr (e, es')"
    by (auto simp: audit_append_def loadVaultValues_def Let_def)
  have "redactable ''hunter2''" by code_simp
  then have "\<not> str_includes s ''hunter2''" if "s \<in> set (string_values (je_payload e))" for s
    using journal_holds_no_secret [OF e, of "''hunter2''" "''hunter2''" s] that by (simp add: encodingsOf_def)
  with e show ?thesis by (simp add: list_all_iff)
qed

text \<open>
  A journal written only by appends, with whatever redactors, sources and payloads, is always
  readable, and its entries are numbered 1, 2, 3 and so on without a gap.
\<close>

theorem journal_always_reads:
  "audit_read H \<lparr>jf_kind = None, jf_since = None\<rparr> (foldl (audit_step H) [] evs) = Inr (foldl (audit_step H) [] evs) \<and>
   map je_seq (foldl (audit_step H) [] evs) = [1 ..< Suc (length (foldl (audit_step H) [] evs))]"
proof -
  have "journal_wf H (foldl (audit_step H) [] evs)"
    by (rule audit_log.inv_run) (simp add: journal_wf_def)
  then show ?thesis by (simp add: journal_wf_def audit_read_def first_break_None [symmetric])
qed

text \<open>
  Two journals of the same length that both read back and whose last entries hash alike agree in
  the number, time, source, kind and payload hash of every entry, or else show, at some position,
  two different entry texts with the same digest.
\<close>

theorem journal_tamper_evident:
  assumes "audit_read H flt es = Inr xs" and "audit_read H flt' fs = Inr ys" and "length es = length fs" and "es \<noteq> []"
    and "entryHash H (last es) = entryHash H (last fs)"
  shows "map (\<lambda>e. (je_seq e, je_ts e, je_source e, je_kind e, je_payloadHash e)) es =
      map (\<lambda>e. (je_seq e, je_ts e, je_source e, je_kind e, je_payloadHash e)) fs \<or>
    (\<exists>i < length es. entry_text (es ! i) \<noteq> entry_text (fs ! i) \<and> H (entry_text (es ! i)) = H (entry_text (fs ! i)))"
proof -
  have "audit_chain_ok H GENESIS_HASH es" "audit_chain_ok H GENESIS_HASH fs"
    using assms(1,2) by (auto simp: audit_read_def first_break_None split: option.splits)
  moreover have "fs \<noteq> []" using assms(3,4) by auto
  ultimately show ?thesis
    using audit.same_tip_same_log [OF assms(3), of H GENESIS_HASH GENESIS_HASH] assms(4,5)
    by (auto simp: audit.tip_def)
qed

theorem journal_tamper_evident_witness:
  "(let es = foldl (audit_step id) [] [(loadVaultValues [] redactor_init, ''t'', ''s'', ''k'', JNull)];
        fs = map (\<lambda>e. e\<lparr>je_payload := JStr ''edited''\<rparr>) es
    in map je_seq es = [1] \<and>
      (map (\<lambda>e. (je_seq e, je_ts e, je_source e, je_kind e, je_payloadHash e)) es =
        map (\<lambda>e. (je_seq e, je_ts e, je_source e, je_kind e, je_payloadHash e)) fs \<or>
       (\<exists>i < length es. entry_text (es ! i) \<noteq> entry_text (fs ! i) \<and> id (entry_text (es ! i)) = id (entry_text (fs ! i)))))"
proof -
  let ?es = "foldl (audit_step id) [] [(loadVaultValues [] redactor_init, ''t'', ''s'', ''k'', JNull)]"
  let ?fs = "map (\<lambda>e. e\<lparr>je_payload := JStr ''edited''\<rparr>) ?es"
  have r: "audit_read id \<lparr>jf_kind = None, jf_since = None\<rparr> ?es = Inr ?es"
    "audit_read id \<lparr>jf_kind = None, jf_since = None\<rparr> ?fs = Inr ?fs" by code_simp+
  have s: "map je_seq ?es = [1]" by code_simp
  then have n: "?es \<noteq> []" by force
  have l: "length ?es = length ?fs" by simp
  have h: "entryHash id (last ?es) = entryHash id (last ?fs)" by code_simp
  from journal_tamper_evident [OF r l n h] s show ?thesis unfolding Let_def by blast
qed

end
