(* ===== verification/Safety_Guards.thy ===== *)
theory Safety_Guards
  imports Safety_Policy Observability
begin

text \<open>
  The stateful guards of \<open>core-ts/src/safety/index.ts\<close>: the approval handler with its single-use
  nonces, the recursive trust-field filter, the vault redactor, the sandbox runner and the nightly
  carve-out.

  Parameters: the clock readings and the staged hash of one \<open>confirm\<close>, the second-factor check, the
  launch and exec shims of the sandbox, its probes. An operation that throws returns \<open>Inl\<close> the message.
\<close>

section \<open>ApprovalHandler\<close>

record pending_approval =
  pa_nonce :: string
  pa_actionHash :: string
  pa_requiresSecondFactor :: bool
  pa_stagedHashAtAccept :: string
  pa_expiresAt :: int

record approval_state =
  as_pending :: "(string, pending_approval) jsmap"
  as_consumed :: "string list"

text \<open>What one \<open>confirm\<close> reads: the clock at its two calls, the staged hash, the factor check.\<close>

record confirm_env =
  cf_now :: int
  cf_tap :: int
  cf_staged :: "string option"
  cf_verify :: "(string \<Rightarrow> bool) option"

definition makeApprovalHandler :: "pending_approval list \<Rightarrow> approval_state" where
  "makeApprovalHandler ps = \<lparr>as_pending = set_all (map (\<lambda>p. (pa_nonce p, p)) ps), as_consumed = []\<rparr>"

definition verify_factor :: "confirm_env \<Rightarrow> string \<Rightarrow> bool" where
  "verify_factor env f = (case cf_verify env of None \<Rightarrow> length f > 0 | Some v \<Rightarrow> v f)"

definition rejected :: "approval_status \<Rightarrow> approval_result" where
  "rejected s = \<lparr>res_status = s, res_record = None\<rparr>"

definition staged_now :: "confirm_env \<Rightarrow> pending_approval \<Rightarrow> string" where
  "staged_now env entry = (case cf_staged env of None \<Rightarrow> pa_stagedHashAtAccept entry | Some h \<Rightarrow> h)"

definition second_factor_ok :: "confirm_env \<Rightarrow> pending_approval \<Rightarrow> string option \<Rightarrow> bool" where
  "second_factor_ok env entry factor \<longleftrightarrow> pa_requiresSecondFactor entry \<and>
     (case factor of None \<Rightarrow> False | Some f \<Rightarrow> verify_factor env f)"

definition confirm :: "confirm_env \<Rightarrow> approval_state \<Rightarrow> string \<Rightarrow> string \<Rightarrow> string option \<Rightarrow>
    approval_state \<times> approval_result" where
  "confirm env st nonce actionHash factor =
     (if nonce \<in> set (as_consumed st) then (st, rejected RejectedReplay)
      else
        (case map_of (as_pending st) nonce of
           None \<Rightarrow> (st, rejected RejectedStale)
         | Some entry \<Rightarrow>
             if cf_now env > pa_expiresAt entry then (st, rejected RejectedStale)
             else if actionHash \<noteq> pa_actionHash entry then (st, rejected RejectedHashMismatch)
             else if staged_now env entry \<noteq> pa_stagedHashAtAccept entry then (st, rejected RejectedToctou)
             else if pa_requiresSecondFactor entry \<and> \<not> second_factor_ok env entry factor then
               (st, rejected RejectedSecondFactor)
             else
               (st\<lparr>as_consumed := as_consumed st @ [nonce]\<rparr>,
                \<lparr>res_status = Approved,
                 res_record = Some \<lparr>ar_nonce = nonce, ar_actionHash = actionHash, ar_op = ''confirm'',
                   ar_tapTimestamp = cf_tap env, ar_secondFactorOk = second_factor_ok env entry factor,
                   ar_stagedHashAtAccept = pa_stagedHashAtAccept entry,
                   ar_stagedHashAtPromote = staged_now env entry\<rparr>\<rparr>)))"

lemma confirm_approved_iff:
  "res_status (snd (confirm env st nonce h factor)) = Approved \<longleftrightarrow>
     nonce \<notin> set (as_consumed st) \<and>
     (\<exists>entry. map_of (as_pending st) nonce = Some entry \<and> cf_now env \<le> pa_expiresAt entry \<and>
        h = pa_actionHash entry \<and> staged_now env entry = pa_stagedHashAtAccept entry \<and>
        (pa_requiresSecondFactor entry \<longrightarrow> second_factor_ok env entry factor))"
  by (auto simp: confirm_def rejected_def split: option.splits)

lemma confirm_fresh: "res_status (snd (confirm env st nonce h factor)) = Approved \<Longrightarrow> nonce \<notin> set (as_consumed st)"
  by (simp add: confirm_approved_iff)

lemma confirm_consumed:
  "as_consumed (fst (confirm env st nonce h factor)) =
     as_consumed st @ (if res_status (snd (confirm env st nonce h factor)) = Approved then [nonce] else [])"
  by (auto simp: confirm_def rejected_def split: option.splits)

lemma confirm_pending [simp]: "as_pending (fst (confirm env st nonce h factor)) = as_pending st"
  by (auto simp: confirm_def split: option.splits)

text \<open>A sequence of taps and the nonces it approved.\<close>

record tap =
  tap_env :: confirm_env
  tap_nonce :: string
  tap_hash :: string
  tap_factor :: "string option"

definition tap_step :: "approval_state \<Rightarrow> tap \<Rightarrow> approval_state" where
  "tap_step st t = fst (confirm (tap_env t) st (tap_nonce t) (tap_hash t) (tap_factor t))"

fun approvals :: "approval_state \<Rightarrow> tap list \<Rightarrow> string list" where
  "approvals st [] = []"
| "approvals st (t # ts) =
     (let (st', r) = confirm (tap_env t) st (tap_nonce t) (tap_hash t) (tap_factor t)
      in (if res_status r = Approved then [tap_nonce t] else []) @ approvals st' ts)"

lemma approvals_consumed: "as_consumed (foldl tap_step st ts) = as_consumed st @ approvals st ts"
proof (induction ts arbitrary: st)
  case (Cons t ts)
  then show ?case
    using confirm_consumed [of "tap_env t" st "tap_nonce t" "tap_hash t" "tap_factor t"]
    by (simp add: tap_step_def Let_def split: prod.splits)
qed simp

interpretation approval: invariant_machine tap_step "\<lambda>st. distinct (as_consumed st)"
proof
  fix s :: approval_state and e :: tap
  assume "distinct (as_consumed s)"
  then show "distinct (as_consumed (tap_step s e))"
    unfolding tap_step_def confirm_consumed using confirm_fresh by simp
qed

interpretation replay: latch_machine tap_step "\<lambda>st. nonce \<in> set (as_consumed st)" for nonce
  by unfold_locales (simp add: tap_step_def confirm_consumed)


section \<open>Trust fields\<close>

definition TRUST_FIELDS :: "string list" where
  "TRUST_FIELDS = [''is_human_confirmed'', ''permanence'', ''trusted'', ''human_confirmed'']"

definition untrusted_entry :: "string \<times> 'a \<Rightarrow> bool" where
  "untrusted_entry kv \<longleftrightarrow> fst kv \<notin> set TRUST_FIELDS"

primrec stripTrustDeep :: "jv \<Rightarrow> jv" where
  "stripTrustDeep JUndef = JUndef"
| "stripTrustDeep JNull = JNull"
| "stripTrustDeep (JBool b) = JBool b"
| "stripTrustDeep (JNum n) = JNum n"
| "stripTrustDeep JNonFin = JNonFin"
| "stripTrustDeep (JStr s) = JStr s"
| "stripTrustDeep (JArr vs) = JArr (map stripTrustDeep vs)"
| "stripTrustDeep (JObj kvs) = JObj (filter untrusted_entry (map (map_prod id stripTrustDeep) kvs))"
| "stripTrustDeep (JExotic kvs) = JObj (filter untrusted_entry (map (map_prod id stripTrustDeep) kvs))"
| "stripTrustDeep JFun = JFun"

text \<open>All property names of a structure, at every depth.\<close>

primrec all_keys :: "jv \<Rightarrow> string list" where
  "all_keys JUndef = []"
| "all_keys JNull = []"
| "all_keys (JBool b) = []"
| "all_keys (JNum n) = []"
| "all_keys JNonFin = []"
| "all_keys (JStr s) = []"
| "all_keys (JArr vs) = concat (map all_keys vs)"
| "all_keys (JObj kvs) = concat (map (\<lambda>(k, ks). k # ks) (map (map_prod id all_keys) kvs))"
| "all_keys (JExotic kvs) = concat (map (\<lambda>(k, ks). k # ks) (map (map_prod id all_keys) kvs))"
| "all_keys JFun = []"

lemma strip_keys: "k \<in> set (all_keys (stripTrustDeep v)) \<Longrightarrow> k \<notin> set TRUST_FIELDS"
proof (induction v rule: jv_induct)
  case (JObj kvs)
  then show ?case by (fastforce simp: untrusted_entry_def)
next
  case (JExotic kvs)
  then show ?case by (fastforce simp: untrusted_entry_def)
qed auto

lemma strip_top_value:
  "map_of kvs k = Some v \<Longrightarrow> k \<notin> set TRUST_FIELDS \<Longrightarrow>
     map_of (filter untrusted_entry (map (map_prod id stripTrustDeep) kvs)) k = Some (stripTrustDeep v)"
  by (induction kvs) (auto simp: untrusted_entry_def)

lemma strip_entries_idem:
  assumes "\<And>k v. (k, v) \<in> set kvs \<Longrightarrow> stripTrustDeep (stripTrustDeep v) = stripTrustDeep v"
  shows "filter untrusted_entry (map (map_prod id stripTrustDeep)
           (filter untrusted_entry (map (map_prod id stripTrustDeep) kvs))) =
         filter untrusted_entry (map (map_prod id stripTrustDeep) kvs)"
  using assms
proof (induction kvs)
  case (Cons kv kvs)
  have "stripTrustDeep (stripTrustDeep (snd kv)) = stripTrustDeep (snd kv)"
    using Cons.prems [of "fst kv" "snd kv"] by simp
  with Cons show ?case by (cases kv) (auto simp: untrusted_entry_def)
qed simp

lemma strip_idem: "stripTrustDeep (stripTrustDeep v) = stripTrustDeep v"
proof (induction v rule: jv_induct)
  case (JObj kvs)
  then show ?case using strip_entries_idem [of kvs] by simp
next
  case (JExotic kvs)
  then show ?case using strip_entries_idem [of kvs] by simp
qed auto


section \<open>Vault\<close>

record vault =
  va_secrets :: "(string, string) jsmap"
  va_patterns :: "rx list"

definition BUILTIN_SECRET_PATTERNS :: "rx list" where
  "BUILTIN_SECRET_PATTERNS =
     [Seq (rx_lit ''sk_live_'') (rx_plus (Cls is_alnum)),
      Seq (rx_lit ''AKIA'') (rx_plus (Cls (\<lambda>c. is_upper c \<or> is_digit c \<or> c = CHR ''_''))),
      JWT_SHAPE]"

definition makeVault :: "(string, string) jsmap \<Rightarrow> vault" where
  "makeVault secrets = \<lparr>va_secrets = secrets, va_patterns = BUILTIN_SECRET_PATTERNS\<rparr>"

definition getSecret :: "vault \<Rightarrow> string \<Rightarrow> string + string" where
  "getSecret v name = (case map_of (va_secrets v) name of
     None \<Rightarrow> Inl (''vault: secret '' @ [CHR 0x27] @ name @ [CHR 0x27] @ '' not found'') | Some s \<Rightarrow> Inr s)"

definition listSecrets :: "vault \<Rightarrow> string list" where
  "listSecrets v = map_keys (va_secrets v)"

definition addRedactionPattern :: "vault \<Rightarrow> rx \<Rightarrow> vault" where
  "addRedactionPattern v p = v\<lparr>va_patterns := va_patterns v @ [p]\<rparr>"

definition vault_redact :: "vault \<Rightarrow> string \<Rightarrow> string" where
  "vault_redact v s =
     foldl (\<lambda>out p. rx_replace_all p (\<lambda>_. placeholder) out)
       (redact_with (map_values (va_secrets v)) s) (va_patterns v)"

lemma pattern_keeps_free:
  "redactable w \<Longrightarrow> \<not> sublist w s \<Longrightarrow> \<not> sublist w (rx_replace_all p (\<lambda>_. placeholder) s)"
  using repl_apart [of w "\<lambda>c. c" placeholder "\<lambda>_. placeholder" "[]" s p None] placeholder_free [of w]
    redactable_nonempty [of w]
  by (simp add: rx_replace_all_def)

lemma patterns_keep_free:
  "redactable w \<Longrightarrow> \<not> sublist w s \<Longrightarrow> \<not> sublist w (foldl (\<lambda>out p. rx_replace_all p (\<lambda>_. placeholder) out) s ps)"
  by (induction ps arbitrary: s) (simp_all add: pattern_keeps_free)

lemma vault_redact_removes:
  "redactable w \<Longrightarrow> w \<in> set (map_values (va_secrets v)) \<Longrightarrow> \<not> str_includes (vault_redact v s) w"
  unfolding vault_redact_def str_includes_iff by (intro patterns_keep_free redact_with_removes)


section \<open>SandboxRunner\<close>

record run_result =
  rr_stdout :: string
  rr_stderr :: string
  rr_exitCode :: int

record sandbox_deps =
  sd_launch :: "(sandbox_config \<Rightarrow> string list \<Rightarrow> string) option"
  sd_gVisorProbe :: "bool option"
  sd_allowedMountRoots :: "string list option"
  sd_execImpl :: "(string \<Rightarrow> string \<Rightarrow> string list \<Rightarrow> run_result) option"
  sd_seccompProfile :: "string option"
  sd_usernsRemapProbe :: "bool option"

record sandbox_state =
  sb_running :: "(string, string) jsmap"
  sb_counter :: nat

definition makeSandboxRunner :: sandbox_state where
  "makeSandboxRunner = \<lparr>sb_running = [], sb_counter = 0\<rparr>"

definition allowed_roots :: "sandbox_deps \<Rightarrow> string list" where
  "allowed_roots deps = (case sd_allowedMountRoots deps of None \<Rightarrow> [''/work'', ''/tmp/aisy''] | Some rs \<Rightarrow> rs)"

definition gvisor_available :: "sandbox_deps \<Rightarrow> bool" where
  "gvisor_available deps \<longleftrightarrow> sd_gVisorProbe deps = Some True"

definition securityLevel :: "sandbox_deps \<Rightarrow> security_level" where
  "securityLevel deps = (if gvisor_available deps then Full else DegradedNoGvisor)"

definition under_root :: "string \<Rightarrow> string \<Rightarrow> bool" where
  "under_root path base \<longleftrightarrow> path = base \<or> startsWith path (base @ ''/'')"

fun validateMounts :: "sandbox_deps \<Rightarrow> mount_spec list \<Rightarrow> string option" where
  "validateMounts deps [] = None"
| "validateMounts deps (m # ms) =
     (if str_includes (ms_hostPath m) ''docker.sock'' then
        Some (''mount of '' @ ms_hostPath m @ '' refused: docker.sock is never mountable'')
      else if \<not> list_ex (under_root (ms_hostPath m)) (allowed_roots deps) then
        Some (''mount of '' @ ms_hostPath m @ '' refused: outside the worktree allowlist'')
      else validateMounts deps ms)"

definition sandbox_flags :: "sandbox_deps \<Rightarrow> sandbox_config \<Rightarrow> string list" where
  "sandbox_flags deps config =
     [''--cap-drop=ALL'', ''--security-opt=no-new-privileges'',
      ''--security-opt=seccomp='' @ (case sd_seccompProfile deps of None \<Rightarrow> ''builtin'' | Some p \<Rightarrow> p),
      ''--read-only'',
      (case sc_egressBridge config of
         None \<Rightarrow> ''--network=none''
       | Some b \<Rightarrow> if b = [] then ''--network=none'' else ''--network='' @ b),
      ''--pids-limit=256''] @
     (if gvisor_available deps then [''--runtime=runsc''] else [])"

definition sandbox_start :: "sandbox_deps \<Rightarrow> sandbox_state \<Rightarrow> sandbox_config \<Rightarrow> sandbox_state \<times> (string + string)" where
  "sandbox_start deps st config =
     (case validateMounts deps (sc_mounts config) of
        Some e \<Rightarrow> (st, Inl e)
      | None \<Rightarrow>
          if sd_usernsRemapProbe deps \<noteq> Some True then
            (st, Inl ''sandbox: user namespace remap unavailable'')
          else
            (case sd_launch deps of
               Some launch \<Rightarrow>
                 (let i = launch config (sandbox_flags deps config)
                  in (st\<lparr>sb_running := AList.update i (sc_taskId config) (sb_running st)\<rparr>, Inr i))
             | None \<Rightarrow>
                 (let n = sb_counter st + 1; i = ''sbx-'' @ digits_of n
                  in (st\<lparr>sb_running := AList.update i (sc_taskId config) (sb_running st), sb_counter := n\<rparr>, Inr i))))"

definition sandbox_exec :: "sandbox_deps \<Rightarrow> sandbox_state \<Rightarrow> string \<Rightarrow> string \<Rightarrow> string list \<Rightarrow> string + run_result" where
  "sandbox_exec deps st i cmd args =
     (if map_of (sb_running st) i = None then Inl (''exec: unknown container '' @ i)
      else (case sd_execImpl deps of
              Some f \<Rightarrow> Inr (f i cmd args)
            | None \<Rightarrow> Inr \<lparr>rr_stdout = [], rr_stderr = [], rr_exitCode = 0\<rparr>))"

definition sandbox_teardown :: "sandbox_state \<Rightarrow> string \<Rightarrow> sandbox_state \<times> (string + unit)" where
  "sandbox_teardown st i =
     (if map_of (sb_running st) i = None then
        (st, Inl (''teardown of unknown container '' @ i @ '' cannot be confirmed''))
      else (st\<lparr>sb_running := AList.delete i (sb_running st)\<rparr>, Inr ()))"

lemma validateMounts_None:
  "validateMounts deps ms = None \<longleftrightarrow>
     (\<forall>m \<in> set ms. \<not> str_includes (ms_hostPath m) ''docker.sock'' \<and>
        (\<exists>base \<in> set (allowed_roots deps). under_root (ms_hostPath m) base))"
  by (induction deps ms rule: validateMounts.induct) (auto simp: list_ex_iff)

lemma sandbox_start_ok:
  assumes "sandbox_start deps st config = (st', Inr i)"
  shows "validateMounts deps (sc_mounts config) = None \<and> sd_usernsRemapProbe deps = Some True \<and>
    map_of (sb_running st') i = Some (sc_taskId config)"
  using assms by (auto simp: sandbox_start_def Let_def split: option.splits if_splits)

lemma sandbox_start_fail: "sandbox_start deps st config = (st', Inl e) \<Longrightarrow> st' = st"
  by (auto simp: sandbox_start_def Let_def split: option.splits if_splits)

text \<open>Containers named by the built-in counter: every running one has a number already given out.\<close>

definition sandbox_wf :: "sandbox_state \<Rightarrow> bool" where
  "sandbox_wf st \<longleftrightarrow> (\<forall>i \<in> set (map_keys (sb_running st)). \<exists>n. 0 < n \<and> n \<le> sb_counter st \<and> i = ''sbx-'' @ digits_of n)"

datatype sandbox_op = SbStart sandbox_config | SbTeardown string

fun sandbox_step :: "sandbox_deps \<Rightarrow> sandbox_state \<Rightarrow> sandbox_op \<Rightarrow> sandbox_state" where
  "sandbox_step deps st (SbStart config) = fst (sandbox_start deps st config)"
| "sandbox_step deps st (SbTeardown i) = fst (sandbox_teardown st i)"

lemma sandbox_step_wf: "sandbox_wf st \<Longrightarrow> sandbox_wf (sandbox_step (deps\<lparr>sd_launch := None\<rparr>) st e)"
proof (cases e)
  case (SbStart config)
  assume wf: "sandbox_wf st"
  from SbStart wf show ?thesis
    by (fastforce simp: sandbox_wf_def sandbox_start_def Let_def le_Suc_eq
        dest!: subsetD [OF set_update_subset] split: option.splits)
next
  case (SbTeardown i)
  assume "sandbox_wf st"
  with SbTeardown show ?thesis
    by (auto simp: sandbox_wf_def sandbox_teardown_def dest!: subsetD [OF set_delete_subset])
qed

interpretation sandbox: invariant_machine "sandbox_step (deps\<lparr>sd_launch := None\<rparr>)" sandbox_wf for deps
  by unfold_locales (rule sandbox_step_wf)

lemma sandbox_start_fresh:
  assumes "sandbox_wf st" and "sandbox_start (deps\<lparr>sd_launch := None\<rparr>) st config = (st', Inr i)"
  shows "map_of (sb_running st) i = None"
proof -
  have i: "i = ''sbx-'' @ digits_of (sb_counter st + 1)"
    using assms(2) by (auto simp: sandbox_start_def Let_def split: option.splits if_splits)
  have "i \<notin> set (map_keys (sb_running st))"
    using assms(1) digits_of_inj unfolding sandbox_wf_def i by fastforce
  then show ?thesis by (simp add: map_of_eq_None_iff)
qed


section \<open>NightlyCarveout\<close>

record nightly_op =
  no_kind :: string
  no_params :: "(string \<times> jv) list"

datatype nightly_effect = Snapshot | Execute nightly_op

definition CARVEOUT_KINDS :: "string list" where
  "CARVEOUT_KINDS = [''vacuum'', ''fts5-optimize'', ''wal-checkpoint'', ''log-rotation'',
     ''docker-prune'', ''worktree-prune'', ''git-push-ff'']"

definition isPermitted :: "nightly_op \<Rightarrow> bool" where
  "isPermitted nop =
     (if no_kind nop \<notin> set CARVEOUT_KINDS then False
      else if getprop (no_params nop) ''force'' = JBool True then False
      else if list_ex (\<lambda>k. k = ''unknown'') (map fst (no_params nop)) then False
      else True)"

text \<open>The effects of a run in order, and its result.\<close>

definition carveout_run :: "bool \<Rightarrow> bool \<Rightarrow> nightly_op \<Rightarrow> nightly_effect list \<times> (string + unit)" where
  "carveout_run hasSnapshot hasExec nop =
     (if \<not> isPermitted nop then ([], Inl (''op '' @ no_kind nop @ '' not permitted by the carve-out allowlist''))
      else ((if hasSnapshot then [Snapshot] else []) @ (if hasExec then [Execute nop] else []), Inr ()))"

section \<open>Properties of the guards\<close>

text \<open>
  Over any sequence of taps, in any order and with any replays, a nonce is approved at most once.
\<close>

theorem nonce_approved_once: "distinct (approvals (makeApprovalHandler ps) taps)"
proof -
  have "distinct (as_consumed (foldl tap_step (makeApprovalHandler ps) taps))"
    by (rule approval.inv_run) (simp add: makeApprovalHandler_def)
  then show ?thesis by (simp add: approvals_consumed makeApprovalHandler_def)
qed

text \<open>
  A tap is approved, after any history, only if its nonce was never approved before, a card with
  that nonce is pending and not expired, the action hash is the one on the card, the staged content has
  not changed since it was accepted, and a second factor was verified where the card asks for one.
\<close>

theorem approved_tap_is_genuine:
  assumes "res_status (snd (confirm env (foldl tap_step st taps) nonce h factor)) = Approved"
  shows "nonce \<notin> set (approvals st taps) \<and>
    (\<exists>entry. map_of (as_pending st) nonce = Some entry \<and> cf_now env \<le> pa_expiresAt entry \<and> h = pa_actionHash entry \<and>
       staged_now env entry = pa_stagedHashAtAccept entry \<and>
       (pa_requiresSecondFactor entry \<longrightarrow> (\<exists>f. factor = Some f \<and> verify_factor env f)))"
proof -
  have "as_pending (foldl tap_step st taps) = as_pending st"
    by (induction taps arbitrary: st) (auto simp: tap_step_def)
  with assms show ?thesis
    unfolding confirm_approved_iff approvals_consumed by (auto simp: second_factor_ok_def split: option.splits)
qed

definition demo_pending :: pending_approval where
  "demo_pending = \<lparr>pa_nonce = ''n1'', pa_actionHash = ''h1'', pa_requiresSecondFactor = True, pa_stagedHashAtAccept = ''s'', pa_expiresAt = 100\<rparr>"

definition demo_confirm :: confirm_env where
  "demo_confirm = \<lparr>cf_now = 5, cf_tap = 5, cf_staged = None, cf_verify = Some (\<lambda>f. f = ''123456'')\<rparr>"

theorem approved_tap_is_genuine_witness:
  "(let taps = [\<lparr>tap_env = demo_confirm, tap_nonce = ''n1'', tap_hash = ''forged'', tap_factor = None\<rparr>]
    in res_status (snd (confirm demo_confirm (foldl tap_step (makeApprovalHandler [demo_pending]) taps) ''n1'' ''h1'' (Some ''123456''))) = Approved \<and>
       ''n1'' \<notin> set (approvals (makeApprovalHandler [demo_pending]) taps))"
proof -
  let ?taps = "[\<lparr>tap_env = demo_confirm, tap_nonce = ''n1'', tap_hash = ''forged'', tap_factor = None\<rparr>]"
  have a: "res_status (snd (confirm demo_confirm (foldl tap_step (makeApprovalHandler [demo_pending]) ?taps) ''n1'' ''h1'' (Some ''123456''))) = Approved"
    by code_simp
  from approved_tap_is_genuine [OF a] a show ?thesis by (simp add: Let_def)
qed

text \<open>
  Stripping a value from an untrusted source leaves no trust field at any depth, and stripping again
  changes nothing.
\<close>

theorem strip_trust_is_clean:
  "set (all_keys (stripTrustDeep v)) \<inter> set TRUST_FIELDS = {} \<and> stripTrustDeep (stripTrustDeep v) = stripTrustDeep v"
  using strip_keys strip_idem by blast

text \<open>
  A redacted text does not contain any secret of the vault (for a secret that the placeholder itself
  does not spell), whatever patterns have been added.
\<close>

theorem vault_output_is_clean:
  assumes "(name, w) \<in> set (va_secrets v)" and "redactable w"
  shows "\<not> str_includes (vault_redact (foldl addRedactionPattern v ps) s) w"
proof (rule vault_redact_removes [OF assms(2)])
  have "va_secrets (foldl addRedactionPattern v ps) = va_secrets v"
    by (induction ps arbitrary: v) (auto simp: addRedactionPattern_def)
  with assms(1) show "w \<in> set (map_values (va_secrets (foldl addRedactionPattern v ps)))" by force
qed

theorem vault_output_is_clean_witness:
  "\<not> str_includes (vault_redact (foldl addRedactionPattern (makeVault [(''db'', ''hunter2'')]) [rx_lit ''x'']) ''pw=hunter2;x'') ''hunter2''"
  by (rule vault_output_is_clean [of "''db''"]) (simp add: makeVault_def, code_simp)

text \<open>
  A container starts only with user-namespace remapping, with every mount inside an allowed root and
  none of them a Docker socket; without an external launcher its identifier is not in use.
\<close>

theorem sandbox_start_confined:
  assumes "sandbox_start deps st config = (st', Inr i)"
  shows "sd_usernsRemapProbe deps = Some True \<and> map_of (sb_running st') i = Some (sc_taskId config) \<and>
    (\<forall>m \<in> set (sc_mounts config). \<not> str_includes (ms_hostPath m) ''docker.sock'' \<and>
       (\<exists>base \<in> set (allowed_roots deps). ms_hostPath m = base \<or> startsWith (ms_hostPath m) (base @ ''/''))) \<and>
    (sd_launch deps = None \<and> sandbox_wf st \<longrightarrow> map_of (sb_running st) i = None)"
proof -
  have "map_of (sb_running st) i = None" if "sd_launch deps = None" "sandbox_wf st"
  proof (rule sandbox_start_fresh [OF that(2)])
    have "deps\<lparr>sd_launch := None\<rparr> = deps" using that(1) by simp
    with assms show "sandbox_start (deps\<lparr>sd_launch := None\<rparr>) st config = (st', Inr i)" by simp
  qed
  then show ?thesis
    using sandbox_start_ok [OF assms] by (simp add: validateMounts_None under_root_def)
qed

theorem sandbox_start_confined_witness:
  "(let deps = \<lparr>sd_launch = None, sd_gVisorProbe = Some True, sd_allowedMountRoots = None, sd_execImpl = None,
          sd_seccompProfile = None, sd_usernsRemapProbe = Some True\<rparr>;
        config = \<lparr>sc_image = ''img'', sc_mounts = [\<lparr>ms_hostPath = ''/work/p'', ms_containerPath = ''/p'', ms_readOnly = True\<rparr>],
          sc_egressBridge = None, sc_taskId = ''t''\<rparr>
    in snd (sandbox_start deps makeSandboxRunner config) = Inr ''sbx-1'' \<and>
       map_of (sb_running (fst (sandbox_start deps makeSandboxRunner config))) ''sbx-1'' = Some ''t'')"
proof -
  let ?deps = "\<lparr>sd_launch = None, sd_gVisorProbe = Some True, sd_allowedMountRoots = None, sd_execImpl = None,
    sd_seccompProfile = None, sd_usernsRemapProbe = Some True\<rparr>"
  let ?config = "\<lparr>sc_image = ''img'', sc_mounts = [\<lparr>ms_hostPath = ''/work/p'', ms_containerPath = ''/p'', ms_readOnly = True\<rparr>],
    sc_egressBridge = None, sc_taskId = ''t''\<rparr>"
  have r: "snd (sandbox_start ?deps makeSandboxRunner ?config) = Inr ''sbx-1''" by code_simp
  then have "sandbox_start ?deps makeSandboxRunner ?config = (fst (sandbox_start ?deps makeSandboxRunner ?config), Inr ''sbx-1'')"
    by (metis prod.collapse)
  from sandbox_start_confined [OF this] r show ?thesis by (simp add: Let_def)
qed

text \<open>
  With the snapshot port bound, an unattended nightly operation runs only after a snapshot, and only
  when its kind is on the carve-out list and it carries no force flag.
\<close>

theorem carveout_snapshots_first:
  assumes "fst (carveout_run True hasExec nop) = before @ Execute p # after"
  shows "Snapshot \<in> set before \<and> p = nop \<and> no_kind p \<in> set CARVEOUT_KINDS \<and> getprop (no_params p) ''force'' \<noteq> JBool True"
  using assms by (cases before) (auto simp: carveout_run_def isPermitted_def Cons_eq_append_conv split: if_splits)

theorem carveout_snapshots_first_witness:
  "(let nop = \<lparr>no_kind = ''vacuum'', no_params = []\<rparr>
    in fst (carveout_run True True nop) = [Snapshot] @ Execute nop # [] \<and> no_kind nop \<in> set CARVEOUT_KINDS)"
proof -
  let ?nop = "\<lparr>no_kind = ''vacuum'', no_params = []\<rparr>"
  have "fst (carveout_run True True ?nop) = [Snapshot] @ Execute ?nop # []" by code_simp
  with carveout_snapshots_first [OF this] show ?thesis by (simp add: Let_def)
qed

text \<open>The mount check compares text: a path that climbs out of an allowed root by \<open>..\<close> passes it.\<close>

lemma mount_dotdot_accepted:
  "validateMounts \<lparr>sd_launch = None, sd_gVisorProbe = None, sd_allowedMountRoots = None, sd_execImpl = None,
     sd_seccompProfile = None, sd_usernsRemapProbe = Some True\<rparr>
     [\<lparr>ms_hostPath = ''/work/../etc'', ms_containerPath = ''/etc'', ms_readOnly = False\<rparr>] = None"
  by code_simp

text \<open>A force flag spelt as anything but the boolean is not refused.\<close>

lemma force_text_accepted: "isPermitted \<lparr>no_kind = ''git-push-ff'', no_params = [(''force'', JStr ''true'')]\<rparr>"
  by code_simp

end
