(* ===== verification/Provider_Router.thy ===== *)
theory Provider_Router
  imports Js_Json
begin

text \<open>
  The model router (\<open>core-ts/src/provider/index.ts\<close>, \<open>types.ts\<close>): classification, the escalation order,
  hysteresis, the stable-prefix contract, judge independence, the budget check and the dispatch loop
  with its escalation.

  Parameters: the digest, the clock reading of a queue record and, per dispatch, the adapters' answers
  \<open>call key req\<close> (\<open>Inl\<close> the optional kind of a thrown error). Dollar amounts are exact rationals. One
  dispatch runs to its end before the next starts.
\<close>

datatype route_tier = Reasoning | Critique | Routine

datatype provider_family = Deepseek | Anthropic | Openai

datatype provider_error_kind = RateLimit | ServerError | Timeout

datatype role = RClassifier | RGenerator | RJudge | RAgent | ROther string

record provider_id =
  pi_family :: provider_family
  pi_model :: string

record model_request =
  rq_taskId :: string
  rq_requestId :: string
  rq_role :: role
  rq_stablePrefix :: string
  rq_raw :: string
  rq_estimate :: int
  rq_paired :: "provider_id option"

record model_result =
  mr_requestId :: string
  mr_provider :: provider_id
  mr_content :: string
  mr_inputTokens :: int
  mr_outputTokens :: int
  mr_dollars :: rat

record route_decision =
  dn_provider :: provider_id
  dn_tier :: route_tier
  dn_fromFallback :: bool
  dn_cacheBreakpoints :: nat

record task_budget =
  tb_taskId :: string
  tb_tokenCeiling :: int
  tb_dollarCeiling :: rat
  tb_tokensSpent :: int
  tb_dollarsSpent :: rat

record queue_record =
  qr_taskId :: string
  qr_requestId :: string
  qr_serialized :: string
  qr_queuedAt :: int

datatype dispatch_error =
    BudgetExceeded task_budget
  | AllProvidersDown string
  | JudgeCollisionHeld string
  | PrefixMutated string string
  | RouterNotReady
  | ProviderError provider_id provider_error_kind

datatype router_event =
    EvClassified string route_tier bool
  | EvResolved string route_decision
  | EvFallback string provider_id provider_id
  | EvAllDownQueued string string
  | EvCostCharged string string route_tier int rat
  | EvBudgetCharged string string rat int
  | EvBudgetExceeded string task_budget
  | EvJudgeHeld string string
  | EvPrefixMismatch string string string

definition TABLE :: "route_tier \<Rightarrow> provider_id" where
  "TABLE t = (case t of
     Reasoning \<Rightarrow> \<lparr>pi_family = Deepseek, pi_model = ''deepseek-v4-pro''\<rparr>
   | Critique \<Rightarrow> \<lparr>pi_family = Anthropic, pi_model = ''claude-opus-4.8''\<rparr>
   | Routine \<Rightarrow> \<lparr>pi_family = Deepseek, pi_model = ''deepseek-v4-flash''\<rparr>)"

definition HYSTERESIS_THRESHOLD :: nat where "HYSTERESIS_THRESHOLD = 2"

definition MAX_CACHE_BREAKPOINTS :: nat where "MAX_CACHE_BREAKPOINTS = 4"

fun family_text :: "provider_family \<Rightarrow> string" where
  "family_text Deepseek = ''deepseek''"
| "family_text Anthropic = ''anthropic''"
| "family_text Openai = ''openai''"

definition keyOf :: "provider_id \<Rightarrow> string" where
  "keyOf p = family_text (pi_family p) @ '':'' @ pi_model p"

text \<open>\<open>None\<close> is the thrown error on an unknown role.\<close>

fun classifyRole :: "role \<Rightarrow> route_tier option" where
  "classifyRole RGenerator = Some Reasoning"
| "classifyRole RJudge = Some Critique"
| "classifyRole RAgent = Some Routine"
| "classifyRole RClassifier = Some Routine"
| "classifyRole (ROther _) = None"

record router_deps =
  rd_adapters :: "provider_id list"
  rd_escalationOrder :: "provider_id list option"
  rd_ready :: "bool option"
  rd_sha256 :: "string \<Rightarrow> string"
  rd_now :: int

record router_state =
  rs_hysteresis :: "(string, provider_id \<times> nat) jsmap"
  rs_budgets :: "(string, task_budget) jsmap"
  rs_queue :: "(string, queue_record) jsmap"
  rs_review :: "(string, model_request) jsmap"
  rs_prefixHashes :: "(string, string) jsmap"
  rs_events :: "router_event list"

definition emit :: "router_event \<Rightarrow> router_state \<Rightarrow> router_state" where
  "emit e st = st\<lparr>rs_events := rs_events st @ [e]\<rparr>"

definition errorCount :: "router_state \<Rightarrow> provider_id \<Rightarrow> nat" where
  "errorCount st p = (case map_of (rs_hysteresis st) (keyOf p) of None \<Rightarrow> 0 | Some (_, n) \<Rightarrow> n)"

definition isDown :: "router_state \<Rightarrow> provider_id \<Rightarrow> bool" where
  "isDown st p \<longleftrightarrow> errorCount st p \<ge> HYSTERESIS_THRESHOLD"

definition recordError :: "provider_id \<Rightarrow> router_state \<Rightarrow> router_state" where
  "recordError p st = st\<lparr>rs_hysteresis := AList.update (keyOf p) (p, errorCount st p + 1) (rs_hysteresis st)\<rparr>"

definition recordSuccess :: "provider_id \<Rightarrow> router_state \<Rightarrow> router_state" where
  "recordSuccess p st = st\<lparr>rs_hysteresis := AList.update (keyOf p) (p, 0) (rs_hysteresis st)\<rparr>"

fun order_filter :: "string list \<Rightarrow> string list \<Rightarrow> provider_id list \<Rightarrow> provider_id list" where
  "order_filter known seen [] = []"
| "order_filter known seen (p # ps) =
     (if keyOf p \<in> set seen \<or> keyOf p \<notin> set known then order_filter known seen ps
      else p # order_filter known (seen @ [keyOf p]) ps)"

definition orderFor :: "router_deps \<Rightarrow> route_tier \<Rightarrow> provider_id list" where
  "orderFor deps t =
     (let rest = (case rd_escalationOrder deps of None \<Rightarrow> rd_adapters deps | Some ps \<Rightarrow> ps)
      in order_filter (map keyOf (rd_adapters deps)) [] (TABLE t # rest))"

definition resolveProvider :: "router_deps \<Rightarrow> router_state \<Rightarrow> route_tier \<Rightarrow> provider_id option" where
  "resolveProvider deps st t = find (\<lambda>p. \<not> isDown st p) (orderFor deps t)"

definition classifySafe :: "model_request \<Rightarrow> router_state \<Rightarrow> router_state \<times> route_tier" where
  "classifySafe req st =
     (case classifyRole (rq_role req) of
        Some t \<Rightarrow> (st, t)
      | None \<Rightarrow> (emit (EvClassified (rq_taskId req) Critique True) st, Critique))"

fun role_text :: "role \<Rightarrow> string" where
  "role_text RClassifier = ''classifier''"
| "role_text RGenerator = ''generator''"
| "role_text RJudge = ''judge''"
| "role_text RAgent = ''agent''"
| "role_text (ROther s) = s"

definition byte_array :: "string \<Rightarrow> jv" where
  "byte_array s = JArr (map (\<lambda>c. JNum (of_char c)) s)"

definition serializeRequest :: "model_request \<Rightarrow> string" where
  "serializeRequest req = json_text (JObj
     ([(''taskId'', JStr (rq_taskId req)), (''requestId'', JStr (rq_requestId req)),
       (''role'', JStr (role_text (rq_role req))), (''stablePrefix'', byte_array (rq_stablePrefix req)),
       (''body'', JObj [(''raw'', byte_array (rq_raw req)), (''estimatedInputTokens'', JNum (rq_estimate req))])] @
      (case rq_paired req of
         None \<Rightarrow> []
       | Some g \<Rightarrow> [(''pairedGeneratorProvider'',
           JObj [(''family'', JStr (family_text (pi_family g))), (''model'', JStr (pi_model g))])])))"

definition allDown :: "router_deps \<Rightarrow> model_request \<Rightarrow> router_state \<Rightarrow> router_state \<times> dispatch_error" where
  "allDown deps req st =
     (let rec1 = \<lparr>qr_taskId = rq_taskId req, qr_requestId = rq_requestId req,
                 qr_serialized = serializeRequest req, qr_queuedAt = rd_now deps\<rparr>;
          st1 = st\<lparr>rs_queue := AList.update (rq_requestId req) rec1 (rs_queue st)\<rparr>
      in (emit (EvAllDownQueued (rq_taskId req) (rq_requestId req)) st1, AllProvidersDown (rq_requestId req)))"

definition classify_op :: "model_request \<Rightarrow> router_state \<Rightarrow> router_state \<times> route_tier option" where
  "classify_op req st =
     (case classifyRole (rq_role req) of
        None \<Rightarrow> (st, None)
      | Some t \<Rightarrow> (emit (EvClassified (rq_taskId req) t False) st, Some t))"

definition route :: "router_deps \<Rightarrow> model_request \<Rightarrow> router_state \<Rightarrow> router_state \<times> (dispatch_error + route_decision)" where
  "route deps req st =
     (let (st1, t) = classifySafe req st in
      case resolveProvider deps st1 t of
        None \<Rightarrow> (let (st2, e) = allDown deps req st1 in (st2, Inl e))
      | Some provider \<Rightarrow>
          (let decision = \<lparr>dn_provider = provider, dn_tier = t,
                 dn_fromFallback = (keyOf provider \<noteq> keyOf (TABLE t)), dn_cacheBreakpoints = MAX_CACHE_BREAKPOINTS\<rparr>
           in (emit (EvResolved (rq_taskId req) decision) st1, Inr decision)))"

definition collides :: "model_request \<Rightarrow> provider_id \<Rightarrow> bool" where
  "collides req p \<longleftrightarrow> rq_role req = RJudge \<and>
     (case rq_paired req of None \<Rightarrow> False | Some g \<Rightarrow> pi_family p = pi_family g)"

definition hold_judge :: "model_request \<Rightarrow> router_state \<Rightarrow> router_state \<times> dispatch_error" where
  "hold_judge req st =
     (emit (EvJudgeHeld (rq_taskId req) (rq_requestId req))
        (st\<lparr>rs_review := AList.update (rq_requestId req) req (rs_review st)\<rparr>),
      JudgeCollisionHeld (rq_requestId req))"

definition over_budget :: "task_budget \<Rightarrow> int \<Rightarrow> bool" where
  "over_budget b estimate \<longleftrightarrow>
     (let projectedTokens = tb_tokensSpent b + estimate;
          pricePerToken = (if tb_tokensSpent b > 0 then tb_dollarsSpent b / of_int (tb_tokensSpent b) else 0);
          projectedDollars = tb_dollarsSpent b + of_int estimate * pricePerToken
      in projectedTokens > tb_tokenCeiling b \<or> projectedDollars > tb_dollarCeiling b)"

definition tokens_of :: "model_result \<Rightarrow> int" where
  "tokens_of r = mr_inputTokens r + mr_outputTokens r"

definition charge_budget :: "model_result \<Rightarrow> task_budget \<Rightarrow> task_budget" where
  "charge_budget r b = b\<lparr>tb_tokensSpent := tb_tokensSpent b + tokens_of r,
                         tb_dollarsSpent := tb_dollarsSpent b + mr_dollars r\<rparr>"

definition settle :: "model_request \<Rightarrow> route_tier \<Rightarrow> provider_id \<Rightarrow> model_result \<Rightarrow> router_state \<Rightarrow> router_state" where
  "settle req t provider r st =
     (let st1 = emit (EvCostCharged (rq_taskId req) (rq_requestId req) t (tokens_of r) (mr_dollars r))
                  (recordSuccess provider st)
      in case map_of (rs_budgets st1) (rq_taskId req) of
           None \<Rightarrow> st1
         | Some b \<Rightarrow> emit (EvBudgetCharged (rq_taskId req) (rq_requestId req) (mr_dollars r) (tokens_of r))
             (st1\<lparr>rs_budgets := AList.update (rq_taskId req) (charge_budget r b) (rs_budgets st1)\<rparr>))"

type_synonym adapter_calls = "string \<Rightarrow> model_request \<Rightarrow> provider_error_kind option + model_result"


section \<open>The dispatch loop\<close>

text \<open>The providers of the order that are still up, and the lemmas the loop's measure needs.\<close>

definition up_count :: "router_deps \<Rightarrow> route_tier \<Rightarrow> router_state \<Rightarrow> nat" where
  "up_count deps t st = length (filter (\<lambda>p. \<not> isDown st p) (orderFor deps t))"

definition candidate :: "router_deps \<Rightarrow> route_tier \<Rightarrow> router_state \<Rightarrow> provider_id \<Rightarrow> bool" where
  "candidate deps t st p \<longleftrightarrow> p \<in> set (orderFor deps t) \<and> \<not> isDown st p"

lemma errorCount_emit [simp]: "errorCount (emit e st) p = errorCount st p"
  by (simp add: errorCount_def emit_def)

lemma isDown_emit [simp]: "isDown (emit e st) p = isDown st p"
  by (simp add: isDown_def)

lemma errorCount_recordError:
  "errorCount (recordError p st) q = (if keyOf q = keyOf p then errorCount st p + 1 else errorCount st q)"
  by (simp add: errorCount_def recordError_def)

lemma errorCount_recordSuccess:
  "errorCount (recordSuccess p st) q = (if keyOf q = keyOf p then 0 else errorCount st q)"
  by (simp add: errorCount_def recordSuccess_def)

lemma errorCount_key: "keyOf p = keyOf q \<Longrightarrow> errorCount st p = errorCount st q"
  by (simp add: errorCount_def)

lemma isDown_recordError: "isDown st q \<Longrightarrow> isDown (recordError p st) q"
  using errorCount_key [of q p st] by (auto simp: isDown_def errorCount_recordError)

lemma up_count_emit [simp]: "up_count deps t (emit e st) = up_count deps t st"
  by (simp add: up_count_def)

lemma resolveProvider_SomeD: "resolveProvider deps st t = Some p \<Longrightarrow> candidate deps t st p"
  by (auto simp: resolveProvider_def candidate_def find_Some_iff)

lemma resolveProvider_None: "resolveProvider deps st t = None \<longleftrightarrow> (\<forall>p \<in> set (orderFor deps t). isDown st p)"
  by (auto simp: resolveProvider_def find_None_iff)

lemma up_count_error_le: "up_count deps t (recordError p st) \<le> up_count deps t st"
  unfolding up_count_def by (rule length_filter_mono) (use isDown_recordError in blast)

lemma up_count_error_less:
  "candidate deps t st p \<Longrightarrow> isDown (recordError p st) p \<Longrightarrow> up_count deps t (recordError p st) < up_count deps t st"
  unfolding up_count_def candidate_def
  by (rule length_filter_strict [of p]) (use isDown_recordError in blast)+

definition loop_measure :: "router_deps \<Rightarrow> route_tier \<Rightarrow> provider_id \<Rightarrow> router_state \<Rightarrow> nat" where
  "loop_measure deps t p st = up_count deps t st + (if candidate deps t st p then 0 else 1)"

lemma loop_measure_less:
  assumes "\<not> errorCount (recordError p st) p < HYSTERESIS_THRESHOLD"
    and "resolveProvider deps (recordError p st) t = Some next1"
  shows "loop_measure deps t next1 (emit e (recordError p st)) < loop_measure deps t p st"
proof -
  have c: "candidate deps t (recordError p st) next1" by (rule resolveProvider_SomeD [OF assms(2)])
  then have "candidate deps t (emit e (recordError p st)) next1" by (simp add: candidate_def)
  moreover have "isDown (recordError p st) p" using assms(1) by (simp add: isDown_def)
  ultimately show ?thesis
    using up_count_error_less [of deps t st p] up_count_error_le [of deps t p st]
    by (auto simp: loop_measure_def)
qed

function dispatch_loop :: "router_deps \<Rightarrow> adapter_calls \<Rightarrow> model_request \<Rightarrow> route_tier \<Rightarrow> provider_id \<Rightarrow>
    router_state \<Rightarrow> router_state \<times> (dispatch_error + model_result)" where
  "dispatch_loop deps call req t provider st =
     (case call (keyOf provider) req of
        Inr r \<Rightarrow> (settle req t provider r st, Inr r)
      | Inl kind \<Rightarrow>
          (let st1 = recordError provider st in
           if errorCount st1 provider < HYSTERESIS_THRESHOLD then
             (st1, Inl (ProviderError provider (case kind of None \<Rightarrow> ServerError | Some k \<Rightarrow> k)))
           else
             (case resolveProvider deps st1 t of
                None \<Rightarrow> (let (st2, e) = allDown deps req st1 in (st2, Inl e))
              | Some next1 \<Rightarrow>
                  (let st2 = emit (EvFallback (rq_taskId req) provider next1) st1 in
                   if collides req next1 then (let (st3, e) = hold_judge req st2 in (st3, Inl e))
                   else dispatch_loop deps call req t next1 st2))))"
  by pat_completeness auto
termination
  by (relation "measure (\<lambda>(deps, call, req, t, provider, st). loop_measure deps t provider st)")
     (auto simp: loop_measure_less)

declare dispatch_loop.simps [simp del]

definition after_prefix :: "router_deps \<Rightarrow> adapter_calls \<Rightarrow> model_request \<Rightarrow> router_state \<Rightarrow>
    router_state \<times> (dispatch_error + model_result)" where
  "after_prefix deps call req st =
     (let (st1, t) = classifySafe req st in
      case resolveProvider deps st1 t of
        None \<Rightarrow> (let (st2, e) = allDown deps req st1 in (st2, Inl e))
      | Some provider \<Rightarrow>
          if collides req provider then (let (st2, e) = hold_judge req st1 in (st2, Inl e))
          else
            (case map_of (rs_budgets st1) (rq_taskId req) of
               Some b \<Rightarrow>
                 if over_budget b (rq_estimate req) then
                   (emit (EvBudgetExceeded (rq_taskId req) b) st1, Inl (BudgetExceeded b))
                 else dispatch_loop deps call req t provider st1
             | None \<Rightarrow> dispatch_loop deps call req t provider st1))"

definition dispatch :: "router_deps \<Rightarrow> adapter_calls \<Rightarrow> model_request \<Rightarrow> router_state \<Rightarrow>
    router_state \<times> (dispatch_error + model_result)" where
  "dispatch deps call req st =
     (if rd_ready deps = Some False then (st, Inl RouterNotReady)
      else
        (let actualHash = rd_sha256 deps (rq_stablePrefix req) in
         case map_of (rs_prefixHashes st) (rq_taskId req) of
           None \<Rightarrow> after_prefix deps call req
             (st\<lparr>rs_prefixHashes := AList.update (rq_taskId req) actualHash (rs_prefixHashes st)\<rparr>)
         | Some expectedHash \<Rightarrow>
             if expectedHash \<noteq> actualHash then
               (emit (EvPrefixMismatch (rq_taskId req) expectedHash actualHash) st,
                Inl (PrefixMutated expectedHash actualHash))
             else after_prefix deps call req st))"


section \<open>What the loop does\<close>

text \<open>Facts about the whole run follow from facts about one round, by the loop's own induction.\<close>

lemma loop_cases [consumes 1, case_names ok transient alldown held again]:
  assumes "dispatch_loop deps call req t p st = (st', res)"
  obtains r where "call (keyOf p) req = Inr r" and "st' = settle req t p r st" and "res = Inr r"
  | kind where "call (keyOf p) req = Inl kind" and "errorCount st p + 1 < HYSTERESIS_THRESHOLD" and "st' = recordError p st"
      and "res = Inl (ProviderError p (case kind of None \<Rightarrow> ServerError | Some k \<Rightarrow> k))"
  | kind where "call (keyOf p) req = Inl kind" and "\<forall>q \<in> set (orderFor deps t). isDown (recordError p st) q"
      and "st' = fst (allDown deps req (recordError p st))" and "res = Inl (AllProvidersDown (rq_requestId req))"
  | kind next1 where "call (keyOf p) req = Inl kind" and "collides req next1"
      and "isDown (recordError p st) p" and "candidate deps t (recordError p st) next1"
      and "st' = fst (hold_judge req (emit (EvFallback (rq_taskId req) p next1) (recordError p st)))"
      and "res = Inl (JudgeCollisionHeld (rq_requestId req))"
  | kind next1 where "call (keyOf p) req = Inl kind" and "\<not> collides req next1"
      and "isDown (recordError p st) p" and "candidate deps t (recordError p st) next1"
      and "dispatch_loop deps call req t next1 (emit (EvFallback (rq_taskId req) p next1) (recordError p st)) = (st', res)"
      and "loop_measure deps t next1 (emit (EvFallback (rq_taskId req) p next1) (recordError p st)) < loop_measure deps t p st"
proof (cases "call (keyOf p) req")
  case (Inr r)
  with assms that(1) show thesis by (simp add: dispatch_loop.simps [of deps call req t p st])
next
  case (Inl kind)
  let ?st = "recordError p st"
  show thesis
  proof (cases "errorCount ?st p < HYSTERESIS_THRESHOLD")
    case True
    with assms Inl that(2) show thesis
      by (simp add: dispatch_loop.simps [of deps call req t p st] Let_def errorCount_recordError)
  next
    case False
    then have down: "isDown ?st p" by (simp add: isDown_def)
    show thesis
    proof (cases "resolveProvider deps ?st t")
      case None
      with assms Inl False that(3) show thesis
        by (simp add: dispatch_loop.simps [of deps call req t p st] Let_def allDown_def resolveProvider_None)
    next
      case (Some next1)
      have "candidate deps t ?st next1" by (rule resolveProvider_SomeD [OF Some])
      with assms Inl False Some down that(4,5) loop_measure_less [OF False Some] show thesis
        by (cases "collides req next1")
           (simp_all add: dispatch_loop.simps [of deps call req t p st] Let_def hold_judge_def)
    qed
  qed
qed

lemma isDown_settle: "isDown st q \<Longrightarrow> \<not> isDown st p \<Longrightarrow> isDown (settle req t p r st) q"
  using errorCount_key [of p q st]
  by (auto simp: settle_def Let_def isDown_def errorCount_def emit_def recordSuccess_def split: option.splits)

lemma prefix_settle [simp]: "rs_prefixHashes (settle req t p r st) = rs_prefixHashes st"
  by (simp add: settle_def Let_def emit_def recordSuccess_def split: option.splits)

lemma budgets_settle:
  "map_of (rs_budgets (settle req t p r st)) = (map_of (rs_budgets st))
     (rq_taskId req := map_option (charge_budget r) (map_of (rs_budgets st) (rq_taskId req)))"
  by (auto simp: settle_def Let_def emit_def recordSuccess_def split: option.splits)

lemma frame_simps [simp]:
  "rs_prefixHashes (emit e st) = rs_prefixHashes st" "rs_budgets (emit e st) = rs_budgets st"
  "rs_prefixHashes (recordError p st) = rs_prefixHashes st" "rs_budgets (recordError p st) = rs_budgets st"
  "rs_prefixHashes (fst (allDown deps req st)) = rs_prefixHashes st" "rs_budgets (fst (allDown deps req st)) = rs_budgets st"
  "rs_prefixHashes (fst (hold_judge req st)) = rs_prefixHashes st" "rs_budgets (fst (hold_judge req st)) = rs_budgets st"
  "isDown (fst (allDown deps req st)) q = isDown st q" "isDown (fst (hold_judge req st)) q = isDown st q"
  by (simp_all add: emit_def recordError_def allDown_def hold_judge_def isDown_def errorCount_def Let_def)

lemma loop_answer:
  "dispatch_loop deps call req t p st = (st', Inr r) \<Longrightarrow> candidate deps t st p \<Longrightarrow> \<not> collides req p \<Longrightarrow>
     \<exists>q. q \<in> set (orderFor deps t) \<and> \<not> collides req q \<and> call (keyOf q) req = Inr r \<and> errorCount st' q = 0"
proof (induction "loop_measure deps t p st" arbitrary: p st rule: less_induct)
  case less
  from less.prems(1) show ?case
  proof (cases rule: loop_cases)
    case (ok r')
    have "errorCount (settle req t p r st) p = 0"
      by (simp add: settle_def Let_def errorCount_def emit_def recordSuccess_def split: option.splits)
    with ok less.prems show ?thesis by (auto simp: candidate_def)
  next
    case (again kind next1)
    with less.hyps [OF again(6) again(5)] show ?thesis by (simp add: candidate_def)
  qed auto
qed

lemma loop_keeps_down:
  "dispatch_loop deps call req t p st = (st', res) \<Longrightarrow> \<not> isDown st p \<Longrightarrow> isDown st q \<Longrightarrow> isDown st' q"
proof (induction "loop_measure deps t p st" arbitrary: p st rule: less_induct)
  case less
  from less.prems(1) show ?case
  proof (cases rule: loop_cases)
    case (again kind next1)
    with less.hyps [OF again(6) again(5)] less.prems isDown_recordError show ?thesis by (simp add: candidate_def)
  qed (use less.prems in \<open>simp_all add: isDown_settle isDown_recordError\<close>)
qed

lemma loop_frame:
  "dispatch_loop deps call req t p st = (st', res) \<Longrightarrow> rs_prefixHashes st' = rs_prefixHashes st \<and>
     map_of (rs_budgets st') = (case res of Inl _ \<Rightarrow> map_of (rs_budgets st)
       | Inr r \<Rightarrow> (map_of (rs_budgets st))(rq_taskId req :=
           map_option (charge_budget r) (map_of (rs_budgets st) (rq_taskId req))))"
proof (induction "loop_measure deps t p st" arbitrary: p st rule: less_induct)
  case less
  from less.prems(1) show ?case
  proof (cases rule: loop_cases)
    case (again kind next1)
    with less.hyps [OF again(6) again(5)] show ?thesis by (cases res) simp_all
  qed (simp_all add: budgets_settle)
qed

text \<open>The escalations of one dispatch are fewer than the providers that were up.\<close>

definition fallbacks :: "router_state \<Rightarrow> nat" where
  "fallbacks st = length (filter (\<lambda>e. case e of EvFallback _ _ _ \<Rightarrow> True | _ \<Rightarrow> False) (rs_events st))"

lemma fallbacks_simps [simp]:
  "fallbacks (emit (EvFallback a b c) st) = fallbacks st + 1"
  "fallbacks (emit (EvClassified a d e) st) = fallbacks st"
  "fallbacks (recordError p st) = fallbacks st"
  "fallbacks (settle req t p r st) = fallbacks st"
  "fallbacks (fst (allDown deps req st)) = fallbacks st"
  "fallbacks (fst (hold_judge req st)) = fallbacks st"
  by (simp_all add: fallbacks_def emit_def recordError_def settle_def recordSuccess_def allDown_def hold_judge_def Let_def
      split: option.splits)

lemma loop_fallbacks:
  "dispatch_loop deps call req t p st = (st', res) \<Longrightarrow> candidate deps t st p \<Longrightarrow>
     fallbacks st' < fallbacks st + up_count deps t st"
proof (induction "loop_measure deps t p st" arbitrary: p st rule: less_induct)
  case less
  have up: "0 < up_count deps t st"
    using less.prems(2) by (auto simp: up_count_def candidate_def filter_empty_conv)
  from less.prems(1) show ?case
  proof (cases rule: loop_cases)
    case (held kind next1)
    have "next1 \<in> set (orderFor deps t) \<and> \<not> isDown (recordError p st) next1"
      using held(4) by (simp add: candidate_def)
    then have "0 < up_count deps t (recordError p st)"
      by (auto simp: up_count_def filter_empty_conv)
    with held up_count_error_less [OF less.prems(2) held(3)] show ?thesis by simp
  next
    case (again kind next1)
    with less.hyps [OF again(6) again(5)] up_count_error_less [OF less.prems(2) again(3)]
    show ?thesis by (simp add: candidate_def)
  qed (use up in simp_all)
qed

section \<open>A whole dispatch\<close>

lemma classifySafe_frame [simp]:
  "rs_prefixHashes (fst (classifySafe req st)) = rs_prefixHashes st"
  "rs_budgets (fst (classifySafe req st)) = rs_budgets st"
  "isDown (fst (classifySafe req st)) p = isDown st p"
  "fallbacks (fst (classifySafe req st)) = fallbacks st"
  "up_count deps t (fst (classifySafe req st)) = up_count deps t st"
  by (simp_all add: classifySafe_def split: option.splits)

lemma after_prefix_cases [consumes 1, case_names alldown held broke loop]:
  assumes "after_prefix deps call req st = (st', res)"
  obtains "st' = fst (allDown deps req (fst (classifySafe req st)))" and "res = Inl (AllProvidersDown (rq_requestId req))"
  | "st' = fst (hold_judge req (fst (classifySafe req st)))" and "res = Inl (JudgeCollisionHeld (rq_requestId req))"
  | b where "map_of (rs_budgets st) (rq_taskId req) = Some b" and "over_budget b (rq_estimate req)"
      and "st' = emit (EvBudgetExceeded (rq_taskId req) b) (fst (classifySafe req st))" and "res = Inl (BudgetExceeded b)"
  | p t where "t = snd (classifySafe req st)" and "candidate deps t (fst (classifySafe req st)) p" and "\<not> collides req p"
      and "\<forall>b. map_of (rs_budgets st) (rq_taskId req) = Some b \<longrightarrow> \<not> over_budget b (rq_estimate req)"
      and "dispatch_loop deps call req t p (fst (classifySafe req st)) = (st', res)"
proof -
  obtain st1 t where c: "classifySafe req st = (st1, t)" by fastforce
  have b: "rs_budgets st1 = rs_budgets st" using classifySafe_frame(2) [of req st] c by simp
  show thesis
  proof (cases "resolveProvider deps st1 t")
    case None
    with assms c that(1) show thesis by (simp add: after_prefix_def allDown_def Let_def)
  next
    case (Some p)
    note cand = resolveProvider_SomeD [OF Some]
    show thesis
    proof (cases "collides req p")
      case True
      with assms c Some that(2) show thesis by (simp add: after_prefix_def hold_judge_def Let_def)
    next
      case False
      with assms c Some cand that(3,4) b show thesis
        by (auto simp: after_prefix_def split: option.splits if_splits)
    qed
  qed
qed

definition dispatch_step :: "router_deps \<Rightarrow> router_state \<Rightarrow> adapter_calls \<times> model_request \<Rightarrow> router_state" where
  "dispatch_step deps st e = fst (dispatch deps (fst e) (snd e) st)"

lemma after_prefix_keeps_down:
  assumes "after_prefix deps call req st = (st', res)" and "isDown st q"
  shows "isDown st' q"
  using assms(1)
proof (cases rule: after_prefix_cases)
  case (loop p t)
  with assms(2) show ?thesis using loop_keeps_down [OF loop(5)] by (simp add: candidate_def)
qed (use assms(2) in simp_all)

lemma after_prefix_frame:
  assumes "after_prefix deps call req st = (st', res)"
  shows "rs_prefixHashes st' = rs_prefixHashes st \<and>
     map_of (rs_budgets st') = (case res of Inl _ \<Rightarrow> map_of (rs_budgets st)
       | Inr r \<Rightarrow> (map_of (rs_budgets st))(rq_taskId req :=
           map_option (charge_budget r) (map_of (rs_budgets st) (rq_taskId req))))"
  using assms
proof (cases rule: after_prefix_cases)
  case (loop p t)
  with loop_frame [OF loop(5)] show ?thesis by (cases res) simp_all
qed simp_all

lemma isDown_prefix [simp]: "isDown (st\<lparr>rs_prefixHashes := m\<rparr>) p = isDown st p"
  by (simp add: isDown_def errorCount_def)

interpretation hysteresis: latch_machine "dispatch_step deps" "\<lambda>st. isDown st p" for deps p
proof
  fix s :: router_state and e :: "adapter_calls \<times> model_request"
  assume d: "isDown s p"
  have "isDown (fst (after_prefix deps (fst e) (snd e) s')) p" if "isDown s' p" for s'
    using after_prefix_keeps_down [OF _ that, of deps "fst e" "snd e"] by (metis prod.collapse)
  with d show "isDown (dispatch_step deps s e) p"
    by (simp add: dispatch_step_def dispatch_def Let_def split: option.splits)
qed

interpretation stable_prefix: latch_machine "dispatch_step deps" "\<lambda>st. map_of (rs_prefixHashes st) task = Some h"
  for deps task h
proof
  fix s :: router_state and e :: "adapter_calls \<times> model_request"
  assume d: "map_of (rs_prefixHashes s) task = Some h"
  have "rs_prefixHashes (fst (after_prefix deps (fst e) (snd e) s')) = rs_prefixHashes s'" for s'
    using after_prefix_frame [of deps "fst e" "snd e" s'] by (metis prod.collapse)
  with d show "map_of (rs_prefixHashes (dispatch_step deps s e)) task = Some h"
    by (auto simp: dispatch_step_def dispatch_def Let_def split: option.splits)
qed

text \<open>A successful dispatch: who answered, and what it was allowed to cost.\<close>

lemma dispatch_success:
  assumes "dispatch deps call req st = (st', Inr r)"
  shows "rd_ready deps \<noteq> Some False \<and>
    map_of (rs_prefixHashes st') (rq_taskId req) = Some (rd_sha256 deps (rq_stablePrefix req)) \<and>
    (\<exists>q \<in> set (orderFor deps (snd (classifySafe req st))). \<not> collides req q \<and> call (keyOf q) req = Inr r \<and> \<not> isDown st' q) \<and>
    (\<forall>b. map_of (rs_budgets st) (rq_taskId req) = Some b \<longrightarrow>
       \<not> over_budget b (rq_estimate req) \<and> map_of (rs_budgets st') (rq_taskId req) = Some (charge_budget r b))"
proof -
  obtain st0 where run: "after_prefix deps call req st0 = (st', Inr r)" and ready: "rd_ready deps \<noteq> Some False"
    and pre: "map_of (rs_prefixHashes st0) (rq_taskId req) = Some (rd_sha256 deps (rq_stablePrefix req))"
    and bud: "rs_budgets st0 = rs_budgets st" and tier: "snd (classifySafe req st0) = snd (classifySafe req st)"
    using assms by (auto simp: dispatch_def Let_def classifySafe_def split: if_splits option.splits)
  from after_prefix_frame [OF run] have fr: "rs_prefixHashes st' = rs_prefixHashes st0"
    "map_of (rs_budgets st') (rq_taskId req) = map_option (charge_budget r) (map_of (rs_budgets st) (rq_taskId req))"
    using bud by auto
  from run show ?thesis
  proof (cases rule: after_prefix_cases)
    case (loop p t)
    from loop_answer [OF loop(5,2,3)] obtain q where "q \<in> set (orderFor deps t)" "\<not> collides req q"
      "call (keyOf q) req = Inr r" "errorCount st' q = 0" by blast
    with loop ready pre fr bud tier show ?thesis by (auto simp: isDown_def HYSTERESIS_THRESHOLD_def)
  qed auto
qed

lemma length_order_filter: "length (order_filter known seen ps) \<le> length ps"
  by (induction known seen ps rule: order_filter.induct) auto

lemma order_filter_keys:
  "distinct (map keyOf (order_filter known seen ps)) \<and> set (map keyOf (order_filter known seen ps)) \<subseteq> set known - set seen"
  by (induction known seen ps rule: order_filter.induct) auto

lemma orderFor_keys:
  "distinct (map keyOf (orderFor deps t)) \<and> set (map keyOf (orderFor deps t)) \<subseteq> set (map keyOf (rd_adapters deps))"
  using order_filter_keys [of "map keyOf (rd_adapters deps)" "[]"] unfolding orderFor_def Let_def by blast

lemma up_count_le: "up_count deps t st \<le> length (rd_adapters deps)"
proof -
  have "length (map keyOf (orderFor deps t)) = card (set (map keyOf (orderFor deps t)))"
    using orderFor_keys distinct_card [of "map keyOf (orderFor deps t)"] by simp
  also have "\<dots> \<le> card (set (map keyOf (rd_adapters deps)))"
    using orderFor_keys by (intro card_mono) blast+
  also have "\<dots> \<le> length (rd_adapters deps)" by (metis card_length length_map)
  finally show ?thesis
    unfolding up_count_def by (auto intro: order_trans [OF length_filter_le])
qed

lemma dispatch_fallback_bound:
  assumes "rd_adapters deps \<noteq> []"
  shows "fallbacks (fst (dispatch deps call req st)) < fallbacks st + length (rd_adapters deps)"
proof -
  have pos: "0 < length (rd_adapters deps)" using assms by simp
  have ev [simp]: "fallbacks (emit (EvBudgetExceeded a b) s) = fallbacks s"
    "fallbacks (emit (EvPrefixMismatch c d e) s) = fallbacks s"
    "fallbacks (s\<lparr>rs_prefixHashes := m\<rparr>) = fallbacks s" for a b c d e m s
    by (simp_all add: fallbacks_def emit_def)
  have "fallbacks s' < fallbacks s + length (rd_adapters deps)"
    if "after_prefix deps call req s = (s', res)" for s s' res
    using that
  proof (cases rule: after_prefix_cases)
    case (loop p t)
    from loop_fallbacks [OF loop(5,2)] show ?thesis
      using up_count_le [of deps t s] by simp
  qed (use pos in simp_all)
  then have run: "fallbacks (fst (after_prefix deps call req s)) < fallbacks s + length (rd_adapters deps)" for s
    by (metis prod.collapse)
  from run [of st] run [of "st\<lparr>rs_prefixHashes := m\<rparr>" for m] pos show ?thesis
    by (auto simp: dispatch_def Let_def split: option.splits)
qed

section \<open>Properties of the router\<close>


definition demo_router :: router_deps where
  "demo_router = \<lparr>rd_adapters = [TABLE Critique, TABLE Reasoning, \<lparr>pi_family = Openai, pi_model = ''o''\<rparr>],
     rd_escalationOrder = None, rd_ready = None, rd_sha256 = id, rd_now = 0\<rparr>"

definition demo_router_state :: router_state where
  "demo_router_state = \<lparr>rs_hysteresis = [], rs_budgets = [(''t'', \<lparr>tb_taskId = ''t'', tb_tokenCeiling = 100, tb_dollarCeiling = 5,
     tb_tokensSpent = 0, tb_dollarsSpent = 0\<rparr>)], rs_queue = [], rs_review = [], rs_prefixHashes = [], rs_events = []\<rparr>"

definition demo_request :: model_request where
  "demo_request = \<lparr>rq_taskId = ''t'', rq_requestId = ''r'', rq_role = RJudge, rq_stablePrefix = ''p'', rq_raw = [],
     rq_estimate = 10, rq_paired = Some (TABLE Reasoning)\<rparr>"

definition demo_result :: model_result where
  "demo_result = \<lparr>mr_requestId = ''r'', mr_provider = TABLE Critique, mr_content = ''ok'', mr_inputTokens = 3, mr_outputTokens = 4, mr_dollars = 1\<rparr>"


text \<open>
  C35: a dispatch falls back fewer times than there are adapters, so a request never cycles through
  failing providers.
\<close>

theorem fallbacks_bounded:
  assumes "rd_adapters deps \<noteq> []"
  shows "fallbacks (fst (dispatch deps call req st)) < fallbacks st + length (rd_adapters deps)"
  using dispatch_fallback_bound [OF assms] .

theorem fallbacks_bounded_witness:
  "fallbacks (fst (dispatch demo_router (\<lambda>_ _. Inl None) demo_request demo_router_state)) <
     fallbacks demo_router_state + length (rd_adapters demo_router)"
  by (rule fallbacks_bounded) (simp add: demo_router_def)

text \<open>
  Once a provider has failed twice in a row it stays down through every later sequence of
  dispatches, and no route resolves to it.
\<close>

theorem down_provider_stays_down:
  assumes "isDown st p"
  shows "isDown (foldl (dispatch_step deps) st reqs) p \<and> resolveProvider deps (foldl (dispatch_step deps) st reqs) t \<noteq> Some p"
proof -
  have "isDown (foldl (dispatch_step deps) st reqs) p" using hysteresis.latch_run [OF assms] .
  then show ?thesis using resolveProvider_SomeD by (auto simp: candidate_def)
qed

theorem down_provider_stays_down_witness:
  "(let st = recordError (TABLE Critique) (recordError (TABLE Critique) demo_router_state)
    in isDown (foldl (dispatch_step demo_router) st [(\<lambda>_ _. Inr demo_result, demo_request)]) (TABLE Critique) \<and>
       resolveProvider demo_router (foldl (dispatch_step demo_router) st [(\<lambda>_ _. Inr demo_result, demo_request)]) Critique \<noteq> Some (TABLE Critique))"
proof -
  have "isDown (recordError (TABLE Critique) (recordError (TABLE Critique) demo_router_state)) (TABLE Critique)" by code_simp
  from down_provider_stays_down [OF this] show ?thesis unfolding Let_def by blast
qed

text \<open>
  The first dispatched prefix of a task is pinned: after any further dispatches, a request of that
  task whose prefix hashes differently is refused before any provider is called.
\<close>

theorem prefix_is_pinned:
  assumes "map_of (rs_prefixHashes st) (rq_taskId req) = Some h" and "rd_sha256 deps (rq_stablePrefix req) \<noteq> h"
    and "rd_ready deps \<noteq> Some False"
  shows "snd (dispatch deps call req (foldl (dispatch_step deps) st reqs)) = Inl (PrefixMutated h (rd_sha256 deps (rq_stablePrefix req)))"
proof -
  have "map_of (rs_prefixHashes (foldl (dispatch_step deps) st reqs)) (rq_taskId req) = Some h"
    using stable_prefix.latch_run [OF assms(1)] .
  with assms(2,3) show ?thesis by (simp add: dispatch_def Let_def)
qed

theorem prefix_is_pinned_witness:
  "snd (dispatch demo_router (\<lambda>_ _. Inr demo_result) demo_request
     (foldl (dispatch_step demo_router) (demo_router_state\<lparr>rs_prefixHashes := [(''t'', ''q'')]\<rparr>) [(\<lambda>_ _. Inr demo_result, demo_request)]))
   = Inl (PrefixMutated ''q'' (rd_sha256 demo_router (rq_stablePrefix demo_request)))"
  by (rule prefix_is_pinned) (simp_all add: demo_router_def demo_request_def)

end
