(* ===== verification/Orchestration.thy ===== *)
theory Orchestration
  imports Js_Regex
begin

text \<open>
  The pure routines and the cycle detector of \<open>core-ts/src/orchestration/index.ts\<close>: exact spend
  conversion to nanos, glob matching of worker scopes, the overlap test of two scopes and the
  sliding-window loop guardian.

  A JavaScript number enters the spend conversion as its canonical decimal spelling.
\<close>

section \<open>Spend in nanos\<close>

definition digit_num :: "char \<Rightarrow> nat" where
  "digit_num c = of_char c - 48"

definition num_of_digits :: "string \<Rightarrow> nat" where
  "num_of_digits s = foldl (\<lambda>n c. 10 * n + digit_num c) 0 s"

text \<open>The groups of \<open>/^(\d+)(?:\.(\d+))?(?:e([+-]?\d+))?$/\<close>.\<close>

definition parse_exponent :: "string \<Rightarrow> int option" where
  "parse_exponent s =
     (case s of
        [] \<Rightarrow> Some 0
      | c # r \<Rightarrow>
          if c \<noteq> CHR ''e'' then None
          else (let (neg, ds) = (case r of
                     [] \<Rightarrow> (False, [])
                   | x # xs \<Rightarrow> if x = CHR ''-'' then (True, xs) else if x = CHR ''+'' then (False, xs) else (False, r))
                in if ds = [] \<or> \<not> list_all is_digit ds then None
                   else Some (if neg then - int (num_of_digits ds) else int (num_of_digits ds))))"

definition parse_spelling :: "string \<Rightarrow> (string \<times> string \<times> int) option" where
  "parse_spelling s =
     (let whole = takeWhile is_digit s; r = dropWhile is_digit s in
      if whole = [] then None
      else
        (let (fraction, r2) = (case r of
               c # cs \<Rightarrow> if c = CHR ''.'' \<and> takeWhile is_digit cs \<noteq> [] then (takeWhile is_digit cs, dropWhile is_digit cs) else ([], r)
             | [] \<Rightarrow> ([], r))
         in map_option (\<lambda>e. (whole, fraction, e)) (parse_exponent r2)))"

definition MAX_SAFE_USD_NANOS :: nat where "MAX_SAFE_USD_NANOS = 9007199254740991"

definition scaled_nanos :: "nat \<Rightarrow> int \<Rightarrow> nat" where
  "scaled_nanos coefficient nanosShift =
     (if nanosShift \<ge> 0 then coefficient * 10 ^ nat nanosShift
      else (let divisor = 10 ^ nat (- nanosShift);
                quotient = coefficient div divisor;
                remainder = coefficient mod divisor
            in quotient + (if remainder * 2 \<ge> divisor then 1 else 0)))"

definition iterationCostSpendNanos :: "string \<Rightarrow> nat option" where
  "iterationCostSpendNanos spelling =
     (case parse_spelling spelling of
        None \<Rightarrow> None
      | Some (whole, fraction, exponent) \<Rightarrow>
          (let coefficient = num_of_digits (whole @ fraction);
               decimalScale = int (length fraction) - exponent;
               nanos = scaled_nanos coefficient (9 - decimalScale)
           in if nanos > MAX_SAFE_USD_NANOS then None else Some nanos))"

text \<open>The amount a spelling denotes, in nanos of a dollar.\<close>

definition exact_nanos :: "string \<times> string \<times> int \<Rightarrow> rat" where
  "exact_nanos w = (case w of (whole, fraction, exponent) \<Rightarrow>
     of_nat (num_of_digits (whole @ fraction)) * 10 powi (9 + exponent - int (length fraction)))"

text \<open>Evaluation goes through the integers, whose numerals are binary.\<close>

lemma scaled_nanos_code [code]:
  "scaled_nanos c k =
     (if k \<ge> 0 then nat (int c * 10 ^ nat k)
      else (let d = 10 ^ nat (- k); q = int c div d; r = int c mod d in nat (q + (if r * 2 \<ge> d then 1 else 0))))"
proof (cases "0 \<le> k")
  case True
  then show ?thesis by (simp add: scaled_nanos_def nat_mult_distrib nat_power_eq)
next
  case False
  define d :: nat where "d = 10 ^ nat (- k)"
  have i: "(10 :: int) ^ nat (- k) = int d" by (simp add: d_def)
  have "int d \<le> int c mod int d * 2 \<longleftrightarrow> d \<le> c mod d * 2"
    by (metis of_nat_le_iff of_nat_mult of_nat_numeral zmod_int)
  then show ?thesis using False
    by (simp add: scaled_nanos_def i Let_def d_def [symmetric] zdiv_int [symmetric] nat_add_distrib)
qed

lemma max_nanos_int: "n > MAX_SAFE_USD_NANOS \<longleftrightarrow> int n > 9007199254740991"
  by (simp add: MAX_SAFE_USD_NANOS_def)

lemma iterationCostSpendNanos_code [code]:
  "iterationCostSpendNanos spelling =
     (case parse_spelling spelling of
        None \<Rightarrow> None
      | Some (whole, fraction, exponent) \<Rightarrow>
          (let nanos = scaled_nanos (num_of_digits (whole @ fraction)) (9 - (int (length fraction) - exponent))
           in if int nanos > 9007199254740991 then None else Some nanos))"
  unfolding iterationCostSpendNanos_def max_nanos_int Let_def ..

lemma scaled_nanos_half_up:
  "\<bar>of_nat (scaled_nanos c k) - of_nat c * (10 :: rat) powi k\<bar> \<le> 1 / 2"
proof (cases "0 \<le> k")
  case True
  then have "(10 :: rat) powi k = 10 ^ nat k" by (simp add: power_int_def)
  with True show ?thesis by (simp add: scaled_nanos_def)
next
  case False
  define d :: nat where "d = 10 ^ nat (- k)"
  have d: "0 < d" by (simp add: d_def)
  have p: "(10 :: rat) powi k = 1 / of_nat d"
    using False by (simp add: power_int_def d_def power_one_over)
  have c: "of_nat c = (of_nat d :: rat) * of_nat (c div d) + of_nat (c mod d)"
    by (metis mult_div_mod_eq of_nat_add of_nat_mult)
  have "of_nat c * (10 :: rat) powi k = of_nat (c div d) + of_nat (c mod d) / of_nat d"
    unfolding p c using d by (simp add: add_divide_distrib)
  moreover have "scaled_nanos c k = c div d + (if c mod d * 2 \<ge> d then 1 else 0)"
    using False by (simp add: scaled_nanos_def d_def Let_def)
  moreover have "(of_nat (c mod d) :: rat) / of_nat d < 1" using d by simp
  moreover have "d \<le> c mod d * 2 \<longleftrightarrow> 1 / 2 \<le> (of_nat (c mod d) :: rat) / of_nat d"
  proof -
    have "d \<le> c mod d * 2 \<longleftrightarrow> (of_nat d :: rat) \<le> of_nat (c mod d) * 2"
      by (metis of_nat_le_iff of_nat_mult of_nat_numeral)
    then show ?thesis using d by (simp add: field_simps)
  qed
  ultimately show ?thesis by auto
qed


section \<open>Scope globs\<close>

fun glob_parts :: "string \<Rightarrow> rx list" where
  "glob_parts [] = []"
| "glob_parts (c # cs) =
     (if c = CHR ''*'' then
        (case cs of
           d # ds \<Rightarrow> if d = CHR ''*'' then Star rx_any # glob_parts ds
                     else Star (Cls (\<lambda>x. x \<noteq> CHR ''/'')) # glob_parts cs
         | [] \<Rightarrow> [Star (Cls (\<lambda>x. x \<noteq> CHR ''/''))])
      else if c = CHR ''?'' then Cls (\<lambda>x. x \<noteq> CHR ''/'') # glob_parts cs
      else rx_char c # glob_parts cs)"

definition globToRegExp :: "string \<Rightarrow> rx" where
  "globToRegExp glob = rx_seq (Bol # glob_parts glob @ [Eol])"

definition globMatches :: "string \<Rightarrow> string \<Rightarrow> bool" where
  "globMatches glob path = rx_test (globToRegExp glob) path"

definition wildcard :: "char \<Rightarrow> bool" where
  "wildcard c \<longleftrightarrow> c = CHR ''*'' \<or> c = CHR ''?''"

definition globRoot :: "string \<Rightarrow> string" where
  "globRoot glob = takeWhile (\<lambda>c. \<not> wildcard c) glob"

definition patternsMayOverlap :: "string \<Rightarrow> string \<Rightarrow> bool" where
  "patternsMayOverlap a b =
     (if a = b then True
      else
        (let ra = globRoot a; rb = globRoot b;
             (shorter, longer) = (if length ra \<le> length rb then (ra, rb) else (rb, ra))
         in if \<not> startsWith longer shorter then False
            else length longer = length shorter \<or> endsWith shorter ''/'' \<or> longer ! length shorter = CHR ''/''))"

definition overlap_label :: "string \<Rightarrow> string \<Rightarrow> string" where
  "overlap_label a b = (if a = b then a else a @ '' ~ '' @ b)"

definition overlappingPaths :: "string list \<Rightarrow> string list \<Rightarrow> string list" where
  "overlappingPaths ownsA ownsB =
     concat (map (\<lambda>a. concat (map (\<lambda>b. if patternsMayOverlap a b then [overlap_label a b] else []) ownsB)) ownsA)"

lemma overlappingPaths_Nil:
  "overlappingPaths as bs = [] \<longleftrightarrow> (\<forall>a \<in> set as. \<forall>b \<in> set bs. \<not> patternsMayOverlap a b)"
  by (auto simp: overlappingPaths_def)

lemma ends_seq_chars:
  "rx_ends (rx_seq (map rx_char r @ rs)) (pv, s) =
     (if prefix r s then rx_ends (rx_seq rs) (if r = [] then pv else Some (last r), drop (length r) s) else [])"
proof (induction r arbitrary: pv s)
  case (Cons c r)
  then show ?case by (cases s) (auto simp: rx_ends_seq_Cons rx_char_def)
qed simp

lemma glob_parts_root: "\<exists>rs. glob_parts glob = map rx_char (globRoot glob) @ rs \<and> (globRoot glob = glob \<longrightarrow> rs = [])"
proof (induction glob)
  case (Cons c cs)
  then show ?case by (auto simp: globRoot_def wildcard_def)
qed (simp add: globRoot_def)

lemma globMatches_iff:
  "globMatches glob path \<longleftrightarrow> rx_ends (rx_seq (glob_parts glob @ [Eol])) (None, path) \<noteq> []"
proof
  assume "globMatches glob path"
  then obtain u v where uv: "path = u @ v"
    and e: "rx_ends (rx_seq (Bol # glob_parts glob @ [Eol])) (if u = [] then None else Some (last u), v) \<noteq> []"
    by (auto simp: globMatches_def globToRegExp_def rx_test_iff)
  then have "u = []" by (auto simp: rx_ends_seq_Cons split: if_splits)
  with uv e show "rx_ends (rx_seq (glob_parts glob @ [Eol])) (None, path) \<noteq> []"
    by (simp add: rx_ends_seq_Cons)
next
  assume "rx_ends (rx_seq (glob_parts glob @ [Eol])) (None, path) \<noteq> []"
  then show "globMatches glob path"
    unfolding globMatches_def globToRegExp_def rx_test_iff
    by (intro exI [of _ "[]"] exI [of _ path]) (simp add: rx_ends_seq_Cons)
qed

lemma globMatches_root: "globMatches glob path \<Longrightarrow> prefix (globRoot glob) path"
proof -
  assume m: "globMatches glob path"
  obtain rs where g: "glob_parts glob = map rx_char (globRoot glob) @ rs" using glob_parts_root by blast
  from m show ?thesis unfolding globMatches_iff g append_assoc ends_seq_chars by (simp split: if_splits)
qed

lemma globMatches_literal: "globRoot glob = glob \<Longrightarrow> globMatches glob path \<longleftrightarrow> path = glob"
proof -
  assume "globRoot glob = glob"
  then have g: "glob_parts glob = map rx_char glob" using glob_parts_root [of glob] by auto
  show ?thesis unfolding globMatches_iff g ends_seq_chars by (auto simp: prefix_def)
qed

text \<open>Patterns whose literal root ends at a segment boundary, or that have no wildcard.\<close>

definition lane_shaped :: "string \<Rightarrow> bool" where
  "lane_shaped g \<longleftrightarrow> globRoot g = g \<or> endsWith (globRoot g) ''/''"

lemma overlap_sound_aux:
  assumes "lane_shaped a" and "globMatches a p" and "globMatches b p" and "length (globRoot a) \<le> length (globRoot b)"
  shows "startsWith (globRoot b) (globRoot a) \<and>
    (length (globRoot b) = length (globRoot a) \<or> endsWith (globRoot a) ''/'')"
proof -
  have pa: "prefix (globRoot a) p" and pb: "prefix (globRoot b) p"
    using assms globMatches_root by blast+
  then have pre: "prefix (globRoot a) (globRoot b)" using assms(4) prefix_length_prefix by blast
  show ?thesis
  proof (cases "globRoot a = a")
    case True
    then have "p = a" using assms(2) globMatches_literal by blast
    with pb True assms(4) have "length (globRoot b) = length (globRoot a)" using prefix_length_le by fastforce
    with pre show ?thesis by (simp add: startsWith_iff_prefix)
  next
    case False
    with assms(1) pre show ?thesis by (auto simp: lane_shaped_def startsWith_iff_prefix)
  qed
qed

lemma overlap_sound:
  assumes "lane_shaped a" and "lane_shaped b" and "globMatches a p" and "globMatches b p"
  shows "patternsMayOverlap a b"
proof (cases "length (globRoot a) \<le> length (globRoot b)")
  case True
  from overlap_sound_aux [OF assms(1,3,4) True] True show ?thesis
    by (auto simp: patternsMayOverlap_def Let_def)
next
  case False
  then have "length (globRoot b) \<le> length (globRoot a)" by simp
  from overlap_sound_aux [OF assms(2,4,3) this] False show ?thesis
    by (auto simp: patternsMayOverlap_def Let_def)
qed


section \<open>Loop guardian\<close>

record loop_step =
  ls_actionId :: string
  ls_seq :: int

datatype loop_verdict = LoopPass | LoopStop nat nat "loop_step list"

record loop_guardian =
  lg_window :: "loop_step list"
  lg_latched :: "loop_verdict option"

record guardian_config =
  gc_maxRepeats :: nat
  gc_windowSize :: nat

definition DEFAULT_GUARDIAN :: guardian_config where
  "DEFAULT_GUARDIAN = \<lparr>gc_maxRepeats = 3, gc_windowSize = 32\<rparr>"

definition makeLoopGuardian :: loop_guardian where
  "makeLoopGuardian = \<lparr>lg_window = [], lg_latched = None\<rparr>"

text \<open>How often the block precedes position \<open>pos + length block\<close>, going back block by block.\<close>

function count_back :: "string list \<Rightarrow> string list \<Rightarrow> int \<Rightarrow> nat" where
  "count_back w block pos =
     (if pos < 0 \<or> block = [] then 0
      else if take (length block) (drop (nat pos) w) = block then Suc (count_back w block (pos - int (length block)))
      else 0)"
  by pat_completeness auto
termination
  by (relation "measure (\<lambda>(w, block, pos). nat (pos + 1))") (auto simp: Suc_le_eq)

declare count_back.simps [simp del]

definition tail_repeats :: "nat \<Rightarrow> string list \<Rightarrow> nat" where
  "tail_repeats p w = 1 + count_back w (drop (length w - p) w) (int (length w) - 2 * int p)"

fun first_cycle :: "nat \<Rightarrow> nat list \<Rightarrow> string list \<Rightarrow> (nat \<times> nat) option" where
  "first_cycle maxRepeats [] w = None"
| "first_cycle maxRepeats (p # ps) w =
     (if length w < p * 2 then first_cycle maxRepeats ps w
      else if tail_repeats p w > maxRepeats then Some (p, tail_repeats p w)
      else first_cycle maxRepeats ps w)"

definition push_window :: "nat \<Rightarrow> loop_step list \<Rightarrow> loop_step \<Rightarrow> loop_step list" where
  "push_window n w s = (let w1 = w @ [s] in if length w1 > n then drop 1 w1 else w1)"

definition loop_check :: "guardian_config \<Rightarrow> loop_guardian \<Rightarrow> loop_step \<Rightarrow> loop_guardian \<times> loop_verdict" where
  "loop_check config g s =
     (case lg_latched g of
        Some v \<Rightarrow> (g, v)
      | None \<Rightarrow>
          (let w = push_window (gc_windowSize config) (lg_window g) s in
           case first_cycle (gc_maxRepeats config) [1, 2, 3] (map ls_actionId w) of
             Some (p, n) \<Rightarrow> (g\<lparr>lg_window := w, lg_latched := Some (LoopStop p n w)\<rparr>, LoopStop p n w)
           | None \<Rightarrow> (g\<lparr>lg_window := w\<rparr>, LoopPass)))"

definition loop_reset :: "loop_guardian \<Rightarrow> loop_guardian" where
  "loop_reset g = makeLoopGuardian"

lemma concat_replicate_snoc: "concat (replicate (Suc k) b) = concat (replicate k b) @ b"
  by (induction k) simp_all

lemma suffix_block: "length x = length b \<Longrightarrow> suffix (c @ b) (u @ x) \<longleftrightarrow> x = b \<and> suffix c u"
  unfolding suffix_def by (auto simp flip: append_assoc)

lemma count_back_iff:
  assumes "block \<noteq> []"
  shows "k \<le> count_back (u @ v) block (int (length u) - int (length block)) \<longleftrightarrow> suffix (concat (replicate k block)) u"
proof (induction k arbitrary: u v)
  case (Suc k)
  show ?case
  proof (cases "length block \<le> length u")
    case False
    then have "\<not> suffix (concat (replicate (Suc k) block)) u"
      unfolding concat_replicate_snoc using suffix_length_le by fastforce
    with False show ?thesis by (subst count_back.simps) simp
  next
    case True
    define u' x where "u' = take (length u - length block) u" and "x = drop (length u - length block) u"
    then have u: "u = u' @ x" and lx: "length x = length block" using True by auto
    have pos: "int (length u) - int (length block) = int (length u')" using True by (simp add: u'_def of_nat_diff)
    have tk: "take (length block) (drop (length u') (u @ v)) = x" using u lx by simp
    have "Suc k \<le> count_back (u @ v) block (int (length u) - int (length block)) \<longleftrightarrow>
        x = block \<and> k \<le> count_back (u' @ x @ v) block (int (length u') - int (length block))"
      unfolding pos using assms tk u by (subst count_back.simps) simp
    also have "\<dots> \<longleftrightarrow> x = block \<and> suffix (concat (replicate k block)) u'" using Suc.IH by simp
    also have "\<dots> \<longleftrightarrow> suffix (concat (replicate (Suc k) block)) u"
      unfolding concat_replicate_snoc using u lx suffix_block by metis
    finally show ?thesis .
  qed
qed simp

lemma tail_repeats_iff:
  assumes "0 < p" and "p \<le> length w"
  shows "m < tail_repeats p w \<longleftrightarrow> (\<exists>block. length block = p \<and> suffix (concat (replicate (Suc m) block)) w)"
proof -
  define b u where "b = drop (length w - p) w" and "u = take (length w - p) w"
  then have w: "w = u @ b" and lb: "length b = p" using assms by auto
  have "int (length w) - 2 * int p = int (length u) - int (length b)" using w lb by simp
  then have "m < tail_repeats p w \<longleftrightarrow> m \<le> count_back (u @ b) b (int (length u) - int (length b))"
    unfolding tail_repeats_def b_def [symmetric] using w by (simp add: less_Suc_eq_le)
  also have "\<dots> \<longleftrightarrow> suffix (concat (replicate m b)) u"
    using count_back_iff [of b m u b] assms lb by auto
  also have "\<dots> \<longleftrightarrow> (\<exists>block. length block = p \<and> suffix (concat (replicate (Suc m) block)) w)"
    unfolding w concat_replicate_snoc using suffix_block lb by metis
  finally show ?thesis .
qed

lemma first_cycle_None:
  "first_cycle m ps w = None \<longleftrightarrow> (\<forall>p \<in> set ps. p * 2 \<le> length w \<longrightarrow> tail_repeats p w \<le> m)"
  by (induction m ps w rule: first_cycle.induct) auto

lemma first_cycle_SomeD:
  "first_cycle m ps w = Some (p, n) \<Longrightarrow> p \<in> set ps \<and> p * 2 \<le> length w \<and> n = tail_repeats p w \<and> m < n"
  by (induction m ps w rule: first_cycle.induct) (auto split: if_splits)

text \<open>The tail of a run is a cycle: a block of one to three actions repeated \<open>n\<close> times.\<close>

definition cyclic_tail :: "nat \<Rightarrow> string list \<Rightarrow> bool" where
  "cyclic_tail n w \<longleftrightarrow> (\<exists>block. length block \<in> {1, 2, 3} \<and> suffix (concat (replicate n block)) w)"

lemma first_cycle_cyclic:
  assumes "1 \<le> m"
  shows "first_cycle m [1, 2, 3] w \<noteq> None \<longleftrightarrow> cyclic_tail (Suc m) w"
proof -
  have long: "length b * 2 \<le> length w" if "suffix (concat (replicate (Suc m) b)) w" for b
  proof -
    have "length (concat (replicate (Suc m) b)) \<le> length w" using that by (rule suffix_length_le)
    then have "Suc m * length b \<le> length w" by (simp add: length_concat sum_list_replicate)
    moreover have "2 * length b \<le> Suc m * length b" using assms by (intro mult_le_mono1) simp
    ultimately show ?thesis by linarith
  qed
  have "m < tail_repeats p w \<and> p * 2 \<le> length w \<longleftrightarrow>
      (\<exists>block. length block = p \<and> suffix (concat (replicate (Suc m) block)) w)" if "0 < p" for p
    using tail_repeats_iff [OF that, of w m] long by (cases "p \<le> length w") (auto simp: that, fastforce+)
  note iff = this [of 1] this [of 2] this [of 3]
  have "first_cycle m [1, 2, 3] w \<noteq> None \<longleftrightarrow> (\<exists>p \<in> {1, 2, 3}. m < tail_repeats p w \<and> p * 2 \<le> length w)"
    unfolding first_cycle_None by (auto simp: not_le)
  then show ?thesis unfolding cyclic_tail_def using iff by auto
qed

definition loop_step_state :: "guardian_config \<Rightarrow> loop_guardian \<Rightarrow> loop_step \<Rightarrow> loop_guardian" where
  "loop_step_state config g s = fst (loop_check config g s)"

interpretation loop_stop: latch_machine "loop_step_state config" "\<lambda>g. lg_latched g = Some v" for config v
  by unfold_locales (simp add: loop_step_state_def loop_check_def)

section \<open>Properties of costs, lanes and the loop guardian\<close>

text \<open>
  The integer amount charged for the decimal spelling of a cost is within half a nano-dollar of
  its exact value and never exceeds the largest safe integer.
\<close>

theorem cost_is_rounded:
  assumes "iterationCostSpendNanos spelling = Some nanos"
  shows "nanos \<le> MAX_SAFE_USD_NANOS \<and>
    (\<exists>w. parse_spelling spelling = Some w \<and> \<bar>of_nat nanos - exact_nanos w\<bar> \<le> 1 / 2)"
proof -
  obtain whole fraction e where p: "parse_spelling spelling = Some (whole, fraction, e)"
    using assms by (auto simp: iterationCostSpendNanos_def split: option.splits)
  have "nanos = scaled_nanos (num_of_digits (whole @ fraction)) (9 - (int (length fraction) - e))" "nanos \<le> MAX_SAFE_USD_NANOS"
    using assms p by (auto simp: iterationCostSpendNanos_def Let_def split: if_splits)
  with p scaled_nanos_half_up show ?thesis
    by (simp add: exact_nanos_def algebra_simps)
qed

theorem cost_is_rounded_witness:
  "iterationCostSpendNanos ''1.5e-9'' = Some 2 \<and> 2 \<le> MAX_SAFE_USD_NANOS \<and>
   (\<exists>w. parse_spelling ''1.5e-9'' = Some w \<and> \<bar>of_nat 2 - exact_nanos w\<bar> \<le> 1 / 2)"
proof -
  have "parse_spelling ''1.5e-9'' = Some (''1'', ''5'', -9)" "num_of_digits ''15'' = 15" by code_simp+
  then have "iterationCostSpendNanos ''1.5e-9'' = Some 2"
    by (simp add: iterationCostSpendNanos_def scaled_nanos_def MAX_SAFE_USD_NANOS_def)
  with cost_is_rounded [OF this] show ?thesis by simp
qed

text \<open>
  The loop guardian stops a step exactly when the window that ends with it ends in more than the
  permitted number of repetitions of a block of one, two or three actions; and once it has stopped, it
  gives the same verdict to every later step.
\<close>

theorem loop_guardian_exact:
  assumes "lg_latched g = None" and "1 \<le> gc_maxRepeats config"
  shows "(snd (loop_check config g s) = LoopPass \<longleftrightarrow>
      \<not> cyclic_tail (Suc (gc_maxRepeats config)) (map ls_actionId (push_window (gc_windowSize config) (lg_window g) s))) \<and>
    (snd (loop_check config g s) \<noteq> LoopPass \<longrightarrow>
      snd (loop_check config (foldl (loop_step_state config) (fst (loop_check config g s)) steps) s') = snd (loop_check config g s))"
proof -
  let ?w = "push_window (gc_windowSize config) (lg_window g) s"
  have first: "snd (loop_check config g s) = LoopPass \<longleftrightarrow> first_cycle (gc_maxRepeats config) [1, 2, 3] (map ls_actionId ?w) = None"
    using assms(1) by (auto simp: loop_check_def Let_def simp del: first_cycle.simps split: option.splits)
  have "snd (loop_check config (foldl (loop_step_state config) (fst (loop_check config g s)) steps) s') = snd (loop_check config g s)"
    if "snd (loop_check config g s) \<noteq> LoopPass"
  proof -
    have "lg_latched (fst (loop_check config g s)) = Some (snd (loop_check config g s))"
      using that assms(1) by (auto simp: loop_check_def Let_def simp del: first_cycle.simps split: option.splits)
    then have "lg_latched (foldl (loop_step_state config) (fst (loop_check config g s)) steps) = Some (snd (loop_check config g s))"
      by (rule loop_stop.latch_run)
    then show ?thesis by (simp add: loop_check_def)
  qed
  with first first_cycle_cyclic [OF assms(2)] show ?thesis by blast
qed

theorem loop_guardian_exact_witness:
  "snd (loop_check DEFAULT_GUARDIAN \<lparr>lg_window = replicate 3 \<lparr>ls_actionId = ''a'', ls_seq = 0\<rparr>, lg_latched = None\<rparr> \<lparr>ls_actionId = ''a'', ls_seq = 0\<rparr>) \<noteq> LoopPass \<and>
   cyclic_tail 4 [''a'', ''a'', ''a'', ''a'']"
proof -
  let ?g = "\<lparr>lg_window = replicate 3 \<lparr>ls_actionId = ''a'', ls_seq = 0\<rparr>, lg_latched = None\<rparr>"
  let ?s = "\<lparr>ls_actionId = ''a'', ls_seq = 0\<rparr>"
  have n: "snd (loop_check DEFAULT_GUARDIAN ?g ?s) \<noteq> LoopPass" by code_simp
  have w: "map ls_actionId (push_window (gc_windowSize DEFAULT_GUARDIAN) (lg_window ?g) ?s) = [''a'', ''a'', ''a'', ''a'']"
    "Suc (gc_maxRepeats DEFAULT_GUARDIAN) = 4" by code_simp+
  have "lg_latched ?g = None" "1 \<le> gc_maxRepeats DEFAULT_GUARDIAN" by (simp_all add: DEFAULT_GUARDIAN_def)
  from loop_guardian_exact [OF this, of ?s] n show ?thesis unfolding w by blast
qed

text \<open>
  The overlap test compares literal roots only, so it misses a lane that starts with a wildcard and a lane
  whose wildcard is in the middle of a segment: both pairs share a path and are reported disjoint.
\<close>

lemma overlap_misses_wildcard_roots:
  "globMatches ''**'' ''src/a.ts'' \<and> globMatches ''src/a.ts'' ''src/a.ts'' \<and> \<not> patternsMayOverlap ''**'' ''src/a.ts''"
  "globMatches ''src/a*'' ''src/ab.ts'' \<and> globMatches ''src/ab.ts'' ''src/ab.ts'' \<and> \<not> patternsMayOverlap ''src/a*'' ''src/ab.ts''"
  by code_simp+

end
