(* ===== verification/Coordinator.thy ===== *)
theory Coordinator
  imports Orchestration
begin

text \<open>
  The coordinator of \<open>core-ts/src/orchestration/index.ts\<close>: decomposition into disjoint lanes, spawning,
  the scope-checked append of a worker, reconciliation of the decision journal, the budget backstop
  and the fork on a dead end.

  Parameters: the decision journal (a port with \<open>append\<close> and \<open>read\<close>), the verdict of the budget guard
  and the identifier a fork returns, the time stamps. The journal port's documented contract is
  \<open>append_only\<close>. A worker's handle is the brief it captured.
\<close>

datatype task_class = TcReasoning | TcCritique | TcRoutine

record budget_slice =
  bs_iterations :: nat
  bs_spendUsd :: string

record worker_scope =
  ws_owns :: "string list"
  ws_doNotTouch :: "string list"
  ws_taskClass :: task_class
  ws_budgetSlice :: budget_slice

record worker_brief =
  wb_workerId :: string
  wb_intent :: string
  wb_scope :: worker_scope

record task =
  tk_description :: string
  tk_affectedPaths :: "string list"

record decision =
  dc_runId :: string
  dc_generationId :: string
  dc_workerId :: string
  dc_seq :: int
  dc_decidedFor :: string
  dc_decidedAgainst :: string
  dc_because :: string
  dc_touched :: "string list"
  dc_ts :: string

text \<open>
  What a worker hands in. The spread \<open>...partial\<close> copies every property it carries, so the identity
  fields its type forbids are kept as optional ones; its own \<open>seq\<close> is always overwritten.
\<close>

record partial_decision =
  pt_runId :: "string option"
  pt_generationId :: "string option"
  pt_workerId :: "string option"
  pt_seq :: "int option"
  pt_decidedFor :: string
  pt_decidedAgainst :: string
  pt_because :: string
  pt_touched :: "string list"
  pt_ts :: string

datatype scope_reason = OutsideOwns | InsideDoNotTouch

datatype cap_reason = CapLoopGuardian | CapReplanExhausted | CapGlobalBudget

datatype budget_verdict = BudgetOk | Capped cap_reason

datatype integrity_reason = SeqGap | UntrustedJournal

datatype coord_error =
    ScopeConflict string string "string list"
  | ScopeViolation string "string list" scope_reason
  | RunHalted string string

record nested_counters =
  nc_loopGuardianTrips :: nat
  nc_planReplans :: nat
  nc_skillFailures :: "(string, nat) jsmap"

datatype halt_extra = NoExtra | ReviewCard "loop_step list" | Integrity integrity_reason

datatype orch_event =
    RunStarted string bool "nat option"
  | WorkerSpawned string worker_scope
  | JournalAppended string int
  | ScopeViolated string "string list" scope_reason
  | BudgetCapped cap_reason
  | GenerationForked string string
  | RunReconciled nat nat
  | RunTerminated string nested_counters halt_extra

record 'j journal_port =
  jp_append :: "'j \<Rightarrow> decision \<Rightarrow> 'j"
  jp_read :: "'j \<Rightarrow> string \<Rightarrow> decision list"

record 'j coordinator =
  co_runId :: string
  co_generationId :: string
  co_spawned :: "(string, worker_scope) jsmap"
  co_faulted :: "string list"
  co_nested :: nested_counters
  co_halt :: "string option"
  co_degraded :: bool
  co_nextSeq :: nat
  co_journal :: 'j
  co_events :: "orch_event list"

definition CONSERVATIVE_ITERATION_FLOOR :: nat where "CONSERVATIVE_ITERATION_FLOOR = 25"
definition DEFAULT_WORKER_ITERATIONS :: nat where "DEFAULT_WORKER_ITERATIONS = 40"
definition DEFAULT_WORKER_SPEND_USD :: string where "DEFAULT_WORKER_SPEND_USD = ''0.5''"

definition no_counters :: nested_counters where
  "no_counters = \<lparr>nc_loopGuardianTrips = 0, nc_planReplans = 0, nc_skillFailures = []\<rparr>"

definition co_emit :: "orch_event \<Rightarrow> 'j coordinator \<Rightarrow> 'j coordinator" where
  "co_emit e c = c\<lparr>co_events := co_events c @ [e]\<rparr>"

definition co_halted :: "string \<Rightarrow> halt_extra \<Rightarrow> 'j coordinator \<Rightarrow> 'j coordinator" where
  "co_halted reason extra c =
     (if co_halt c \<noteq> None then c
      else co_emit (RunTerminated reason (co_nested c) extra) (c\<lparr>co_halt := Some reason\<rparr>))"

text \<open>
  Construction probes the loop guardian once; \<open>None\<close> stands for a guardian whose check throws. The
  guardian's own state comes back with the coordinator.
\<close>

definition heartbeat :: loop_step where
  "heartbeat = \<lparr>ls_actionId = ''__heartbeat__'', ls_seq = 0\<rparr>"

definition fresh_coordinator :: "string \<Rightarrow> 'j \<Rightarrow> 'j coordinator" where
  "fresh_coordinator runId j =
     \<lparr>co_runId = runId, co_generationId = ''g-1'', co_spawned = [], co_faulted = [], co_nested = no_counters,
      co_halt = None, co_degraded = False, co_nextSeq = 1, co_journal = j, co_events = []\<rparr>"

definition makeCoordinator :: "string \<Rightarrow> 'j \<Rightarrow> (guardian_config \<times> loop_guardian) option \<Rightarrow>
    'j coordinator \<times> loop_guardian option" where
  "makeCoordinator runId j guardian =
     (let c0 = fresh_coordinator runId j in
      case guardian of
        None \<Rightarrow> (co_emit (RunStarted ''g-1'' True (Some CONSERVATIVE_ITERATION_FLOOR)) (c0\<lparr>co_degraded := True\<rparr>), None)
      | Some (config, g) \<Rightarrow>
          (let (g1, v) = loop_check config g heartbeat;
               c1 = co_emit (RunStarted ''g-1'' False None) c0
           in case v of
                LoopPass \<Rightarrow> (c1, Some (loop_reset g1))
              | LoopStop p n snapshot \<Rightarrow>
                  (let c2 = c1\<lparr>co_nested := (co_nested c1)\<lparr>nc_loopGuardianTrips := nc_loopGuardianTrips (co_nested c1) + 1\<rparr>\<rparr>
                   in (co_halted ''loop-guardian'' (ReviewCard snapshot) c2, Some g1))))"

definition checkScope :: "string list \<Rightarrow> worker_scope \<Rightarrow> (string list \<times> scope_reason) option" where
  "checkScope touched scope =
     (let insideDeny = filter (\<lambda>p. list_ex (\<lambda>g. globMatches g p) (ws_doNotTouch scope)) touched;
          outsideOwns = filter (\<lambda>p. \<not> list_ex (\<lambda>g. globMatches g p) (ws_owns scope)) touched
      in if insideDeny \<noteq> [] then Some (insideDeny, InsideDoNotTouch)
         else if outsideOwns \<noteq> [] then Some (outsideOwns, OutsideOwns)
         else None)"

definition abortReconcile :: "integrity_reason \<Rightarrow> 'j coordinator \<Rightarrow> 'j coordinator" where
  "abortReconcile reason c = co_halted ''untrusted-journal'' (Integrity reason) c"

text \<open>The new generation is the identifier the generation manager returned.\<close>

definition forkOnDeadEnd :: "string \<Rightarrow> 'j coordinator \<Rightarrow> 'j coordinator" where
  "forkOnDeadEnd newGen c =
     co_emit (GenerationForked newGen (co_generationId c))
       (c\<lparr>co_generationId := newGen, co_nested := no_counters\<rparr>)"


section \<open>Decomposition and spawning\<close>

definition lane_brief :: "string \<Rightarrow> string list \<Rightarrow> nat \<Rightarrow> string \<Rightarrow> worker_brief" where
  "lane_brief description paths i path =
     \<lparr>wb_workerId = ''w-'' @ digits_of (i + 1),
      wb_intent = ''Apply '' @ [CHR 0x27] @ description @ [CHR 0x27] @ '' within '' @ path,
      wb_scope = \<lparr>ws_owns = [path], ws_doNotTouch = filter (\<lambda>p. p \<noteq> path) paths, ws_taskClass = TcReasoning,
        ws_budgetSlice = \<lparr>bs_iterations = DEFAULT_WORKER_ITERATIONS, bs_spendUsd = DEFAULT_WORKER_SPEND_USD\<rparr>\<rparr>\<rparr>"

definition brief_overlap :: "worker_brief \<Rightarrow> worker_brief \<Rightarrow> string list" where
  "brief_overlap a b = overlappingPaths (ws_owns (wb_scope a)) (ws_owns (wb_scope b))"

fun first_conflict :: "worker_brief list \<Rightarrow> coord_error option" where
  "first_conflict [] = None"
| "first_conflict (b # bs) =
     (case find (\<lambda>c. brief_overlap b c \<noteq> []) bs of
        Some c \<Rightarrow> Some (ScopeConflict (wb_workerId b) (wb_workerId c) (brief_overlap b c))
      | None \<Rightarrow> first_conflict bs)"

definition decompose :: "task \<Rightarrow> coord_error + worker_brief list" where
  "decompose t =
     (let paths = dedup (tk_affectedPaths t);
          briefs = map (\<lambda>(i, path). lane_brief (tk_description t) paths i path) (enumerate 0 paths)
      in case first_conflict briefs of Some e \<Rightarrow> Inl e | None \<Rightarrow> Inr briefs)"

definition spawn :: "'j coordinator \<Rightarrow> worker_brief \<Rightarrow> 'j coordinator \<times> (coord_error + worker_brief)" where
  "spawn c brief =
     (case co_halt c of
        Some reason \<Rightarrow> (c, Inl (RunHalted reason (wb_workerId brief)))
      | None \<Rightarrow>
          (case find (\<lambda>(otherId, otherScope). overlappingPaths (ws_owns (wb_scope brief)) (ws_owns otherScope) \<noteq> []) (co_spawned c) of
             Some (otherId, otherScope) \<Rightarrow>
               (c, Inl (ScopeConflict otherId (wb_workerId brief) (overlappingPaths (ws_owns (wb_scope brief)) (ws_owns otherScope))))
           | None \<Rightarrow>
               (co_emit (WorkerSpawned (wb_workerId brief) (wb_scope brief))
                  (c\<lparr>co_spawned := AList.update (wb_workerId brief) (wb_scope brief) (co_spawned c)\<rparr>), Inr brief)))"

definition stamped :: "'j coordinator \<Rightarrow> worker_brief \<Rightarrow> partial_decision \<Rightarrow> decision" where
  "stamped c brief p =
     \<lparr>dc_runId = (case pt_runId p of None \<Rightarrow> co_runId c | Some r \<Rightarrow> r),
      dc_generationId = (case pt_generationId p of None \<Rightarrow> co_generationId c | Some g \<Rightarrow> g),
      dc_workerId = (case pt_workerId p of None \<Rightarrow> wb_workerId brief | Some w \<Rightarrow> w),
      dc_seq = int (co_nextSeq c),
      dc_decidedFor = pt_decidedFor p, dc_decidedAgainst = pt_decidedAgainst p, dc_because = pt_because p,
      dc_touched = pt_touched p, dc_ts = pt_ts p\<rparr>"

definition appendDecision :: "'j journal_port \<Rightarrow> 'j coordinator \<Rightarrow> worker_brief \<Rightarrow> partial_decision \<Rightarrow>
    'j coordinator \<times> (coord_error + unit)" where
  "appendDecision port c brief p =
     (if wb_workerId brief \<in> set (co_faulted c) then
        (c, Inl (ScopeViolation (wb_workerId brief) (pt_touched p) OutsideOwns))
      else
        (case checkScope (pt_touched p) (wb_scope brief) of
           Some (paths, reason) \<Rightarrow>
             (co_emit (ScopeViolated (wb_workerId brief) paths reason)
                (c\<lparr>co_faulted := co_faulted c @ [wb_workerId brief]\<rparr>),
              Inl (ScopeViolation (wb_workerId brief) paths reason))
         | None \<Rightarrow>
             (let entry = stamped c brief p in
              (co_emit (JournalAppended (wb_workerId brief) (dc_seq entry))
                 (c\<lparr>co_nextSeq := co_nextSeq c + 1, co_journal := jp_append port (co_journal c) entry\<rparr>), Inr ()))))"


section \<open>Reconciliation\<close>

fun seq_integrity :: "int list \<Rightarrow> integrity_reason option" where
  "seq_integrity (x # y # ys) =
     (if y - x = 0 then Some UntrustedJournal
      else if y - x > 1 then Some SeqGap
      else seq_integrity (y # ys))"
| "seq_integrity _ = None"

record conflict =
  cf_entryA :: decision
  cf_entryB :: decision
  cf_resource :: string

definition conflict_of :: "decision \<Rightarrow> decision \<Rightarrow> conflict list" where
  "conflict_of a b =
     (if dc_decidedFor a = dc_decidedFor b then []
      else (case find (\<lambda>p. p \<in> set (dc_touched b)) (dc_touched a) of
              None \<Rightarrow> [] | Some r \<Rightarrow> [\<lparr>cf_entryA = a, cf_entryB = b, cf_resource = r\<rparr>]))"

fun conflicts_of :: "decision list \<Rightarrow> conflict list" where
  "conflicts_of [] = []"
| "conflicts_of (a # es) = concat (map (conflict_of a) es) @ conflicts_of es"

definition winner :: "conflict \<Rightarrow> decision" where
  "winner c = (if dc_seq (cf_entryA c) \<le> dc_seq (cf_entryB c) then cf_entryA c else cf_entryB c)"

definition loser :: "conflict \<Rightarrow> decision" where
  "loser c = (if dc_seq (cf_entryA c) \<le> dc_seq (cf_entryB c) then cf_entryB c else cf_entryA c)"

definition resolution :: "string \<Rightarrow> string \<Rightarrow> string \<Rightarrow> int \<Rightarrow> conflict \<Rightarrow> decision" where
  "resolution runId gen ts n c =
     \<lparr>dc_runId = runId, dc_generationId = gen, dc_workerId = ''coordinator'', dc_seq = n,
      dc_decidedFor = dc_decidedFor (winner c), dc_decidedAgainst = dc_decidedFor (loser c),
      dc_because = ''coordinator resolution over '' @ [CHR 0x27] @ cf_resource c @ [CHR 0x27] @
        '': earliest decision (seq '' @ string_of_int (dc_seq (winner c)) @ '', '' @ dc_workerId (winner c) @
        '') is the single source of truth'',
      dc_touched = [], dc_ts = ts\<rparr>"

definition resolutions_of :: "string \<Rightarrow> string \<Rightarrow> string \<Rightarrow> int \<Rightarrow> conflict list \<Rightarrow> decision list" where
  "resolutions_of runId gen ts start cs = map (\<lambda>(i, c). resolution runId gen ts (start + int i) c) (enumerate 0 cs)"

text \<open>
  The excluded losers are a set of objects; after the integrity check the sequence numbers are
  distinct, so they identify the objects.
\<close>

definition reconcile :: "'j journal_port \<Rightarrow> string \<Rightarrow> 'j coordinator \<Rightarrow> string \<Rightarrow>
    'j coordinator \<times> (integrity_reason + decision list)" where
  "reconcile port ts c targetRunId =
     (let all1 = jp_read port (co_journal c) targetRunId;
          seqs = sort (map dc_seq all1)
      in case seq_integrity seqs of
           Some reason \<Rightarrow> (abortReconcile reason c, Inl reason)
         | None \<Rightarrow>
             (let entries = filter (\<lambda>e. dc_workerId e \<notin> set (co_faulted c)) all1;
                  conflicts = conflicts_of entries
              in if conflicts = [] then (co_emit (RunReconciled (length entries) 0) c, Inr entries)
                 else
                   (let excluded = map (\<lambda>k. dc_seq (loser k)) conflicts;
                        start = (if seqs = [] then 0 else last seqs) + 1;
                        resolutions = resolutions_of targetRunId (co_generationId c) ts start conflicts;
                        merged = filter (\<lambda>e. dc_seq e \<notin> set excluded) entries @ resolutions
                    in (co_emit (RunReconciled (length merged) (length conflicts))
                          (c\<lparr>co_journal := foldl (jp_append port) (co_journal c) resolutions\<rparr>), Inr merged))))"


section \<open>Budget backstop and skill failures\<close>

fun cap_text :: "cap_reason \<Rightarrow> string" where
  "cap_text CapLoopGuardian = ''loop-guardian''"
| "cap_text CapReplanExhausted = ''replan-exhausted''"
| "cap_text CapGlobalBudget = ''global-budget''"

definition charge :: "budget_verdict \<Rightarrow> string \<Rightarrow> 'j coordinator \<Rightarrow> 'j coordinator \<times> budget_verdict" where
  "charge guardVerdict newGen c =
     (if co_halt c \<noteq> None then (c, Capped CapGlobalBudget)
      else
        (case guardVerdict of
           BudgetOk \<Rightarrow> (c, BudgetOk)
         | Capped reason \<Rightarrow>
             (let c1 = co_halted (cap_text reason) NoExtra (co_emit (BudgetCapped reason) c)
              in (if reason = CapGlobalBudget then forkOnDeadEnd newGen c1 else c1, Capped reason))))"

definition onSkillFailure :: "string \<Rightarrow> 'j coordinator \<Rightarrow> 'j coordinator" where
  "onSkillFailure skill c =
     (let failures = nc_skillFailures (co_nested c);
          n = (case map_of failures skill of None \<Rightarrow> 0 | Some n \<Rightarrow> n)
      in c\<lparr>co_nested := (co_nested c)\<lparr>nc_skillFailures := AList.update skill (n + 1) failures\<rparr>\<rparr>)"

section \<open>Disjoint lanes\<close>

lemma patternsMayOverlap_sym: "patternsMayOverlap a b = patternsMayOverlap b a"
proof (cases "length (globRoot a) = length (globRoot b)")
  case True
  then have "prefix (globRoot a) (globRoot b) \<longleftrightarrow> prefix (globRoot b) (globRoot a)"
    by (auto simp: prefix_def)
  with True show ?thesis by (auto simp: patternsMayOverlap_def Let_def startsWith_iff_prefix)
next
  case False
  then show ?thesis by (auto simp: patternsMayOverlap_def Let_def)
qed

lemma overlap_sym: "overlappingPaths as bs = [] \<longleftrightarrow> overlappingPaths bs as = []"
  unfolding overlappingPaths_Nil using patternsMayOverlap_sym by blast

definition lanes_disjoint :: "'j coordinator \<Rightarrow> bool" where
  "lanes_disjoint c \<longleftrightarrow> (\<forall>(w, s) \<in> set (co_spawned c). \<forall>(w', s') \<in> set (co_spawned c).
     w \<noteq> w' \<longrightarrow> overlappingPaths (ws_owns s) (ws_owns s') = [])"

lemma co_frame [simp]:
  "co_spawned (co_emit e c) = co_spawned c" "co_faulted (co_emit e c) = co_faulted c"
  "co_halt (co_emit e c) = co_halt c" "co_journal (co_emit e c) = co_journal c"
  "co_nextSeq (co_emit e c) = co_nextSeq c" "co_runId (co_emit e c) = co_runId c"
  "co_spawned (co_halted r x c) = co_spawned c" "co_faulted (co_halted r x c) = co_faulted c"
  "co_journal (co_halted r x c) = co_journal c" "co_nextSeq (co_halted r x c) = co_nextSeq c"
  "co_runId (co_halted r x c) = co_runId c"
  "co_spawned (forkOnDeadEnd g c) = co_spawned c" "co_faulted (forkOnDeadEnd g c) = co_faulted c"
  "co_halt (forkOnDeadEnd g c) = co_halt c" "co_journal (forkOnDeadEnd g c) = co_journal c"
  "co_nextSeq (forkOnDeadEnd g c) = co_nextSeq c" "co_runId (forkOnDeadEnd g c) = co_runId c"
  by (simp_all add: co_emit_def co_halted_def forkOnDeadEnd_def)

lemma spawn_ok:
  assumes "spawn c brief = (c', Inr h)"
  shows "co_halt c = None \<and> (\<forall>(w, s) \<in> set (co_spawned c). overlappingPaths (ws_owns (wb_scope brief)) (ws_owns s) = []) \<and>
    co_spawned c' = AList.update (wb_workerId brief) (wb_scope brief) (co_spawned c) \<and> h = brief"
  using assms by (auto simp: spawn_def find_None_iff split: option.splits)

lemma spawn_fail: "spawn c brief = (c', Inl e) \<Longrightarrow> c' = c"
  by (auto simp: spawn_def split: option.splits)

lemma spawn_lanes: "lanes_disjoint c \<Longrightarrow> lanes_disjoint (fst (spawn c brief))"
proof (cases "spawn c brief")
  case (Pair c' r)
  assume d: "lanes_disjoint c"
  show ?thesis
  proof (cases r)
    case (Inl e)
    with Pair d spawn_fail show ?thesis by fastforce
  next
    case (Inr h)
    with Pair have s: "spawn c brief = (c', Inr h)" by simp
    have new: "overlappingPaths (ws_owns (wb_scope brief)) (ws_owns x) = []" if "(w, x) \<in> set (co_spawned c)" for w x
      using spawn_ok [OF s] that by blast
    have "lanes_disjoint c'"
      unfolding lanes_disjoint_def
    proof (clarify, goal_cases)
      case (1 w x w' x')
      then have "(w, x) = (wb_workerId brief, wb_scope brief) \<or> (w, x) \<in> set (co_spawned c)"
        "(w', x') = (wb_workerId brief, wb_scope brief) \<or> (w', x') \<in> set (co_spawned c)"
        using spawn_ok [OF s] set_update_subset by fastforce+
      with 1(3) show ?case
        using new overlap_sym d unfolding lanes_disjoint_def by fastforce
    qed
    with Pair show ?thesis by simp
  qed
qed

lemma first_conflict_None:
  "first_conflict bs = None \<longleftrightarrow> (\<forall>i j. i < j \<and> j < length bs \<longrightarrow> brief_overlap (bs ! i) (bs ! j) = [])"
proof (induction bs)
  case (Cons b bs)
  have "find (\<lambda>c. brief_overlap b c \<noteq> []) bs = None \<longleftrightarrow> (\<forall>j < length bs. brief_overlap b (bs ! j) = [])"
    by (auto simp: find_None_iff in_set_conv_nth)
  moreover have "(\<forall>i j. i < j \<and> j < length (b # bs) \<longrightarrow> brief_overlap ((b # bs) ! i) ((b # bs) ! j) = []) \<longleftrightarrow>
      (\<forall>j < length bs. brief_overlap b (bs ! j) = []) \<and>
      (\<forall>i j. i < j \<and> j < length bs \<longrightarrow> brief_overlap (bs ! i) (bs ! j) = [])" (is "?L \<longleftrightarrow> ?R")
  proof
    assume l: ?L
    show ?R
    proof (intro conjI allI impI)
      fix j assume "j < length bs" then show "brief_overlap b (bs ! j) = []"
        using spec [OF spec [OF l, of 0], of "Suc j"] by simp
    next
      fix i j assume "i < j \<and> j < length bs" then show "brief_overlap (bs ! i) (bs ! j) = []"
        using spec [OF spec [OF l, of "Suc i"], of "Suc j"] by simp
    qed
  next
    assume ?R then show ?L by (auto simp: nth_Cons split: nat.splits)
  qed
  ultimately show ?case using Cons.IH by (auto split: option.splits)
qed simp


section \<open>Reconciliation is sound and complete\<close>

definition clash :: "decision \<Rightarrow> decision \<Rightarrow> bool" where
  "clash a b \<longleftrightarrow> dc_decidedFor a \<noteq> dc_decidedFor b \<and> set (dc_touched a) \<inter> set (dc_touched b) \<noteq> {}"

lemma clash_sym: "clash a b = clash b a"
  by (auto simp: clash_def)

lemma find_SomeD: "find P xs = Some x \<Longrightarrow> x \<in> set xs \<and> P x"
  by (auto simp: find_Some_iff)

lemma conflict_of_clash: "conflict_of a b \<noteq> [] \<longleftrightarrow> clash a b"
  by (auto simp: conflict_of_def clash_def find_None_iff dest: find_SomeD split: option.splits)

lemma conflict_ofD: "k \<in> set (conflict_of a b) \<Longrightarrow> cf_entryA k = a \<and> cf_entryB k = b \<and> clash a b"
  using conflict_of_clash [of a b] by (auto simp: conflict_of_def split: if_splits option.splits)

lemma conflicts_of_sound:
  "k \<in> set (conflicts_of es) \<Longrightarrow> cf_entryA k \<in> set es \<and> cf_entryB k \<in> set es \<and> clash (cf_entryA k) (cf_entryB k)"
  by (induction es) (auto dest: conflict_ofD)

lemma conflicts_of_complete:
  "a \<in> set es \<Longrightarrow> b \<in> set es \<Longrightarrow> clash a b \<Longrightarrow>
     \<exists>k \<in> set (conflicts_of es). (cf_entryA k = a \<and> cf_entryB k = b) \<or> (cf_entryA k = b \<and> cf_entryB k = a)"
proof (induction es)
  case (Cons e es)
  have hit: "\<exists>k \<in> set (conflicts_of (e # es)). cf_entryA k = e \<and> cf_entryB k = x" if "x \<in> set es" "clash e x" for x
  proof -
    from that(2) obtain k where "k \<in> set (conflict_of e x)" using conflict_of_clash by (meson list.set_sel(1))
    with that(1) show ?thesis using conflict_ofD by fastforce
  qed
  have "a \<noteq> b" using Cons.prems(3) by (auto simp: clash_def)
  then consider "a = e" "b \<in> set es" | "b = e" "a \<in> set es" | "a \<in> set es" "b \<in> set es"
    using Cons.prems by auto
  then show ?case
  proof cases
    case 1
    with hit Cons.prems(3) show ?thesis by blast
  next
    case 2
    with hit Cons.prems(3) clash_sym show ?thesis by blast
  next
    case 3
    with Cons show ?thesis by auto
  qed
qed simp

lemma winner_loser:
  "dc_seq (winner k) \<le> dc_seq (loser k)" "loser k \<in> {cf_entryA k, cf_entryB k}" "winner k \<in> {cf_entryA k, cf_entryB k}"
  by (auto simp: winner_def loser_def)

lemma resolutions_touch: "e \<in> set (resolutions_of r g ts n ks) \<Longrightarrow> dc_touched e = []"
  by (auto simp: resolutions_of_def resolution_def)

lemma reconcile_merged:
  assumes "reconcile port ts c run = (c', Inr merged)"
  defines "entries \<equiv> filter (\<lambda>e. dc_workerId e \<notin> set (co_faulted c)) (jp_read port (co_journal c) run)"
  shows "\<exists>res. merged = filter (\<lambda>e. dc_seq e \<notin> set (map (\<lambda>k. dc_seq (loser k)) (conflicts_of entries))) entries @ res \<and>
    (\<forall>e \<in> set res. dc_touched e = [])"
proof (cases "conflicts_of entries = []")
  case True
  with assms show ?thesis
    by (auto simp: reconcile_def Let_def split: option.splits)
next
  case False
  with assms show ?thesis
    by (auto simp: reconcile_def Let_def dest: resolutions_touch split: option.splits)
qed

lemma reconcile_no_clash:
  assumes "reconcile port ts c run = (c', Inr merged)" and "a \<in> set merged" and "b \<in> set merged"
  shows "\<not> clash a b"
proof
  assume cl: "clash a b"
  define entries where "entries = filter (\<lambda>e. dc_workerId e \<notin> set (co_faulted c)) (jp_read port (co_journal c) run)"
  from reconcile_merged [OF assms(1)] obtain res where
    m: "merged = filter (\<lambda>e. dc_seq e \<notin> set (map (\<lambda>k. dc_seq (loser k)) (conflicts_of entries))) entries @ res"
    and r: "\<forall>e \<in> set res. dc_touched e = []"
    unfolding entries_def by blast
  have "x \<in> set entries \<and> dc_seq x \<notin> set (map (\<lambda>k. dc_seq (loser k)) (conflicts_of entries))"
    if "x \<in> set merged" "dc_touched x \<noteq> []" for x
    using that m r by auto
  then have "a \<in> set entries" "b \<in> set entries"
    and out: "dc_seq a \<notin> (\<lambda>k. dc_seq (loser k)) ` set (conflicts_of entries)"
             "dc_seq b \<notin> (\<lambda>k. dc_seq (loser k)) ` set (conflicts_of entries)"
    using assms(2,3) cl by (fastforce simp: clash_def)+
  with conflicts_of_complete [OF this(1,2) cl] obtain k where k: "k \<in> set (conflicts_of entries)"
    "(cf_entryA k = a \<and> cf_entryB k = b) \<or> (cf_entryA k = b \<and> cf_entryB k = a)" by blast
  with winner_loser(2) [of k] have "loser k = a \<or> loser k = b" by auto
  with k(1) out show False by blast
qed

lemma reconcile_drops_only_losers:
  assumes "reconcile port ts c run = (c', Inr merged)" and "e \<in> set (jp_read port (co_journal c) run)"
    and "dc_workerId e \<notin> set (co_faulted c)" and "e \<notin> set merged"
    and "distinct (map dc_seq (jp_read port (co_journal c) run))"
  shows "\<exists>a \<in> set (jp_read port (co_journal c) run). clash a e \<and> dc_seq a < dc_seq e"
proof -
  define es where "es = filter (\<lambda>e. dc_workerId e \<notin> set (co_faulted c)) (jp_read port (co_journal c) run)"
  have e: "e \<in> set es" using assms(2,3) by (simp add: es_def)
  have inj: "inj_on dc_seq (set (jp_read port (co_journal c) run))" using assms(5) by (simp add: distinct_map)
  from reconcile_merged [OF assms(1)] e assms(4) obtain k where k: "k \<in> set (conflicts_of es)" "dc_seq (loser k) = dc_seq e"
    unfolding es_def by fastforce
  then have kk: "cf_entryA k \<in> set es" "cf_entryB k \<in> set es" "clash (cf_entryA k) (cf_entryB k)"
    using conflicts_of_sound by blast+
  have es: "x \<in> set es \<Longrightarrow> x \<in> set (jp_read port (co_journal c) run)" for x by (simp add: es_def)
  have "loser k = e"
    using inj_onD [OF inj k(2)] es kk(1,2) winner_loser(2) [of k] assms(2) by auto
  moreover have "winner k \<in> set es" "clash (winner k) (loser k)"
    using kk clash_sym by (auto simp: winner_def loser_def)
  moreover have "dc_seq (winner k) \<noteq> dc_seq (loser k)"
    using inj_onD [OF inj] es calculation assms(2) by (metis clash_def)
  ultimately show ?thesis using winner_loser(1) [of k] es by (metis order_le_neq_trans)
qed


section \<open>Runs of the coordinator\<close>

text \<open>
  The protocol: worker identifiers are fresh, a decision comes through the handle of a spawned worker
  and carries no identity of its own. A reconciliation belongs to a run when it appends nothing.
\<close>

definition append_only :: "'j journal_port \<Rightarrow> bool" where
  "append_only port \<longleftrightarrow> (\<forall>j e r. jp_read port (jp_append port j e) r = jp_read port j r @ (if dc_runId e = r then [e] else []))"

definition anonymous :: "partial_decision \<Rightarrow> bool" where
  "anonymous p \<longleftrightarrow> pt_runId p = None \<and> pt_workerId p = None"

inductive run_step :: "'j journal_port \<Rightarrow> 'j coordinator \<Rightarrow> 'j coordinator \<Rightarrow> bool" for port where
  spawned: "map_of (co_spawned c) (wb_workerId brief) = None \<Longrightarrow> run_step port c (fst (spawn c brief))"
| appended: "map_of (co_spawned c) (wb_workerId brief) = Some (wb_scope brief) \<Longrightarrow> anonymous p \<Longrightarrow>
    run_step port c (fst (appendDecision port c brief p))"
| reconciled: "reconcile port ts c run = (c', r) \<Longrightarrow> co_journal c' = co_journal c \<Longrightarrow> run_step port c c'"
| charged: "run_step port c (fst (charge v newGen c))"
| skill_failed: "run_step port c (onSkillFailure skill c)"

inductive_cases run_stepE: "run_step port c c'"

abbreviation run_steps :: "'j journal_port \<Rightarrow> 'j coordinator \<Rightarrow> 'j coordinator \<Rightarrow> bool" where
  "run_steps port \<equiv> (run_step port)\<^sup>*\<^sup>*"

definition own_journal :: "'j journal_port \<Rightarrow> 'j coordinator \<Rightarrow> decision list" where
  "own_journal port c = jp_read port (co_journal c) (co_runId c)"

definition journal_scoped :: "'j journal_port \<Rightarrow> 'j coordinator \<Rightarrow> bool" where
  "journal_scoped port c \<longleftrightarrow> (\<forall>e \<in> set (own_journal port c).
     \<exists>s. map_of (co_spawned c) (dc_workerId e) = Some s \<and> checkScope (dc_touched e) s = None)"

definition run_inv :: "'j journal_port \<Rightarrow> 'j coordinator \<Rightarrow> bool" where
  "run_inv port c \<longleftrightarrow> lanes_disjoint c \<and> journal_scoped port c \<and>
     map dc_seq (own_journal port c) = map int [1..<co_nextSeq c] \<and> 0 < co_nextSeq c"

lemma run_inv_cong:
  "co_spawned c' = co_spawned c \<Longrightarrow> co_journal c' = co_journal c \<Longrightarrow> co_nextSeq c' = co_nextSeq c \<Longrightarrow>
     co_runId c' = co_runId c \<Longrightarrow> run_inv port c \<Longrightarrow> run_inv port c'"
  by (simp add: run_inv_def lanes_disjoint_def journal_scoped_def own_journal_def)

lemma spawn_frame [simp]:
  "co_journal (fst (spawn c b)) = co_journal c" "co_nextSeq (fst (spawn c b)) = co_nextSeq c"
  "co_runId (fst (spawn c b)) = co_runId c" "co_faulted (fst (spawn c b)) = co_faulted c"
  "co_halt (fst (spawn c b)) = co_halt c"
  by (auto simp: spawn_def co_emit_def split: option.splits)

lemma reconcile_frame:
  "reconcile port ts c run = (c', r) \<Longrightarrow>
     co_spawned c' = co_spawned c \<and> co_nextSeq c' = co_nextSeq c \<and> co_runId c' = co_runId c \<and> co_faulted c' = co_faulted c"
  by (auto simp: reconcile_def abortReconcile_def co_emit_def Let_def split: option.splits if_splits)

lemma charge_frame [simp]:
  "co_spawned (fst (charge v g c)) = co_spawned c" "co_journal (fst (charge v g c)) = co_journal c"
  "co_nextSeq (fst (charge v g c)) = co_nextSeq c" "co_runId (fst (charge v g c)) = co_runId c"
  "co_faulted (fst (charge v g c)) = co_faulted c"
  by (auto simp: charge_def Let_def split: budget_verdict.splits)

lemma onSkillFailure_frame [simp]:
  "co_spawned (onSkillFailure s c) = co_spawned c" "co_journal (onSkillFailure s c) = co_journal c"
  "co_nextSeq (onSkillFailure s c) = co_nextSeq c" "co_runId (onSkillFailure s c) = co_runId c"
  "co_faulted (onSkillFailure s c) = co_faulted c" "co_halt (onSkillFailure s c) = co_halt c"
  by (simp_all add: onSkillFailure_def Let_def)

lemma spawn_inv:
  assumes "run_inv port c" and "map_of (co_spawned c) (wb_workerId brief) = None"
  shows "run_inv port (fst (spawn c brief))"
proof -
  have "map_of (co_spawned (fst (spawn c brief))) w = Some s" if "map_of (co_spawned c) w = Some s" for w s
    using that assms(2) by (auto simp: spawn_def split: option.splits)
  then have "journal_scoped port (fst (spawn c brief))"
    using assms(1) by (fastforce simp: run_inv_def journal_scoped_def own_journal_def)
  with assms(1) spawn_lanes [of c brief] show ?thesis by (simp add: run_inv_def own_journal_def)
qed

lemma append_inv:
  assumes "append_only port" and "run_inv port c" and "anonymous p"
    and "map_of (co_spawned c) (wb_workerId brief) = Some (wb_scope brief)"
  shows "run_inv port (fst (appendDecision port c brief p))"
proof -
  consider (faulted) "wb_workerId brief \<in> set (co_faulted c)"
    | (violation) v where "wb_workerId brief \<notin> set (co_faulted c)" "checkScope (pt_touched p) (wb_scope brief) = Some v"
    | (ok) "wb_workerId brief \<notin> set (co_faulted c)" "checkScope (pt_touched p) (wb_scope brief) = None"
    by (cases "checkScope (pt_touched p) (wb_scope brief)") blast+
  then show ?thesis
  proof cases
    case faulted
    with assms(2) show ?thesis by (simp add: appendDecision_def)
  next
    case violation
    with assms(2) show ?thesis
      by (auto simp: appendDecision_def intro!: run_inv_cong [OF _ _ _ _ assms(2)] split: prod.splits)
  next
    case ok
    let ?c = "fst (appendDecision port c brief p)"
    have own: "own_journal port ?c = own_journal port c @ [stamped c brief p]"
      using ok assms(1,3)
      by (simp add: appendDecision_def Let_def own_journal_def append_only_def stamped_def anonymous_def)
    have fr: "co_spawned ?c = co_spawned c" "co_nextSeq ?c = co_nextSeq c + 1"
      using ok by (simp_all add: appendDecision_def Let_def)
    have st: "dc_workerId (stamped c brief p) = wb_workerId brief" "dc_touched (stamped c brief p) = pt_touched p"
      "dc_seq (stamped c brief p) = int (co_nextSeq c)"
      using assms(3) by (simp_all add: stamped_def anonymous_def)
    show ?thesis
      using assms(2,4) ok unfolding run_inv_def lanes_disjoint_def journal_scoped_def own fr by (auto simp: st)
  qed
qed

lemma run_step_inv: "append_only port \<Longrightarrow> run_step port c c' \<Longrightarrow> run_inv port c \<Longrightarrow> run_inv port c'"
proof (elim run_stepE, goal_cases)
  case (1 brief)
  then show ?case using spawn_inv by simp
next
  case (2 brief p)
  then show ?case using append_inv by blast
next
  case (3 ts run r)
  then show ?case using reconcile_frame run_inv_cong by metis
next
  case (4 v newGen)
  then show ?case by (auto intro: run_inv_cong [of _ c])
next
  case (5 skill)
  then show ?case by (auto intro: run_inv_cong [of _ c])
qed

lemma run_steps_inv: "run_steps port c c' \<Longrightarrow> append_only port \<Longrightarrow> run_inv port c \<Longrightarrow> run_inv port c'"
  by (induction rule: rtranclp_induct) (auto intro: run_step_inv)

lemma fresh_inv: "jp_read port j runId = [] \<Longrightarrow> run_inv port (fresh_coordinator runId j)"
  by (simp add: run_inv_def lanes_disjoint_def journal_scoped_def own_journal_def fresh_coordinator_def)

lemma checkScope_owns: "checkScope touched s = None \<Longrightarrow> p \<in> set touched \<Longrightarrow> \<exists>g \<in> set (ws_owns s). globMatches g p"
  by (auto simp: checkScope_def Let_def filter_empty_conv list_ex_iff split: if_splits)

text \<open>Lanes whose patterns end at a segment boundary never write the same path.\<close>

lemma run_inv_disjoint_writes:
  assumes inv: "run_inv port c" and shaped: "\<forall>(w, s) \<in> set (co_spawned c). \<forall>g \<in> set (ws_owns s). lane_shaped g"
    and a: "a \<in> set (own_journal port c)" and b: "b \<in> set (own_journal port c)" and ne: "dc_workerId a \<noteq> dc_workerId b"
  shows "set (dc_touched a) \<inter> set (dc_touched b) = {}"
proof (rule ccontr)
  assume "set (dc_touched a) \<inter> set (dc_touched b) \<noteq> {}"
  then obtain p where p: "p \<in> set (dc_touched a)" "p \<in> set (dc_touched b)" by blast
  obtain s t where s: "map_of (co_spawned c) (dc_workerId a) = Some s" "checkScope (dc_touched a) s = None"
    and t: "map_of (co_spawned c) (dc_workerId b) = Some t" "checkScope (dc_touched b) t = None"
    using inv a b unfolding run_inv_def journal_scoped_def by blast
  obtain g h where g: "g \<in> set (ws_owns s)" "globMatches g p" and h: "h \<in> set (ws_owns t)" "globMatches h p"
    using checkScope_owns [OF s(2) p(1)] checkScope_owns [OF t(2) p(2)] by blast
  have "(dc_workerId a, s) \<in> set (co_spawned c)" "(dc_workerId b, t) \<in> set (co_spawned c)"
    using s(1) t(1) map_of_SomeD by fast+
  with shaped inv ne g(1) h(1) have "lane_shaped g" "lane_shaped h" "\<not> patternsMayOverlap g h"
    unfolding run_inv_def lanes_disjoint_def overlappingPaths_Nil by blast+
  with overlap_sound g(2) h(2) show False by blast
qed

lemma seq_integrity_consecutive: "seq_integrity (map int [a..<b]) = None"
proof (induction "b - a" arbitrary: a)
  case (Suc n)
  then have "a < b" by simp
  show ?case
  proof (cases "Suc a < b")
    case True
    then have "[a..<b] = a # Suc a # [Suc (Suc a)..<b]" by (simp add: upt_conv_Cons)
    moreover have "map int [Suc a..<b] = int (Suc a) # map int [Suc (Suc a)..<b]"
      using True by (simp add: upt_conv_Cons)
    moreover have "seq_integrity (map int [Suc a..<b]) = None" using Suc by simp
    ultimately show ?thesis by simp
  next
    case False
    with \<open>a < b\<close> have "[a..<b] = [a]" by (simp add: upt_conv_Cons)
    then show ?thesis by simp
  qed
qed simp

lemma run_inv_reconciles: "run_inv port c \<Longrightarrow> \<exists>c' merged. reconcile port ts c (co_runId c) = (c', Inr merged)"
proof -
  assume "run_inv port c"
  then have "map dc_seq (jp_read port (co_journal c) (co_runId c)) = map int [1..<co_nextSeq c]"
    by (simp add: run_inv_def own_journal_def)
  moreover have "sort (map int [1..<n]) = map int [1..<n]" for n
    by (rule sort_key_id_if_sorted) (simp add: sorted_map)
  ultimately show ?thesis by (simp add: reconcile_def Let_def seq_integrity_consecutive)
qed

section \<open>Halting and faulting are final\<close>

datatype co_op =
    OpSpawn worker_brief
  | OpAppend worker_brief partial_decision
  | OpReconcile string string
  | OpCharge budget_verdict string
  | OpSkillFailure string

fun co_step :: "'j journal_port \<Rightarrow> 'j coordinator \<Rightarrow> co_op \<Rightarrow> 'j coordinator" where
  "co_step port c (OpSpawn brief) = fst (spawn c brief)"
| "co_step port c (OpAppend brief p) = fst (appendDecision port c brief p)"
| "co_step port c (OpReconcile ts run) = fst (reconcile port ts c run)"
| "co_step port c (OpCharge v g) = fst (charge v g c)"
| "co_step port c (OpSkillFailure skill) = onSkillFailure skill c"

lemma append_frame:
  "co_halt (fst (appendDecision port c brief p)) = co_halt c"
  "set (co_faulted c) \<subseteq> set (co_faulted (fst (appendDecision port c brief p)))"
  by (auto simp: appendDecision_def Let_def split: option.splits)

lemma co_halt_final: "co_halt c = Some r \<Longrightarrow> co_halt (co_step port c op1) = Some r"
  by (cases op1) (auto simp: append_frame charge_def reconcile_def abortReconcile_def co_halted_def Let_def
      split: option.splits)

interpretation halted: latch_machine "co_step port" "\<lambda>c. co_halt c = Some r" for port r
  by unfold_locales (rule co_halt_final)

interpretation faulted: latch_machine "co_step port" "\<lambda>c. w \<in> set (co_faulted c)" for port w
proof
  fix c :: "'a coordinator" and e
  assume "w \<in> set (co_faulted c)"
  then show "w \<in> set (co_faulted (co_step port c e))"
    using subsetD [OF append_frame(2)] by (cases e) (auto simp: reconcile_frame [OF prod.collapse [symmetric]])
qed

lemma halted_refuses: "co_halt c = Some r \<Longrightarrow> spawn c brief = (c, Inl (RunHalted r (wb_workerId brief)))"
  by (simp add: spawn_def)

lemma halted_capped: "co_halt c = Some r \<Longrightarrow> charge v g c = (c, Capped CapGlobalBudget)"
  by (simp add: charge_def)

lemma faulted_refuses: "wb_workerId brief \<in> set (co_faulted c) \<Longrightarrow>
    appendDecision port c brief p = (c, Inl (ScopeViolation (wb_workerId brief) (pt_touched p) OutsideOwns))"
  by (simp add: appendDecision_def)

section \<open>Properties of the coordinator\<close>

definition list_port :: "decision list journal_port" where
  "list_port = \<lparr>jp_append = \<lambda>j e. j @ [e], jp_read = \<lambda>j r. filter (\<lambda>e. dc_runId e = r) j\<rparr>"

lemma list_port_append_only: "append_only list_port"
  by (simp add: append_only_def list_port_def)

definition demo_brief :: "string \<Rightarrow> string \<Rightarrow> worker_brief" where
  "demo_brief w path = \<lparr>wb_workerId = w, wb_intent = [], wb_scope = \<lparr>ws_owns = [path], ws_doNotTouch = [],
     ws_taskClass = TcRoutine, ws_budgetSlice = \<lparr>bs_iterations = 1, bs_spendUsd = ''1''\<rparr>\<rparr>\<rparr>"

definition demo_partial :: "string \<Rightarrow> string \<Rightarrow> partial_decision" where
  "demo_partial path chosen = \<lparr>pt_runId = None, pt_generationId = None, pt_workerId = None, pt_seq = None, pt_decidedFor = chosen,
     pt_decidedAgainst = [], pt_because = [], pt_touched = [path], pt_ts = []\<rparr>"

definition demo_two_workers :: "decision list coordinator" where
  "demo_two_workers =
     fst (appendDecision list_port
       (fst (appendDecision list_port
         (fst (spawn (fst (spawn (fresh_coordinator ''r'' []) (demo_brief ''a'' ''src/*''))) (demo_brief ''b'' ''doc/*'')))
         (demo_brief ''a'' ''src/*'') (demo_partial ''src/x'' ''A'')))
       (demo_brief ''b'' ''doc/*'') (demo_partial ''doc/y'' ''B''))"

lemma demo_two_workers_reached: "run_steps list_port (fresh_coordinator ''r'' []) demo_two_workers"
proof -
  let ?c0 = "fresh_coordinator ''r'' [] :: decision list coordinator"
  let ?c1 = "fst (spawn ?c0 (demo_brief ''a'' ''src/*''))"
  let ?c2 = "fst (spawn ?c1 (demo_brief ''b'' ''doc/*''))"
  let ?c3 = "fst (appendDecision list_port ?c2 (demo_brief ''a'' ''src/*'') (demo_partial ''src/x'' ''A''))"
  have "run_step list_port ?c0 ?c1" by (rule run_step.spawned) code_simp
  moreover have "run_step list_port ?c1 ?c2" by (rule run_step.spawned) code_simp
  moreover have "run_step list_port ?c2 ?c3" by (rule run_step.appended) (code_simp, simp add: anonymous_def demo_partial_def)
  moreover have "run_step list_port ?c3 demo_two_workers"
    unfolding demo_two_workers_def by (rule run_step.appended) (code_simp, simp add: anonymous_def demo_partial_def)
  ultimately show ?thesis by (meson rtranclp.rtrancl_into_rtrancl rtranclp.rtrancl_refl)
qed





text \<open>
  A halt is final and so is a scope violation: after any further operations a halted run spawns no
  worker and answers every charge with a cap, and a faulted worker's appends are refused and leave the
  run as it was.
\<close>

theorem halts_and_faults_are_final:
  assumes "co_halt c = Some reason" and "wb_workerId bad \<in> set (co_faulted c)"
    and "c' = foldl (co_step port) c ops"
  shows "spawn c' brief = (c', Inl (RunHalted reason (wb_workerId brief))) \<and> charge v gen c' = (c', Capped CapGlobalBudget) \<and>
    appendDecision port c' bad p = (c', Inl (ScopeViolation (wb_workerId bad) (pt_touched p) OutsideOwns))"
proof -
  have "co_halt c' = Some reason" unfolding assms(3) by (rule halted.latch_run) (rule assms(1))
  moreover have "wb_workerId bad \<in> set (co_faulted c')" unfolding assms(3) by (rule faulted.latch_run) (rule assms(2))
  ultimately show ?thesis by (simp add: halted_refuses halted_capped faulted_refuses)
qed

theorem halts_and_faults_are_final_witness:
  "(let c = (fresh_coordinator ''r'' [] :: decision list coordinator)\<lparr>co_halt := Some ''global-budget'', co_faulted := [''a'']\<rparr>;
        c' = foldl (co_step list_port) c [OpSkillFailure ''s'', OpReconcile [] ''r'']
    in snd (spawn c' (demo_brief ''b'' ''doc/*'')) = Inl (RunHalted ''global-budget'' ''b''))"
proof -
  let ?c = "(fresh_coordinator ''r'' [] :: decision list coordinator)\<lparr>co_halt := Some ''global-budget'', co_faulted := [''a'']\<rparr>"
  have h: "co_halt ?c = Some ''global-budget''" by simp
  have f: "wb_workerId (demo_brief ''a'' ''src/*'') \<in> set (co_faulted ?c)" by (simp add: demo_brief_def)
  from halts_and_faults_are_final [OF h f refl, of list_port "[OpSkillFailure ''s'', OpReconcile [] ''r'']" "demo_brief ''b'' ''doc/*''"]
  show ?thesis by (simp add: Let_def demo_brief_def)
qed

text \<open>
  A reconciliation that resolves a conflict appends its resolutions with numbers of its own and leaves
  \<open>nextSeq\<close> where it was, so the next decision repeats a number and the next reconciliation aborts.
\<close>

definition demo_after_conflict :: "decision list coordinator" where
  "demo_after_conflict =
     (let c2 = fst (spawn (fst (spawn (fresh_coordinator ''r'' []) (demo_brief ''a'' ''src/a*''))) (demo_brief ''b'' ''src/ab''));
          c3 = fst (appendDecision list_port c2 (demo_brief ''a'' ''src/a*'') (demo_partial ''src/ab'' ''A''));
          c4 = fst (appendDecision list_port c3 (demo_brief ''b'' ''src/ab'') (demo_partial ''src/ab'' ''B''));
          c5 = fst (reconcile list_port [] c4 ''r'')
      in fst (appendDecision list_port c5 (demo_brief ''a'' ''src/a*'') (demo_partial ''src/a2'' ''C'')))"

lemma resolution_breaks_sequence:
  "snd (reconcile list_port [] demo_after_conflict ''r'') = Inl UntrustedJournal"
  by code_simp

end
