(* ===== verification/Context_Lease.thy ===== *)
theory Context_Lease
  imports Grants
begin

text \<open>
  The turn context leases of \<open>core-ts/src/runtime/context-lease.ts\<close>: acquire, reserve, begin and
  complete an operation, quiesce and close. A lease is active, then cancelling while operations drain,
  then closed.

  Parameters: the identifier \<open>newId\<close> returns. An operation handle is the lease and the operation
  identifier it captured; its \<open>completed\<close> flag is kept in the state. A pending close promise is a
  numbered waiter; \<open>lc_resolved\<close> lists the resolved ones.
\<close>

datatype lease_error = InvalidContext | DuplicateId | ContextNotFound | StaleContext | OperationPhase

record turn_lease =
  tl_operatorId :: string
  tl_profileId :: string
  tl_projectId :: string
  tl_projectKind :: string
  tl_sessionId :: string
  tl_root :: string
  tl_generation :: int
  tl_leaseId :: string

datatype lease_status = Active | Cancelling | Closed

datatype op_phase = Reserved | IoActive

record lease_record =
  lr_lease :: turn_lease
  lr_status :: lease_status
  lr_aborted :: bool
  lr_operations :: "(string, op_phase) jsmap"
  lr_waiters :: "nat list"

datatype lease_event_kind =
    LeaseAcquired | LeaseCancelling | LeaseClosed | OpReserved | OpStarted | OpCompleted

record lease_event =
  le_kind :: lease_event_kind
  le_leaseId :: string
  le_projectId :: string
  le_sessionId :: string
  le_generation :: int
  le_operationId :: "string option"

record lease_state =
  lc_records :: "(string, lease_record) jsmap"
  lc_ids :: "string list"
  lc_completed :: "string list"
  lc_nextWaiter :: nat
  lc_resolved :: "nat list"
  lc_events :: "lease_event list"

definition makeContextLeaseCoordinator :: lease_state where
  "makeContextLeaseCoordinator = \<lparr>lc_records = [], lc_ids = [], lc_completed = [], lc_nextWaiter = 0, lc_resolved = [], lc_events = []\<rparr>"

definition nonEmpty :: "string \<Rightarrow> lease_error + string" where
  "nonEmpty v = (let r = trim v in if length r = 0 then Inl InvalidContext else Inr r)"

definition allocateId :: "lease_state \<Rightarrow> string \<Rightarrow> lease_error + (lease_state \<times> string)" where
  "allocateId st newId =
     (case nonEmpty newId of
        Inl e \<Rightarrow> Inl e
      | Inr i \<Rightarrow> if i \<in> set (lc_ids st) then Inl DuplicateId else Inr (st\<lparr>lc_ids := lc_ids st @ [i]\<rparr>, i))"

definition recordFor :: "lease_state \<Rightarrow> turn_lease \<Rightarrow> lease_error + lease_record" where
  "recordFor st lease =
     (case map_of (lc_records st) (tl_leaseId lease) of
        None \<Rightarrow> Inl ContextNotFound
      | Some r \<Rightarrow> if lr_lease r \<noteq> lease then Inl StaleContext else Inr r)"

definition lease_emit :: "lease_record \<Rightarrow> lease_event_kind \<Rightarrow> string option \<Rightarrow> lease_state \<Rightarrow> lease_state" where
  "lease_emit r k i st = st\<lparr>lc_events := lc_events st @
     [\<lparr>le_kind = k, le_leaseId = tl_leaseId (lr_lease r), le_projectId = tl_projectId (lr_lease r),
       le_sessionId = tl_sessionId (lr_lease r), le_generation = tl_generation (lr_lease r), le_operationId = i\<rparr>]\<rparr>"

definition put_record :: "lease_record \<Rightarrow> lease_state \<Rightarrow> lease_state" where
  "put_record r st = st\<lparr>lc_records := AList.update (tl_leaseId (lr_lease r)) r (lc_records st)\<rparr>"

definition closeIfDrained :: "lease_record \<Rightarrow> lease_state \<Rightarrow> lease_state" where
  "closeIfDrained r st =
     (if lr_status r \<noteq> Cancelling \<or> lr_operations r \<noteq> [] then st
      else (lease_emit r LeaseClosed None (put_record (r\<lparr>lr_status := Closed, lr_waiters := []\<rparr>) st))
             \<lparr>lc_resolved := lc_resolved st @ lr_waiters r\<rparr>)"

text \<open>\<open>normalize(resolve(root))\<close> of an absolute path.\<close>

definition resolve_root :: "string \<Rightarrow> string" where
  "resolve_root p = (let n = strip_trailing_slashes (posix_normalize p) in if n = [] then ''/'' else n)"

record lease_input =
  li_operatorId :: string
  li_profileId :: string
  li_projectId :: string
  li_projectKind :: string
  li_sessionId :: string
  li_root :: string
  li_generation :: int

definition invalid_input :: "lease_input \<Rightarrow> bool" where
  "invalid_input inp \<longleftrightarrow>
     (li_projectKind inp \<noteq> ''workspace'' \<and> li_projectKind inp \<noteq> ''project'') \<or>
     li_generation inp > 9007199254740991 \<or> li_generation inp < 1 \<or> \<not> startsWith (li_root inp) ''/'' \<or>
     resolve_root (li_root inp) = ''/''"

definition fresh_record :: "turn_lease \<Rightarrow> lease_record" where
  "fresh_record lease = \<lparr>lr_lease = lease, lr_status = Active, lr_aborted = False, lr_operations = [], lr_waiters = []\<rparr>"

definition acquire :: "lease_state \<Rightarrow> lease_input \<Rightarrow> string \<Rightarrow> lease_state \<times> (lease_error + turn_lease)" where
  "acquire st inp newId =
     (if invalid_input inp then (st, Inl InvalidContext)
      else
        (case (nonEmpty (li_operatorId inp), nonEmpty (li_profileId inp), nonEmpty (li_projectId inp), nonEmpty (li_sessionId inp)) of
           (Inr operator1, Inr profile, Inr project, Inr session) \<Rightarrow>
             (case allocateId st newId of
                Inl e \<Rightarrow> (st, Inl e)
              | Inr (st1, i) \<Rightarrow>
                  (let lease = \<lparr>tl_operatorId = operator1, tl_profileId = profile, tl_projectId = project,
                         tl_projectKind = li_projectKind inp, tl_sessionId = session,
                         tl_root = resolve_root (li_root inp), tl_generation = li_generation inp, tl_leaseId = i\<rparr>;
                       r = fresh_record lease
                   in (lease_emit r LeaseAcquired None (put_record r st1), Inr lease)))
         | _ \<Rightarrow> (st, Inl InvalidContext)))"

definition lease_status_of :: "lease_state \<Rightarrow> turn_lease \<Rightarrow> lease_error + lease_status" where
  "lease_status_of st lease = (case recordFor st lease of Inl e \<Rightarrow> Inl e | Inr r \<Rightarrow> Inr (lr_status r))"

definition lease_aborted :: "lease_state \<Rightarrow> turn_lease \<Rightarrow> lease_error + bool" where
  "lease_aborted st lease = (case recordFor st lease of Inl e \<Rightarrow> Inl e | Inr r \<Rightarrow> Inr (lr_aborted r))"

definition reserveOperation :: "lease_state \<Rightarrow> turn_lease \<Rightarrow> string \<Rightarrow> lease_state \<times> (lease_error + string)" where
  "reserveOperation st lease newId =
     (case recordFor st lease of
        Inl e \<Rightarrow> (st, Inl e)
      | Inr r \<Rightarrow>
          if lr_status r \<noteq> Active then (st, Inl StaleContext)
          else
            (case allocateId st newId of
               Inl e \<Rightarrow> (st, Inl e)
             | Inr (st1, i) \<Rightarrow>
                 (let r1 = r\<lparr>lr_operations := AList.update i Reserved (lr_operations r)\<rparr>
                  in (lease_emit r1 OpReserved (Some i) (put_record r1 st1), Inr i))))"

definition beginIo :: "lease_state \<Rightarrow> turn_lease \<Rightarrow> string \<Rightarrow> lease_state \<times> (lease_error + unit)" where
  "beginIo st lease i =
     (if i \<in> set (lc_completed st) then (st, Inl OperationPhase)
      else
        (case recordFor st lease of
           Inl e \<Rightarrow> (st, Inl e)
         | Inr r \<Rightarrow>
             if map_of (lr_operations r) i \<noteq> Some Reserved then (st, Inl OperationPhase)
             else if lr_status r \<noteq> Active then (st, Inl StaleContext)
             else
               (let r1 = r\<lparr>lr_operations := AList.update i IoActive (lr_operations r)\<rparr>
                in (lease_emit r1 OpStarted (Some i) (put_record r1 st), Inr ()))))"

definition complete_op :: "lease_state \<Rightarrow> turn_lease \<Rightarrow> string \<Rightarrow> lease_state \<times> (lease_error + unit)" where
  "complete_op st lease i =
     (if i \<in> set (lc_completed st) then (st, Inr ())
      else
        (let st1 = st\<lparr>lc_completed := lc_completed st @ [i]\<rparr> in
         case recordFor st1 lease of
           Inl e \<Rightarrow> (st1, Inl e)
         | Inr r \<Rightarrow>
             if map_of (lr_operations r) i = None then (st1, Inl OperationPhase)
             else
               (let r1 = r\<lparr>lr_operations := AList.delete i (lr_operations r)\<rparr>
                in (closeIfDrained r1 (lease_emit r1 OpCompleted (Some i) (put_record r1 st1)), Inr ()))))"

datatype close_promise = Resolved | Waiting nat

definition start_cancelling :: "lease_record \<Rightarrow> lease_state \<Rightarrow> lease_record \<times> lease_state" where
  "start_cancelling r st =
     (if lr_status r = Active then
        (let r1 = r\<lparr>lr_status := Cancelling, lr_aborted := True\<rparr>
         in (r1, lease_emit r1 LeaseCancelling None (put_record r1 st)))
      else (r, st))"

definition quiesceAndClose :: "lease_state \<Rightarrow> turn_lease \<Rightarrow> lease_state \<times> (lease_error + close_promise)" where
  "quiesceAndClose st lease =
     (case recordFor st lease of
        Inl e \<Rightarrow> (st, Inl e)
      | Inr r \<Rightarrow>
          if lr_status r = Closed then (st, Inr Resolved)
          else
            (let (r1, st1) = start_cancelling r st in
             if lr_operations r1 = [] then (closeIfDrained r1 st1, Inr Resolved)
             else
               (let w = lc_nextWaiter st1; r2 = r1\<lparr>lr_waiters := lr_waiters r1 @ [w]\<rparr>
                in ((put_record r2 st1)\<lparr>lc_nextWaiter := w + 1\<rparr>, Inr (Waiting w)))))"

section \<open>The lease invariant\<close>

definition lease_shape :: "lease_record \<Rightarrow> bool" where
  "lease_shape r \<longleftrightarrow> (lr_status r = Closed \<longrightarrow> lr_operations r = []) \<and>
     (lr_status r = Cancelling \<longrightarrow> lr_operations r \<noteq> []) \<and>
     (lr_waiters r \<noteq> [] \<longrightarrow> lr_status r = Cancelling) \<and> (lr_aborted r \<longleftrightarrow> lr_status r \<noteq> Active)"

definition has_op :: "lease_state \<Rightarrow> string \<Rightarrow> string \<Rightarrow> bool" where
  "has_op st k i \<longleftrightarrow> (\<exists>r. map_of (lc_records st) k = Some r \<and> map_of (lr_operations r) i \<noteq> None)"

definition lease_inv :: "lease_state \<Rightarrow> bool" where
  "lease_inv st \<longleftrightarrow>
     (\<forall>k r. map_of (lc_records st) k = Some r \<longrightarrow> tl_leaseId (lr_lease r) = k \<and> k \<in> set (lc_ids st) \<and> lease_shape r) \<and>
     (\<forall>k i. has_op st k i \<longrightarrow> i \<in> set (lc_ids st) \<and> i \<notin> set (lc_completed st) \<and> (\<forall>k'. has_op st k' i \<longrightarrow> k' = k)) \<and>
     set (lc_completed st) \<subseteq> set (lc_ids st)"

lemma lease_inv_cong:
  "map_of (lc_records st') = map_of (lc_records st) \<Longrightarrow> lc_ids st' = lc_ids st \<Longrightarrow> lc_completed st' = lc_completed st \<Longrightarrow>
     lease_inv st' = lease_inv st"
  by (simp add: lease_inv_def has_op_def)

lemma emit_frame [simp]:
  "lc_records (lease_emit r k i st) = lc_records st" "lc_ids (lease_emit r k i st) = lc_ids st"
  "lc_completed (lease_emit r k i st) = lc_completed st" "lc_nextWaiter (lease_emit r k i st) = lc_nextWaiter st"
  "lc_resolved (lease_emit r k i st) = lc_resolved st"
  by (simp_all add: lease_emit_def)

lemma put_frame [simp]:
  "map_of (lc_records (put_record r st)) = (map_of (lc_records st))(tl_leaseId (lr_lease r) \<mapsto> r)"
  "lc_ids (put_record r st) = lc_ids st" "lc_completed (put_record r st) = lc_completed st"
  "lc_nextWaiter (put_record r st) = lc_nextWaiter st" "lc_resolved (put_record r st) = lc_resolved st"
  by (simp_all add: put_record_def)

lemma recordFor_Inr: "recordFor st lease = Inr r \<longleftrightarrow> map_of (lc_records st) (tl_leaseId lease) = Some r \<and> lr_lease r = lease"
  by (auto simp: recordFor_def split: option.splits)

lemma lease_inv_records:
  assumes "lease_inv st" and "map_of (lc_records st') = (map_of (lc_records st))(tl_leaseId (lr_lease rn) \<mapsto> rn)"
    and "lc_ids st' = lc_ids st" and "lc_completed st' = lc_completed st"
    and "lease_shape rn" and "tl_leaseId (lr_lease rn) \<in> set (lc_ids st)"
    and "\<And>i. map_of (lr_operations rn) i \<noteq> None \<Longrightarrow> i \<in> set (lc_ids st) \<and> i \<notin> set (lc_completed st) \<and>
      (\<forall>k. has_op st k i \<longrightarrow> k = tl_leaseId (lr_lease rn))"
  shows "lease_inv st'"
proof -
  have op: "has_op st' k i \<longleftrightarrow> (if k = tl_leaseId (lr_lease rn) then map_of (lr_operations rn) i \<noteq> None else has_op st k i)" for k i
    by (auto simp: has_op_def assms(2))
  show ?thesis
    unfolding lease_inv_def assms(2-4) op
  proof (intro conjI allI impI, goal_cases)
    case (1 k r) then show ?case using assms(1) by (auto simp: lease_inv_def split: if_splits)
  next
    case (2 k r) then show ?case using assms(1,6) by (auto simp: lease_inv_def split: if_splits)
  next
    case (3 k r) then show ?case using assms(1,5) by (auto simp: lease_inv_def split: if_splits)
  next
    case (4 k i) then show ?case using assms(1,7) by (auto simp: lease_inv_def split: if_splits)
  next
    case (5 k i) then show ?case using assms(1,7) by (auto simp: lease_inv_def split: if_splits)
  next
    case (6 k i k')
    then show ?case using assms(1) assms(7) [of i] unfolding lease_inv_def by (metis (full_types))
  next
    case 7 then show ?case using assms(1) by (simp add: lease_inv_def)
  qed
qed

lemma lease_inv_ids: "lease_inv st \<Longrightarrow> lease_inv (st\<lparr>lc_ids := lc_ids st @ [i]\<rparr>)"
  by (auto simp: lease_inv_def has_op_def)

lemma allocateId_Inr: "allocateId st newId = Inr (st1, i) \<Longrightarrow> i \<notin> set (lc_ids st) \<and> st1 = st\<lparr>lc_ids := lc_ids st @ [i]\<rparr>"
  by (auto simp: allocateId_def split: sum.splits if_splits)

lemma fresh_no_op: "lease_inv st \<Longrightarrow> i \<notin> set (lc_ids st) \<Longrightarrow> \<not> has_op st k i \<and> i \<notin> set (lc_completed st)"
  by (auto simp: lease_inv_def)

lemma lease_inv_op: "lease_inv st \<Longrightarrow> map_of (lc_records st) k = Some r \<Longrightarrow> map_of (lr_operations r) i \<noteq> None \<Longrightarrow>
    i \<in> set (lc_ids st) \<and> i \<notin> set (lc_completed st) \<and> (\<forall>k'. has_op st k' i \<longrightarrow> k' = k)"
  unfolding lease_inv_def has_op_def by blast

lemma lease_inv_rec: "lease_inv st \<Longrightarrow> map_of (lc_records st) k = Some r \<Longrightarrow>
    tl_leaseId (lr_lease r) = k \<and> k \<in> set (lc_ids st) \<and> lease_shape r"
  unfolding lease_inv_def by blast

lemma acquire_inv: "lease_inv st \<Longrightarrow> lease_inv (fst (acquire st inp newId))"
proof (cases "snd (acquire st inp newId)")
  case (Inl e)
  assume "lease_inv st"
  with Inl show ?thesis by (auto simp: acquire_def Let_def split: if_splits sum.splits)
next
  case (Inr lease)
  assume inv: "lease_inv st"
  from Inr obtain st1 where a: "allocateId st newId = Inr (st1, tl_leaseId lease)"
    and f: "fst (acquire st inp newId) = lease_emit (fresh_record lease) LeaseAcquired None (put_record (fresh_record lease) st1)"
    by (auto simp: acquire_def Let_def split: if_splits sum.splits)
  from allocateId_Inr [OF a] have st1: "st1 = st\<lparr>lc_ids := lc_ids st @ [tl_leaseId lease]\<rparr>" by simp
  have "lease_inv st1" unfolding st1 by (rule lease_inv_ids [OF inv])
  then show ?thesis
    unfolding f by (rule lease_inv_records [where rn = "fresh_record lease"]) (auto simp: fresh_record_def st1 lease_shape_def)
qed

lemma reserve_inv: "lease_inv st \<Longrightarrow> lease_inv (fst (reserveOperation st lease newId))"
proof (cases "snd (reserveOperation st lease newId)")
  case (Inl e)
  assume "lease_inv st"
  with Inl show ?thesis by (auto simp: reserveOperation_def Let_def split: if_splits sum.splits)
next
  case (Inr i)
  assume inv: "lease_inv st"
  from Inr obtain r st1 where rec: "map_of (lc_records st) (tl_leaseId lease) = Some r" "lr_lease r = lease"
    and act: "lr_status r = Active" and a: "allocateId st newId = Inr (st1, i)"
    by (auto simp: reserveOperation_def Let_def recordFor_Inr split: if_splits sum.splits)
  let ?r = "r\<lparr>lr_operations := AList.update i Reserved (lr_operations r)\<rparr>"
  have f: "fst (reserveOperation st lease newId) = lease_emit ?r OpReserved (Some i) (put_record ?r st1)"
    using act a rec by (simp add: reserveOperation_def Let_def recordFor_def)
  from allocateId_Inr [OF a] have i: "i \<notin> set (lc_ids st)" and st1: "st1 = st\<lparr>lc_ids := lc_ids st @ [i]\<rparr>" by auto
  have inv1: "lease_inv st1" unfolding st1 by (rule lease_inv_ids [OF inv])
  have ho: "has_op st1 = has_op st" unfolding st1 has_op_def by (simp add: fun_eq_iff)
  show ?thesis
    unfolding f
  proof (rule lease_inv_records [OF inv1, where rn = ?r])
    show "lease_shape ?r" using lease_inv_rec [OF inv rec(1)] act by (auto simp: lease_shape_def)
    show "tl_leaseId (lr_lease ?r) \<in> set (lc_ids st1)" using lease_inv_rec [OF inv rec(1)] by (simp add: st1)
    show "x \<in> set (lc_ids st1) \<and> x \<notin> set (lc_completed st1) \<and> (\<forall>k. has_op st1 k x \<longrightarrow> k = tl_leaseId (lr_lease ?r))"
      if "map_of (lr_operations ?r) x \<noteq> None" for x
      using that fresh_no_op [OF inv i] lease_inv_op [OF inv rec(1), of x] rec(2)
      unfolding ho by (cases "x = i") (auto simp: st1)
  qed simp_all
qed

lemma lease_inv_shrink:
  assumes inv: "lease_inv st" and rec: "map_of (lc_records st) k = Some r" and same: "lr_lease rn = lr_lease r"
    and ops: "\<And>i. map_of (lr_operations rn) i \<noteq> None \<Longrightarrow> map_of (lr_operations r) i \<noteq> None"
    and shape: "lease_shape rn" and st': "map_of (lc_records st') = (map_of (lc_records st))(k \<mapsto> rn)"
    "lc_ids st' = lc_ids st" "lc_completed st' = lc_completed st"
  shows "lease_inv st'"
proof -
  have k: "tl_leaseId (lr_lease rn) = k" "k \<in> set (lc_ids st)" using lease_inv_rec [OF inv rec] same by auto
  show ?thesis
    by (rule lease_inv_records [OF inv, where rn = rn])
       (use st' shape k ops lease_inv_op [OF inv rec] in \<open>auto simp del: not_None_eq\<close>)
qed

lemma beginIo_inv: "lease_inv st \<Longrightarrow> lease_inv (fst (beginIo st lease i))"
proof (cases "snd (beginIo st lease i)")
  case (Inl e)
  assume "lease_inv st"
  with Inl show ?thesis by (auto simp: beginIo_def Let_def split: if_splits sum.splits)
next
  case (Inr u)
  assume inv: "lease_inv st"
  from Inr obtain r where rec: "map_of (lc_records st) (tl_leaseId lease) = Some r" "lr_lease r = lease"
    and c: "i \<notin> set (lc_completed st)" "map_of (lr_operations r) i = Some Reserved" "lr_status r = Active"
    by (auto simp: beginIo_def Let_def recordFor_Inr split: if_splits sum.splits)
  let ?r = "r\<lparr>lr_operations := AList.update i IoActive (lr_operations r)\<rparr>"
  have f: "fst (beginIo st lease i) = lease_emit ?r OpStarted (Some i) (put_record ?r st)"
    using c rec by (simp add: beginIo_def Let_def recordFor_def)
  show ?thesis
    unfolding f using inv rec(1)
    by (rule lease_inv_shrink [where rn = ?r])
       (use c lease_inv_rec [OF inv rec(1)] rec(2) in \<open>auto simp: lease_shape_def split: if_splits\<close>)
qed

text \<open>The record a completed operation leaves behind.\<close>

definition drained :: "lease_record \<Rightarrow> lease_record" where
  "drained r = (if lr_status r = Cancelling \<and> lr_operations r = [] then r\<lparr>lr_status := Closed, lr_waiters := []\<rparr> else r)"

lemma drained_simps [simp]: "lr_operations (drained r) = lr_operations r" "lr_lease (drained r) = lr_lease r"
  by (simp_all add: drained_def)

lemma closeIfDrained_frame:
  "map_of (lc_records (closeIfDrained r (put_record r st))) = (map_of (lc_records st))(tl_leaseId (lr_lease r) \<mapsto> drained r)"
  "map_of (lc_records (closeIfDrained r (lease_emit q k i (put_record r st)))) =
     (map_of (lc_records st))(tl_leaseId (lr_lease r) \<mapsto> drained r)"
  "lc_ids (closeIfDrained r st) = lc_ids st" "lc_completed (closeIfDrained r st) = lc_completed st"
  by (auto simp: closeIfDrained_def drained_def)

lemma completed_inv:
  "lease_inv st \<Longrightarrow> (\<And>k. \<not> has_op st k i) \<Longrightarrow> i \<in> set (lc_ids st) \<Longrightarrow> lease_inv (st\<lparr>lc_completed := lc_completed st @ [i]\<rparr>)"
  by (auto simp: lease_inv_def has_op_def)

lemma complete_ok:
  assumes "map_of (lc_records st) (tl_leaseId lease) = Some r" and "lr_lease r = lease"
    and "map_of (lr_operations r) i \<noteq> None" and "i \<notin> set (lc_completed st)"
  defines "rn \<equiv> r\<lparr>lr_operations := AList.delete i (lr_operations r)\<rparr>"
  shows "snd (complete_op st lease i) = Inr ()"
    and "map_of (lc_records (fst (complete_op st lease i))) = (map_of (lc_records st))(tl_leaseId lease \<mapsto> drained rn)"
    and "lc_ids (fst (complete_op st lease i)) = lc_ids st"
    and "lc_completed (fst (complete_op st lease i)) = lc_completed st @ [i]"
    and "lc_resolved (fst (complete_op st lease i)) =
      lc_resolved st @ (if lr_status r = Cancelling \<and> lr_operations rn = [] then lr_waiters r else [])"
  using assms by (auto simp: complete_op_def Let_def recordFor_def closeIfDrained_def drained_def)

lemma complete_inv:
  assumes inv: "lease_inv st" and legit: "i \<in> set (lc_completed st) \<or>
    (\<exists>r. recordFor st lease = Inr r \<and> map_of (lr_operations r) i \<noteq> None)"
  shows "lease_inv (fst (complete_op st lease i))"
proof (cases "i \<in> set (lc_completed st)")
  case True
  with inv show ?thesis by (simp add: complete_op_def)
next
  case False
  with legit obtain r where rec: "map_of (lc_records st) (tl_leaseId lease) = Some r" "lr_lease r = lease"
    and op: "map_of (lr_operations r) i \<noteq> None" by (auto simp: recordFor_Inr)
  define rn where "rn = drained (r\<lparr>lr_operations := AList.delete i (lr_operations r)\<rparr>)"
  note fin = complete_ok [OF rec op False]
  define st1 where "st1 = st\<lparr>lc_records := AList.update (tl_leaseId lease) rn (lc_records st)\<rparr>"
  have ops: "map_of (lr_operations rn) = (map_of (lr_operations r))(i := None)"
    by (simp add: rn_def)
  have sh: "lease_shape rn"
    using lease_inv_rec [OF inv rec(1)] op by (auto simp: rn_def drained_def lease_shape_def)
  have inv1: "lease_inv st1"
    using inv rec(1)
    by (rule lease_inv_shrink [where rn = rn]) (simp_all add: sh ops st1_def, simp_all add: rn_def split: if_splits)
  have "\<not> has_op st1 k i" for k
  proof (cases "k = tl_leaseId lease")
    case True
    then show ?thesis by (simp add: has_op_def st1_def ops)
  next
    case False
    then have "has_op st1 k i = has_op st k i" by (simp add: has_op_def st1_def)
    with False lease_inv_op [OF inv rec(1) op] show ?thesis by blast
  qed
  then have "lease_inv (st1\<lparr>lc_completed := lc_completed st1 @ [i]\<rparr>)"
    using lease_inv_op [OF inv rec(1) op] by (intro completed_inv [OF inv1]) (auto simp: st1_def)
  moreover have "map_of (lc_records (fst (complete_op st lease i))) = map_of (lc_records st1)"
    using fin(2) by (simp add: rn_def st1_def)
  ultimately show ?thesis
    using lease_inv_cong [of "fst (complete_op st lease i)" "st1\<lparr>lc_completed := lc_completed st1 @ [i]\<rparr>"] fin(3,4)
    by (simp add: st1_def)
qed

lemma quiesce_inv: "lease_inv st \<Longrightarrow> lease_inv (fst (quiesceAndClose st lease))"
proof (cases "recordFor st lease")
  case (Inl e)
  assume "lease_inv st"
  with Inl show ?thesis by (simp add: quiesceAndClose_def)
next
  case (Inr r)
  assume inv: "lease_inv st"
  from Inr have rec: "map_of (lc_records st) (tl_leaseId lease) = Some r" and l: "lr_lease r = lease"
    by (auto simp: recordFor_Inr)
  let ?w = "lc_nextWaiter st"
  define rn where "rn = (if lr_status r = Closed then r
    else if lr_operations r = [] then r\<lparr>lr_status := Closed, lr_aborted := True, lr_waiters := []\<rparr>
    else r\<lparr>lr_status := Cancelling, lr_aborted := True, lr_waiters := lr_waiters r @ [?w]\<rparr>)"
  have sh: "lease_shape r" using lease_inv_rec [OF inv rec] by simp
  have sh': "lease_shape rn" using sh by (cases "lr_status r") (auto simp: rn_def lease_shape_def)
  have "map_of (lc_records (fst (quiesceAndClose st lease))) = (map_of (lc_records st))(tl_leaseId lease \<mapsto> rn) \<and>
    lc_ids (fst (quiesceAndClose st lease)) = lc_ids st \<and> lc_completed (fst (quiesceAndClose st lease)) = lc_completed st"
  proof (cases "lr_status r")
    case Active
    with Inr rec l show ?thesis
      by (auto simp: quiesceAndClose_def start_cancelling_def rn_def closeIfDrained_def Let_def)
  next
    case Cancelling
    with Inr rec l sh show ?thesis
      by (auto simp: quiesceAndClose_def start_cancelling_def rn_def lease_shape_def Let_def)
  next
    case Closed
    with Inr rec show ?thesis by (auto simp: quiesceAndClose_def rn_def)
  qed
  moreover have "lr_lease rn = lr_lease r" by (simp add: rn_def)
  moreover have "map_of (lr_operations rn) x \<noteq> None \<Longrightarrow> map_of (lr_operations r) x \<noteq> None" for x
    by (simp add: rn_def split: if_splits)
  ultimately show ?thesis
    by (intro lease_inv_shrink [OF inv rec, where rn = rn]) (simp_all add: sh')
qed


section \<open>Runs of the lease coordinator\<close>

text \<open>An operation handle that was issued is outstanding under its lease or already completed.\<close>

definition issued :: "lease_state \<Rightarrow> turn_lease \<Rightarrow> string \<Rightarrow> bool" where
  "issued st lease i \<longleftrightarrow> i \<in> set (lc_completed st) \<or>
     (\<exists>r. recordFor st lease = Inr r \<and> map_of (lr_operations r) i \<noteq> None)"

inductive lease_step :: "lease_state \<Rightarrow> lease_state \<Rightarrow> bool" where
  ls_acquire: "lease_step st (fst (acquire st inp newId))"
| ls_reserve: "lease_step st (fst (reserveOperation st lease newId))"
| ls_begin: "issued st lease i \<Longrightarrow> lease_step st (fst (beginIo st lease i))"
| ls_complete: "issued st lease i \<Longrightarrow> lease_step st (fst (complete_op st lease i))"
| ls_quiesce: "lease_step st (fst (quiesceAndClose st lease))"

inductive_cases lease_stepE: "lease_step st st'"

abbreviation lease_steps :: "lease_state \<Rightarrow> lease_state \<Rightarrow> bool" where
  "lease_steps \<equiv> lease_step\<^sup>*\<^sup>*"

lemma lease_step_inv: "lease_step st st' \<Longrightarrow> lease_inv st \<Longrightarrow> lease_inv st'"
  by (elim lease_stepE)
     (auto simp: issued_def acquire_inv reserve_inv beginIo_inv quiesce_inv intro!: complete_inv)

lemma lease_steps_inv: "lease_steps st st' \<Longrightarrow> lease_inv st \<Longrightarrow> lease_inv st'"
  by (induction rule: rtranclp_induct) (auto intro: lease_step_inv)

lemma lease_init_inv: "lease_inv makeContextLeaseCoordinator"
  by (simp add: lease_inv_def has_op_def makeContextLeaseCoordinator_def)

text \<open>
  A lease that left the active state never returns to it: its record stays, under the same lease,
  no longer active, and every outstanding operation was already outstanding in the same phase.
\<close>

definition retired :: "turn_lease \<Rightarrow> lease_record \<Rightarrow> lease_state \<Rightarrow> bool" where
  "retired lease r st \<longleftrightarrow> (\<exists>rn. recordFor st lease = Inr rn \<and> lr_status rn \<noteq> Active \<and>
     (lr_status r = Closed \<longrightarrow> lr_status rn = Closed) \<and>
     (\<forall>i p. map_of (lr_operations rn) i = Some p \<longrightarrow> map_of (lr_operations r) i = Some p))"

lemma retired_refl: "recordFor st lease = Inr r \<Longrightarrow> lr_status r \<noteq> Active \<Longrightarrow> retired lease r st"
  by (simp add: retired_def)

lemma retired_put:
  "retired lease r st \<Longrightarrow> map_of (lc_records st') (tl_leaseId lease) = map_of (lc_records st) (tl_leaseId lease) \<Longrightarrow> retired lease r st'"
  by (simp add: retired_def recordFor_def)

lemma acquire_other:
  "lease_inv st \<Longrightarrow> map_of (lc_records st) k = Some r \<Longrightarrow> map_of (lc_records (fst (acquire st inp newId))) k = Some r"
proof (cases "snd (acquire st inp newId)")
  case (Inl e)
  assume "map_of (lc_records st) k = Some r"
  with Inl show ?thesis by (auto simp: acquire_def Let_def split: if_splits sum.splits)
next
  case (Inr lease)
  assume inv: "lease_inv st" and k: "map_of (lc_records st) k = Some r"
  from Inr obtain st1 where a: "allocateId st newId = Inr (st1, tl_leaseId lease)"
    and f: "fst (acquire st inp newId) = lease_emit (fresh_record lease) LeaseAcquired None (put_record (fresh_record lease) st1)"
    by (auto simp: acquire_def Let_def split: if_splits sum.splits)
  from allocateId_Inr [OF a] lease_inv_rec [OF inv k] have "k \<noteq> tl_leaseId lease" "lc_records st1 = lc_records st"
    by auto
  with k show ?thesis unfolding f by (simp add: fresh_record_def)
qed

lemma not_active_reserve:
  "recordFor st lease = Inr r \<Longrightarrow> lr_status r \<noteq> Active \<Longrightarrow> reserveOperation st lease newId = (st, Inl StaleContext)"
  by (simp add: reserveOperation_def)

lemma not_active_begin:
  "recordFor st lease = Inr r \<Longrightarrow> lr_status r \<noteq> Active \<Longrightarrow> fst (beginIo st lease i) = st \<and> isl (snd (beginIo st lease i))"
  by (simp add: beginIo_def)

lemma reserve_other: "k \<noteq> tl_leaseId lease \<Longrightarrow>
    map_of (lc_records (fst (reserveOperation st lease newId))) k = map_of (lc_records st) k"
  by (auto simp: reserveOperation_def Let_def recordFor_Inr dest!: allocateId_Inr split: sum.splits)

lemma begin_other: "k \<noteq> tl_leaseId lease \<Longrightarrow> map_of (lc_records (fst (beginIo st lease i))) k = map_of (lc_records st) k"
  by (auto simp: beginIo_def Let_def recordFor_Inr split: sum.splits)

lemma complete_other: "k \<noteq> tl_leaseId lease \<Longrightarrow> map_of (lc_records (fst (complete_op st lease i))) k = map_of (lc_records st) k"
  by (auto simp: complete_op_def Let_def recordFor_Inr closeIfDrained_def split: sum.splits)

lemma complete_stale: "recordFor st lease = Inl e \<Longrightarrow> lc_records (fst (complete_op st lease i)) = lc_records st"
  by (auto simp: complete_op_def Let_def recordFor_def split: option.splits if_splits)

lemma quiesce_other: "k \<noteq> tl_leaseId lease \<Longrightarrow> map_of (lc_records (fst (quiesceAndClose st lease))) k = map_of (lc_records st) k"
  by (auto simp: quiesceAndClose_def start_cancelling_def Let_def recordFor_Inr closeIfDrained_def split: sum.splits)

lemma retired_complete: "retired lease r st \<Longrightarrow> retired lease r (fst (complete_op st lease i))"
proof -
  assume "retired lease r st"
  then obtain rn where rn: "recordFor st lease = Inr rn" "lr_status rn \<noteq> Active" "lr_status r = Closed \<longrightarrow> lr_status rn = Closed"
    "\<forall>i p. map_of (lr_operations rn) i = Some p \<longrightarrow> map_of (lr_operations r) i = Some p"
    by (auto simp: retired_def)
  let ?rd = "drained (rn\<lparr>lr_operations := AList.delete i (lr_operations rn)\<rparr>)"
  consider "map_of (lc_records (fst (complete_op st lease i))) (tl_leaseId lease) = Some rn"
    | "map_of (lc_records (fst (complete_op st lease i))) (tl_leaseId lease) = Some ?rd"
    using rn(1) complete_ok(2) [of st lease rn i]
    by (cases "i \<in> set (lc_completed st)"; cases "map_of (lr_operations rn) i")
       (auto simp: complete_op_def Let_def recordFor_def split: option.splits if_splits)
  then show ?thesis
  proof cases
    case 1
    with rn show ?thesis by (auto simp: retired_def recordFor_Inr)
  next
    case 2
    have "recordFor (fst (complete_op st lease i)) lease = Inr ?rd" using 2 rn(1) by (simp add: recordFor_Inr)
    moreover have "lr_status ?rd \<noteq> Active \<and> (lr_status r = Closed \<longrightarrow> lr_status ?rd = Closed)"
      using rn by (simp add: drained_def)
    moreover have "\<forall>x p. map_of (lr_operations ?rd) x = Some p \<longrightarrow> map_of (lr_operations r) x = Some p"
      using rn(4) by simp
    ultimately show ?thesis unfolding retired_def by blast
  qed
qed

lemma retired_quiesce: "retired lease r st \<Longrightarrow> retired lease r (fst (quiesceAndClose st lease))"
proof -
  assume "retired lease r st"
  then obtain rn where rn: "recordFor st lease = Inr rn" "lr_status rn \<noteq> Active" "lr_status r = Closed \<longrightarrow> lr_status rn = Closed"
    "\<forall>i p. map_of (lr_operations rn) i = Some p \<longrightarrow> map_of (lr_operations r) i = Some p"
    by (auto simp: retired_def)
  have l: "lr_lease rn = lease" using rn(1) by (simp add: recordFor_Inr)
  show ?thesis
  proof (cases "lr_status rn")
    case Cancelling
    with rn l show ?thesis
      by (auto simp: retired_def quiesceAndClose_def start_cancelling_def Let_def recordFor_def closeIfDrained_def)
  qed (use rn in \<open>auto simp: retired_def quiesceAndClose_def\<close>)
qed

lemma retired_same: "retired lease r st \<Longrightarrow> recordFor st l = Inr x \<Longrightarrow> tl_leaseId l = tl_leaseId lease \<Longrightarrow> l = lease"
  by (auto simp: retired_def recordFor_Inr)

lemma retired_step: "lease_inv st \<Longrightarrow> lease_step st st' \<Longrightarrow> retired lease r st \<Longrightarrow> retired lease r st'"
proof (elim lease_stepE, goal_cases)
  case (1 inp newId)
  then show ?case using acquire_other [of st "tl_leaseId lease"] by (auto simp: retired_def recordFor_Inr)
next
  case (2 l newId)
  then show ?case
  proof (cases "tl_leaseId l = tl_leaseId lease")
    case True
    with 2 have "fst (reserveOperation st l newId) = st"
      by (auto simp: retired_def reserveOperation_def recordFor_def split: option.splits if_splits)
    with 2 show ?thesis by simp
  qed (use reserve_other retired_put in metis)
next
  case (3 l i)
  then show ?case
  proof (cases "tl_leaseId l = tl_leaseId lease")
    case True
    with 3 have "fst (beginIo st l i) = st"
      by (auto simp: retired_def beginIo_def recordFor_def split: option.splits if_splits)
    with 3 show ?thesis by simp
  qed (use begin_other retired_put in metis)
next
  case (4 l i)
  then show ?case
  proof (cases "l = lease")
    case False
    then have "recordFor st l = Inr x \<Longrightarrow> tl_leaseId l \<noteq> tl_leaseId lease" for x
      using retired_same [OF 4(2)] by blast
    then have "map_of (lc_records (fst (complete_op st l i))) (tl_leaseId lease) = map_of (lc_records st) (tl_leaseId lease)"
      using complete_other [of "tl_leaseId lease" l st i] complete_stale [of st l _ i] by (cases "recordFor st l") auto
    with 4 retired_put show ?thesis by blast
  qed (use retired_complete in blast)
next
  case (5 l)
  then show ?case
  proof (cases "l = lease")
    case False
    then have "recordFor st l = Inr x \<Longrightarrow> tl_leaseId l \<noteq> tl_leaseId lease" for x
      using retired_same [OF 5(2)] by blast
    then have "map_of (lc_records (fst (quiesceAndClose st l))) (tl_leaseId lease) = map_of (lc_records st) (tl_leaseId lease)"
      using quiesce_other [of "tl_leaseId lease" l st] by (cases "recordFor st l") (auto simp: quiesceAndClose_def)
    with 5 retired_put show ?thesis by blast
  qed (use retired_quiesce in blast)
qed

lemma retired_steps: "lease_steps st st' \<Longrightarrow> lease_inv st \<Longrightarrow> retired lease r st \<Longrightarrow> retired lease r st'"
  by (induction rule: rtranclp_induct) (auto intro: retired_step lease_steps_inv)

section \<open>A quiesced lease closes once its operations complete\<close>

lemma drain_closes:
  "lease_inv st \<Longrightarrow> recordFor st lease = Inr r \<Longrightarrow> lr_status r = Cancelling \<Longrightarrow> distinct ids \<Longrightarrow>
     set ids = dom (map_of (lr_operations r)) \<Longrightarrow>
     lease_status_of (foldl (\<lambda>s i. fst (complete_op s lease i)) st ids) lease = Inr Closed \<and>
     lc_resolved (foldl (\<lambda>s i. fst (complete_op s lease i)) st ids) = lc_resolved st @ lr_waiters r"
proof (induction ids arbitrary: st r)
  case Nil
  then have "lease_shape r" using lease_inv_rec by (auto simp: recordFor_Inr)
  moreover have "lr_operations r = []" using Nil.prems(5) by (simp add: dom_map_of_conv_image_fst)
  ultimately show ?case using Nil.prems(3) by (simp add: lease_shape_def)
next
  case (Cons i ids)
  let ?s = "fst (complete_op st lease i)" and ?rn = "r\<lparr>lr_operations := AList.delete i (lr_operations r)\<rparr>"
  have rec: "map_of (lc_records st) (tl_leaseId lease) = Some r" "lr_lease r = lease"
    using Cons.prems(2) by (auto simp: recordFor_Inr)
  have op: "map_of (lr_operations r) i \<noteq> None" using Cons.prems(5) by auto
  have nc: "i \<notin> set (lc_completed st)" using lease_inv_op [OF Cons.prems(1) rec(1) op] by simp
  note ok = complete_ok [OF rec op nc]
  have inv: "lease_inv ?s" using Cons.prems(2) op by (intro complete_inv [OF Cons.prems(1)]) blast
  have rf: "recordFor ?s lease = Inr (drained ?rn)" using ok(2) rec(2) by (simp add: recordFor_Inr)
  have dm: "set ids = dom (map_of (lr_operations ?rn))" using Cons.prems(4,5) by auto
  show ?case
  proof (cases "lr_operations ?rn = []")
    case True
    then have "ids = []" using dm by simp
    with rf ok(5) True Cons.prems(3) show ?thesis by (simp add: lease_status_of_def drained_def)
  next
    case False
    then have d: "drained ?rn = ?rn" by (simp add: drained_def)
    have "lc_resolved ?s = lc_resolved st" using ok(5) False by simp
    moreover have "lr_status (drained ?rn) = Cancelling" "distinct ids" using d Cons.prems(3,4) by simp_all
    moreover have "set ids = dom (map_of (lr_operations (drained ?rn)))" unfolding d by (rule dm)
    ultimately show ?thesis using Cons.IH [OF inv rf] by (simp only: foldl_Cons d) simp
  qed
qed

lemma quiesce_starts:
  assumes "lease_inv st" and "recordFor st lease = Inr r" and "lr_status r = Active" and "lr_operations r \<noteq> []"
  shows "snd (quiesceAndClose st lease) = Inr (Waiting (lc_nextWaiter st))"
    and "recordFor (fst (quiesceAndClose st lease)) lease =
      Inr (r\<lparr>lr_status := Cancelling, lr_aborted := True, lr_waiters := [lc_nextWaiter st]\<rparr>)"
    and "lc_resolved (fst (quiesceAndClose st lease)) = lc_resolved st"
proof -
  have "lr_waiters r = []" using assms lease_inv_rec by (fastforce simp: recordFor_Inr lease_shape_def)
  moreover have "lr_lease r = lease" using assms(2) by (simp add: recordFor_Inr)
  ultimately show "snd (quiesceAndClose st lease) = Inr (Waiting (lc_nextWaiter st))"
    "recordFor (fst (quiesceAndClose st lease)) lease =
      Inr (r\<lparr>lr_status := Cancelling, lr_aborted := True, lr_waiters := [lc_nextWaiter st]\<rparr>)"
    "lc_resolved (fst (quiesceAndClose st lease)) = lc_resolved st"
    using assms(2-4) by (simp_all add: quiesceAndClose_def start_cancelling_def Let_def recordFor_def)
qed

section \<open>Properties of the lease coordinator\<close>

text \<open>
  C36: once a lease has been asked to close, along every further run of the coordinator no operation is
  reserved and no input or output begins under it, a closed lease stays closed, and its outstanding
  operations only ever become fewer.
\<close>

theorem retired_lease_starts_nothing:
  assumes "lease_steps makeContextLeaseCoordinator st" and "recordFor st lease = Inr r" and "lr_status r \<noteq> Active"
    and "lease_steps st st'"
  shows "snd (reserveOperation st' lease newId) = Inl StaleContext \<and> fst (reserveOperation st' lease newId) = st' \<and>
    fst (beginIo st' lease i) = st' \<and> isl (snd (beginIo st' lease i)) \<and>
    (\<exists>r'. recordFor st' lease = Inr r' \<and> lr_status r' \<noteq> Active \<and> (lr_status r = Closed \<longrightarrow> lr_status r' = Closed) \<and>
       map_of (lr_operations r') \<subseteq>\<^sub>m map_of (lr_operations r))"
proof -
  have "lease_inv st" using lease_steps_inv [OF assms(1) lease_init_inv] .
  from retired_steps [OF assms(4) this retired_refl [OF assms(2,3)]] obtain r' where r': "recordFor st' lease = Inr r'"
    "lr_status r' \<noteq> Active" "lr_status r = Closed \<longrightarrow> lr_status r' = Closed"
    "\<forall>i p. map_of (lr_operations r') i = Some p \<longrightarrow> map_of (lr_operations r) i = Some p"
    unfolding retired_def by blast
  then have "map_of (lr_operations r') \<subseteq>\<^sub>m map_of (lr_operations r)" by (auto simp: map_le_def)
  with r' not_active_reserve [OF r'(1,2)] not_active_begin [OF r'(1,2)] show ?thesis by simp
qed

definition demo_input :: lease_input where
  "demo_input = \<lparr>li_operatorId = ''op'', li_profileId = ''pr'', li_projectId = ''pj'', li_projectKind = ''project'',
     li_sessionId = ''s'', li_root = ''/w'', li_generation = 1\<rparr>"

definition demo_lease :: turn_lease where
  "demo_lease = \<lparr>tl_operatorId = ''op'', tl_profileId = ''pr'', tl_projectId = ''pj'', tl_projectKind = ''project'',
     tl_sessionId = ''s'', tl_root = ''/w'', tl_generation = 1, tl_leaseId = ''L''\<rparr>"

definition demo_leased :: lease_state where
  "demo_leased = fst (reserveOperation (fst (acquire makeContextLeaseCoordinator demo_input ''L'')) demo_lease ''o'')"

definition demo_closing :: lease_state where
  "demo_closing = fst (quiesceAndClose demo_leased demo_lease)"

definition demo_closing_record :: lease_record where
  "demo_closing_record = \<lparr>lr_lease = demo_lease, lr_status = Cancelling, lr_aborted = True, lr_operations = [(''o'', Reserved)], lr_waiters = [0]\<rparr>"

lemma demo_leased_reached: "lease_steps makeContextLeaseCoordinator demo_leased"
  unfolding demo_leased_def
  by (meson ls_acquire ls_reserve rtranclp.rtrancl_into_rtrancl rtranclp.rtrancl_refl)

lemma demo_closing_reached: "lease_steps makeContextLeaseCoordinator demo_closing"
  unfolding demo_closing_def using demo_leased_reached
  by (meson ls_quiesce rtranclp.rtrancl_into_rtrancl)

theorem retired_lease_starts_nothing_witness:
  "snd (reserveOperation demo_closing demo_lease ''o2'') = Inl StaleContext \<and> isl (snd (beginIo demo_closing demo_lease ''o''))"
proof -
  have r: "recordFor demo_closing demo_lease = Inr demo_closing_record" by code_simp
  have "lr_status demo_closing_record \<noteq> Active" by (simp add: demo_closing_record_def)
  from retired_lease_starts_nothing [OF demo_closing_reached r this rtranclp.rtrancl_refl] show ?thesis by blast
qed



end
