(* ===== verification/Triggers.thy ===== *)
theory Triggers
  imports Observability
begin

text \<open>
  The trigger engine of \<open>core-ts/src/triggers\<close>: registration with its probe checks, confirmation,
  cancellation and the deterministic two-phase tick.

  Parameters (\<open>trigger_deps\<close>): \<open>Date.parse\<close> (\<open>None\<close> is NaN), the wall-clock rendering of an instant,
  the probe runner, the observer, and \<open>startTurn\<close>, whose answer says how it ended and what it left of
  the two budgets it was handed. Calls of the trigger store and emitted events are logged in order.
  One call of the engine runs to its end before the next starts.
\<close>

datatype trigger_kind = Remind | Schedule | Watch

datatype creator = ByOperator | ByAgent

record trigger_budget =
  bg_tokenCeiling :: int
  bg_dollarCeiling :: rat
  bg_tokensSpent :: int
  bg_dollarsSpent :: rat

record trigger_spec =
  ts_id :: string
  ts_binding :: jv
  ts_kind :: trigger_kind
  ts_createdBy :: creator
  ts_confirmed :: bool
  ts_prompt :: string
  ts_fireAt :: "string option"
  ts_cron :: "string option"
  ts_probe :: "verification_trace option"
  ts_intervalMs :: "int option"
  ts_budget :: trigger_budget
  ts_expiresAt :: "string option"
  ts_enabled :: bool
  ts_firedSlots :: "string list option"

datatype phase1_outcome = Due | ConditionMet | NoChange | BudgetPaused | ContextPaused | Skipped

record trigger_firing =
  tf_triggerId :: string
  tf_firedAt :: string
  tf_phase1 :: phase1_outcome
  tf_turnStarted :: bool

record turn_span =
  sp_role :: string
  sp_untrusted :: bool
  sp_text :: string

datatype turn_result = TurnOk | TurnBindingError | TurnOtherError

record trigger_deps =
  td_dateParse :: "string \<Rightarrow> int option"
  td_wallClock :: "string \<Rightarrow> string"
  td_probeRunner :: "verification_trace \<Rightarrow> bool"
  td_observe :: "(verification_trace \<Rightarrow> string) option"
  td_startTurn :: "trigger_spec \<Rightarrow> turn_span list \<Rightarrow> trigger_budget \<Rightarrow> turn_result \<times> trigger_budget \<times> trigger_budget"

datatype store_call = StoreSave trigger_spec | StoreRemove string

datatype trigger_event =
    TrRegistered string trigger_kind bool
  | TrConfirmed string
  | TrCancelled string
  | TrBudgetPaused string
  | TrContextPaused string
  | TrNoChange string
  | TrFired string phase1_outcome

record trigger_engine =
  te_triggers :: "(string, trigger_spec) jsmap"
  te_loaded :: bool
  te_pauseReported :: "string list"
  te_lastOutcome :: "(string, phase1_outcome) jsmap"
  te_globalBudget :: trigger_budget
  te_store :: "store_call list"
  te_events :: "trigger_event list"

definition makeTriggerEngine :: "trigger_budget \<Rightarrow> trigger_engine" where
  "makeTriggerEngine global = \<lparr>te_triggers = [], te_loaded = False, te_pauseReported = [], te_lastOutcome = [],
     te_globalBudget = global, te_store = [], te_events = []\<rparr>"

definition MAX_FIRED_SLOTS :: nat where "MAX_FIRED_SLOTS = 16"
definition MAX_LIVE_TRIGGERS :: nat where "MAX_LIVE_TRIGGERS = 128"

definition VACUOUS_ARGV0 :: "string list" where
  "VACUOUS_ARGV0 = [''echo'', ''true'', '':'', ''printf'']"

definition SELF_REFERENTIAL_FILES :: "string list" where
  "SELF_REFERENTIAL_FILES = [''PLAN.md'', ''TODO.md'']"

definition rx_local_url :: rx where
  "rx_local_url = rx_alt [rx_lit ''localhost'', rx_lit ''127.0.0.1'']"

text \<open>\<open>True\<close> is the thrown rejection.\<close>

fun rejectBadProbe :: "verification_trace \<Rightarrow> bool" where
  "rejectBadProbe (TExit argv code) = ((case argv of [] \<Rightarrow> [] | a # _ \<Rightarrow> a) \<in> set VACUOUS_ARGV0)"
| "rejectBadProbe (THttp verb url status) = (rx_test rx_local_url url \<and> toUpperCase verb \<in> set [''GET'', ''HEAD''])"
| "rejectBadProbe (TFile path expected sha) = list_ex (\<lambda>f. path = f \<or> endsWith path (''/'' @ f)) SELF_REFERENTIAL_FILES"
| "rejectBadProbe (TSql query rows) = False"
| "rejectBadProbe (TOther k) = False"

section \<open>Due slots\<close>

definition js_slice :: "nat \<Rightarrow> nat \<Rightarrow> string \<Rightarrow> string" where
  "js_slice a b s = take (b - a) (drop a s)"

text \<open>
  Calendar arithmetic of \<open>Date\<close> on days since 1970-01-01 (proleptic Gregorian): the day number of a
  date and the year of a day number.
\<close>

definition days_from_civil :: "int \<Rightarrow> int \<Rightarrow> int \<Rightarrow> int" where
  "days_from_civil y0 m d =
     (let y = (if m \<le> 2 then y0 - 1 else y0);
          era = y div 400;
          yoe = y - era * 400;
          doy = (153 * (m + (if m > 2 then -3 else 9)) + 2) div 5 + d - 1;
          doe = yoe * 365 + yoe div 4 - yoe div 100 + doy
      in era * 146097 + doe - 719468)"

definition year_of_days :: "int \<Rightarrow> int" where
  "year_of_days z0 =
     (let z = z0 + 719468;
          era = z div 146097;
          doe = z - era * 146097;
          yoe = (doe - doe div 1460 + doe div 36524 - doe div 146096) div 365;
          doy = doe - (365 * yoe + yoe div 4 - yoe div 100);
          mp = (5 * doy + 2) div 153
      in yoe + era * 400 + (if mp < 10 then 0 else 1))"

definition weekday_monday0 :: "int \<Rightarrow> int" where
  "weekday_monday0 days = ((days + 4) mod 7 + 6) mod 7"

definition day_ms :: int where "day_ms = 86400000"

definition pad2 :: "int \<Rightarrow> string" where
  "pad2 n = (let s = string_of_int n in if length s < 2 then replicate (2 - length s) (CHR ''0'') @ s else s)"

definition isoWeekSlot :: "(string \<Rightarrow> int option) \<Rightarrow> string \<Rightarrow> string option" where
  "isoWeekSlot dateParse nowIso =
     (case dateParse (js_slice 0 10 nowIso @ ''T00:00:00Z'') of
        None \<Rightarrow> None
      | Some ms \<Rightarrow>
          (let days = ms div day_ms;
               thursday = days - weekday_monday0 days + 3;
               year = year_of_days thursday;
               firstThursday = days_from_civil year 1 4;
               weekOne = firstThursday - weekday_monday0 firstThursday + 3;
               week = (2 * (thursday - weekOne) + 7) div 14 + 1
           in Some (string_of_int year @ ''-W'' @ pad2 week)))"

definition rx_daily_at :: rx where
  "rx_daily_at = rx_seq [Bol, Cls is_digit, Cls is_digit, rx_lit '':'', Cls is_digit, Cls is_digit, Eol]"

definition cronSlot :: "(string \<Rightarrow> int option) \<Rightarrow> string \<Rightarrow> string \<Rightarrow> string option" where
  "cronSlot dateParse cron nowIso =
     (if cron = ''@minutely'' then Some (js_slice 0 16 nowIso)
      else if cron = ''@hourly'' then Some (js_slice 0 13 nowIso)
      else if cron = ''@daily'' then Some (js_slice 0 10 nowIso)
      else if cron = ''@weekly'' then isoWeekSlot dateParse nowIso
      else if rx_test rx_daily_at cron then
        (if cron \<le> js_slice 11 16 nowIso then Some (js_slice 0 10 nowIso) else None)
      else None)"

definition budgetExhausted :: "trigger_budget \<Rightarrow> bool" where
  "budgetExhausted b \<longleftrightarrow> bg_tokensSpent b \<ge> bg_tokenCeiling b \<or> bg_dollarsSpent b \<ge> bg_dollarCeiling b"


section \<open>The engine\<close>

definition ensureLoaded :: "trigger_spec list \<Rightarrow> trigger_engine \<Rightarrow> trigger_engine" where
  "ensureLoaded stored st =
     (if te_loaded st then st
      else st\<lparr>te_triggers := foldl (\<lambda>m s. AList.update (ts_id s) s m) (te_triggers st) stored, te_loaded := True\<rparr>)"

definition put_trigger :: "trigger_spec \<Rightarrow> trigger_engine \<Rightarrow> trigger_engine" where
  "put_trigger spec st = st\<lparr>te_triggers := AList.update (ts_id spec) spec (te_triggers st)\<rparr>"

definition persist_trigger :: "trigger_spec \<Rightarrow> trigger_engine \<Rightarrow> trigger_engine" where
  "persist_trigger spec st = (put_trigger spec st)\<lparr>te_store := te_store st @ [StoreSave spec]\<rparr>"

definition tr_emit :: "trigger_event \<Rightarrow> trigger_engine \<Rightarrow> trigger_engine" where
  "tr_emit e st = st\<lparr>te_events := te_events st @ [e]\<rparr>"

definition fired_slots :: "trigger_spec \<Rightarrow> string list" where
  "fired_slots spec = (case ts_firedSlots spec of None \<Rightarrow> [] | Some xs \<Rightarrow> xs)"

definition recordSlot :: "string \<Rightarrow> trigger_spec \<Rightarrow> trigger_spec" where
  "recordSlot slot spec = spec\<lparr>ts_firedSlots := Some (lastn MAX_FIRED_SLOTS (fired_slots spec @ [slot]))\<rparr>"

definition slotFired :: "trigger_spec \<Rightarrow> string \<Rightarrow> bool" where
  "slotFired spec slot \<longleftrightarrow> slot \<in> set (fired_slots spec)"

definition truthy :: "string option \<Rightarrow> string option" where
  "truthy x = (case x of Some s \<Rightarrow> if s = [] then None else Some s | None \<Rightarrow> None)"

definition earlier_eq :: "int option \<Rightarrow> int option \<Rightarrow> bool" where
  "earlier_eq a b = (case (a, b) of (Some x, Some y) \<Rightarrow> x \<le> y | _ \<Rightarrow> False)"

text \<open>The candidate of phase 1: the outcome, the slot to record and the spans of the woken turn.\<close>

datatype phase1_result = Candidate phase1_outcome string "turn_span list" | Quiet

definition watch_bucket :: "trigger_deps \<Rightarrow> trigger_spec \<Rightarrow> string \<Rightarrow> string option" where
  "watch_bucket deps spec now =
     (case ts_intervalMs spec of
        Some n \<Rightarrow> if n > 0 then
                    Some (case td_dateParse deps now of None \<Rightarrow> ''NaN'' | Some ms \<Rightarrow> string_of_int (ms div n))
                  else None
      | None \<Rightarrow> None)"

definition watch_probe :: "trigger_deps \<Rightarrow> verification_trace \<Rightarrow> string \<Rightarrow> phase1_result" where
  "watch_probe deps probe now =
     (if \<not> td_probeRunner deps probe then Quiet
      else Candidate ConditionMet now
             [\<lparr>sp_role = ''tool'', sp_untrusted = True, sp_text = (case td_observe deps of None \<Rightarrow> [] | Some f \<Rightarrow> f probe)\<rparr>])"

definition phase1_remind :: "trigger_deps \<Rightarrow> trigger_spec \<Rightarrow> string \<Rightarrow> string \<Rightarrow> phase1_result" where
  "phase1_remind deps spec now slot =
     (if earlier_eq (td_dateParse deps slot) (td_dateParse deps now) \<and> \<not> slotFired spec slot
      then Candidate Due slot [] else Quiet)"

definition phase1_schedule :: "trigger_deps \<Rightarrow> trigger_spec \<Rightarrow> string \<Rightarrow> string \<Rightarrow> phase1_result" where
  "phase1_schedule deps spec now cron =
     (case truthy (cronSlot (td_dateParse deps) cron (td_wallClock deps now)) of
        Some slot \<Rightarrow> if slotFired spec slot then Quiet else Candidate Due slot []
      | None \<Rightarrow> Quiet)"

definition phase1_watch :: "trigger_deps \<Rightarrow> trigger_spec \<Rightarrow> string \<Rightarrow> verification_trace \<Rightarrow> trigger_spec \<times> phase1_result" where
  "phase1_watch deps spec now probe =
     (case watch_bucket deps spec now of
        Some bucket \<Rightarrow>
          if slotFired spec bucket then (spec, Quiet)
          else (recordSlot bucket spec, watch_probe deps probe now)
      | None \<Rightarrow> (spec, watch_probe deps probe now))"

definition phase1 :: "trigger_deps \<Rightarrow> trigger_spec \<Rightarrow> string \<Rightarrow> trigger_spec \<times> phase1_result" where
  "phase1 deps spec now =
     (case ts_kind spec of
        Remind \<Rightarrow>
          (spec, case truthy (ts_fireAt spec) of Some slot \<Rightarrow> phase1_remind deps spec now slot | None \<Rightarrow> Quiet)
      | Schedule \<Rightarrow>
          (spec, case truthy (ts_cron spec) of Some cron \<Rightarrow> phase1_schedule deps spec now cron | None \<Rightarrow> Quiet)
      | Watch \<Rightarrow>
          (case ts_probe spec of Some probe \<Rightarrow> phase1_watch deps spec now probe | None \<Rightarrow> (spec, Quiet)))"

definition emitOnce :: "string \<Rightarrow> phase1_outcome \<Rightarrow> trigger_engine \<Rightarrow> trigger_engine" where
  "emitOnce i outcome st =
     (case outcome of
        BudgetPaused \<Rightarrow>
          if i \<in> set (te_pauseReported st) then st
          else tr_emit (TrBudgetPaused i) (st\<lparr>te_pauseReported := te_pauseReported st @ [i]\<rparr>)
      | ContextPaused \<Rightarrow>
          if i \<in> set (te_pauseReported st) then st
          else tr_emit (TrContextPaused i) (st\<lparr>te_pauseReported := te_pauseReported st @ [i]\<rparr>)
      | NoChange \<Rightarrow>
          if map_of (te_lastOutcome st) i = Some NoChange then st else tr_emit (TrNoChange i) st
      | fired \<Rightarrow> (tr_emit (TrFired i fired) st)\<lparr>te_pauseReported := removeAll i (te_pauseReported st)\<rparr>)"

definition register :: "trigger_spec list \<Rightarrow> trigger_engine \<Rightarrow> trigger_spec \<Rightarrow> trigger_engine \<times> (string + trigger_spec)" where
  "register stored st0 input =
     (let st = ensureLoaded stored st0;
          live = length (filter ts_enabled (map_values (te_triggers st)))
      in if ts_kind input = Watch \<and> (case ts_probe input of Some p \<Rightarrow> rejectBadProbe p | None \<Rightarrow> False) then
           (st, Inl ''watch probe rejected'')
         else if map_of (te_triggers st) (ts_id input) = None \<and> live \<ge> MAX_LIVE_TRIGGERS then
           (st, Inl ''trigger rejected: at most 128 live triggers'')
         else
           (let spec = input\<lparr>ts_confirmed := (ts_createdBy input = ByOperator), ts_enabled := True,
                  ts_firedSlots := Some (fired_slots input)\<rparr>
            in (tr_emit (TrRegistered (ts_id spec) (ts_kind spec) (ts_confirmed spec)) (persist_trigger spec st), Inr spec)))"

definition trigger_confirm :: "trigger_spec list \<Rightarrow> trigger_engine \<Rightarrow> string \<Rightarrow> trigger_engine" where
  "trigger_confirm stored st0 i =
     (let st = ensureLoaded stored st0 in
      case map_of (te_triggers st) i of
        None \<Rightarrow> st
      | Some spec \<Rightarrow> tr_emit (TrConfirmed i) (persist_trigger (spec\<lparr>ts_confirmed := True\<rparr>) st))"

definition trigger_cancel :: "trigger_spec list \<Rightarrow> trigger_engine \<Rightarrow> string \<Rightarrow> trigger_engine" where
  "trigger_cancel stored st0 i =
     (let st = ensureLoaded stored st0
      in tr_emit (TrCancelled i)
           (st\<lparr>te_triggers := AList.delete i (te_triggers st), te_store := te_store st @ [StoreRemove i]\<rparr>))"

definition trigger_list :: "trigger_spec list \<Rightarrow> trigger_engine \<Rightarrow> trigger_spec list" where
  "trigger_list stored st = map_values (te_triggers (ensureLoaded stored st))"

definition eligible :: "trigger_deps \<Rightarrow> string \<Rightarrow> trigger_spec \<Rightarrow> bool" where
  "eligible deps now spec \<longleftrightarrow> ts_enabled spec \<and> ts_confirmed spec \<and>
     \<not> (case truthy (ts_expiresAt spec) of
          Some t \<Rightarrow> earlier_eq (td_dateParse deps t) (td_dateParse deps now) | None \<Rightarrow> False)"

text \<open>
  One trigger of a tick, after the eligibility gate: the new state, the outcome and whether a turn
  started; \<open>None\<close> when \<open>startTurn\<close> threw an error that is not a binding or lease error.
\<close>

definition fire :: "trigger_deps \<Rightarrow> string \<Rightarrow> trigger_spec \<Rightarrow> phase1_outcome \<Rightarrow> string \<Rightarrow> turn_span list \<Rightarrow>
    trigger_engine \<Rightarrow> trigger_engine \<times> (phase1_outcome \<times> bool) option" where
  "fire deps now spec outcome slot spans st =
     (if budgetExhausted (ts_budget spec) \<or> budgetExhausted (te_globalBudget st) then (st, Some (BudgetPaused, False))
      else
        (let (result, budget, global) = td_startTurn deps spec spans (te_globalBudget st);
             spec1 = spec\<lparr>ts_budget := budget\<rparr>;
             st1 = put_trigger spec1 (st\<lparr>te_globalBudget := global\<rparr>)
         in case result of
              TurnOk \<Rightarrow>
                (let spec2 = recordSlot slot spec1;
                     spec3 = (if ts_kind spec2 = Remind then spec2\<lparr>ts_enabled := False\<rparr> else spec2)
                 in (persist_trigger spec3 st1, Some (outcome, True)))
            | TurnBindingError \<Rightarrow> (persist_trigger (spec1\<lparr>ts_enabled := False\<rparr>) st1, Some (ContextPaused, False))
            | TurnOtherError \<Rightarrow> (st1, None)))"

definition tick_one :: "trigger_deps \<Rightarrow> string \<Rightarrow> trigger_spec \<Rightarrow> trigger_engine \<Rightarrow>
    trigger_engine \<times> trigger_firing option option" where
  "tick_one deps now spec st =
     (if \<not> eligible deps now spec then (st, Some None)
      else
        (let (spec1, p1) = phase1 deps spec now;
             st1 = put_trigger spec1 st;
             (st2, r) = (case p1 of
                Quiet \<Rightarrow> (st1, Some (NoChange, False))
              | Candidate outcome slot spans \<Rightarrow> fire deps now spec1 outcome slot spans st1)
         in case r of
              None \<Rightarrow> (st2, None)
            | Some (outcome, started) \<Rightarrow>
                (let st3 = emitOnce (ts_id spec) outcome st2
                 in (st3\<lparr>te_lastOutcome := AList.update (ts_id spec) outcome (te_lastOutcome st3)\<rparr>,
                     Some (Some \<lparr>tf_triggerId = ts_id spec, tf_firedAt = now, tf_phase1 = outcome, tf_turnStarted = started\<rparr>)))))"

fun tick_all :: "trigger_deps \<Rightarrow> string \<Rightarrow> string list \<Rightarrow> trigger_engine \<Rightarrow> trigger_engine \<times> trigger_firing list option" where
  "tick_all deps now [] st = (st, Some [])"
| "tick_all deps now (i # is) st =
     (case map_of (te_triggers st) i of
        None \<Rightarrow> tick_all deps now is st
      | Some spec \<Rightarrow>
          (let (st1, r) = tick_one deps now spec st in
           case r of
             None \<Rightarrow> (st1, None)
           | Some f \<Rightarrow>
               (let (st2, fs) = tick_all deps now is st1
                in (st2, map_option (\<lambda>fs. (case f of None \<Rightarrow> [] | Some x \<Rightarrow> [x]) @ fs) fs))))"

definition tick :: "trigger_deps \<Rightarrow> trigger_spec list \<Rightarrow> string \<Rightarrow> trigger_engine \<Rightarrow> trigger_engine \<times> trigger_firing list option" where
  "tick deps stored now st0 =
     (let st = ensureLoaded stored st0 in tick_all deps now (map_keys (te_triggers st)) st)"

section \<open>The engine's maps\<close>

definition keyed :: "(string, trigger_spec) jsmap \<Rightarrow> bool" where
  "keyed m \<longleftrightarrow> wf_map m \<and> (\<forall>k s. map_of m k = Some s \<longrightarrow> k = ts_id s)"

lemma keyed_update [simp]: "keyed m \<Longrightarrow> i = ts_id s \<Longrightarrow> keyed (AList.update i s m)"
  unfolding keyed_def by (auto split: if_splits)

definition engine_wf :: "trigger_engine \<Rightarrow> bool" where
  "engine_wf st \<longleftrightarrow> keyed (te_triggers st)"

lemma frame_triggers [simp]:
  "te_triggers (tr_emit e st) = te_triggers st" "te_loaded (tr_emit e st) = te_loaded st"
  "te_triggers (emitOnce i oc st) = te_triggers st" "te_loaded (emitOnce i oc st) = te_loaded st"
  "te_triggers (persist_trigger s st) = AList.update (ts_id s) s (te_triggers st)"
  "te_triggers (put_trigger s st) = AList.update (ts_id s) s (te_triggers st)"
  "te_loaded (persist_trigger s st) = te_loaded st" "te_loaded (put_trigger s st) = te_loaded st"
  "te_globalBudget (put_trigger s st) = te_globalBudget st"
  by (simp_all add: tr_emit_def emitOnce_def persist_trigger_def put_trigger_def split: phase1_outcome.splits)

lemma ts_id_simps [simp]:
  "ts_id (recordSlot slot s) = ts_id s" "ts_kind (recordSlot slot s) = ts_kind s" "ts_budget (recordSlot slot s) = ts_budget s"
  "ts_cron (recordSlot slot s) = ts_cron s" "ts_enabled (recordSlot slot s) = ts_enabled s"
  by (simp_all add: recordSlot_def)

lemma wf_put: "engine_wf st \<Longrightarrow> te_triggers st' = AList.update (ts_id s) s (te_triggers st) \<Longrightarrow> engine_wf st'"
  by (simp add: engine_wf_def)

lemma load_map_wf: "keyed m \<Longrightarrow> keyed (foldl (\<lambda>m s. AList.update (ts_id s) s m) m ss)"
  by (induction ss arbitrary: m) simp_all

lemma load_wf: "engine_wf st \<Longrightarrow> engine_wf (ensureLoaded stored st)"
  by (simp add: ensureLoaded_def engine_wf_def load_map_wf)

lemma phase1_spec: "phase1 deps spec now = (spec1, p) \<Longrightarrow> ts_id spec1 = ts_id spec \<and> ts_kind spec1 = ts_kind spec \<and>
    ts_budget spec1 = ts_budget spec \<and> ts_cron spec1 = ts_cron spec \<and> (ts_kind spec \<noteq> Watch \<longrightarrow> spec1 = spec)"
  by (auto simp: phase1_def phase1_watch_def split: trigger_kind.splits option.splits if_splits)

text \<open>One trigger of a tick changes that trigger's entry only.\<close>

lemma fire_triggers:
  "fire deps now spec outcome slot spans st = (st', r) \<Longrightarrow>
     (\<forall>k. k \<noteq> ts_id spec \<longrightarrow> map_of (te_triggers st') k = map_of (te_triggers st) k) \<and> te_loaded st' = te_loaded st \<and>
     (engine_wf st \<longrightarrow> engine_wf st')"
  by (auto simp: fire_def Let_def engine_wf_def split: if_splits turn_result.splits prod.splits)

lemma tick_one_frame:
  assumes "tick_one deps now spec st = (st', r)"
  shows "(\<forall>k. k \<noteq> ts_id spec \<longrightarrow> map_of (te_triggers st') k = map_of (te_triggers st) k) \<and> te_loaded st' = te_loaded st \<and>
    (engine_wf st \<longrightarrow> engine_wf st')"
proof (cases "eligible deps now spec")
  case False
  with assms show ?thesis by (simp add: tick_one_def)
next
  case True
  obtain spec1 p where p: "phase1 deps spec now = (spec1, p)" by fastforce
  let ?st1 = "put_trigger spec1 st"
  obtain st2 q where f: "(case p of Quiet \<Rightarrow> (?st1, Some (NoChange, False))
      | Candidate outcome slot spans \<Rightarrow> fire deps now spec1 outcome slot spans ?st1) = (st2, q)" by fastforce
  have i: "ts_id spec1 = ts_id spec" using phase1_spec [OF p] by simp
  have wf1: "engine_wf st \<Longrightarrow> engine_wf ?st1" by (rule wf_put) simp_all
  have "(\<forall>k. k \<noteq> ts_id spec \<longrightarrow> map_of (te_triggers st2) k = map_of (te_triggers ?st1) k) \<and> te_loaded st2 = te_loaded ?st1 \<and>
      (engine_wf ?st1 \<longrightarrow> engine_wf st2)"
    using f i by (cases p) (auto dest: fire_triggers)
  moreover have "te_triggers st' = te_triggers st2 \<and> te_loaded st' = te_loaded st2"
    using assms True p f by (cases q) (auto simp: tick_one_def Let_def)
  ultimately show ?thesis using wf1 i by (simp add: engine_wf_def)
qed

text \<open>A started turn: what it required, and what it leaves in the trigger.\<close>

definition spent_for :: "trigger_deps \<Rightarrow> string \<Rightarrow> trigger_spec \<Rightarrow> trigger_spec \<Rightarrow> bool" where
  "spent_for deps now spec spec' \<longleftrightarrow> ts_id spec' = ts_id spec \<and> ts_kind spec' = ts_kind spec \<and> ts_cron spec' = ts_cron spec \<and>
     (ts_kind spec = Remind \<longrightarrow> \<not> ts_enabled spec') \<and>
     (ts_kind spec = Schedule \<longrightarrow> (\<exists>cron slot. truthy (ts_cron spec) = Some cron \<and>
        cronSlot (td_dateParse deps) cron (td_wallClock deps now) = Some slot \<and> slotFired spec' slot))"

lemma slotFired_record: "slotFired (recordSlot slot spec) slot"
  by (simp add: slotFired_def recordSlot_def fired_slots_def lastn_def MAX_FIRED_SLOTS_def)

lemma truthy_Some: "truthy x = Some s \<Longrightarrow> x = Some s \<and> s \<noteq> []"
  by (auto simp: truthy_def split: option.splits if_splits)

lemma fire_started:
  assumes "fire deps now spec outcome slot spans st = (st', Some (oc, True))"
  shows "\<not> budgetExhausted (ts_budget spec) \<and> \<not> budgetExhausted (te_globalBudget st) \<and> oc = outcome \<and>
    (\<exists>b. map_of (te_triggers st') (ts_id spec) =
       Some (let s = recordSlot slot (spec\<lparr>ts_budget := b\<rparr>) in if ts_kind spec = Remind then s\<lparr>ts_enabled := False\<rparr> else s))"
  using assms by (auto simp: fire_def Let_def split: if_splits turn_result.splits prod.splits)

lemma phase1_schedule_slot:
  "ts_kind spec = Schedule \<Longrightarrow> phase1 deps spec now = (s, Candidate oc slot spans) \<Longrightarrow>
     \<exists>cron. truthy (ts_cron spec) = Some cron \<and> cronSlot (td_dateParse deps) cron (td_wallClock deps now) = Some slot"
  by (auto simp: phase1_def phase1_schedule_def dest: truthy_Some split: option.splits if_splits)

lemma tick_one_started:
  assumes "tick_one deps now spec st = (st', Some (Some f))" and "tf_turnStarted f"
  shows "tf_triggerId f = ts_id spec \<and> eligible deps now spec \<and> \<not> budgetExhausted (ts_budget spec) \<and>
    \<not> budgetExhausted (te_globalBudget st) \<and> (\<exists>spec'. map_of (te_triggers st') (ts_id spec) = Some spec' \<and> spent_for deps now spec spec')"
proof -
  from assms have el: "eligible deps now spec" by (auto simp: tick_one_def split: if_splits)
  obtain spec1 p where p: "phase1 deps spec now = (spec1, p)" by fastforce
  let ?st1 = "put_trigger spec1 st"
  from assms el p obtain oc slot spans st2 where c: "p = Candidate oc slot spans"
    and f: "fire deps now spec1 oc slot spans ?st1 = (st2, Some (tf_phase1 f, True))"
    and id: "tf_triggerId f = ts_id spec" and st': "te_triggers st' = te_triggers st2"
    by (cases p) (auto simp: tick_one_def Let_def split: option.splits prod.splits)
  note sp = phase1_spec [OF p]
  from fire_started [OF f] obtain b where nb: "\<not> budgetExhausted (ts_budget spec1)" "\<not> budgetExhausted (te_globalBudget st)"
    and m: "map_of (te_triggers st2) (ts_id spec1) =
      Some (let s = recordSlot slot (spec1\<lparr>ts_budget := b\<rparr>) in if ts_kind spec1 = Remind then s\<lparr>ts_enabled := False\<rparr> else s)"
    by auto
  have "spent_for deps now spec (let s = recordSlot slot (spec1\<lparr>ts_budget := b\<rparr>) in
      if ts_kind spec1 = Remind then s\<lparr>ts_enabled := False\<rparr> else s)"
    using sp phase1_schedule_slot [of spec deps now spec1 oc slot spans] p c slotFired_record
    unfolding spent_for_def Let_def by auto
  with el nb sp id m st' show ?thesis by auto
qed

section \<open>A whole tick\<close>

lemma tick_all_frame:
  "tick_all deps now is st = (st', r) \<Longrightarrow> engine_wf st \<Longrightarrow>
     engine_wf st' \<and> te_loaded st' = te_loaded st \<and> (\<forall>k. k \<notin> set is \<longrightarrow> map_of (te_triggers st') k = map_of (te_triggers st) k)"
proof (induction "is" arbitrary: st r)
  case (Cons i "is")
  show ?case
  proof (cases "map_of (te_triggers st) i")
    case None
    with Cons show ?thesis by simp
  next
    case (Some spec)
    have i: "i = ts_id spec" using Cons.prems(2) Some by (simp add: engine_wf_def keyed_def)
    obtain st1 q where one: "tick_one deps now spec st = (st1, q)" by fastforce
    note fr = tick_one_frame [OF one]
    show ?thesis
    proof (cases q)
      case None
      with Cons.prems Some one have "st' = st1" by simp
      with fr Cons.prems(2) i show ?thesis by simp
    next
      case (Some f)
      obtain fs where "tick_all deps now is st1 = (st', fs)"
        using Cons.prems(1) \<open>map_of (te_triggers st) i = Some spec\<close> one Some by (auto simp: Let_def split: prod.splits)
      from Cons.IH [OF this] fr Cons.prems(2) i show ?thesis by simp
    qed
  qed
qed simp

lemma tick_one_id: "tick_one deps now spec st = (st', Some (Some f)) \<Longrightarrow> tf_triggerId f = ts_id spec"
  by (auto simp: tick_one_def Let_def split: if_splits option.splits prod.splits)

lemma tick_all_ids: "tick_all deps now is st = (st', Some fs) \<Longrightarrow> engine_wf st \<Longrightarrow> g \<in> set fs \<Longrightarrow> tf_triggerId g \<in> set is"
proof (induction "is" arbitrary: st fs)
  case (Cons i "is")
  show ?case
  proof (cases "map_of (te_triggers st) i")
    case None
    with Cons show ?thesis by simp
  next
    case (Some spec)
    have i: "i = ts_id spec" using Cons.prems(2) Some by (simp add: engine_wf_def keyed_def)
    obtain st1 q where one: "tick_one deps now spec st = (st1, q)" by fastforce
    from Cons.prems(1) Some one obtain o1 fs1 where q: "q = Some o1" and rest: "tick_all deps now is st1 = (st', Some fs1)"
      and fs: "fs = (case o1 of None \<Rightarrow> [] | Some x \<Rightarrow> [x]) @ fs1"
      by (cases q) (auto simp: Let_def split: prod.splits)
    have wf1: "engine_wf st1" using tick_one_frame [OF one] Cons.prems(2) by simp
    from fs Cons.prems(3) consider "o1 = Some g" | "g \<in> set fs1" by (auto split: option.splits)
    then show ?thesis
    proof cases
      case 1
      with one q i tick_one_id show ?thesis by auto
    next
      case 2
      with Cons.IH [OF rest wf1] show ?thesis by simp
    qed
  qed
qed simp

lemma tick_all_started:
  "tick_all deps now is st = (st', Some fs) \<Longrightarrow> engine_wf st \<Longrightarrow> distinct is \<Longrightarrow> f \<in> set fs \<Longrightarrow> tf_turnStarted f \<Longrightarrow>
     \<exists>spec spec'. map_of (te_triggers st) (tf_triggerId f) = Some spec \<and> eligible deps now spec \<and>
       \<not> budgetExhausted (ts_budget spec) \<and>
       map_of (te_triggers st') (tf_triggerId f) = Some spec' \<and> spent_for deps now spec spec' \<and>
       (\<exists>s1 s2. tick_one deps now spec s1 = (s2, Some (Some f)))"
proof (induction "is" arbitrary: st fs)
  case (Cons i "is")
  show ?case
  proof (cases "map_of (te_triggers st) i")
    case None
    with Cons show ?thesis by simp
  next
    case (Some spec)
    have i: "i = ts_id spec" using Cons.prems(2) Some by (simp add: engine_wf_def keyed_def)
    obtain st1 q where one: "tick_one deps now spec st = (st1, q)" by fastforce
    note fr = tick_one_frame [OF one]
    from Cons.prems(1) Some one obtain o1 fs1 where q: "q = Some o1" and rest: "tick_all deps now is st1 = (st', Some fs1)"
      and fs: "fs = (case o1 of None \<Rightarrow> [] | Some x \<Rightarrow> [x]) @ fs1"
      by (cases q) (auto simp: Let_def split: prod.splits)
    note rf = tick_all_frame [OF rest]
    have wf1: "engine_wf st1" using fr Cons.prems(2) by simp
    show ?thesis
    proof (cases "f \<in> set fs1")
      case True
      with Cons.IH [OF rest wf1] Cons.prems(3,5) obtain s s' where
        s: "map_of (te_triggers st1) (tf_triggerId f) = Some s" "eligible deps now s" "\<not> budgetExhausted (ts_budget s)"
        "map_of (te_triggers st') (tf_triggerId f) = Some s'" "spent_for deps now s s'"
        "\<exists>s1 s2. tick_one deps now s s1 = (s2, Some (Some f))" by auto
      show ?thesis
      proof (cases "tf_triggerId f = i")
        case False
        with s fr i have "map_of (te_triggers st) (tf_triggerId f) = Some s" by simp
        with s show ?thesis by blast
      next
        case True
        have "i \<notin> set is" using Cons.prems(3) by simp
        then have "tf_triggerId g \<noteq> i" if "g \<in> set fs1" for g
          using tick_all_ids [OF rest wf1 that] by auto
        with True \<open>f \<in> set fs1\<close> show ?thesis by blast
      qed
    next
      case False
      with Cons.prems(4) fs have o1: "o1 = Some f" by (auto split: option.splits)
      from tick_one_started [of deps now spec st st1 f] one q o1 Cons.prems(5) obtain spec' where
        "tf_triggerId f = i" "eligible deps now spec" "\<not> budgetExhausted (ts_budget spec)"
        "map_of (te_triggers st1) i = Some spec'" "spent_for deps now spec spec'"
        using i by auto
      moreover have "map_of (te_triggers st') i = map_of (te_triggers st1) i"
        using rf [OF wf1] Cons.prems(3) by simp
      ultimately show ?thesis using Some one q o1 by auto
    qed
  qed
qed simp

text \<open>A trigger whose due slot was spent starts no further turn for that slot.\<close>

lemma spent_quiet:
  assumes sp: "spent_for deps now spec0 spec" and k: "ts_kind spec \<noteq> Watch"
    and same: "\<And>cron. cronSlot (td_dateParse deps) cron (td_wallClock deps now') = cronSlot (td_dateParse deps) cron (td_wallClock deps now)"
    and run: "tick_one deps now' spec st = (st', Some (Some f))"
  shows "\<not> tf_turnStarted f"
proof
  assume st: "tf_turnStarted f"
  from tick_one_started [OF run st] have el: "eligible deps now' spec" by simp
  show False
  proof (cases "ts_kind spec")
    case Remind
    with sp el show False by (simp add: spent_for_def eligible_def)
  next
    case Schedule
    with sp obtain cron slot where c: "truthy (ts_cron spec) = Some cron"
      "cronSlot (td_dateParse deps) cron (td_wallClock deps now') = Some slot" "slotFired spec slot"
      by (auto simp: spent_for_def same)
    then have "snd (phase1 deps spec now') = Quiet"
      using Schedule by (auto simp: phase1_def phase1_schedule_def dest: truthy_Some split: option.splits)
    with run el st show False by (auto simp: tick_one_def Let_def split: prod.splits)
  next
    case Watch
    with k show False by simp
  qed
qed

lemma tick_loaded: "te_loaded st \<Longrightarrow> tick deps stored now st = tick_all deps now (map_keys (te_triggers st)) st"
  by (simp add: tick_def ensureLoaded_def)

lemma load_loaded: "te_loaded (ensureLoaded stored st)"
  by (simp add: ensureLoaded_def)

lemma tick_once:
  assumes wf: "engine_wf st" and t1: "tick deps stored now st = (st1, Some fs1)" and f1: "f1 \<in> set fs1" "tf_turnStarted f1"
    and k: "\<And>spec. map_of (te_triggers st1) (tf_triggerId f1) = Some spec \<Longrightarrow> ts_kind spec \<noteq> Watch"
    and same: "\<And>cron. cronSlot (td_dateParse deps) cron (td_wallClock deps now') = cronSlot (td_dateParse deps) cron (td_wallClock deps now)"
    and t2: "tick deps stored now' st1 = (st2, Some fs2)" and f2: "f2 \<in> set fs2" "tf_triggerId f2 = tf_triggerId f1"
  shows "\<not> tf_turnStarted f2"
proof
  assume s2: "tf_turnStarted f2"
  let ?st0 = "ensureLoaded stored st"
  have wf0: "engine_wf ?st0" by (rule load_wf [OF wf])
  have run1: "tick_all deps now (map_keys (te_triggers ?st0)) ?st0 = (st1, Some fs1)" using t1 by (simp add: tick_def Let_def)
  have d0: "distinct (map_keys (te_triggers ?st0))" using wf0 by (simp add: engine_wf_def keyed_def)
  note fr = tick_all_frame [OF run1 wf0]
  have run2: "tick_all deps now' (map_keys (te_triggers st1)) st1 = (st2, Some fs2)"
    using t2 fr load_loaded by (simp add: tick_loaded)
  have d1: "distinct (map_keys (te_triggers st1))" using fr by (simp add: engine_wf_def keyed_def)
  from tick_all_started [OF run1 wf0 d0 f1] obtain spec spec1 where
    m1: "map_of (te_triggers st1) (tf_triggerId f1) = Some spec1" and sp: "spent_for deps now spec spec1" by blast
  from tick_all_started [OF run2 _ d1 f2(1) s2] fr f2(2) m1 obtain s1 s2' where
    one: "tick_one deps now' spec1 s1 = (s2', Some (Some f2))" by auto
  from spent_quiet [OF sp k [OF m1] same one] s2 show False by simp
qed


section \<open>Registration\<close>

definition live_count :: "trigger_engine \<Rightarrow> nat" where
  "live_count st = length (filter ts_enabled (map_values (te_triggers st)))"

lemma update_new: "k \<notin> set (map_keys m) \<Longrightarrow> AList.update k v m = m @ [(k, v)]"
  by (induction m) auto

lemma register_cap:
  assumes "register stored st input = (st', Inr spec)" and "map_of (te_triggers (ensureLoaded stored st)) (ts_id input) = None"
  shows "live_count st' \<le> MAX_LIVE_TRIGGERS"
proof -
  have "te_triggers st' = te_triggers (ensureLoaded stored st) @ [(ts_id input, spec)]"
    using assms by (auto simp: register_def Let_def update_new map_of_eq_None_iff split: if_splits)
  moreover have "live_count (ensureLoaded stored st) < MAX_LIVE_TRIGGERS"
    using assms by (auto simp: register_def Let_def live_count_def split: if_splits)
  ultimately show ?thesis by (simp add: live_count_def)
qed

lemma update_live:
  "map_of m k = Some s \<Longrightarrow> \<not> ts_enabled s \<Longrightarrow> ts_enabled s' \<Longrightarrow>
     length (filter ts_enabled (map_values (AList.update k s' m))) = Suc (length (filter ts_enabled (map_values m)))"
  by (induction m) auto

lemma recordSlot_bounded: "length (fired_slots (recordSlot slot spec)) \<le> MAX_FIRED_SLOTS"
  by (simp add: recordSlot_def fired_slots_def MAX_FIRED_SLOTS_def)

datatype trigger_op = OpRegister trigger_spec | OpConfirm string | OpCancel string | OpTick trigger_deps string

fun trigger_step :: "trigger_spec list \<Rightarrow> trigger_engine \<Rightarrow> trigger_op \<Rightarrow> trigger_engine" where
  "trigger_step stored st (OpRegister input) = fst (register stored st input)"
| "trigger_step stored st (OpConfirm i) = trigger_confirm stored st i"
| "trigger_step stored st (OpCancel i) = trigger_cancel stored st i"
| "trigger_step stored st (OpTick deps now) = fst (tick deps stored now st)"

lemma keyed_delete: "keyed m \<Longrightarrow> keyed (AList.delete i m)"
  unfolding keyed_def by (auto split: if_splits)

lemma trigger_step_wf: "engine_wf st \<Longrightarrow> engine_wf (trigger_step stored st e)"
proof (cases e)
  case (OpRegister input)
  assume "engine_wf st"
  with OpRegister load_wf [of st stored] show ?thesis
    by (simp add: register_def Let_def engine_wf_def)
next
  case (OpConfirm i)
  assume "engine_wf st"
  with OpConfirm load_wf [of st stored] show ?thesis
    by (auto simp: trigger_confirm_def Let_def engine_wf_def split: option.splits)
next
  case (OpCancel i)
  assume "engine_wf st"
  with OpCancel load_wf [of st stored] show ?thesis
    by (simp add: trigger_cancel_def Let_def engine_wf_def keyed_delete)
next
  case (OpTick deps now)
  assume "engine_wf st"
  then have "engine_wf (ensureLoaded stored st)" by (rule load_wf)
  with OpTick tick_all_frame show ?thesis by (simp add: tick_def Let_def) (metis prod.collapse)
qed

interpretation trigger_machine: invariant_machine "trigger_step stored" engine_wf for stored
  by unfold_locales (rule trigger_step_wf)

section \<open>Properties of the trigger engine\<close>


definition demo_budget :: trigger_budget where
  "demo_budget = \<lparr>bg_tokenCeiling = 10, bg_dollarCeiling = 1, bg_tokensSpent = 0, bg_dollarsSpent = 0\<rparr>"

definition demo_trigger :: trigger_spec where
  "demo_trigger = \<lparr>ts_id = ''t1'', ts_binding = JNull, ts_kind = Schedule, ts_createdBy = ByOperator, ts_confirmed = True,
     ts_prompt = ''p'', ts_fireAt = None, ts_cron = Some ''@daily'', ts_probe = None, ts_intervalMs = None, ts_budget = demo_budget,
     ts_expiresAt = None, ts_enabled = True, ts_firedSlots = None\<rparr>"

definition demo_trigger_deps :: trigger_deps where
  "demo_trigger_deps = \<lparr>td_dateParse = \<lambda>_. None, td_wallClock = \<lambda>_. ''2026-01-02T09:00:00'', td_probeRunner = \<lambda>_. False, td_observe = None,
     td_startTurn = \<lambda>spec spans g. (TurnOk, ts_budget spec, g)\<rparr>"


text \<open>Registering a trigger under a new identifier never takes the engine above its cap of live triggers.\<close>

theorem new_triggers_capped:
  assumes "register stored st input = (st', Inr spec)" and "map_of (te_triggers (ensureLoaded stored st)) (ts_id input) = None"
  shows "live_count st' \<le> MAX_LIVE_TRIGGERS"
  using register_cap [OF assms] .

theorem new_triggers_capped_witness:
  "live_count (fst (register [] (makeTriggerEngine demo_budget) demo_trigger)) \<le> MAX_LIVE_TRIGGERS"
proof -
  let ?r = "register [] (makeTriggerEngine demo_budget) demo_trigger"
  let ?s = "demo_trigger\<lparr>ts_firedSlots := Some []\<rparr>"
  have "snd ?r = Inr ?s" by code_simp
  then have r: "?r = (fst ?r, Inr ?s)" by (metis prod.collapse)
  have "map_of (te_triggers (ensureLoaded [] (makeTriggerEngine demo_budget))) (ts_id demo_trigger) = None" by code_simp
  from new_triggers_capped [OF r this] show ?thesis .
qed

text \<open>
  The engine's table stays keyed by the identifiers of its triggers, without duplicates, through any
  sequence of registrations, confirmations, cancellations and ticks.
\<close>

theorem trigger_table_stays_keyed:
  "(let st = foldl (trigger_step stored) (makeTriggerEngine g) ops
    in distinct (map_keys (te_triggers st)) \<and> list_all (\<lambda>(k, s). k = ts_id s) (te_triggers st))"
proof -
  have "engine_wf (makeTriggerEngine g)" by (simp add: engine_wf_def keyed_def makeTriggerEngine_def)
  then have "engine_wf (foldl (trigger_step stored) (makeTriggerEngine g) ops)" by (rule trigger_machine.inv_run)
  then show ?thesis by (force simp: Let_def engine_wf_def keyed_def list_all_iff)
qed

end
