(* ===== verification/Memory_Store.thy ===== *)
theory Memory_Store
  imports Hash_Chain Js_Regex "HOL-Library.Product_Lexorder" "HOL-Library.Multiset"
begin

text \<open>
  The memory store (\<open>core-ts/src/memory/index.ts\<close>, \<open>fact-key.ts\<close>, \<open>types.ts\<close>): fact keys, the
  hash-chained forget-list, the resurrection guard, the transactional write path, the filtered read
  paths, the derived index and the byte-stable serialisation.

  A table is the list of its rows in insertion order; a transaction that fails leaves the database as
  it was. Parameters: the digest, the Unicode tokeniser of the fact key, the clock and the fresh
  identifier of a write, whether the journal accepts the event, and the full-text ranking of a query.
\<close>

section \<open>Fact keys\<close>

definition STOPWORDS_ASCII :: "string list" where
  "STOPWORDS_ASCII = [''i'', ''my'', ''me'', ''a'', ''an'', ''the'', ''is'', ''are'', ''was'', ''were'', ''in'', ''on'',
     ''at'', ''of'', ''to'', ''and'', ''or'', ''where'', ''that'', ''this'', ''it'', ''be'', ''am'']"

definition CANON :: "(string \<times> string) list" where
  "CANON = [(''live'', ''reside''), (''lives'', ''reside''), (''living'', ''reside''), (''home'', ''reside''),
     (''reside'', ''reside''), (''resides'', ''reside''), (''residence'', ''reside''),
     (''job'', ''role''), (''position'', ''role''), (''role'', ''role'')]"

definition canon :: "string \<Rightarrow> string" where
  "canon t = (case map_of CANON t of None \<Rightarrow> t | Some u \<Rightarrow> u)"

text \<open>
  \<open>fk_split\<close> is the normalising, case-folding split of the Unicode text at everything that is no
  letter, mark, digit or hyphen; \<open>fk_lettered\<close> tests for a letter or digit; \<open>fk_stop\<close> holds the Cyrillic
  stop words.
\<close>

record fact_key_env =
  fk_H :: "string \<Rightarrow> string"
  fk_split :: "string \<Rightarrow> string list"
  fk_lettered :: "string \<Rightarrow> bool"
  fk_stop :: "string list"

definition is_stopword :: "fact_key_env \<Rightarrow> string \<Rightarrow> bool" where
  "is_stopword env t \<longleftrightarrow> t \<in> set STOPWORDS_ASCII \<or> t \<in> set (fk_stop env)"

definition canonicalTokens :: "fact_key_env \<Rightarrow> string \<Rightarrow> string list" where
  "canonicalTokens env text =
     sort (dedup (map canon (filter (\<lambda>t. fk_lettered env t \<and> \<not> is_stopword env t) (fk_split env text))))"

definition legacy_char :: "char \<Rightarrow> bool" where
  "legacy_char c \<longleftrightarrow> is_lower c \<or> is_digit c \<or> is_space c \<or> c = CHR ''-''"

function split_ws :: "string \<Rightarrow> string \<Rightarrow> string list" where
  "split_ws acc [] = [rev acc]"
| "split_ws acc (c # cs) =
     (if is_space c then rev acc # split_ws [] (dropWhile is_space cs) else split_ws (c # acc) cs)"
  by pat_completeness auto
termination
  by (relation "measure (\<lambda>(acc, s). length s)") (auto simp: le_imp_less_Suc length_dropWhile_le)

definition legacyTokens :: "fact_key_env \<Rightarrow> string \<Rightarrow> string list" where
  "legacyTokens env text =
     sort (dedup (map canon (filter (\<lambda>t. length t > 0 \<and> \<not> is_stopword env t)
       (split_ws [] (map (\<lambda>c. if legacy_char c then c else CHR '' '') (toLowerCase text))))))"

record fact_key_info =
  fi_factKey :: string
  fi_keyTokens :: "string list"
  fi_legacyFactKey :: string
  fi_legacyKeyTokens :: "string list"

definition deriveDeterministicMemoryFactKey :: "fact_key_env \<Rightarrow> string \<Rightarrow> fact_key_info" where
  "deriveDeterministicMemoryFactKey env text =
     (let keyTokens = canonicalTokens env text; legacy = legacyTokens env text in
      \<lparr>fi_factKey = fk_H env (js_join ''|'' keyTokens), fi_keyTokens = keyTokens,
       fi_legacyFactKey = fk_H env (js_join ''|'' legacy), fi_legacyKeyTokens = legacy\<rparr>)"


section \<open>Tables\<close>

record fact_row =
  fr_id :: string
  fr_text :: string
  fr_key :: string
  fr_keyTokens :: string
  fr_validAt :: string
  fr_invalidAt :: "string option"
  fr_human :: bool
  fr_provenance :: string
  fr_supersedes :: "string option"

record dnr_row =
  dr_key :: string
  dr_keyTokens :: string
  dr_reason :: string
  dr_human :: bool
  dr_ts :: string
  dr_prevHash :: string
  dr_rowHash :: string

text \<open>\<open>db_facts\<close> and \<open>db_dnr\<close> only grow, so a row's \<open>rowid\<close> is its position; an FTS row is a position and a text.\<close>

record memory_db =
  db_facts :: "fact_row list"
  db_fts :: "(nat \<times> string) list"
  db_dnr :: "dnr_row list"

definition empty_db :: memory_db where
  "empty_db = \<lparr>db_facts = [], db_fts = [], db_dnr = []\<rparr>"

datatype memory_error = CorruptIndex string | ForgetListTamper nat | WriteFailed

definition forgotten :: "memory_db \<Rightarrow> string \<Rightarrow> bool" where
  "forgotten db k \<longleftrightarrow> k \<in> set (map dr_key (db_dnr db))"

text \<open>\<open>LIVE_FILTER\<close>.\<close>

definition live_row :: "memory_db \<Rightarrow> fact_row \<Rightarrow> bool" where
  "live_row db r \<longleftrightarrow> fr_invalidAt r = None \<and> \<not> forgotten db (fr_key r)"


section \<open>The forget-list\<close>

definition SEP :: string where "SEP = [CHR 0xE2, CHR 0x80, CHR 0x96]"

definition GENESIS :: string where "GENESIS = ''genesis''"

definition row_text :: "string \<Rightarrow> dnr_row \<Rightarrow> string" where
  "row_text prev r = js_join SEP [prev, dr_key r, dr_keyTokens r, dr_reason r, dr_ts r]"

definition dnr_tip :: "dnr_row list \<Rightarrow> string" where
  "dnr_tip rows = (if rows = [] then GENESIS else dr_rowHash (last rows))"

definition appendForgetRow :: "(string \<Rightarrow> string) \<Rightarrow> string \<Rightarrow> string \<Rightarrow> string list \<Rightarrow> string \<Rightarrow> bool \<Rightarrow> memory_db \<Rightarrow> memory_db" where
  "appendForgetRow H ts key tokens reason human db =
     (let prevHash = dnr_tip (db_dnr db);
          r = \<lparr>dr_key = key, dr_keyTokens = js_join ''|'' tokens, dr_reason = reason, dr_human = human, dr_ts = ts,
               dr_prevHash = prevHash, dr_rowHash = []\<rparr>
      in db\<lparr>db_dnr := db_dnr db @ [r\<lparr>dr_rowHash := H (row_text prevHash r)\<rparr>]\<rparr>)"

definition dnr_link :: "(string \<Rightarrow> string) \<Rightarrow> string \<Rightarrow> dnr_row \<Rightarrow> bool" where
  "dnr_link H prev r \<longleftrightarrow> dr_prevHash r = prev \<and> dr_rowHash r = H (row_text prev r)"

fun verify_rows :: "(string \<Rightarrow> string) \<Rightarrow> string \<Rightarrow> nat \<Rightarrow> dnr_row list \<Rightarrow> nat option" where
  "verify_rows H prev n [] = None"
| "verify_rows H prev n (r # rs) = (if \<not> dnr_link H prev r then Some n else verify_rows H (dr_rowHash r) (n + 1) rs)"

text \<open>\<open>Some n\<close> is the first row whose hash does not fit.\<close>

definition verifyForgetChain :: "(string \<Rightarrow> string) \<Rightarrow> memory_db \<Rightarrow> nat option" where
  "verifyForgetChain H db = verify_rows H GENESIS 1 (db_dnr db)"


section \<open>The write path\<close>

datatype guard = GuardPass | GuardBlock | GuardReview

definition guardCheck :: "memory_db \<Rightarrow> fact_key_info \<Rightarrow> guard" where
  "guardCheck db fk =
     (if forgotten db (fi_factKey fk) \<or> (fi_legacyFactKey fk \<noteq> fi_factKey fk \<and> forgotten db (fi_legacyFactKey fk)) then GuardBlock
      else if list_ex (\<lambda>r. list_ex (\<lambda>t. length t > 0 \<and> t \<in> set (fi_keyTokens fk @ fi_legacyKeyTokens fk))
                (js_split (dr_keyTokens r) ''|'')) (db_dnr db) then GuardReview
      else GuardPass)"

fun find_row :: "nat \<Rightarrow> string \<Rightarrow> fact_row list \<Rightarrow> (nat \<times> fact_row) option" where
  "find_row n i [] = None"
| "find_row n i (r # rs) = (if fr_id r = i then Some (n, r) else find_row (Suc n) i rs)"

definition findById :: "memory_db \<Rightarrow> string \<Rightarrow> (nat \<times> fact_row) option" where
  "findById db i = find_row 0 i (db_facts db)"

definition invalidate :: "string \<Rightarrow> bool \<Rightarrow> nat \<Rightarrow> memory_db \<Rightarrow> memory_db" where
  "invalidate ts human n db =
     db\<lparr>db_facts := (db_facts db)[n := (db_facts db ! n)\<lparr>fr_invalidAt := Some ts, fr_human := human\<rparr>],
        db_fts := filter (\<lambda>(m, t). m \<noteq> n) (db_fts db)\<rparr>"

definition insertFact :: "string \<Rightarrow> string \<Rightarrow> string \<Rightarrow> fact_key_info \<Rightarrow> string option \<Rightarrow> memory_db \<Rightarrow> memory_db option" where
  "insertFact newId ts text fk supersedes db =
     (if newId \<in> set (map fr_id (db_facts db)) then None
      else Some (db\<lparr>db_facts := db_facts db @ [\<lparr>fr_id = newId, fr_text = text, fr_key = fi_factKey fk,
                      fr_keyTokens = js_join ''|'' (fi_keyTokens fk), fr_validAt = ts, fr_invalidAt = None, fr_human = False,
                      fr_provenance = ''commit'', fr_supersedes = supersedes\<rparr>],
                    db_fts := db_fts db @ [(length (db_facts db), text)]\<rparr>))"

datatype memory_op = OpAdd string | OpUpdate string string | OpDelete string bool string | OpNoop string

datatype commit_result =
    Committed string
  | Blocked string
  | RoutedToReview
  | Superseded string
  | NotFound string

text \<open>The surroundings of one write: digest and tokeniser, clock, fresh identifier, whether the event is accepted.\<close>

record write_env =
  we_fk :: fact_key_env
  we_ts :: string
  we_newId :: string
  we_emitOk :: bool

fun invalidate_live :: "string \<Rightarrow> string \<Rightarrow> nat \<Rightarrow> fact_row list \<Rightarrow> memory_db \<Rightarrow> memory_db" where
  "invalidate_live ts key n [] db = db"
| "invalidate_live ts key n (r # rs) db =
     invalidate_live ts key (Suc n) rs
       (if fr_key r = key \<and> fr_invalidAt r = None then invalidate ts False n db else db)"

definition forget_row :: "write_env \<Rightarrow> nat \<Rightarrow> fact_row \<Rightarrow> string \<Rightarrow> bool \<Rightarrow> memory_db \<Rightarrow> memory_db" where
  "forget_row env n r reason human db =
     (let db1 = invalidate (we_ts env) human n db
      in if human then appendForgetRow (fk_H (we_fk env)) (we_ts env) (fr_key r) (js_split (fr_keyTokens r) ''|'') reason True db1
         else db1)"

definition guarded :: "write_env \<Rightarrow> memory_db \<Rightarrow> string \<Rightarrow> (fact_key_info \<Rightarrow> (memory_db \<times> commit_result) option) \<Rightarrow>
    (memory_db \<times> commit_result) option" where
  "guarded env db text k =
     (let fk = deriveDeterministicMemoryFactKey (we_fk env) text in
      case guardCheck db fk of
        GuardBlock \<Rightarrow> Some (db, Blocked (fi_factKey fk))
      | GuardReview \<Rightarrow> Some (db, RoutedToReview)
      | GuardPass \<Rightarrow> k fk)"

fun apply_op :: "write_env \<Rightarrow> memory_op \<Rightarrow> memory_db \<Rightarrow> (memory_db \<times> commit_result) option" where
  "apply_op env (OpNoop i) db = Some (db, Committed i)"
| "apply_op env (OpDelete i human reason) db =
     (case findById db i of
        Some (n, r) \<Rightarrow> Some (forget_row env n r reason human db, Committed i)
      | None \<Rightarrow> Some (db, NotFound i))"
| "apply_op env (OpUpdate i text) db = guarded env db text (\<lambda>fk.
     (let target = findById db i;
          db1 = (case target of Some (n, r) \<Rightarrow> if fr_invalidAt r = None then invalidate (we_ts env) False n db else db
                              | None \<Rightarrow> db)
      in map_option (\<lambda>db2. (db2, Superseded (we_newId env)))
           (insertFact (we_newId env) (we_ts env) text fk (map_option (\<lambda>(n, r). fr_key r) target) db1)))"
| "apply_op env (OpAdd text) db = guarded env db text (\<lambda>fk.
     map_option (\<lambda>db2. (db2, Committed (we_newId env)))
       (insertFact (we_newId env) (we_ts env) text fk None
          (invalidate_live (we_ts env) (fi_factKey fk) 0 (db_facts db) db)))"

text \<open>A failing statement or a refused event rolls the transaction back.\<close>

definition commit :: "write_env \<Rightarrow> memory_op \<Rightarrow> memory_db \<Rightarrow> memory_db \<times> (memory_error + commit_result)" where
  "commit env mop db =
     (case apply_op env mop db of
        None \<Rightarrow> (db, Inl WriteFailed)
      | Some (db', result) \<Rightarrow> if we_emitOk env then (db', Inr result) else (db, Inl WriteFailed))"

definition forget :: "write_env \<Rightarrow> string \<Rightarrow> string \<Rightarrow> bool \<Rightarrow> memory_db \<Rightarrow> memory_db \<times> (memory_error + unit)" where
  "forget env i reason human db =
     (let db' = (case findById db i of Some (n, r) \<Rightarrow> forget_row env n r reason human db | None \<Rightarrow> db)
      in if we_emitOk env then (db', Inr ()) else (db, Inl WriteFailed))"


section \<open>The derived index and the read paths\<close>

definition live_index :: "memory_db \<Rightarrow> (nat \<times> string) list" where
  "live_index db = map (\<lambda>(n, r). (n, fr_text r)) (filter (\<lambda>(n, r). live_row db r) (enumerate 0 (db_facts db)))"

definition refreshDerivedIndex :: "memory_db \<Rightarrow> memory_db" where
  "refreshDerivedIndex db = db\<lparr>db_fts := live_index db\<rparr>"

definition reindex_one :: "memory_db \<Rightarrow> string \<Rightarrow> memory_db" where
  "reindex_one db i =
     (case findById db i of
        None \<Rightarrow> db
      | Some (n, r) \<Rightarrow>
          (let cleared = filter (\<lambda>(m, t). m \<noteq> n) (db_fts db)
           in db\<lparr>db_fts := cleared @ (if live_row db r then [(n, fr_text r)] else [])\<rparr>))"

definition reindexScoped :: "string list \<Rightarrow> memory_db \<Rightarrow> memory_db" where
  "reindexScoped ids db = foldl reindex_one db ids"

datatype reindex_scope = ReindexAll | ReindexIds "string list"

definition reindex :: "reindex_scope \<Rightarrow> memory_db \<Rightarrow> memory_db" where
  "reindex scope db = (case scope of ReindexAll \<Rightarrow> refreshDerivedIndex db | ReindexIds ids \<Rightarrow> reindexScoped ids db)"

record ranked_hit =
  rh_id :: string
  rh_factKey :: string
  rh_text :: string
  rh_score :: rat

text \<open>
  \<open>rank query fts\<close> lists the matching FTS rows with their scores in score order. \<open>Inl\<close> on a broken
  forget chain; an empty match expression yields no hits.
\<close>

type_synonym ranking = "string \<Rightarrow> (nat \<times> string) list \<Rightarrow> (nat \<times> rat) list"

definition checked :: "(string \<Rightarrow> string) \<Rightarrow> memory_db \<Rightarrow> (memory_db \<Rightarrow> memory_error + 'a) \<Rightarrow> memory_error + 'a" where
  "checked H db f = (case verifyForgetChain H db of Some n \<Rightarrow> Inl (ForgetListTamper n) | None \<Rightarrow> f db)"

definition search :: "(string \<Rightarrow> string) \<Rightarrow> ranking \<Rightarrow> string \<Rightarrow> nat \<Rightarrow> memory_db \<Rightarrow> memory_error + ranked_hit list" where
  "search H rank match1 limit db = checked H db (\<lambda>db.
     if match1 = [] then Inr []
     else Inr (take limit (map (\<lambda>(n, s). let r = db_facts db ! n in
            \<lparr>rh_id = fr_id r, rh_factKey = fr_key r, rh_text = fr_text r, rh_score = s\<rparr>)
          (filter (\<lambda>(n, s). n < length (db_facts db) \<and> live_row db (db_facts db ! n)) (rank match1 (db_fts db))))))"

datatype load_step = Annotation | Overview | FullText

definition load_fact :: "(string \<Rightarrow> string) \<Rightarrow> string \<Rightarrow> load_step \<Rightarrow> memory_db \<Rightarrow> memory_error + string" where
  "load_fact H i step db = checked H db (\<lambda>db.
     case findById db i of
       None \<Rightarrow> Inl (CorruptIndex (''fact '' @ i @ '' is not live (tombstoned or unknown)''))
     | Some (n, r) \<Rightarrow>
         if fr_invalidAt r \<noteq> None then Inl (CorruptIndex (''fact '' @ i @ '' is not live (tombstoned or unknown)''))
         else if forgotten db (fr_key r) then Inl (CorruptIndex (''fact '' @ i @ '' is on the forget-list''))
         else Inr (case step of Annotation \<Rightarrow> take 200 (fr_text r) | Overview \<Rightarrow> take 2000 (fr_text r) | FullText \<Rightarrow> fr_text r))"

definition listLive :: "(string \<Rightarrow> string) \<Rightarrow> memory_db \<Rightarrow> memory_error + fact_row list" where
  "listLive H db = checked H db (\<lambda>db. Inr (sort_key (\<lambda>r. (fr_validAt r, fr_id r)) (filter (live_row db) (db_facts db))))"


section \<open>Byte-stable serialisation\<close>

type_synonym index_fact = "string \<times> string \<times> string"

definition index_line :: "index_fact \<Rightarrow> string" where
  "index_line f = (case f of (key, validAt, text) \<Rightarrow>
     ''- '' @ take 12 key @ '' '' @ validAt @ '' '' @ trimEnd (rx_replace_all (rx_plus rx_sp) (\<lambda>_. '' '') text))"

definition strip_newlines :: "string \<Rightarrow> string" where
  "strip_newlines s = rev (dropWhile (\<lambda>c. c = CHR 0x0A) (rev s))"

definition serializeFactIndex :: "index_fact list \<Rightarrow> string" where
  "serializeFactIndex facts =
     strip_newlines (js_join [CHR 0x0A] ([''# Memory index'', []] @ map index_line (sort facts))) @ [CHR 0x0A]"

definition serializeMemoryIndex :: "memory_db \<Rightarrow> string" where
  "serializeMemoryIndex db =
     serializeFactIndex (map (\<lambda>r. (fr_key r, fr_validAt r, fr_text r)) (filter (live_row db) (db_facts db)))"

section \<open>Read paths filter at read time\<close>

lemma checked_Inr: "checked H db f = Inr x \<longleftrightarrow> verifyForgetChain H db = None \<and> f db = Inr x"
  by (auto simp: checked_def split: option.splits)

lemma search_hit:
  assumes "search H rank q limit db = Inr hits" and "h \<in> set hits"
  obtains n where "n < length (db_facts db)" "live_row db (db_facts db ! n)"
    "rh_id h = fr_id (db_facts db ! n)" "rh_factKey h = fr_key (db_facts db ! n)" "rh_text h = fr_text (db_facts db ! n)"
  using assms by (auto simp: search_def checked_Inr Let_def split: if_splits dest!: in_set_takeD)

lemma load_live:
  assumes "load_fact H i step db = Inr t"
  obtains n r where "findById db i = Some (n, r)" "live_row db r"
  using assms by (auto simp: load_fact_def checked_Inr live_row_def split: option.splits if_splits)

lemma find_row_SomeD: "find_row n i rs = Some (m, r) \<Longrightarrow> n \<le> m \<and> m - n < length rs \<and> rs ! (m - n) = r \<and> fr_id r = i"
proof (induction rs arbitrary: n)
  case (Cons x xs)
  show ?case
  proof (cases "fr_id x = i")
    case False
    with Cons have "Suc n \<le> m \<and> m - Suc n < length xs \<and> xs ! (m - Suc n) = r \<and> fr_id r = i" by simp
    moreover have "m - n = Suc (m - Suc n)" using calculation by arith
    ultimately show ?thesis by simp
  qed (use Cons.prems in auto)
qed simp

lemma findById_SomeD: "findById db i = Some (n, r) \<Longrightarrow> n < length (db_facts db) \<and> db_facts db ! n = r \<and> fr_id r = i"
  using find_row_SomeD [of 0] by (auto simp: findById_def)


section \<open>The forget-list only grows\<close>

lemma invalidate_dnr [simp]: "db_dnr (invalidate ts h n db) = db_dnr db"
  by (simp add: invalidate_def)

lemma invalidate_live_dnr [simp]: "db_dnr (invalidate_live ts key n rs db) = db_dnr db"
  by (induction rs arbitrary: n db) auto

lemma insertFact_dnr: "insertFact i ts text fk s db = Some db' \<Longrightarrow> db_dnr db' = db_dnr db"
  by (auto simp: insertFact_def split: if_splits)

lemma appendForgetRow_dnr:
  "\<exists>r. db_dnr (appendForgetRow H ts key tokens reason human db) = db_dnr db @ [r] \<and> dr_key r = key \<and>
     dnr_link H (dnr_tip (db_dnr db)) r"
  by (auto simp: appendForgetRow_def Let_def dnr_link_def row_text_def)

lemma forget_row_dnr:
  "db_dnr (forget_row env n r reason human db) = db_dnr db \<and> \<not> human \<or>
   (\<exists>x. human \<and> db_dnr (forget_row env n r reason human db) = db_dnr db @ [x] \<and> dr_key x = fr_key r \<and>
      dnr_link (fk_H (we_fk env)) (dnr_tip (db_dnr db)) x)"
proof (cases human)
  case True
  then show ?thesis
    using appendForgetRow_dnr [of "fk_H (we_fk env)" "we_ts env" "fr_key r" "js_split (fr_keyTokens r) ''|''" reason True
      "invalidate (we_ts env) human n db"]
    unfolding forget_row_def Let_def by simp
qed (simp add: forget_row_def)

lemma guarded_cases:
  assumes "guarded env db text k = Some (db', res)"
  obtains "db' = db" "\<exists>key. res = Blocked key" | "db' = db" "res = RoutedToReview"
  | "k (deriveDeterministicMemoryFactKey (we_fk env) text) = Some (db', res)"
    "guardCheck db (deriveDeterministicMemoryFactKey (we_fk env) text) = GuardPass"
proof (cases "guardCheck db (deriveDeterministicMemoryFactKey (we_fk env) text)")
  case GuardBlock
  with assms show ?thesis by (intro that(1)) (auto simp: guarded_def Let_def)
next
  case GuardReview
  with assms show ?thesis by (intro that(2)) (auto simp: guarded_def Let_def)
next
  case GuardPass
  with assms show ?thesis by (intro that(3)) (auto simp: guarded_def Let_def)
qed

datatype memory_event =
    EvCommit write_env memory_op
  | EvForget write_env string string bool
  | EvReindex reindex_scope

fun memory_step :: "memory_db \<Rightarrow> memory_event \<Rightarrow> memory_db" where
  "memory_step db (EvCommit env mop) = fst (commit env mop db)"
| "memory_step db (EvForget env i reason human) = fst (forget env i reason human db)"
| "memory_step db (EvReindex scope) = reindex scope db"

fun event_digest :: "memory_event \<Rightarrow> (string \<Rightarrow> string) option" where
  "event_digest (EvCommit env mop) = Some (fk_H (we_fk env))"
| "event_digest (EvForget env i reason human) = Some (fk_H (we_fk env))"
| "event_digest (EvReindex scope) = None"

lemma reindex_one_tables: "db_facts (reindex_one db i) = db_facts db \<and> db_dnr (reindex_one db i) = db_dnr db"
  by (auto simp: reindex_one_def Let_def split: option.splits)

lemma reindex_tables: "db_facts (reindex scope db) = db_facts db \<and> db_dnr (reindex scope db) = db_dnr db"
proof -
  have "db_facts (foldl reindex_one db ids) = db_facts db \<and> db_dnr (foldl reindex_one db ids) = db_dnr db" for ids
    by (induction ids arbitrary: db) (auto simp: reindex_one_tables)
  then show ?thesis by (auto simp: reindex_def refreshDerivedIndex_def reindexScoped_def split: reindex_scope.splits)
qed

lemma apply_op_dnr:
  assumes "apply_op env mop db = Some (db', res)"
  shows "db_dnr db' = db_dnr db \<or>
    (\<exists>r. db_dnr db' = db_dnr db @ [r] \<and> dnr_link (fk_H (we_fk env)) (dnr_tip (db_dnr db)) r)"
proof (cases mop)
  case (OpAdd t)
  with assms show ?thesis by (auto elim!: guarded_cases dest!: insertFact_dnr)
next
  case (OpUpdate i t)
  with assms show ?thesis
    by (auto simp: Let_def elim!: guarded_cases dest!: insertFact_dnr split: option.splits if_splits)
next
  case (OpDelete i human reason)
  with assms show ?thesis
    using forget_row_dnr [of env _ _ reason human db] by (auto split: option.splits)
qed (use assms in auto)

lemma memory_step_dnr:
  "db_dnr (memory_step db e) = db_dnr db \<or>
   (\<exists>r H. event_digest e = Some H \<and> db_dnr (memory_step db e) = db_dnr db @ [r] \<and> dnr_link H (dnr_tip (db_dnr db)) r)"
proof (cases e)
  case (EvCommit env mop)
  then show ?thesis
    using apply_op_dnr [of env mop db] by (auto simp: commit_def split: option.splits)
next
  case (EvForget env i reason human)
  then show ?thesis
    using forget_row_dnr [of env _ _ reason human db] by (auto simp: forget_def Let_def split: option.splits)
next
  case (EvReindex scope)
  then show ?thesis by (simp add: reindex_tables)
qed

interpretation forgetting: latch_machine memory_step "\<lambda>db. forgotten db key" for key
proof
  fix db e assume "forgotten db key"
  then show "forgotten (memory_step db e) key"
    using memory_step_dnr [of db e] by (auto simp: forgotten_def)
qed

section \<open>The forget-list as a hash chain\<close>

definition dnr_chain_ok :: "(string \<Rightarrow> string) \<Rightarrow> string \<Rightarrow> dnr_row list \<Rightarrow> bool" where
  "dnr_chain_ok H p rows \<longleftrightarrow> verify_rows H p 1 rows = None"

lemma verify_rows_None: "verify_rows H p n rs = None \<longleftrightarrow> dnr_chain_ok H p rs"
proof -
  have "verify_rows H p n rs = None \<longleftrightarrow> verify_rows H p m rs = None" for m
    by (induction rs arbitrary: p n m) auto
  then show ?thesis by (simp only: dnr_chain_ok_def)
qed

lemma dnr_chain_ok_Nil: "dnr_chain_ok H p []"
  by (simp add: dnr_chain_ok_def)

lemma dnr_chain_ok_Cons: "dnr_chain_ok H p (r # rs) \<longleftrightarrow> dnr_link H p r \<and> dnr_chain_ok H (dr_rowHash r) rs"
  unfolding verify_rows_None [of H p 0, symmetric] by (simp add: verify_rows_None)

lemma verifyForgetChain_None: "verifyForgetChain H db = None \<longleftrightarrow> dnr_chain_ok H GENESIS (db_dnr db)"
  by (simp add: verifyForgetChain_def verify_rows_None)

lemma sep_parts:
  assumes eq: "x @ SEP @ u = y @ SEP @ v" and "\<not> sublist SEP x" and "\<not> sublist SEP y"
  shows "x = y \<and> u = v"
proof -
  have aux: "length b \<le> length a"
    if e: "a @ SEP @ s = b @ SEP @ t" and nb: "\<not> sublist SEP b" for a b s t
  proof (rule ccontr)
    assume l: "\<not> length b \<le> length a"
    then obtain z where z: "b = a @ z" "z \<noteq> []"
      using e by (metis append_eq_append_conv2 append_Nil2 linorder_not_le length_append nat_le_linear le_add1)
    with e have e': "SEP @ s = z @ SEP @ t" by simp
    consider "length z = 1" | "length z = 2" | "3 \<le> length z" proof -
      have "length z \<noteq> 0" using z(2) by simp
      then show ?thesis using that by linarith
    qed
    then show False
    proof cases
      case 1
      with e' show False by (auto simp: SEP_def length_Suc_conv)
    next
      case 2
      with e' show False by (auto simp: SEP_def length_Suc_conv numeral_2_eq_2)
    next
      case 3
      then have "SEP = take 3 z"
        using arg_cong [OF e', of "take 3"] by (simp add: SEP_def)
      then have "sublist SEP z" by (metis sublist_take)
      with z nb show False by (simp add: sublist_append)
    qed
  qed
  have "length x = length y" using aux [OF eq assms(3)] aux [OF eq [symmetric] assms(2)] by simp
  with eq show ?thesis by simp
qed

definition row_clean :: "dnr_row \<Rightarrow> bool" where
  "row_clean r \<longleftrightarrow> list_all (\<lambda>x. \<not> str_includes x SEP)
     [dr_prevHash r, dr_key r, dr_keyTokens r, dr_reason r, dr_ts r]"

definition row_body :: "dnr_row \<Rightarrow> string \<times> string \<times> string \<times> string" where
  "row_body r = (dr_key r, dr_keyTokens r, dr_reason r, dr_ts r)"

interpretation forget_chain: tamper_evident_chain "dnr_chain_ok H" "dnr_link H" dr_rowHash
  H "\<lambda>r. row_text (dr_prevHash r) r" row_body row_clean for H
proof unfold_locales
  show "dnr_chain_ok H p []" for p by (rule dnr_chain_ok_Nil)
  show "dnr_chain_ok H p (e # es) \<longleftrightarrow> dnr_link H p e \<and> dnr_chain_ok H (dr_rowHash e) es" for p e es
    by (rule dnr_chain_ok_Cons)
  show "dr_rowHash e = H (row_text (dr_prevHash e) e)" if "dnr_link H p e" for p e
    using that by (simp add: dnr_link_def)
  show "p = q \<and> row_body e = row_body f"
    if "dnr_link H p e" "dnr_link H q f" "row_clean e" "row_clean f"
      "row_text (dr_prevHash e) e = row_text (dr_prevHash f) f" for p q e f
  proof -
    have c: "\<not> sublist SEP x" if "x \<in> {dr_prevHash e, dr_key e, dr_keyTokens e, dr_prevHash f, dr_key f, dr_keyTokens f,
        dr_reason e, dr_reason f}" for x
      using that \<open>row_clean e\<close> \<open>row_clean f\<close> by (auto simp: row_clean_def str_includes_iff)
    have "dr_prevHash e @ SEP @ dr_key e @ SEP @ dr_keyTokens e @ SEP @ dr_reason e @ SEP @ dr_ts e =
        dr_prevHash f @ SEP @ dr_key f @ SEP @ dr_keyTokens f @ SEP @ dr_reason f @ SEP @ dr_ts f"
      using that(5) by (simp add: row_text_def)
    then have "dr_prevHash e = dr_prevHash f \<and> dr_key e = dr_key f \<and> dr_keyTokens e = dr_keyTokens f \<and>
        dr_reason e = dr_reason f \<and> dr_ts e = dr_ts f"
      using sep_parts c by (metis insertCI)
    with that(1,2) show ?thesis by (simp add: dnr_link_def row_body_def)
  qed
qed

lemma chain_tip_dnr: "forget_chain.tip GENESIS rows = dnr_tip rows"
  by (simp add: forget_chain.tip_def dnr_tip_def)

lemma memory_step_chain:
  assumes "verifyForgetChain H db = None" and "event_digest e \<in> {None, Some H}"
  shows "verifyForgetChain H (memory_step db e) = None"
  using memory_step_dnr [of db e]
proof
  assume "db_dnr (memory_step db e) = db_dnr db"
  with assms show ?thesis by (simp add: verifyForgetChain_def)
next
  assume "\<exists>r H'. event_digest e = Some H' \<and> db_dnr (memory_step db e) = db_dnr db @ [r] \<and>
    dnr_link H' (dnr_tip (db_dnr db)) r"
  then obtain r where "db_dnr (memory_step db e) = db_dnr db @ [r]" "dnr_link H (dnr_tip (db_dnr db)) r"
    using assms(2) by auto
  with assms(1) show ?thesis
    by (simp add: verifyForgetChain_None forget_chain.chain_ok_snoc chain_tip_dnr)
qed

lemma memory_run_chain:
  "verifyForgetChain H db = None \<Longrightarrow> \<forall>e \<in> set es. event_digest e \<in> {None, Some H} \<Longrightarrow>
     verifyForgetChain H (foldl memory_step db es) = None"
proof (induction es arbitrary: db)
  case (Cons e es)
  then show ?case using memory_step_chain [of H db e] by simp
qed simp

section \<open>Rows and their index entries\<close>

definition row_key_live :: "string \<Rightarrow> fact_row \<Rightarrow> bool" where
  "row_key_live key r \<longleftrightarrow> fr_key r = key \<and> fr_invalidAt r = None"

definition retire :: "string \<Rightarrow> bool \<Rightarrow> fact_row \<Rightarrow> fact_row" where
  "retire ts human r = r\<lparr>fr_invalidAt := Some ts, fr_human := human\<rparr>"

lemma retire_simps [simp]:
  "fr_id (retire ts h r) = fr_id r" "fr_key (retire ts h r) = fr_key r" "fr_text (retire ts h r) = fr_text r"
  "fr_invalidAt (retire ts h r) = Some ts"
  by (simp_all add: retire_def)

lemma invalidate_facts: "db_facts (invalidate ts h n db) = (db_facts db)[n := retire ts h (db_facts db ! n)]"
  by (simp add: invalidate_def retire_def)

lemma invalidate_fts: "db_fts (invalidate ts h n db) = filter (\<lambda>(m, t). m \<noteq> n) (db_fts db)"
  by (simp add: invalidate_def)

text \<open>The whole sweep of an ADD, on the rows from position \<open>n\<close> on.\<close>

lemma invalidate_live_facts:
  "drop n (db_facts db) = rs \<Longrightarrow> db_facts (invalidate_live ts key n rs db) =
     take n (db_facts db) @ map (\<lambda>r. if row_key_live key r then retire ts False r else r) rs"
proof (induction rs arbitrary: n db)
  case Nil
  then show ?case by simp
next
  case (Cons r rs)
  let ?hit = "fr_key r = key \<and> fr_invalidAt r = None"
  let ?db1 = "if ?hit then invalidate ts False n db else db"
  have l: "n < length (db_facts db)" and r: "db_facts db ! n = r"
    using Cons.prems by (metis drop_all linorder_not_le list.distinct(1), metis nth_via_drop)
  have f1: "db_facts ?db1 = (db_facts db)[n := (if row_key_live key r then retire ts False r else r)]"
    using r by (auto simp: invalidate_facts row_key_live_def)
  have "drop (Suc n) (db_facts ?db1) = rs"
    using Cons.prems unfolding f1 by (metis drop_Suc list.sel(3) tl_drop drop_update_cancel lessI)
  from Cons.IH [OF this] show ?case
    using l unfolding f1 by (simp add: row_key_live_def take_Suc_conv_app_nth)
qed

lemma invalidate_live_fts:
  "(m, t) \<in> set (db_fts (invalidate_live ts key n rs db)) \<longleftrightarrow>
     (m, t) \<in> set (db_fts db) \<and> \<not> (n \<le> m \<and> m < n + length rs \<and> row_key_live key (rs ! (m - n)))"
proof (induction rs arbitrary: n db)
  case (Cons r rs)
  have "m - n = Suc (m - Suc n)" if "Suc n \<le> m" using that by arith
  then show ?case
    by (auto simp: Cons.IH invalidate_fts row_key_live_def Suc_le_eq le_less)
qed simp

text \<open>An index entry carries the text of a row that is not invalidated, and every live row has its entry.\<close>

definition memory_wf :: "memory_db \<Rightarrow> bool" where
  "memory_wf db \<longleftrightarrow> distinct (map fr_id (db_facts db)) \<and>
     (\<forall>(n, t) \<in> set (db_fts db). n < length (db_facts db) \<and> t = fr_text (db_facts db ! n) \<and> fr_invalidAt (db_facts db ! n) = None) \<and>
     (\<forall>n < length (db_facts db). live_row db (db_facts db ! n) \<longrightarrow> (n, fr_text (db_facts db ! n)) \<in> set (db_fts db))"

lemma memory_wfD:
  assumes "memory_wf db"
  shows "distinct (map fr_id (db_facts db))"
    and "(n, t) \<in> set (db_fts db) \<Longrightarrow> n < length (db_facts db) \<and> t = fr_text (db_facts db ! n) \<and> fr_invalidAt (db_facts db ! n) = None"
    and "n < length (db_facts db) \<Longrightarrow> live_row db (db_facts db ! n) \<Longrightarrow> (n, fr_text (db_facts db ! n)) \<in> set (db_fts db)"
  using assms unfolding memory_wf_def by auto

lemma live_row_cong: "db_dnr db = db_dnr db' \<Longrightarrow> live_row db = live_row db'"
  by (auto simp: live_row_def forgotten_def fun_eq_iff)

lemma live_index_iff:
  "(n, t) \<in> set (live_index db) \<longleftrightarrow> n < length (db_facts db) \<and> live_row db (db_facts db ! n) \<and> t = fr_text (db_facts db ! n)"
  by (force simp: live_index_def in_set_enumerate_eq image_iff)

lemma memory_wf_index:
  assumes "memory_wf db"
  shows "(n, t) \<in> set (live_index db) \<longleftrightarrow> (n, t) \<in> set (db_fts db) \<and> live_row db (db_facts db ! n)"
  using memory_wfD [OF assms] by (auto simp: live_index_iff)

lemma empty_wf: "memory_wf empty_db"
  by (simp add: memory_wf_def empty_db_def)

lemma invalidate_wf:
  assumes wf: "memory_wf db" and n: "n < length (db_facts db)"
  shows "memory_wf (invalidate ts h n db)"
proof -
  note d = memory_wfD [OF wf]
  have lr: "live_row (invalidate ts h n db) = live_row db" by (rule live_row_cong) simp
  have "map fr_id (db_facts (invalidate ts h n db)) = map fr_id (db_facts db)"
    using n by (simp add: invalidate_facts map_update) (metis list_update_id nth_map)
  moreover have "\<not> live_row db (retire ts h (db_facts db ! n))" by (simp add: live_row_def)
  ultimately show ?thesis
    using d n unfolding memory_wf_def lr
    by (auto simp: invalidate_facts invalidate_fts nth_list_update)
qed

lemma insertFact_wf:
  assumes wf: "memory_wf db" and i: "insertFact newId ts t fk s db = Some db'"
  shows "memory_wf db'"
proof -
  note d = memory_wfD [OF wf]
  have fresh: "newId \<notin> set (map fr_id (db_facts db))" using i by (auto simp: insertFact_def split: if_splits)
  obtain r where r: "db_facts db' = db_facts db @ [r]" "fr_text r = t" "fr_id r = newId" "fr_invalidAt r = None"
    "db_fts db' = db_fts db @ [(length (db_facts db), t)]"
    using i fresh by (auto simp: insertFact_def)
  have lr: "live_row db' = live_row db" using live_row_cong insertFact_dnr [OF i] by blast
  show ?thesis
    using d fresh unfolding memory_wf_def lr r(1,5)
    by (auto simp: nth_append less_Suc_eq r)
qed

lemma appendForgetRow_wf:
  assumes wf: "memory_wf db"
  shows "memory_wf (appendForgetRow H ts key tokens reason h db)"
proof -
  let ?db = "appendForgetRow H ts key tokens reason h db"
  have t: "db_facts ?db = db_facts db" "db_fts ?db = db_fts db" by (simp_all add: appendForgetRow_def Let_def)
  have "live_row ?db r \<Longrightarrow> live_row db r" for r
    using appendForgetRow_dnr [of H ts key tokens reason h db] by (auto simp: live_row_def forgotten_def)
  with memory_wfD [OF wf] show ?thesis unfolding memory_wf_def t by blast
qed

lemma forget_row_wf: "memory_wf db \<Longrightarrow> n < length (db_facts db) \<Longrightarrow> memory_wf (forget_row env n r reason human db)"
  by (simp add: forget_row_def Let_def invalidate_wf appendForgetRow_wf)

lemma invalidate_live_wf:
  "memory_wf db \<Longrightarrow> n + length rs \<le> length (db_facts db) \<Longrightarrow> memory_wf (invalidate_live ts key n rs db)"
proof (induction rs arbitrary: n db)
  case (Cons r rs)
  have "length (db_facts (invalidate ts False n db)) = length (db_facts db)" by (simp add: invalidate_facts)
  moreover have "memory_wf (invalidate ts False n db)" using Cons.prems by (intro invalidate_wf) auto
  ultimately show ?case using Cons by simp
qed simp

lemma refreshDerivedIndex_wf: "memory_wf db \<Longrightarrow> memory_wf (refreshDerivedIndex db)"
proof -
  assume wf: "memory_wf db"
  have lr: "live_row (refreshDerivedIndex db) = live_row db"
    by (rule live_row_cong) (simp add: refreshDerivedIndex_def)
  have t: "db_facts (refreshDerivedIndex db) = db_facts db" "db_fts (refreshDerivedIndex db) = live_index db"
    by (simp_all add: refreshDerivedIndex_def)
  have "live_row db r \<Longrightarrow> fr_invalidAt r = None" for r by (simp add: live_row_def)
  then show ?thesis
    unfolding memory_wf_def lr t using memory_wfD(1) [OF wf] by (auto simp: live_index_iff)
qed

lemma reindex_one_wf: "memory_wf db \<Longrightarrow> memory_wf (reindex_one db i)"
proof (cases "findById db i")
  case (Some p)
  then obtain n r where f: "findById db i = Some (n, r)" by (cases p) auto
  note fd = findById_SomeD [OF f]
  assume wf: "memory_wf db"
  have lr: "live_row (reindex_one db i) = live_row db"
    by (rule live_row_cong) (simp add: reindex_one_tables)
  have t: "db_facts (reindex_one db i) = db_facts db" by (simp add: reindex_one_tables)
  have ft: "db_fts (reindex_one db i) =
      filter (\<lambda>(m, t). m \<noteq> n) (db_fts db) @ (if live_row db r then [(n, fr_text r)] else [])"
    by (simp add: reindex_one_def f Let_def)
  have "live_row db r \<Longrightarrow> fr_invalidAt r = None" by (simp add: live_row_def)
  then show ?thesis
    using memory_wfD [OF wf] fd unfolding memory_wf_def lr t ft by auto
qed (simp add: reindex_one_def)

lemma reindex_wf: "memory_wf db \<Longrightarrow> memory_wf (reindex scope db)"
proof -
  have "memory_wf db \<Longrightarrow> memory_wf (foldl reindex_one db ids)" for ids
    by (induction ids arbitrary: db) (auto simp: reindex_one_wf)
  then show "memory_wf db \<Longrightarrow> memory_wf (reindex scope db)"
    by (simp add: reindex_def reindexScoped_def refreshDerivedIndex_wf split: reindex_scope.split)
qed

lemma apply_op_wf:
  assumes wf: "memory_wf db" and a: "apply_op env mop db = Some (db', res)"
  shows "memory_wf db'"
proof (cases mop)
  case (OpAdd t)
  let ?fk = "deriveDeterministicMemoryFactKey (we_fk env) t"
  have "memory_wf (invalidate_live (we_ts env) (fi_factKey ?fk) 0 (db_facts db) db)"
    by (rule invalidate_live_wf [OF wf]) simp
  with a wf OpAdd show ?thesis by (auto elim!: guarded_cases dest: insertFact_wf)
next
  case (OpUpdate i t)
  have "memory_wf (invalidate (we_ts env) False n db)" if "findById db i = Some (n, r)" for n r
    using findById_SomeD [OF that] by (intro invalidate_wf [OF wf]) simp
  with a wf OpUpdate show ?thesis
    by (auto simp: Let_def elim!: guarded_cases dest: insertFact_wf split: option.splits if_splits)
next
  case (OpDelete i human reason)
  with a wf show ?thesis
    by (auto split: option.splits dest: findById_SomeD intro: forget_row_wf)
qed (use a wf in simp)

lemma memory_step_wf: "memory_wf db \<Longrightarrow> memory_wf (memory_step db e)"
proof (cases e)
  case (EvCommit env mop)
  assume "memory_wf db"
  with EvCommit show ?thesis by (auto simp: commit_def split: option.splits dest: apply_op_wf)
next
  case (EvForget env i reason human)
  assume "memory_wf db"
  with EvForget show ?thesis
    by (auto simp: forget_def Let_def split: option.splits dest: findById_SomeD intro: forget_row_wf)
next
  case (EvReindex scope)
  assume "memory_wf db"
  with EvReindex show ?thesis by (simp add: reindex_wf)
qed

interpretation memory: invariant_machine memory_step memory_wf
  by unfold_locales (rule memory_step_wf)


section \<open>The guard and the sweep\<close>

lemma forgotten_blocks:
  assumes "forgotten db (fi_factKey (deriveDeterministicMemoryFactKey (we_fk env) t))"
  shows "apply_op env (OpAdd t) db = Some (db, Blocked (fi_factKey (deriveDeterministicMemoryFactKey (we_fk env) t)))"
    and "apply_op env (OpUpdate i t) db = Some (db, Blocked (fi_factKey (deriveDeterministicMemoryFactKey (we_fk env) t)))"
  using assms by (simp_all add: guarded_def Let_def guardCheck_def)

lemma retired_not_live: "filter (row_key_live key) (map (\<lambda>r. if row_key_live key r then retire ts h r else r) rs) = []"
  by (induction rs) (auto simp: row_key_live_def)

lemma add_sweeps:
  assumes "apply_op env (OpAdd t) db = Some (db', Committed i)"
  shows "\<exists>r. filter (row_key_live (fi_factKey (deriveDeterministicMemoryFactKey (we_fk env) t))) (db_facts db') = [r] \<and>
    fr_id r = we_newId env \<and> fr_text r = t"
proof -
  let ?fk = "deriveDeterministicMemoryFactKey (we_fk env) t"
  let ?swept = "invalidate_live (we_ts env) (fi_factKey ?fk) 0 (db_facts db) db"
  have swept: "filter (row_key_live (fi_factKey ?fk)) (db_facts ?swept) = []"
    using invalidate_live_facts [of 0 db "db_facts db"] retired_not_live by simp
  have "insertFact (we_newId env) (we_ts env) t ?fk None ?swept = Some db'"
    using assms by (auto elim!: guarded_cases)
  then obtain r where "db_facts db' = db_facts ?swept @ [r]" "fr_id r = we_newId env" "fr_text r = t"
    "fr_key r = fi_factKey ?fk" "fr_invalidAt r = None"
    by (auto simp: insertFact_def split: if_splits)
  with swept show ?thesis by (simp add: row_key_live_def)
qed

lemma serialise_permutation:
  assumes "mset xs = mset ys"
  shows "serializeFactIndex xs = serializeFactIndex ys"
proof -
  have "sort xs = sort ys" by (rule properties_for_sort) (simp_all add: assms)
  then show ?thesis by (simp add: serializeFactIndex_def)
qed

section \<open>Properties of the memory store\<close>

text \<open>
  C30: once a key is on the forget-list, no sequence of commits, forgets and reindexes takes it off, and
  every later attempt to add or update a fact with that key is blocked and leaves the database as it was.
\<close>

theorem forgotten_stays_forgotten:
  assumes "forgotten db (fi_factKey (deriveDeterministicMemoryFactKey (we_fk env) t))" and "we_emitOk env"
  shows "(let db' = foldl memory_step db evs; key = fi_factKey (deriveDeterministicMemoryFactKey (we_fk env) t)
    in commit env (OpAdd t) db' = (db', Inr (Blocked key)) \<and> commit env (OpUpdate i t) db' = (db', Inr (Blocked key)))"
  using forgotten_blocks [OF forgetting.latch_run [OF assms(1)]] assms(2)
  by (simp add: Let_def commit_def)

definition demo_fk :: fact_key_env where
  "demo_fk = \<lparr>fk_H = (\<lambda>s. ''h:'' @ s), fk_split = (\<lambda>s. js_split s '' ''), fk_lettered = (\<lambda>t. t \<noteq> []), fk_stop = []\<rparr>"

definition demo_write :: "string \<Rightarrow> write_env" where
  "demo_write i = \<lparr>we_fk = demo_fk, we_ts = ''t'', we_newId = i, we_emitOk = True\<rparr>"

definition demo_forgotten :: memory_db where
  "demo_forgotten = foldl memory_step empty_db
     [EvCommit (demo_write ''f1'') (OpAdd ''cats''), EvForget (demo_write ''f2'') ''f1'' ''private'' True]"

theorem forgotten_stays_forgotten_witness:
  "(let db' = foldl memory_step demo_forgotten [EvReindex ReindexAll];
        key = fi_factKey (deriveDeterministicMemoryFactKey (we_fk (demo_write ''f3'')) ''cats'')
    in commit (demo_write ''f3'') (OpAdd ''cats'') db' = (db', Inr (Blocked key)) \<and>
       commit (demo_write ''f3'') (OpUpdate ''f1'' ''cats'') db' = (db', Inr (Blocked key)))"
proof (rule forgotten_stays_forgotten)
  show "forgotten demo_forgotten (fi_factKey (deriveDeterministicMemoryFactKey (we_fk (demo_write ''f3'')) ''cats''))" by code_simp
qed (simp add: demo_write_def)




text \<open>
  C32: in every database built by the operations, identifiers are unique and the entries of the
  incremental full-text index that pass the read filter are exactly the entries a full rebuild makes.
\<close>

theorem index_refines_rebuild:
  "distinct (map fr_id (db_facts (foldl memory_step empty_db evs))) \<and>
   set (filter (\<lambda>(n, t). live_row (foldl memory_step empty_db evs) (db_facts (foldl memory_step empty_db evs) ! n))
       (db_fts (foldl memory_step empty_db evs))) =
   set (db_fts (refreshDerivedIndex (foldl memory_step empty_db evs)))"
proof -
  have wf: "memory_wf (foldl memory_step empty_db evs)" by (rule memory.inv_run) (rule empty_wf)
  then show ?thesis
    using memory_wf_index [OF wf] memory_wfD(1) [OF wf] by (auto simp: refreshDerivedIndex_def)
qed

text \<open>
  After a successful ADD exactly one row of its key is not tombstoned: the new one, with the new
  text and identifier. A write whose event the journal refuses leaves the database as it was.
\<close>

theorem add_supersedes:
  "(case commit env (OpAdd t) db of
      (db', Inr (Committed i)) \<Rightarrow>
        map (\<lambda>r. (fr_id r, fr_text r)) (filter (row_key_live (fi_factKey (deriveDeterministicMemoryFactKey (we_fk env) t))) (db_facts db'))
          = [(we_newId env, t)]
    | (db', Inl _) \<Rightarrow> db' = db
    | _ \<Rightarrow> fst (commit env (OpAdd t) db) = db)"
proof (cases "apply_op env (OpAdd t) db")
  case None
  then show ?thesis by (simp add: commit_def del: apply_op.simps)
next
  case (Some p)
  obtain db' res where p: "p = (db', res)" by (cases p)
  have other: "db' = db" if "\<And>i. res \<noteq> Committed i"
    using Some that unfolding p by (auto elim!: guarded_cases)
  have sweep: "map (\<lambda>r. (fr_id r, fr_text r)) (filter (row_key_live (fi_factKey (deriveDeterministicMemoryFactKey (we_fk env) t))) (db_facts db'))
      = [(we_newId env, t)]" if "res = Committed i" for i
    using add_sweeps [of env t db db' i] Some that unfolding p by auto
  show ?thesis
    using Some p other sweep by (simp add: commit_def del: apply_op.simps split: commit_result.split)
qed

text \<open>The serialised memory index depends only on which facts it lists, not on their order.\<close>

theorem serialised_index_is_stable:
  assumes "mset xs = mset ys"
  shows "serializeFactIndex xs = serializeFactIndex ys"
  using serialise_permutation [OF assms] .

theorem serialised_index_is_stable_witness:
  "serializeFactIndex [(''k1'', ''t1'', ''x''), (''k2'', ''t2'', ''y'')] = serializeFactIndex [(''k2'', ''t2'', ''y''), (''k1'', ''t1'', ''x'')]"
  by (rule serialised_index_is_stable) simp

end
