(* ===== verification/Delegation_Plan.thy ===== *)
theory Delegation_Plan
  imports Coordinator Hash_Chain
begin

text \<open>
  The goal DAG of a delegation run (\<open>core-ts/src/orchestration/index.ts\<close>, \<open>normalizePlan\<close> and
  \<open>assertValidPlan\<close>): a linear plan becomes a chain of tasks, and a plan is accepted only when its
  identifiers, dependencies and edges agree and Kahn's algorithm visits every task.

  A dictionary is an association list in insertion order. The stack of ready tasks is a list whose last
  element is the top, as the array of the source.
\<close>

section \<open>Plans\<close>

record delegation_scope =
  sc_owns :: "string list"
  sc_doNotTouch :: "string list"
  sc_taskClass :: task_class

record delegation_task =
  dt_taskId :: string
  dt_intent :: string
  dt_assignedTo :: "string option"
  dt_dependsOn :: "string list"
  dt_scope :: delegation_scope
  dt_budgetSlice :: budget_slice
  dt_outputContract :: string
  dt_maxReplans :: nat
  dt_maxIterations :: nat

record dependency =
  dp_from :: string
  dp_to :: string

record plan_dag =
  pl_nodes :: "delegation_task list"
  pl_edges :: "dependency list"

text \<open>A plan of the core loop is a list of steps, of which only the optional intent matters here.\<close>

datatype plan_input = LinearPlan "string option list" | DagPlan plan_dag

datatype plan_error = InvalidPlan

definition MAX_PLAN_TASKS :: nat where "MAX_PLAN_TASKS = 256"
definition MAX_PLAN_EDGES :: nat where "MAX_PLAN_EDGES = 2048"
definition MAX_TASK_DEPENDENCIES :: nat where "MAX_TASK_DEPENDENCIES = 64"

definition step_id :: "nat \<Rightarrow> string" where
  "step_id i = ''s'' @ digits_of i"

definition step_task :: "nat \<Rightarrow> string option \<Rightarrow> delegation_task" where
  "step_task i intent =
     \<lparr>dt_taskId = step_id (i + 1), dt_intent = (case intent of None \<Rightarrow> [] | Some t \<Rightarrow> t), dt_assignedTo = None,
      dt_dependsOn = (if i > 0 then [step_id i] else []),
      dt_scope = \<lparr>sc_owns = [], sc_doNotTouch = [], sc_taskClass = TcReasoning\<rparr>,
      dt_budgetSlice = \<lparr>bs_iterations = DEFAULT_WORKER_ITERATIONS, bs_spendUsd = DEFAULT_WORKER_SPEND_USD\<rparr>,
      dt_outputContract = [], dt_maxReplans = 0, dt_maxIterations = DEFAULT_WORKER_ITERATIONS\<rparr>"

definition normalizePlan :: "plan_input \<Rightarrow> plan_dag" where
  "normalizePlan plan =
     (case plan of
        DagPlan p \<Rightarrow> p
      | LinearPlan steps \<Rightarrow>
          (let nodes = map (\<lambda>(i, intent). step_task i intent) (enumerate 0 steps);
               edges = map (\<lambda>(i, n). \<lparr>dp_from = step_id (i + 1), dp_to = dt_taskId n\<rparr>) (enumerate 0 (tl nodes))
           in \<lparr>pl_nodes = nodes, pl_edges = edges\<rparr>))"

section \<open>Validation\<close>

definition edge_key :: "string \<Rightarrow> string \<Rightarrow> string" where
  "edge_key a b = a @ [CHR 0x00] @ b"

definition task_deps_ok :: "string list \<Rightarrow> delegation_task \<Rightarrow> bool" where
  "task_deps_ok ids t \<longleftrightarrow>
     \<not> (length (dt_dependsOn t) > MAX_TASK_DEPENDENCIES \<or>
        length (dedup (dt_dependsOn t)) \<noteq> length (dt_dependsOn t) \<or>
        list_ex (\<lambda>d. d = dt_taskId t \<or> d \<notin> set ids) (dt_dependsOn t))"

definition expected_edges :: "delegation_task list \<Rightarrow> string list" where
  "expected_edges nodes = dedup (concat (map (\<lambda>t. map (\<lambda>d. edge_key d (dt_taskId t)) (dt_dependsOn t)) nodes))"

definition edges_ok :: "string list \<Rightarrow> string list \<Rightarrow> dependency list \<Rightarrow> bool" where
  "edges_ok ids expected edges \<longleftrightarrow>
     list_all (\<lambda>e. dp_from e \<in> set ids \<and> dp_to e \<in> set ids \<and> dp_from e \<noteq> dp_to e) edges \<and>
     (let actual = dedup (map (\<lambda>e. edge_key (dp_from e) (dp_to e)) edges)
      in \<not> (length actual \<noteq> length edges \<or> length actual \<noteq> length expected \<or> list_ex (\<lambda>e. e \<notin> set expected) actual))"

definition get_or :: "'v \<Rightarrow> ('k, 'v) jsmap \<Rightarrow> 'k \<Rightarrow> 'v" where
  "get_or d m k = (case map_of m k of None \<Rightarrow> d | Some v \<Rightarrow> v)"

definition add_dependent :: "string \<Rightarrow> (string, string list) jsmap \<Rightarrow> string \<Rightarrow> (string, string list) jsmap" where
  "add_dependent taskId m d = AList.update d (get_or [] m d @ [taskId]) m"

definition dependents_of :: "delegation_task list \<Rightarrow> (string, string list) jsmap" where
  "dependents_of nodes = foldl (\<lambda>m t. foldl (add_dependent (dt_taskId t)) m (dt_dependsOn t)) [] nodes"

definition initial_remaining :: "delegation_task list \<Rightarrow> (string, int) jsmap" where
  "initial_remaining nodes = foldl (\<lambda>m t. AList.update (dt_taskId t) (int (length (dt_dependsOn t))) m) [] nodes"

text \<open>One pass of the inner loop: every dependent loses one open dependency and is pushed when none is left.\<close>

fun relax :: "string list \<Rightarrow> (string, int) jsmap \<Rightarrow> string list \<Rightarrow> (string, int) jsmap \<times> string list" where
  "relax [] remaining ready = (remaining, ready)"
| "relax (d # ds) remaining ready =
     (let n = get_or 0 remaining d - 1
      in relax ds (AList.update d n remaining) (if n = 0 then ready @ [d] else ready))"

definition open_count :: "(string, int) jsmap \<Rightarrow> nat" where
  "open_count m = length (filter (\<lambda>kv. 0 < snd kv) m)"

lemma open_count_update:
  "open_count (AList.update k n m) + (if 0 < get_or 0 m k then 1 else 0) = open_count m + (if 0 < n then 1 else 0)"
  by (induction m) (auto simp: open_count_def get_or_def split: option.splits if_splits)

lemma relax_measure:
  "relax ds remaining ready = (remaining', ready') \<Longrightarrow>
     length ready' + open_count remaining' = length ready + open_count remaining"
proof (induction ds remaining ready arbitrary: remaining' ready' rule: relax.induct)
  case (2 d ds remaining ready)
  let ?n = "get_or 0 remaining d - 1"
  have "length ready' + open_count remaining' =
      length (if ?n = 0 then ready @ [d] else ready) + open_count (AList.update d ?n remaining)"
    using 2 by (simp add: Let_def)
  then show ?case using open_count_update [of d ?n remaining] by (auto split: if_splits)
qed simp

function kahn :: "(string, string list) jsmap \<Rightarrow> (string, int) jsmap \<Rightarrow> string list \<Rightarrow> nat" where
  "kahn dependents remaining ready =
     (if ready = [] then 0
      else (let (remaining', ready') = relax (get_or [] dependents (last ready)) remaining (butlast ready)
            in Suc (kahn dependents remaining' ready')))"
  by pat_completeness auto
termination
proof (relation "measure (\<lambda>(d, m, r). length r + open_count m)", goal_cases)
  case (2 dependents remaining ready x remaining' ready')
  then have e: "relax (get_or [] dependents (last ready)) remaining (butlast ready) = (remaining', ready')" by simp
  from relax_measure [OF e] 2(1) show ?case by (cases ready) (simp_all add: e)
qed simp

declare kahn.simps [simp del]

definition assertValidPlan :: "plan_dag \<Rightarrow> plan_error + unit" where
  "assertValidPlan plan =
     (let nodes = pl_nodes plan; ids = map dt_taskId nodes in
      if length nodes > MAX_PLAN_TASKS \<or> length (pl_edges plan) > MAX_PLAN_EDGES then Inl InvalidPlan
      else if length (dedup ids) \<noteq> length ids then Inl InvalidPlan
      else if \<not> list_all (task_deps_ok ids) nodes then Inl InvalidPlan
      else if \<not> edges_ok ids (expected_edges nodes) (pl_edges plan) then Inl InvalidPlan
      else
        (let remaining = initial_remaining nodes;
             ready = filter (\<lambda>i. map_of remaining i = Some 0) ids;
             visited = kahn (dependents_of nodes) remaining ready
         in if visited \<noteq> length ids then Inl InvalidPlan else Inr ()))"

section \<open>Kahn's algorithm visits exactly the acyclic plans\<close>

definition dep_rel :: "delegation_task list \<Rightarrow> (string \<times> string) set" where
  "dep_rel nodes = {(d, dt_taskId t) | d t. t \<in> set nodes \<and> d \<in> set (dt_dependsOn t)}"

definition deps_wf :: "delegation_task list \<Rightarrow> bool" where
  "deps_wf nodes \<longleftrightarrow> distinct (map dt_taskId nodes) \<and>
     (\<forall>t \<in> set nodes. distinct (dt_dependsOn t) \<and> set (dt_dependsOn t) \<subseteq> dt_taskId ` set nodes)"

lemma get_or_update [simp]: "get_or d (AList.update k v m) k' = (if k' = k then v else get_or d m k')"
  by (simp add: get_or_def)

lemma get_or_Nil [simp]: "get_or d [] k = d"
  by (simp add: get_or_def)

lemma length_dedup_acc_le: "length (dedup_acc seen xs) \<le> length xs"
proof (induction xs arbitrary: seen)
  case (Cons x xs)
  show ?case using Cons [of seen] Cons [of "x # seen"] by simp
qed simp

lemma length_dedup_acc_iff: "length (dedup_acc seen xs) = length xs \<longleftrightarrow> distinct xs \<and> set xs \<inter> set seen = {}"
proof (induction xs arbitrary: seen)
  case (Cons x xs)
  show ?case
  proof (cases "x \<in> set seen")
    case True
    with length_dedup_acc_le [of seen xs] show ?thesis by simp
  next
    case False
    with Cons [of "x # seen"] show ?thesis by auto
  qed
qed simp

lemma length_dedup_iff [simp]: "length (dedup xs) = length xs \<longleftrightarrow> distinct xs"
  by (simp add: dedup_def length_dedup_acc_iff)

lemma length_dedup_map_iff [simp]: "length (dedup (map f xs)) = length xs \<longleftrightarrow> distinct (map f xs)"
  using length_dedup_iff [of "map f xs"] by simp

lemma add_dependents:
  "distinct ds \<Longrightarrow> get_or [] (foldl (add_dependent x) m ds) d = get_or [] m d @ (if d \<in> set ds then [x] else [])"
  by (induction ds arbitrary: m) (auto simp: add_dependent_def)

lemma dependents_of_eq:
  assumes "\<forall>t \<in> set nodes. distinct (dt_dependsOn t)"
  shows "get_or [] (dependents_of nodes) d = map dt_taskId (filter (\<lambda>t. d \<in> set (dt_dependsOn t)) nodes)"
proof -
  have "get_or [] (foldl (\<lambda>m t. foldl (add_dependent (dt_taskId t)) m (dt_dependsOn t)) m nodes) d =
      get_or [] m d @ map dt_taskId (filter (\<lambda>t. d \<in> set (dt_dependsOn t)) nodes)" for m
    using assms by (induction nodes arbitrary: m) (simp_all add: add_dependents)
  then show ?thesis by (simp add: dependents_of_def)
qed

lemma map_of_fold_update:
  "distinct (map f xs) \<Longrightarrow> map_of (foldl (\<lambda>m x. AList.update (f x) (g x) m) m xs) k =
     (case find (\<lambda>x. f x = k) xs of None \<Rightarrow> map_of m k | Some x \<Rightarrow> Some (g x))"
proof (induction xs arbitrary: m)
  case (Cons x xs)
  have "f x = k \<Longrightarrow> find (\<lambda>y. f y = k) xs = None"
    using Cons.prems unfolding find_None_iff by (metis distinct.simps(2) image_eqI list.set_map list.simps(9))
  with Cons show ?case by (auto split: option.splits)
qed simp

lemma find_key:
  "distinct (map f xs) \<Longrightarrow> x \<in> set xs \<Longrightarrow> find (\<lambda>y. f y = f x) xs = Some x"
  by (induction xs) (auto simp: image_iff)

lemma initial_remaining_eq:
  assumes "distinct (map dt_taskId nodes)" and "t \<in> set nodes"
  shows "map_of (initial_remaining nodes) (dt_taskId t) = Some (int (length (dt_dependsOn t)))"
  using assms by (simp add: initial_remaining_def map_of_fold_update find_key)

lemma relax_eq:
  assumes "relax ds remaining ready = (remaining', ready')" and "distinct ds"
  shows "ready' = ready @ filter (\<lambda>d. get_or 0 remaining d = 1) ds \<and>
    (\<forall>k. get_or 0 remaining' k = get_or 0 remaining k - (if k \<in> set ds then 1 else 0))"
  using assms
proof (induction ds remaining ready arbitrary: remaining' ready' rule: relax.induct)
  case (2 d ds remaining ready)
  let ?m = "AList.update d (get_or 0 remaining d - 1) remaining"
  let ?r = "if get_or 0 remaining d = 1 then ready @ [d] else ready"
  have f: "filter (\<lambda>k. get_or 0 ?m k = 1) ds = filter (\<lambda>k. get_or 0 remaining k = 1) ds"
    using 2(3) by (intro filter_cong) auto
  have "relax ds ?m ?r = (remaining', ready')" using 2(2) by (simp add: Let_def)
  with 2(1) [OF refl, of remaining' ready'] 2(3)
  have "ready' = ?r @ filter (\<lambda>k. get_or 0 ?m k = 1) ds \<and>
      (\<forall>k. get_or 0 remaining' k = get_or 0 ?m k - (if k \<in> set ds then 1 else 0))" by simp
  with 2(3) show ?case unfolding f by auto
qed simp

text \<open>
  The state of the loop after the tasks of \<open>visited\<close> were popped: every counter is the number of
  dependencies still to be visited and the tasks with none are the visited and the ready ones.
\<close>

definition open_deps :: "string list \<Rightarrow> delegation_task \<Rightarrow> string list" where
  "open_deps visited t = filter (\<lambda>d. d \<notin> set visited) (dt_dependsOn t)"

definition kahn_inv :: "delegation_task list \<Rightarrow> string list \<Rightarrow> (string, int) jsmap \<Rightarrow> string list \<Rightarrow> bool" where
  "kahn_inv nodes visited remaining ready \<longleftrightarrow>
     distinct (visited @ ready) \<and> set (visited @ ready) \<subseteq> dt_taskId ` set nodes \<and>
     (\<forall>t \<in> set nodes. get_or 0 remaining (dt_taskId t) = int (length (open_deps visited t)) \<and>
        (dt_taskId t \<in> set (visited @ ready) \<longleftrightarrow> open_deps visited t = [])) \<and>
     (\<forall>t \<in> set nodes. dt_taskId t \<in> set visited \<longrightarrow>
        (\<exists>us vs. visited = us @ dt_taskId t # vs \<and> set (dt_dependsOn t) \<subseteq> set us))"

lemma open_deps_snoc:
  assumes "distinct (dt_dependsOn t)" and "i \<notin> set visited"
  shows "length (open_deps (visited @ [i]) t) + (if i \<in> set (dt_dependsOn t) then 1 else 0) = length (open_deps visited t)"
proof -
  have "distinct ds \<Longrightarrow> length (filter (\<lambda>d. d \<notin> set (visited @ [i])) ds) + (if i \<in> set ds then 1 else 0) =
      length (filter (\<lambda>d. d \<notin> set visited) ds)" for ds
    using assms(2) by (induction ds) auto
  with assms(1) show ?thesis by (simp add: open_deps_def)
qed

lemma task_eqI: "distinct (map dt_taskId nodes) \<Longrightarrow> t \<in> set nodes \<Longrightarrow> u \<in> set nodes \<Longrightarrow> dt_taskId t = dt_taskId u \<Longrightarrow> t = u"
  by (metis distinct_map inj_onD)

lemma kahn_inv_order:
  assumes "kahn_inv nodes visited remaining ready" and "t \<in> set nodes" and "dt_taskId t \<in> set (visited @ [last ready])"
    and "ready \<noteq> []"
  shows "\<exists>us vs. visited @ [last ready] = us @ dt_taskId t # vs \<and> set (dt_dependsOn t) \<subseteq> set us"
proof (cases "dt_taskId t \<in> set visited")
  case True
  with assms obtain us vs where "visited = us @ dt_taskId t # vs" "set (dt_dependsOn t) \<subseteq> set us"
    unfolding kahn_inv_def by blast
  then have "visited @ [last ready] = us @ dt_taskId t # (vs @ [last ready]) \<and> set (dt_dependsOn t) \<subseteq> set us" by simp
  then show ?thesis by blast
next
  case False
  with assms have "dt_taskId t = last ready" by simp
  with assms have "dt_taskId t \<in> set (visited @ ready)" by simp
  with assms have "open_deps visited t = []" unfolding kahn_inv_def by blast
  then have "set (dt_dependsOn t) \<subseteq> set visited" by (auto simp: open_deps_def filter_empty_conv)
  with \<open>dt_taskId t = last ready\<close> show ?thesis by (intro exI [of _ visited] exI [of _ "[]"]) simp
qed

lemma kahn_inv_step:
  assumes wf: "deps_wf nodes" and inv: "kahn_inv nodes visited remaining ready" and ne: "ready \<noteq> []"
    and rel: "relax (get_or [] (dependents_of nodes) (last ready)) remaining (butlast ready) = (remaining', ready')"
  shows "kahn_inv nodes (visited @ [last ready]) remaining' ready'"
proof -
  let ?i = "last ready"
  let ?D = "map dt_taskId (filter (\<lambda>t. ?i \<in> set (dt_dependsOn t)) nodes)"
  have ready: "ready = butlast ready @ [?i]" using ne by simp
  have dist: "distinct (map dt_taskId nodes)" "\<And>t. t \<in> set nodes \<Longrightarrow> distinct (dt_dependsOn t)"
    using wf by (auto simp: deps_wf_def)
  have D: "distinct ?D" using dist(1) by (simp add: distinct_map_filter)
  have inD: "dt_taskId t \<in> set ?D \<longleftrightarrow> ?i \<in> set (dt_dependsOn t)" if "t \<in> set nodes" for t
    using task_eqI [OF dist(1) that] that by force
  have eqs: "ready' = butlast ready @ filter (\<lambda>d. get_or 0 remaining d = 1) ?D"
    "\<And>k. get_or 0 remaining' k = get_or 0 remaining k - (if k \<in> set ?D then 1 else 0)"
    using relax_eq [OF rel] D dist(2) by (simp_all add: dependents_of_eq)
  have old: "distinct (visited @ ready)" "set (visited @ ready) \<subseteq> dt_taskId ` set nodes"
    "\<And>t. t \<in> set nodes \<Longrightarrow> get_or 0 remaining (dt_taskId t) = int (length (open_deps visited t))"
    "\<And>t. t \<in> set nodes \<Longrightarrow> dt_taskId t \<in> set (visited @ ready) \<longleftrightarrow> open_deps visited t = []"
    using inv unfolding kahn_inv_def by blast+
  have i: "?i \<notin> set visited" using old(1) ne by (metis disjoint_iff distinct_append last_in_set)
  have len: "length (open_deps (visited @ [?i]) t) + (if ?i \<in> set (dt_dependsOn t) then 1 else 0) = length (open_deps visited t)"
    if "t \<in> set nodes" for t using open_deps_snoc [OF dist(2) [OF that] i] .
  have mem: "set (visited @ ready) = set (visited @ [?i]) \<union> set (butlast ready)"
    by (subst ready) auto
  have fresh: "d \<notin> set (visited @ ready)" if "d \<in> set ?D" "get_or 0 remaining d = 1" for d
  proof -
    from that(1) obtain t where "t \<in> set nodes" "d = dt_taskId t" by auto
    with that(2) old(3) [of t] old(4) [of t] show ?thesis by auto
  qed
  have "distinct ((visited @ [?i]) @ butlast ready)" using old(1) by (subst (asm) ready) auto
  then have d': "distinct ((visited @ [?i]) @ ready')"
    using fresh D mem unfolding eqs(1) by auto
  have s': "set ((visited @ [?i]) @ ready') \<subseteq> dt_taskId ` set nodes"
    using old(2) mem unfolding eqs(1) by auto
  have m': "get_or 0 remaining' (dt_taskId t) = int (length (open_deps (visited @ [?i]) t)) \<and>
      (dt_taskId t \<in> set ((visited @ [?i]) @ ready') \<longleftrightarrow> open_deps (visited @ [?i]) t = [])" if t: "t \<in> set nodes" for t
  proof -
    have "dt_taskId t \<in> set ((visited @ [?i]) @ ready') \<longleftrightarrow>
        open_deps visited t = [] \<or> ?i \<in> set (dt_dependsOn t) \<and> length (open_deps visited t) = 1"
      using old(3) [OF t] old(4) [OF t] inD [OF t] mem unfolding eqs(1) by auto
    then show ?thesis using len [OF t] inD [OF t] old(3) [OF t] unfolding eqs(2) by auto
  qed
  show ?thesis unfolding kahn_inv_def
    using d' s' m' kahn_inv_order [OF inv _ _ ne] by blast
qed

lemma kahn_visits:
  assumes "deps_wf nodes" and "kahn_inv nodes visited remaining ready"
  shows "\<exists>ws remaining'. kahn (dependents_of nodes) remaining ready = length ws \<and> kahn_inv nodes (visited @ ws) remaining' []"
  using assms(2)
proof (induction "dependents_of nodes" remaining ready arbitrary: visited rule: kahn.induct)
  case (1 remaining ready)
  show ?case
  proof (cases "ready = []")
    case True
    with 1(2) have "kahn_inv nodes (visited @ []) remaining []" by simp
    moreover have "kahn (dependents_of nodes) remaining ready = length []" using True by (simp add: kahn.simps)
    ultimately show ?thesis by blast
  next
    case False
    obtain m r where rel: "relax (get_or [] (dependents_of nodes) (last ready)) remaining (butlast ready) = (m, r)"
      by fastforce
    from kahn_inv_step [OF assms(1) 1(2) False rel] have "kahn_inv nodes (visited @ [last ready]) m r" .
    from 1(1) [OF False rel [symmetric] refl this] obtain ws m' where
      "kahn (dependents_of nodes) m r = length ws" "kahn_inv nodes ((visited @ [last ready]) @ ws) m' []" by blast
    then have "kahn (dependents_of nodes) remaining ready = length (last ready # ws) \<and> kahn_inv nodes (visited @ (last ready # ws)) m' []"
      using False rel by (subst kahn.simps) simp
    then show ?thesis by blast
  qed
qed

lemma kahn_inv_initial:
  assumes "deps_wf nodes"
  shows "kahn_inv nodes [] (initial_remaining nodes)
    (filter (\<lambda>i. map_of (initial_remaining nodes) i = Some 0) (map dt_taskId nodes))"
proof -
  have d: "distinct (map dt_taskId nodes)" using assms by (simp add: deps_wf_def)
  have m: "map_of (initial_remaining nodes) (dt_taskId t) = Some (int (length (dt_dependsOn t)))" if "t \<in> set nodes" for t
    using initial_remaining_eq [OF d that] .
  show ?thesis unfolding kahn_inv_def
  proof (intro conjI ballI)
    show "distinct ([] @ filter (\<lambda>i. map_of (initial_remaining nodes) i = Some 0) (map dt_taskId nodes))"
      using d by simp
    fix t assume t: "t \<in> set nodes"
    show "get_or 0 (initial_remaining nodes) (dt_taskId t) = int (length (open_deps [] t))"
      using m [OF t] by (simp add: get_or_def open_deps_def)
    show "(dt_taskId t \<in> set ([] @ filter (\<lambda>i. map_of (initial_remaining nodes) i = Some 0) (map dt_taskId nodes))) =
        (open_deps [] t = [])"
      using m [OF t] t by (auto simp: open_deps_def)
  qed auto
qed

lemma ordered_acyclic:
  assumes "distinct ws" and "\<And>t. t \<in> set nodes \<Longrightarrow> \<exists>us vs. ws = us @ dt_taskId t # vs \<and> set (dt_dependsOn t) \<subseteq> set us"
  shows "acyclic (dep_rel nodes)"
proof -
  define pos where "pos x = length (takeWhile (\<lambda>y. y \<noteq> x) ws)" for x
  have "pos d < pos i" if "(d, i) \<in> dep_rel nodes" for d i
  proof -
    from that obtain t where t: "t \<in> set nodes" "i = dt_taskId t" "d \<in> set (dt_dependsOn t)" by (auto simp: dep_rel_def)
    with assms(2) obtain us vs where w: "ws = us @ i # vs" "d \<in> set us" by blast
    have "i \<notin> set us" using assms(1) w(1) by simp
    then have "pos i = length us" unfolding pos_def w(1) by (subst takeWhile_append2) auto
    moreover obtain xs ys where u: "us = xs @ d # ys" "d \<notin> set xs" using split_list_first [OF w(2)] by blast
    then have "pos d = length xs" unfolding pos_def w(1) u(1) append_assoc by (subst takeWhile_append2) auto
    ultimately show ?thesis using u(1) by simp
  qed
  then have "dep_rel nodes \<subseteq> measure pos" by auto
  then show ?thesis by (meson acyclic_subset wf_acyclic wf_measure)
qed

lemma finite_dep_rel: "finite (dep_rel nodes)"
proof -
  have "dep_rel nodes = (\<Union>t \<in> set nodes. (\<lambda>d. (d, dt_taskId t)) ` set (dt_dependsOn t))" by (auto simp: dep_rel_def)
  then show ?thesis by simp
qed

lemma acyclic_all_visited:
  assumes "acyclic (dep_rel nodes)" and "deps_wf nodes"
    and "\<And>t. t \<in> set nodes \<Longrightarrow> dt_taskId t \<notin> V \<Longrightarrow> \<exists>d \<in> set (dt_dependsOn t). d \<notin> V"
  shows "dt_taskId ` set nodes \<subseteq> V"
proof -
  have "wf (dep_rel nodes)" using finite_acyclic_wf [OF finite_dep_rel assms(1)] .
  then have "i \<in> dt_taskId ` set nodes \<longrightarrow> i \<in> V" for i
  proof (induction i rule: wf_induct_rule)
    case (less i)
    show ?case
    proof (rule impI, rule ccontr)
      assume i: "i \<in> dt_taskId ` set nodes" "i \<notin> V"
      then obtain t where t: "t \<in> set nodes" "i = dt_taskId t" by blast
      then obtain d where d: "d \<in> set (dt_dependsOn t)" "d \<notin> V" using assms(3) i(2) by blast
      have "(d, i) \<in> dep_rel nodes" using t d by (auto simp: dep_rel_def)
      moreover have "d \<in> dt_taskId ` set nodes" using assms(2) t d by (auto simp: deps_wf_def)
      ultimately show False using less d(2) by blast
    qed
  qed
  then show ?thesis by blast
qed

lemma kahn_all_iff:
  assumes "deps_wf nodes"
  shows "kahn (dependents_of nodes) (initial_remaining nodes)
      (filter (\<lambda>i. map_of (initial_remaining nodes) i = Some 0) (map dt_taskId nodes)) = length (map dt_taskId nodes)
    \<longleftrightarrow> acyclic (dep_rel nodes)"
proof -
  from kahn_visits [OF assms kahn_inv_initial [OF assms]] obtain ws m where
    k: "kahn (dependents_of nodes) (initial_remaining nodes)
      (filter (\<lambda>i. map_of (initial_remaining nodes) i = Some 0) (map dt_taskId nodes)) = length ws"
    and inv: "kahn_inv nodes ws m []" by auto
  have ids: "distinct (map dt_taskId nodes)" using assms by (simp add: deps_wf_def)
  have ws: "distinct ws" "set ws \<subseteq> set (map dt_taskId nodes)" using inv by (auto simp: kahn_inv_def)
  have all: "length ws = length (map dt_taskId nodes) \<longleftrightarrow> set ws = set (map dt_taskId nodes)"
    by (metis List.finite_set card_subset_eq distinct_card ids ws)
  show ?thesis unfolding k
  proof
    assume "length ws = length (map dt_taskId nodes)"
    with all inv have "\<exists>us vs. ws = us @ dt_taskId t # vs \<and> set (dt_dependsOn t) \<subseteq> set us" if "t \<in> set nodes" for t
      using that unfolding kahn_inv_def by (metis image_eqI list.set_map)
    with ws(1) show "acyclic (dep_rel nodes)" by (rule ordered_acyclic)
  next
    assume "acyclic (dep_rel nodes)"
    then have "dt_taskId ` set nodes \<subseteq> set ws"
    proof (rule acyclic_all_visited [OF _ assms])
      fix t assume t: "t \<in> set nodes" "dt_taskId t \<notin> set ws"
      with inv have "open_deps ws t \<noteq> []" unfolding kahn_inv_def by auto
      then show "\<exists>d \<in> set (dt_dependsOn t). d \<notin> set ws" by (auto simp: open_deps_def filter_empty_conv)
    qed
    with ws(2) show "length ws = length (map dt_taskId nodes)" unfolding all by auto
  qed
qed

section \<open>Accepted plans\<close>

definition edge_pairs :: "dependency list \<Rightarrow> (string \<times> string) list" where
  "edge_pairs edges = map (\<lambda>e. (dp_from e, dp_to e)) edges"

definition plan_wf :: "plan_dag \<Rightarrow> bool" where
  "plan_wf p \<longleftrightarrow>
     length (pl_nodes p) \<le> MAX_PLAN_TASKS \<and> length (pl_edges p) \<le> MAX_PLAN_EDGES \<and>
     deps_wf (pl_nodes p) \<and> (\<forall>t \<in> set (pl_nodes p). length (dt_dependsOn t) \<le> MAX_TASK_DEPENDENCIES) \<and>
     distinct (edge_pairs (pl_edges p)) \<and> set (edge_pairs (pl_edges p)) = dep_rel (pl_nodes p) \<and>
     acyclic (dep_rel (pl_nodes p))"

definition nul_free :: "plan_dag \<Rightarrow> bool" where
  "nul_free p \<longleftrightarrow> list_all (\<lambda>t. CHR 0x00 \<notin> set (dt_taskId t)) (pl_nodes p)"

lemma edge_key_eq:
  "CHR 0x00 \<notin> set a \<Longrightarrow> CHR 0x00 \<notin> set c \<Longrightarrow> edge_key a b = edge_key c d \<longleftrightarrow> a = c \<and> b = d"
  using split_at_sep [of a "CHR 0x00" b c d] by (auto simp: edge_key_def)

lemma set_expected_edges:
  "set (expected_edges nodes) = (\<lambda>(d, i). edge_key d i) ` dep_rel nodes"
  by (auto simp: expected_edges_def dep_rel_def)

lemma key_inj:
  assumes "\<forall>x \<in> A \<union> B. CHR 0x00 \<notin> set (fst x)"
  shows "inj_on (\<lambda>(d, i). edge_key d i) (A \<union> B)"
proof (rule inj_onI)
  fix x y assume a: "x \<in> A \<union> B" "y \<in> A \<union> B" "(\<lambda>(d, i). edge_key d i) x = (\<lambda>(d, i). edge_key d i) y"
  obtain d i e j where "x = (d, i)" "y = (e, j)" by fastforce
  moreover have "CHR 0x00 \<notin> set (fst x)" "CHR 0x00 \<notin> set (fst y)" using a(1,2) assms by blast+
  ultimately show "x = y" using a(3) edge_key_eq [of d e i j] by simp
qed

lemma edges_ok_iff:
  assumes nul: "\<forall>t \<in> set nodes. CHR 0x00 \<notin> set (dt_taskId t)" and wf: "deps_wf nodes"
    and irr: "\<forall>t \<in> set nodes. dt_taskId t \<notin> set (dt_dependsOn t)"
  shows "edges_ok (map dt_taskId nodes) (expected_edges nodes) edges \<longleftrightarrow>
    distinct (edge_pairs edges) \<and> set (edge_pairs edges) = dep_rel nodes"
proof -
  let ?key = "\<lambda>(d, i). edge_key d i" and ?P = "edge_pairs edges" and ?ids = "map dt_taskId nodes"
  have keys: "map (\<lambda>e. edge_key (dp_from e) (dp_to e)) edges = map ?key ?P" by (simp add: edge_pairs_def)
  have known: "list_all (\<lambda>e. dp_from e \<in> set ?ids \<and> dp_to e \<in> set ?ids \<and> dp_from e \<noteq> dp_to e) edges \<longleftrightarrow>
      (\<forall>(d, i) \<in> set ?P. d \<in> set ?ids \<and> i \<in> set ?ids \<and> d \<noteq> i)" by (auto simp: list_all_iff edge_pairs_def)
  have rel: "\<forall>(d, i) \<in> dep_rel nodes. d \<in> set ?ids \<and> i \<in> set ?ids \<and> d \<noteq> i"
    using wf irr by (auto simp: dep_rel_def deps_wf_def)
  have inj: "inj_on ?key (set ?P \<union> dep_rel nodes)" if "\<forall>(d, i) \<in> set ?P. d \<in> set ?ids"
    by (rule key_inj) (use that rel nul in auto)
  have e: "distinct (expected_edges nodes)" by (simp add: expected_edges_def)
  have len: "length edges = length (map ?key ?P)" by (simp add: edge_pairs_def)
  show ?thesis
  proof
    assume ok: "edges_ok ?ids (expected_edges nodes) edges"
    then have k: "\<forall>(d, i) \<in> set ?P. d \<in> set ?ids" using known by (auto simp: edges_ok_def)
    note inj = inj [OF k]
    have r: "length (dedup (map ?key ?P)) = length (map ?key ?P)" "length (expected_edges nodes) = length (dedup (map ?key ?P))"
      "set (map ?key ?P) \<subseteq> set (expected_edges nodes)"
      using ok unfolding edges_ok_def keys Let_def list_ex_iff len
      by (auto simp del: length_dedup_iff length_dedup_map_iff)
    then have d: "distinct (map ?key ?P)" "length (expected_edges nodes) = length (map ?key ?P)"
      by (simp_all only: length_dedup_iff)
    then have "set (map ?key ?P) = set (expected_edges nodes)"
      using r(3) e by (metis List.finite_set card_subset_eq distinct_card)
    then have "?key ` set ?P = ?key ` dep_rel nodes" by (simp add: set_expected_edges)
    then have "set ?P = dep_rel nodes"
      using inj by (metis inj_on_image_eq_iff sup_ge1 sup_ge2)
    moreover have "distinct ?P" using d(1) by (simp add: distinct_map)
    ultimately show "distinct ?P \<and> set ?P = dep_rel nodes" by simp
  next
    assume "distinct ?P \<and> set ?P = dep_rel nodes"
    then have P: "distinct ?P" "set ?P = dep_rel nodes" by auto
    have k: "\<forall>(d, i) \<in> set ?P. d \<in> set ?ids \<and> i \<in> set ?ids \<and> d \<noteq> i" using rel P(2) by simp
    then have "inj_on ?key (set ?P)" using inj inj_on_subset by blast
    then have d: "distinct (map ?key ?P)" using P(1) by (simp add: distinct_map)
    have s: "set (map ?key ?P) = set (expected_edges nodes)" using P(2) by (simp add: set_expected_edges)
    then have l: "length (expected_edges nodes) = length (map ?key ?P)" using d e by (metis distinct_card)
    have dd: "length (dedup (map ?key ?P)) = length (map ?key ?P)" using d by simp
    from known k s l dd len show "edges_ok ?ids (expected_edges nodes) edges"
      unfolding edges_ok_def keys Let_def list_ex_iff by auto
  qed
qed

lemma assertValidPlan_iff:
  assumes "nul_free p"
  shows "assertValidPlan p = Inr () \<longleftrightarrow> plan_wf p"
proof -
  let ?n = "pl_nodes p" and ?ids = "map dt_taskId (pl_nodes p)"
  have deps: "list_all (task_deps_ok ?ids) ?n \<and> distinct ?ids \<longleftrightarrow>
      deps_wf ?n \<and> (\<forall>t \<in> set ?n. length (dt_dependsOn t) \<le> MAX_TASK_DEPENDENCIES) \<and>
      (\<forall>t \<in> set ?n. dt_taskId t \<notin> set (dt_dependsOn t))"
    unfolding list_all_iff task_deps_ok_def deps_wf_def list_ex_iff by (auto simp: not_less)
  have irr: "acyclic (dep_rel ?n) \<Longrightarrow> \<forall>t \<in> set ?n. dt_taskId t \<notin> set (dt_dependsOn t)"
    unfolding acyclic_def dep_rel_def by blast
  have nul: "\<forall>t \<in> set ?n. CHR 0x00 \<notin> set (dt_taskId t)" using assms by (simp add: nul_free_def list_all_iff)
  have "assertValidPlan p = Inr () \<longleftrightarrow> length ?n \<le> MAX_PLAN_TASKS \<and> length (pl_edges p) \<le> MAX_PLAN_EDGES \<and>
      (list_all (task_deps_ok ?ids) ?n \<and> distinct ?ids) \<and> edges_ok ?ids (expected_edges ?n) (pl_edges p) \<and>
      kahn (dependents_of ?n) (initial_remaining ?n)
        (filter (\<lambda>i. map_of (initial_remaining ?n) i = Some 0) ?ids) = length ?ids"
    by (auto simp: assertValidPlan_def Let_def not_less)
  also have "\<dots> \<longleftrightarrow> plan_wf p"
    unfolding deps plan_wf_def using edges_ok_iff [OF nul] kahn_all_iff irr by blast
  finally show ?thesis .
qed

lemma valid_plan_deps:
  assumes "assertValidPlan p = Inr ()"
  shows "deps_wf (pl_nodes p) \<and> acyclic (dep_rel (pl_nodes p))"
proof -
  let ?n = "pl_nodes p"
  have a: "distinct (map dt_taskId ?n)" "list_all (task_deps_ok (map dt_taskId ?n)) ?n"
    "kahn (dependents_of ?n) (initial_remaining ?n)
        (filter (\<lambda>i. map_of (initial_remaining ?n) i = Some 0) (map dt_taskId ?n)) = length (map dt_taskId ?n)"
    using assms by (auto simp: assertValidPlan_def Let_def split: if_splits)
  then have "deps_wf ?n"
    unfolding list_all_iff task_deps_ok_def deps_wf_def list_ex_iff by auto
  with a(3) kahn_all_iff show ?thesis by blast
qed

section \<open>A linear plan is a valid chain\<close>

lemma step_id_inj [simp]: "step_id i = step_id j \<longleftrightarrow> i = j"
  using digits_of_inj by (auto simp: step_id_def)

lemma step_id_no_nul: "CHR 0x00 \<notin> set (step_id i)"
  using set_digits_of [of "CHR 0x00" i] by (auto simp: step_id_def is_digit_def)

lemma step_task_fields [simp]:
  "dt_taskId (step_task i x) = step_id (Suc i)" "dt_dependsOn (step_task i x) = (if i > 0 then [step_id i] else [])"
  by (simp_all add: step_task_def)

definition chain_nodes :: "string option list \<Rightarrow> delegation_task list" where
  "chain_nodes steps = map (\<lambda>i. step_task i (steps ! i)) [0..<length steps]"

lemma enumerate_upt: "enumerate 0 xs = map (\<lambda>i. (i, xs ! i)) [0..<length xs]"
  by (intro nth_equalityI) (auto simp: nth_enumerate_eq)

lemma normalize_linear:
  "pl_nodes (normalizePlan (LinearPlan steps)) = chain_nodes steps"
  "edge_pairs (pl_edges (normalizePlan (LinearPlan steps))) = map (\<lambda>i. (step_id (i + 1), step_id (i + 2))) [0..<length steps - 1]"
proof -
  have n: "map (\<lambda>(i, intent). step_task i intent) (enumerate 0 steps) = chain_nodes steps"
    by (simp add: enumerate_upt chain_nodes_def)
  then show "pl_nodes (normalizePlan (LinearPlan steps)) = chain_nodes steps" by (simp add: normalizePlan_def Let_def)
  have "tl (chain_nodes steps) ! i = step_task (i + 1) (steps ! (i + 1))" if "i < length steps - 1" for i
    using that by (simp add: chain_nodes_def nth_tl)
  then show "edge_pairs (pl_edges (normalizePlan (LinearPlan steps))) =
      map (\<lambda>i. (step_id (i + 1), step_id (i + 2))) [0..<length steps - 1]"
    unfolding normalizePlan_def plan_input.case Let_def n edge_pairs_def plan_dag.simps
    by (intro nth_equalityI) (simp_all add: nth_enumerate_eq chain_nodes_def)
qed

lemma chain_task:
  assumes "t \<in> set (chain_nodes steps)"
  obtains i where "i < length steps" "t = step_task i (steps ! i)"
  using assms by (auto simp: chain_nodes_def)

lemma chain_ids: "map dt_taskId (chain_nodes steps) = map (\<lambda>i. step_id (i + 1)) [0..<length steps]"
  by (simp add: chain_nodes_def)

lemma chain_dep_rel:
  "dep_rel (chain_nodes steps) = set (map (\<lambda>i. (step_id (i + 1), step_id (i + 2))) [0..<length steps - 1])"
proof -
  have "(d, e) \<in> dep_rel (chain_nodes steps) \<longleftrightarrow> (\<exists>i < length steps. 0 < i \<and> d = step_id i \<and> e = step_id (i + 1))" for d e
    by (force simp: dep_rel_def chain_nodes_def)
  moreover have "(\<exists>i < length steps. 0 < i \<and> d = step_id i \<and> e = step_id (i + 1)) \<longleftrightarrow>
      (\<exists>i < length steps - 1. d = step_id (i + 1) \<and> e = step_id (i + 2))" for d e
    by (metis Suc_eq_plus1 Suc_pred add_2_eq_Suc' less_diff_conv zero_less_Suc)
  ultimately show ?thesis by force
qed

lemma chain_deps_wf: "deps_wf (chain_nodes steps)"
proof -
  have "set (dt_dependsOn (step_task i x)) \<subseteq> dt_taskId ` set (chain_nodes steps)" if "i < length steps" for i x
  proof (cases i)
    case (Suc j)
    with that have "step_id i \<in> set (map dt_taskId (chain_nodes steps))" unfolding chain_ids by force
    then show ?thesis using Suc by simp
  qed simp
  then show ?thesis
    unfolding deps_wf_def chain_ids by (auto simp: distinct_map inj_on_def chain_nodes_def)
qed

lemma chain_acyclic: "acyclic (dep_rel (chain_nodes steps))"
proof (rule ordered_acyclic)
  let ?ids = "map dt_taskId (chain_nodes steps)"
  show "distinct ?ids" using chain_deps_wf by (simp add: deps_wf_def)
  fix t assume "t \<in> set (chain_nodes steps)"
  then obtain i where i: "i < length steps" "t = step_task i (steps ! i)" by (rule chain_task)
  then have l: "i < length ?ids" "?ids ! i = dt_taskId t" by (simp_all add: chain_nodes_def)
  have "set (dt_dependsOn t) \<subseteq> set (take i ?ids)"
    using i(1) unfolding chain_ids i(2) take_map
    by (cases i) (auto simp: take_upt)
  with id_take_nth_drop [OF l(1)] l(2) show "\<exists>us vs. ?ids = us @ dt_taskId t # vs \<and> set (dt_dependsOn t) \<subseteq> set us"
    by metis
qed

lemma linear_plan_wf:
  assumes "length steps \<le> MAX_PLAN_TASKS"
  shows "assertValidPlan (normalizePlan (LinearPlan steps)) = Inr ()"
proof -
  let ?p = "normalizePlan (LinearPlan steps)"
  have "nul_free ?p"
    using step_id_no_nul by (auto simp: nul_free_def list_all_iff normalize_linear chain_nodes_def)
  moreover have "plan_wf ?p" unfolding plan_wf_def normalize_linear
  proof (intro conjI chain_deps_wf chain_acyclic chain_dep_rel [symmetric])
    show "length (chain_nodes steps) \<le> MAX_PLAN_TASKS" using assms by (simp add: chain_nodes_def)
    have "length (pl_edges ?p) = length steps - 1"
      using arg_cong [OF normalize_linear(2) [of steps], of length] by (simp add: edge_pairs_def)
    then show "length (pl_edges ?p) \<le> MAX_PLAN_EDGES" using assms by (simp add: MAX_PLAN_TASKS_def MAX_PLAN_EDGES_def)
    show "\<forall>t \<in> set (chain_nodes steps). length (dt_dependsOn t) \<le> MAX_TASK_DEPENDENCIES"
      by (auto simp: chain_nodes_def MAX_TASK_DEPENDENCIES_def)
    show "distinct (map (\<lambda>i. (step_id (i + 1), step_id (i + 2))) [0..<length steps - 1])"
      by (auto simp: distinct_map inj_on_def)
  qed
  ultimately show ?thesis by (simp add: assertValidPlan_iff)
qed

section \<open>Properties of plans\<close>

definition demo_task :: "string \<Rightarrow> string list \<Rightarrow> string list \<Rightarrow> delegation_task" where
  "demo_task i after owns =
     \<lparr>dt_taskId = i, dt_intent = ''work'', dt_assignedTo = Some ''coder'', dt_dependsOn = after,
      dt_scope = \<lparr>sc_owns = owns, sc_doNotTouch = [], sc_taskClass = TcRoutine\<rparr>,
      dt_budgetSlice = \<lparr>bs_iterations = 3, bs_spendUsd = ''1e-8''\<rparr>, dt_outputContract = [], dt_maxReplans = 0, dt_maxIterations = 3\<rparr>"

definition demo_dag :: plan_dag where
  "demo_dag = \<lparr>pl_nodes = [demo_task ''a'' [] [''src/a''], demo_task ''b'' [''a''] [''src/b''], demo_task ''c'' [''a'', ''b''] [''src/c'']],
     pl_edges = [\<lparr>dp_from = ''a'', dp_to = ''b''\<rparr>, \<lparr>dp_from = ''a'', dp_to = ''c''\<rparr>, \<lparr>dp_from = ''b'', dp_to = ''c''\<rparr>]\<rparr>"

lemma demo_dag_valid: "assertValidPlan demo_dag = Inr ()"
  by code_simp

text \<open>
  C27: plan validation accepts exactly the well-formed goal DAGs: at most 256 tasks, 2048 edges and 64 dependencies per
  task, distinct identifiers, distinct known dependencies, edges that are exactly the dependency pairs, and no
  cycle. Kahn's loop terminates on every plan. Identifiers must not contain the NUL character that joins the ends of an edge.
\<close>

theorem plan_accepted_iff:
  assumes "nul_free p"
  shows "assertValidPlan p = Inr () \<longleftrightarrow> plan_wf p"
  using assms by (rule assertValidPlan_iff)

theorem plan_accepted_iff_witness: "nul_free demo_dag \<and> plan_wf demo_dag"
proof -
  have n: "nul_free demo_dag" by code_simp
  from plan_accepted_iff [OF n] demo_dag_valid n show ?thesis by simp
qed

text \<open>
  A linear plan is normalised into a chain that validation accepts exactly when it has at most 256 steps.
\<close>

theorem linear_plan_is_valid:
  "assertValidPlan (normalizePlan (LinearPlan steps)) = (if length steps \<le> MAX_PLAN_TASKS then Inr () else Inl InvalidPlan)"
proof (cases "length steps \<le> MAX_PLAN_TASKS")
  case False
  have "length (pl_nodes (normalizePlan (LinearPlan steps))) = length steps"
    by (simp add: normalize_linear chain_nodes_def)
  with False show ?thesis by (simp add: assertValidPlan_def Let_def)
qed (simp add: linear_plan_wf)

end
