(* ===== verification/Work_Binding.thy ===== *)
theory Work_Binding
  imports Context_Lease
begin

text \<open>
  Durable work bindings (\<open>core-ts/src/runtime/work-binding.ts\<close>): parsing an untrusted value into a
  binding, resolving its session, deriving a binding from a turn lease and checking a lease against a
  stored binding. The lemmas show that a parsed binding survives storage unchanged and that a binding
  derived from an acquired lease is accepted for exactly that context.
\<close>

datatype work_scope = ScopeWorkspace | ScopeProject | ScopeSessionWide

record work_binding =
  wk_operatorId :: string
  wk_profileId :: string
  wk_projectId :: string
  wk_sessionId :: "string option"
  wk_scope :: work_scope

record resolved_binding =
  rw_operatorId :: string
  rw_profileId :: string
  rw_projectId :: string
  rw_sessionId :: string
  rw_scope :: work_scope

datatype binding_error = InvalidBinding | UnresolvedBinding | ScopeMismatch | LeaseBindingMismatch

definition nonEmpty_text :: "jv \<Rightarrow> string option" where
  "nonEmpty_text v = (case v of JStr s \<Rightarrow> if length (trim s) > 0 then Some s else None | _ \<Rightarrow> None)"

definition scope_of_text :: "jv \<Rightarrow> work_scope option" where
  "scope_of_text v =
     (if v = JStr ''workspace'' then Some ScopeWorkspace
      else if v = JStr ''project'' then Some ScopeProject
      else if v = JStr ''session'' then Some ScopeSessionWide
      else None)"

definition parseWorkBinding :: "jv \<Rightarrow> binding_error + work_binding" where
  "parseWorkBinding v =
     (case as_record v of
        None \<Rightarrow> Inl InvalidBinding
      | Some input \<Rightarrow>
          (case (nonEmpty_text (getprop input ''operatorId''), nonEmpty_text (getprop input ''profileId''),
                 nonEmpty_text (getprop input ''projectId''), scope_of_text (getprop input ''scope'')) of
             (Some operatorId, Some profileId, Some projectId, Some scope) \<Rightarrow>
               if getprop input ''sessionId'' = JUndef then
                 Inr \<lparr>wk_operatorId = trim operatorId, wk_profileId = trim profileId, wk_projectId = trim projectId,
                      wk_sessionId = None, wk_scope = scope\<rparr>
               else
                 (case nonEmpty_text (getprop input ''sessionId'') of
                    None \<Rightarrow> Inl InvalidBinding
                  | Some sessionId \<Rightarrow>
                      Inr \<lparr>wk_operatorId = trim operatorId, wk_profileId = trim profileId, wk_projectId = trim projectId,
                           wk_sessionId = Some (trim sessionId), wk_scope = scope\<rparr>)
           | _ \<Rightarrow> Inl InvalidBinding))"

definition resolvedWorkBinding :: "jv \<Rightarrow> binding_error + resolved_binding" where
  "resolvedWorkBinding v =
     (case parseWorkBinding v of
        Inl e \<Rightarrow> Inl e
      | Inr b \<Rightarrow>
          (case wk_sessionId b of
             None \<Rightarrow> Inl UnresolvedBinding
           | Some s \<Rightarrow> Inr \<lparr>rw_operatorId = wk_operatorId b, rw_profileId = wk_profileId b, rw_projectId = wk_projectId b,
                             rw_sessionId = s, rw_scope = wk_scope b\<rparr>))"

fun scope_text :: "work_scope \<Rightarrow> string" where
  "scope_text ScopeWorkspace = ''workspace''"
| "scope_text ScopeProject = ''project''"
| "scope_text ScopeSessionWide = ''session''"

text \<open>The object literals the code builds and stores.\<close>

definition binding_json :: "work_binding \<Rightarrow> jv" where
  "binding_json b = JObj ([(''operatorId'', JStr (wk_operatorId b)), (''profileId'', JStr (wk_profileId b)),
     (''projectId'', JStr (wk_projectId b))] @
     (case wk_sessionId b of None \<Rightarrow> [] | Some s \<Rightarrow> [(''sessionId'', JStr s)]) @ [(''scope'', JStr (scope_text (wk_scope b)))])"

definition resolved_json :: "resolved_binding \<Rightarrow> jv" where
  "resolved_json b = JObj [(''operatorId'', JStr (rw_operatorId b)), (''profileId'', JStr (rw_profileId b)),
     (''projectId'', JStr (rw_projectId b)), (''sessionId'', JStr (rw_sessionId b)), (''scope'', JStr (scope_text (rw_scope b)))]"

definition scope_fits :: "turn_lease \<Rightarrow> work_scope \<Rightarrow> bool" where
  "scope_fits lease scope \<longleftrightarrow>
     \<not> ((scope = ScopeWorkspace \<and> tl_projectKind lease \<noteq> ''workspace'') \<or>
        (scope = ScopeProject \<and> tl_projectKind lease \<noteq> ''project''))"

definition workBindingFromLease :: "turn_lease \<Rightarrow> work_scope \<Rightarrow> string \<Rightarrow> binding_error + resolved_binding" where
  "workBindingFromLease lease scope sessionId =
     (if \<not> scope_fits lease scope then Inl ScopeMismatch
      else resolvedWorkBinding (JObj [(''operatorId'', JStr (tl_operatorId lease)), (''profileId'', JStr (tl_profileId lease)),
        (''projectId'', JStr (tl_projectId lease)), (''sessionId'', JStr sessionId), (''scope'', JStr (scope_text scope))]))"

definition assertLeaseMatchesBinding :: "turn_lease \<Rightarrow> jv \<Rightarrow> binding_error + resolved_binding" where
  "assertLeaseMatchesBinding lease raw =
     (case resolvedWorkBinding raw of
        Inl e \<Rightarrow> Inl e
      | Inr b \<Rightarrow>
          if tl_operatorId lease \<noteq> rw_operatorId b \<or> tl_profileId lease \<noteq> rw_profileId b \<or>
             tl_projectId lease \<noteq> rw_projectId b \<or> tl_sessionId lease \<noteq> rw_sessionId b \<or> \<not> scope_fits lease (rw_scope b)
          then Inl LeaseBindingMismatch else Inr b)"

section \<open>Parsing and storing\<close>

definition clean_text :: "string \<Rightarrow> bool" where
  "clean_text s \<longleftrightarrow> trim s = s \<and> s \<noteq> []"

lemma clean_trim: "length (trim s) > 0 \<Longrightarrow> clean_text (trim s)"
  by (simp add: clean_text_def)

lemma nonEmpty_textD: "nonEmpty_text v = Some s \<Longrightarrow> v = JStr s \<and> clean_text (trim s)"
  by (auto simp: nonEmpty_text_def clean_trim split: jv.splits if_splits)

lemma nonEmpty_text_clean [simp]: "clean_text s \<Longrightarrow> nonEmpty_text (JStr s) = Some s"
  by (simp add: nonEmpty_text_def clean_text_def)

lemma scope_of_scope_text [simp]: "scope_of_text (JStr (scope_text k)) = Some k"
  by (cases k) (simp_all add: scope_of_text_def)

definition binding_clean :: "work_binding \<Rightarrow> bool" where
  "binding_clean b \<longleftrightarrow> clean_text (wk_operatorId b) \<and> clean_text (wk_profileId b) \<and> clean_text (wk_projectId b) \<and>
     (case wk_sessionId b of None \<Rightarrow> True | Some s \<Rightarrow> clean_text s)"

definition resolved_clean :: "resolved_binding \<Rightarrow> bool" where
  "resolved_clean b \<longleftrightarrow> clean_text (rw_operatorId b) \<and> clean_text (rw_profileId b) \<and> clean_text (rw_projectId b) \<and>
     clean_text (rw_sessionId b)"

lemma parse_clean:
  assumes "parseWorkBinding v = Inr b"
  shows "binding_clean b"
  using assms unfolding parseWorkBinding_def
  by (auto simp: binding_clean_def split: option.splits if_splits dest!: nonEmpty_textD)

lemma parse_binding_json:
  assumes "binding_clean b"
  shows "parseWorkBinding (binding_json b) = Inr b"
proof -
  have t: "trim (wk_operatorId b) = wk_operatorId b" "trim (wk_profileId b) = wk_profileId b" "trim (wk_projectId b) = wk_projectId b"
    using assms by (simp_all add: binding_clean_def clean_text_def)
  show ?thesis
  proof (cases "wk_sessionId b")
    case None
    with assms t show ?thesis
      by (simp add: parseWorkBinding_def binding_json_def as_record_def getprop_def binding_clean_def)
  next
    case (Some s)
    with assms have "clean_text s" "trim s = s" by (simp_all add: binding_clean_def clean_text_def)
    with Some assms t show ?thesis
      by (simp add: parseWorkBinding_def binding_json_def as_record_def getprop_def binding_clean_def)
  qed
qed

lemma resolved_eq_parse:
  "resolvedWorkBinding v = Inr r \<longleftrightarrow>
     parseWorkBinding v = Inr \<lparr>wk_operatorId = rw_operatorId r, wk_profileId = rw_profileId r, wk_projectId = rw_projectId r,
       wk_sessionId = Some (rw_sessionId r), wk_scope = rw_scope r\<rparr>"
  by (auto simp: resolvedWorkBinding_def split: sum.splits option.splits)

lemma resolve_clean: "resolvedWorkBinding v = Inr r \<Longrightarrow> resolved_clean r"
  using parse_clean by (fastforce simp: resolved_eq_parse binding_clean_def resolved_clean_def)

lemma resolve_resolved_json:
  assumes "resolved_clean r"
  shows "resolvedWorkBinding (resolved_json r) = Inr r"
proof -
  let ?b = "\<lparr>wk_operatorId = rw_operatorId r, wk_profileId = rw_profileId r, wk_projectId = rw_projectId r,
       wk_sessionId = Some (rw_sessionId r), wk_scope = rw_scope r\<rparr>"
  have "resolved_json r = binding_json ?b" by (simp add: resolved_json_def binding_json_def)
  moreover have "binding_clean ?b" using assms by (simp add: binding_clean_def resolved_clean_def)
  ultimately show ?thesis using parse_binding_json by (simp add: resolved_eq_parse)
qed

definition lease_clean :: "turn_lease \<Rightarrow> bool" where
  "lease_clean l \<longleftrightarrow> clean_text (tl_operatorId l) \<and> clean_text (tl_profileId l) \<and> clean_text (tl_projectId l) \<and> clean_text (tl_sessionId l)"

lemma nonEmpty_clean: "nonEmpty s = Inr t \<Longrightarrow> clean_text t"
  by (auto simp: nonEmpty_def Let_def clean_trim split: if_splits)

lemma acquired_lease_clean:
  assumes "acquire st inp newId = (st', Inr lease)"
  shows "lease_clean lease"
  using assms unfolding acquire_def
  by (auto simp: lease_clean_def Let_def dest!: nonEmpty_clean split: if_splits sum.splits prod.splits)

lemma binding_from_clean_lease:
  assumes "lease_clean lease" and "scope_fits lease scope" and "clean_text s"
  shows "workBindingFromLease lease scope s = Inr \<lparr>rw_operatorId = tl_operatorId lease, rw_profileId = tl_profileId lease,
    rw_projectId = tl_projectId lease, rw_sessionId = s, rw_scope = scope\<rparr>"
proof -
  let ?r = "\<lparr>rw_operatorId = tl_operatorId lease, rw_profileId = tl_profileId lease,
    rw_projectId = tl_projectId lease, rw_sessionId = s, rw_scope = scope\<rparr>"
  have "resolved_clean ?r" using assms by (simp add: lease_clean_def resolved_clean_def)
  from resolve_resolved_json [OF this] assms(2) show ?thesis
    by (simp add: workBindingFromLease_def resolved_json_def)
qed

lemma matches_iff:
  assumes "resolved_clean b"
  shows "assertLeaseMatchesBinding lease (resolved_json b) = Inr b \<longleftrightarrow>
    tl_operatorId lease = rw_operatorId b \<and> tl_profileId lease = rw_profileId b \<and> tl_projectId lease = rw_projectId b \<and>
    tl_sessionId lease = rw_sessionId b \<and> scope_fits lease (rw_scope b)"
  by (auto simp: assertLeaseMatchesBinding_def resolve_resolved_json [OF assms])

section \<open>Properties of bindings\<close>

text \<open>
  A binding the parser accepts survives storage: parsing the object written for it gives the same binding back, so
  parsing is idempotent on its own output.
\<close>

theorem binding_survives_storage:
  "case parseWorkBinding v of Inl _ \<Rightarrow> True | Inr b \<Rightarrow> parseWorkBinding (binding_json b) = Inr b"
  using parse_clean parse_binding_json by (simp split: sum.split)

text \<open>
  A binding derived from an acquired lease is accepted for a lease exactly when operator, profile, project
  and session agree and the scope fits the kind of project; in particular for the lease it came from.
\<close>

theorem lease_binding_is_exact:
  assumes "acquire st inp i = (st', Inr lease)" and "workBindingFromLease lease scope (tl_sessionId lease) = Inr b"
  shows "assertLeaseMatchesBinding lease (resolved_json b) = Inr b \<and>
    (assertLeaseMatchesBinding other (resolved_json b) = Inr b \<longleftrightarrow>
      tl_operatorId other = tl_operatorId lease \<and> tl_profileId other = tl_profileId lease \<and>
      tl_projectId other = tl_projectId lease \<and> tl_sessionId other = tl_sessionId lease \<and> scope_fits other scope)"
proof -
  have clean: "lease_clean lease" using acquired_lease_clean [OF assms(1)] .
  have fits: "scope_fits lease scope" using assms(2) by (simp add: workBindingFromLease_def split: if_splits)
  have "clean_text (tl_sessionId lease)" using clean by (simp add: lease_clean_def)
  from binding_from_clean_lease [OF clean fits this] assms(2) have b: "b = \<lparr>rw_operatorId = tl_operatorId lease,
      rw_profileId = tl_profileId lease, rw_projectId = tl_projectId lease, rw_sessionId = tl_sessionId lease, rw_scope = scope\<rparr>" by simp
  have "resolved_clean b" using clean by (simp add: b lease_clean_def resolved_clean_def)
  from matches_iff [OF this] fits show ?thesis by (auto simp: b)
qed

definition demo_lease_input :: lease_input where
  "demo_lease_input = \<lparr>li_operatorId = '' op '', li_profileId = ''p'', li_projectId = ''pr'', li_projectKind = ''project'',
     li_sessionId = ''s'', li_root = ''/w'', li_generation = 1\<rparr>"

theorem lease_binding_is_exact_witness:
  "let lease = projr (snd (acquire makeContextLeaseCoordinator demo_lease_input ''l1''));
       b = projr (workBindingFromLease lease ScopeProject (tl_sessionId lease))
   in assertLeaseMatchesBinding lease (resolved_json b) = Inr b \<and>
      assertLeaseMatchesBinding (lease\<lparr>tl_sessionId := ''t''\<rparr>) (resolved_json b) \<noteq> Inr b"
proof -
  define lease where "lease = projr (snd (acquire makeContextLeaseCoordinator demo_lease_input ''l1''))"
  define b where "b = projr (workBindingFromLease lease ScopeProject (tl_sessionId lease))"
  have a: "acquire makeContextLeaseCoordinator demo_lease_input ''l1'' =
      (fst (acquire makeContextLeaseCoordinator demo_lease_input ''l1''), Inr lease)" unfolding lease_def by code_simp
  have w: "workBindingFromLease lease ScopeProject (tl_sessionId lease) = Inr b" unfolding b_def lease_def by code_simp
  have s: "tl_sessionId lease \<noteq> ''t''" unfolding lease_def by code_simp
  from lease_binding_is_exact [OF a w, of "lease\<lparr>tl_sessionId := ''t''\<rparr>"] s show ?thesis
    unfolding Let_def lease_def [symmetric] b_def [symmetric] by simp
qed

text \<open>The parser keeps no bot identity: a binding of any bot reads back as one without it.\<close>

lemma bot_identity_dropped:
  "parseWorkBinding (JObj (kvs @ [(''botId'', v)])) = parseWorkBinding (JObj kvs)"
proof -
  have "k \<noteq> ''botId'' \<Longrightarrow> getprop (kvs @ [(''botId'', v)]) k = getprop kvs k" for k
    by (auto simp: getprop_def map_add_def split: option.splits)
  then show ?thesis by (simp add: parseWorkBinding_def as_record_def split: option.split)
qed

end
