(* ===== verification/Delegation_Shard.thy ===== *)
theory Delegation_Shard
  imports Delegation_Plan Work_Binding
begin

text \<open>
  Costs, payload bounds and the hash-chained shard of a delegation
  (\<open>core-ts/src/orchestration/index.ts\<close>): the exact cost quantiser, the iterative payload guard with its
  explicit stack, the entry hash and the verification of a shard.

  Parameters: the digest \<open>H\<close> and \<open>usd\<close>, the decimal spelling of the double nearest to a number of
  nanos divided by a thousand million. The code checks that this spelling converts back, so no property
  relies on it. A number that must be an integer is an \<open>int option\<close>, \<open>None\<close> for any other number. A
  JSON value is a tree, so the repeated-reference test of the guard has no counterpart, and a string is
  the list of its UTF-8 bytes.
\<close>

section \<open>Costs\<close>

record 'n iteration_cost =
  ic_iterations :: 'n
  ic_spendUsd :: string
  ic_wallMs :: 'n

definition isSafeInteger :: "int \<Rightarrow> bool" where
  "isSafeInteger n \<longleftrightarrow> \<bar>n\<bar> \<le> int MAX_SAFE_USD_NANOS"

definition spendUsdFromNanos :: "(nat \<Rightarrow> string) \<Rightarrow> nat \<Rightarrow> string option" where
  "spendUsdFromNanos usd nanos =
     (if nanos > MAX_SAFE_USD_NANOS then None
      else if iterationCostSpendNanos (usd nanos) = Some nanos then Some (usd nanos) else None)"

definition safe_count :: "int option \<Rightarrow> int option" where
  "safe_count n = (case n of None \<Rightarrow> None | Some i \<Rightarrow> if isSafeInteger i \<and> 0 \<le> i then Some i else None)"

definition quantizedIterationCost :: "(nat \<Rightarrow> string) \<Rightarrow> int option iteration_cost \<Rightarrow> (int iteration_cost \<times> nat) option" where
  "quantizedIterationCost usd cost =
     (case (safe_count (ic_iterations cost), safe_count (ic_wallMs cost)) of
        (Some iterations, Some wallMs) \<Rightarrow>
          (case iterationCostSpendNanos (ic_spendUsd cost) of
             None \<Rightarrow> None
           | Some nanos \<Rightarrow>
               (case spendUsdFromNanos usd nanos of
                  None \<Rightarrow> None
                | Some spend \<Rightarrow> Some (\<lparr>ic_iterations = iterations, ic_spendUsd = spend, ic_wallMs = wallMs\<rparr>, nanos)))
      | _ \<Rightarrow> None)"

definition canonicalizeIterationCost :: "(nat \<Rightarrow> string) \<Rightarrow> int option iteration_cost \<Rightarrow> int iteration_cost option" where
  "canonicalizeIterationCost usd cost = map_option fst (quantizedIterationCost usd cost)"

section \<open>Payload bounds\<close>

datatype payload_error = DepthLimit | NotSerializable | SizeLimit

definition MAX_SHARD_ENTRY_BYTES :: int where "MAX_SHARD_ENTRY_BYTES = 1048576"
definition MAX_SHARD_JSON_DEPTH :: nat where "MAX_SHARD_JSON_DEPTH = 128"

definition blen :: "'a list \<Rightarrow> int" where "blen xs = int (length xs)"

text \<open>What one popped value adds to the estimate and which values it pushes, in the order they are popped.\<close>

definition visit_value :: "jv \<Rightarrow> payload_error + (int \<times> jv list)" where
  "visit_value v =
     (case v of
        JNull \<Rightarrow> Inr (8, [])
      | JBool _ \<Rightarrow> Inr (8, [])
      | JNum _ \<Rightarrow> Inr (32, [])
      | JStr s \<Rightarrow> Inr (blen s + 2, [])
      | JArr vs \<Rightarrow> if blen vs > MAX_SHARD_ENTRY_BYTES then Inl SizeLimit else Inr (blen vs + 2, vs)
      | JObj kvs \<Rightarrow> Inr (blen kvs + 2 + sum_list (map (\<lambda>kv. blen (fst kv) + 3) kvs), rev (map snd kvs))
      | _ \<Rightarrow> Inl NotSerializable)"

primrec value_nodes :: "jv \<Rightarrow> nat" where
  "value_nodes JUndef = 1"
| "value_nodes JNull = 1"
| "value_nodes (JBool b) = 1"
| "value_nodes (JNum n) = 1"
| "value_nodes JNonFin = 1"
| "value_nodes (JStr s) = 1"
| "value_nodes (JArr vs) = Suc (sum_list (map value_nodes vs))"
| "value_nodes (JObj kvs) = Suc (sum_list (map snd (map (map_prod id value_nodes) kvs)))"
| "value_nodes (JExotic kvs) = Suc (sum_list (map snd (map (map_prod id value_nodes) kvs)))"
| "value_nodes JFun = 1"

lemma visit_shrinks:
  "visit_value v = Inr (c, ws) \<Longrightarrow> sum_list (map value_nodes ws) < value_nodes v"
  by (cases v) (auto simp: visit_value_def rev_map [symmetric] sum_list_rev comp_def split: if_splits)

function bounded_loop :: "(jv \<times> nat) list \<Rightarrow> int \<Rightarrow> payload_error + unit" where
  "bounded_loop [] bytes = Inr ()"
| "bounded_loop ((v, depth) # pending) bytes =
     (if depth > MAX_SHARD_JSON_DEPTH then Inl DepthLimit
      else
        (case visit_value v of
           Inl e \<Rightarrow> Inl e
         | Inr (c, ws) \<Rightarrow>
             if bytes + c > MAX_SHARD_ENTRY_BYTES then Inl SizeLimit
             else bounded_loop (map (\<lambda>w. (w, depth + 1)) ws @ pending) (bytes + c)))"
  by pat_completeness auto
termination
  by (relation "measure (\<lambda>(p, b). sum_list (map (value_nodes \<circ> fst) p))")
     (auto simp: comp_def dest!: visit_shrinks)

definition uncheckedStableStringify :: "jv \<Rightarrow> string option" where
  "uncheckedStableStringify v = stringify (sort_keys v)"

definition assertBoundedSerializable :: "jv \<Rightarrow> payload_error + unit" where
  "assertBoundedSerializable v =
     (case bounded_loop [(v, 0)] 0 of
        Inl e \<Rightarrow> Inl e
      | Inr _ \<Rightarrow>
          (case uncheckedStableStringify v of
             None \<Rightarrow> Inl SizeLimit
           | Some encoded \<Rightarrow> if blen encoded > MAX_SHARD_ENTRY_BYTES then Inl SizeLimit else Inr ()))"

definition stableStringify :: "jv \<Rightarrow> payload_error + string" where
  "stableStringify v =
     (case assertBoundedSerializable v of
        Inl e \<Rightarrow> Inl e
      | Inr _ \<Rightarrow> Inr (json_text (sort_keys v)))"

section \<open>Shards\<close>

record shard_entry =
  se_delegationId :: string
  se_seq :: nat
  se_prevHash :: string
  se_hash :: string
  se_kind :: string
  se_payload :: jv
  se_ts :: string

definition SHARD_GENESIS :: string where "SHARD_GENESIS = replicate 64 (CHR ''0'')"

definition entry_object :: "shard_entry \<Rightarrow> string \<Rightarrow> jv" where
  "entry_object e payloadHash = JObj
     [(''delegationId'', JStr (se_delegationId e)), (''seq'', JNum (int (se_seq e))), (''prevHash'', JStr (se_prevHash e)),
      (''kind'', JStr (se_kind e)), (''ts'', JStr (se_ts e)), (''payloadHash'', JStr payloadHash)]"

definition shardEntryHash :: "(string \<Rightarrow> string) \<Rightarrow> shard_entry \<Rightarrow> payload_error + string" where
  "shardEntryHash H e =
     (case stableStringify (se_payload e) of
        Inl x \<Rightarrow> Inl x
      | Inr p \<Rightarrow>
          (case stableStringify (entry_object e (H p)) of
             Inl x \<Rightarrow> Inl x
           | Inr t \<Rightarrow> Inr (H t)))"

definition entry_ok :: "(string \<Rightarrow> string) \<Rightarrow> string \<Rightarrow> string \<Rightarrow> nat \<Rightarrow> shard_entry \<Rightarrow> bool" where
  "entry_ok H delegationId prev i e \<longleftrightarrow>
     \<not> (se_delegationId e \<noteq> delegationId \<or> se_seq e \<noteq> i + 1 \<or> se_prevHash e \<noteq> prev \<or>
        length (se_hash e) \<noteq> 64 \<or> length (se_prevHash e) \<noteq> 64 \<or> se_payload e = JUndef) \<and>
     shardEntryHash H e = Inr (se_hash e)"

fun verify_from :: "(string \<Rightarrow> string) \<Rightarrow> string \<Rightarrow> nat \<Rightarrow> string \<Rightarrow> shard_entry list \<Rightarrow> bool" where
  "verify_from H delegationId i prev [] = True"
| "verify_from H delegationId i prev (e # es) =
     (entry_ok H delegationId prev i e \<and> verify_from H delegationId (i + 1) (se_hash e) es)"

definition entriesVerify :: "(string \<Rightarrow> string) \<Rightarrow> shard_entry list \<Rightarrow> string \<Rightarrow> bool" where
  "entriesVerify H entries delegationId = verify_from H delegationId 0 SHARD_GENESIS entries"

lemma spendUsdFromNanos_code [code]:
  "spendUsdFromNanos usd nanos =
     (if int nanos > 9007199254740991 then None
      else if iterationCostSpendNanos (usd nanos) = Some nanos then Some (usd nanos) else None)"
  unfolding spendUsdFromNanos_def max_nanos_int ..

lemma isSafeInteger_code [code]: "isSafeInteger n \<longleftrightarrow> \<bar>n\<bar> \<le> 9007199254740991"
  by (simp add: isSafeInteger_def MAX_SAFE_USD_NANOS_def)

section \<open>What the payload guard accepts\<close>

primrec plain_json :: "jv \<Rightarrow> bool" where
  "plain_json JUndef = False"
| "plain_json JNull = True"
| "plain_json (JBool b) = True"
| "plain_json (JNum n) = True"
| "plain_json JNonFin = False"
| "plain_json (JStr s) = True"
| "plain_json (JArr vs) = list_all id (map plain_json vs)"
| "plain_json (JObj kvs) = list_all id (map snd (map (map_prod id plain_json) kvs))"
| "plain_json (JExotic kvs) = False"
| "plain_json JFun = False"

primrec value_depth :: "jv \<Rightarrow> nat" where
  "value_depth JUndef = 0"
| "value_depth JNull = 0"
| "value_depth (JBool b) = 0"
| "value_depth (JNum n) = 0"
| "value_depth JNonFin = 0"
| "value_depth (JStr s) = 0"
| "value_depth (JArr vs) = foldr max (map Suc (map value_depth vs)) 0"
| "value_depth (JObj kvs) = foldr max (map Suc (map snd (map (map_prod id value_depth) kvs))) 0"
| "value_depth (JExotic kvs) = 0"
| "value_depth JFun = 0"

primrec value_bytes :: "jv \<Rightarrow> int" where
  "value_bytes JUndef = 0"
| "value_bytes JNull = 8"
| "value_bytes (JBool b) = 8"
| "value_bytes (JNum n) = 32"
| "value_bytes JNonFin = 0"
| "value_bytes (JStr s) = blen s + 2"
| "value_bytes (JArr vs) = blen vs + 2 + sum_list (map value_bytes vs)"
| "value_bytes (JObj kvs) = blen kvs + 2 + sum_list (map (\<lambda>kv. blen (fst kv) + 3) (map (map_prod id value_bytes) kvs)) +
     sum_list (map snd (map (map_prod id value_bytes) kvs))"
| "value_bytes (JExotic kvs) = 0"
| "value_bytes JFun = 0"

lemma blen_nonneg [simp]: "0 \<le> blen xs"
  by (simp add: blen_def)

lemma value_bytes_nonneg: "0 \<le> value_bytes v"
proof (induction v rule: jv_induct)
  case (JArr vs)
  then have "0 \<le> sum_list (map value_bytes vs)" by (intro sum_list_nonneg) auto
  then show ?case by (simp add: add_nonneg_nonneg)
next
  case (JObj kvs)
  then have "0 \<le> sum_list (map snd (map (map_prod id value_bytes) kvs))" by (intro sum_list_nonneg) auto
  moreover have "0 \<le> sum_list (map (\<lambda>kv. blen (fst kv) + 3) (map (map_prod id value_bytes) kvs))" by (intro sum_list_nonneg) auto
  ultimately show ?case by (simp add: add_nonneg_nonneg)
qed (simp_all add: add_nonneg_nonneg)

lemma foldr_max_le: "foldr max xs (0 :: nat) \<le> n \<longleftrightarrow> (\<forall>x \<in> set xs. x \<le> n)"
  by (induction xs) auto

lemma visit_ok:
  assumes "visit_value v = Inr (c, ws)"
  shows "plain_json v \<longleftrightarrow> (\<forall>w \<in> set ws. plain_json w)"
    and "value_bytes v = c + sum_list (map value_bytes ws)"
    and "value_depth v \<le> n \<longleftrightarrow> (\<forall>w \<in> set ws. value_depth w + 1 \<le> n)"
  using assms
  by (cases v; force simp: visit_value_def list_all_iff foldr_max_le rev_map [symmetric] sum_list_rev comp_def
      split: if_splits)+

lemma visit_cost: "visit_value v = Inr (c, ws) \<Longrightarrow> 0 \<le> c"
  by (cases v) (auto simp: visit_value_def split: if_splits intro!: add_nonneg_nonneg sum_list_nonneg)

lemma visit_refused:
  "visit_value v = Inl e \<Longrightarrow> \<not> plain_json v \<or> value_bytes v > MAX_SHARD_ENTRY_BYTES"
proof (cases v)
  case (JArr vs)
  assume "visit_value v = Inl e"
  then have "blen vs > MAX_SHARD_ENTRY_BYTES" using JArr by (simp add: visit_value_def split: if_splits)
  moreover have "0 \<le> sum_list (map value_bytes vs)" using value_bytes_nonneg by (intro sum_list_nonneg) auto
  ultimately show ?thesis using JArr by simp
qed (simp_all add: visit_value_def)

lemma bounded_loop_iff:
  "0 \<le> bytes \<Longrightarrow> bytes \<le> MAX_SHARD_ENTRY_BYTES \<Longrightarrow> bounded_loop pending bytes = Inr () \<longleftrightarrow>
     (\<forall>(v, d) \<in> set pending. plain_json v \<and> value_depth v + d \<le> MAX_SHARD_JSON_DEPTH) \<and>
     bytes + sum_list (map (\<lambda>x. value_bytes (fst x)) pending) \<le> MAX_SHARD_ENTRY_BYTES"
proof (induction pending bytes rule: bounded_loop.induct)
  case (2 v depth pending bytes)
  have rest: "0 \<le> sum_list (map (\<lambda>x. value_bytes (fst x)) pending)"
    using value_bytes_nonneg by (intro sum_list_nonneg) auto
  show ?case
  proof (cases "depth > MAX_SHARD_JSON_DEPTH")
    case False
    show ?thesis
    proof (cases "visit_value v")
      case (Inl e)
      with visit_refused [OF Inl] False rest 2(2,3) show ?thesis by auto
    next
      case (Inr r)
      obtain c ws where r: "r = (c, ws)" by fastforce
      note v = visit_ok [OF Inr [unfolded r]]
      let ?p = "map (\<lambda>w. (w, depth + 1)) ws @ pending"
      have kids: "0 \<le> sum_list (map value_bytes ws)"
        using value_bytes_nonneg by (intro sum_list_nonneg) auto
      have total: "bytes + c + sum_list (map (\<lambda>x. value_bytes (fst x)) ?p) =
          bytes + sum_list (map (\<lambda>x. value_bytes (fst x)) ((v, depth) # pending))" using v(2) by (simp add: comp_def)
      have deep: "(\<forall>w \<in> set ws. value_depth w + (depth + 1) \<le> MAX_SHARD_JSON_DEPTH) \<longleftrightarrow> value_depth v + depth \<le> MAX_SHARD_JSON_DEPTH"
        using v(3) [of "MAX_SHARD_JSON_DEPTH - depth"] False by (auto simp: le_diff_conv2)
      have kids_ok: "(\<forall>(w, d) \<in> set ?p. plain_json w \<and> value_depth w + d \<le> MAX_SHARD_JSON_DEPTH) \<longleftrightarrow>
          (\<forall>w \<in> set ws. plain_json w) \<and> (\<forall>w \<in> set ws. value_depth w + (depth + 1) \<le> MAX_SHARD_JSON_DEPTH) \<and>
          (\<forall>(w, d) \<in> set pending. plain_json w \<and> value_depth w + d \<le> MAX_SHARD_JSON_DEPTH)"
        by (simp add: ball_Un ball_conj_distrib)
      show ?thesis
      proof (cases "bytes + c > MAX_SHARD_ENTRY_BYTES")
        case True
        with False Inr r rest kids v(2) show ?thesis by auto
      next
        case le: False
        have "bounded_loop ((v, depth) # pending) bytes = bounded_loop ?p (bytes + c)"
          using False Inr r le by simp
        also have "\<dots> = Inr () \<longleftrightarrow> (\<forall>(w, d) \<in> set ?p. plain_json w \<and> value_depth w + d \<le> MAX_SHARD_JSON_DEPTH) \<and>
            bytes + c + sum_list (map (\<lambda>x. value_bytes (fst x)) ?p) \<le> MAX_SHARD_ENTRY_BYTES"
          using 2(1) [OF False Inr r [symmetric] le] le 2(2) visit_cost [OF Inr [unfolded r]] by simp
        also have "\<dots> \<longleftrightarrow> (\<forall>(w, d) \<in> set ((v, depth) # pending). plain_json w \<and> value_depth w + d \<le> MAX_SHARD_JSON_DEPTH) \<and>
            bytes + sum_list (map (\<lambda>x. value_bytes (fst x)) ((v, depth) # pending)) \<le> MAX_SHARD_ENTRY_BYTES"
          unfolding total kids_ok using v(1) deep by (simp add: ball_conj_distrib)
        finally show ?thesis .
      qed
    qed
  qed auto
qed simp

lemma plain_stringify: "plain_json v \<Longrightarrow> uncheckedStableStringify v \<noteq> None"
  by (cases v) (simp_all add: uncheckedStableStringify_def)

lemma assertBounded_iff:
  "assertBoundedSerializable v = Inr () \<longleftrightarrow>
     plain_json v \<and> value_depth v \<le> MAX_SHARD_JSON_DEPTH \<and> value_bytes v \<le> MAX_SHARD_ENTRY_BYTES \<and>
     blen (json_text (sort_keys v)) \<le> MAX_SHARD_ENTRY_BYTES"
  using bounded_loop_iff [of 0 "[(v, 0)]"] plain_stringify [of v]
  by (auto simp: assertBoundedSerializable_def json_text_def uncheckedStableStringify_def MAX_SHARD_ENTRY_BYTES_def
      split: sum.splits option.splits if_splits)

lemma stableStringify_Inr: "stableStringify v = Inr t \<longleftrightarrow> assertBoundedSerializable v = Inr () \<and> t = json_text (sort_keys v)"
  by (auto simp: stableStringify_def split: sum.splits)

section \<open>The shard chain\<close>

definition payload_text :: "shard_entry \<Rightarrow> string" where
  "payload_text e = json_text (sort_keys (se_payload e))"

definition shard_text :: "(string \<Rightarrow> string) \<Rightarrow> shard_entry \<Rightarrow> string" where
  "shard_text H e = json_text (sort_keys (entry_object e (H (payload_text e))))"

lemma shardEntryHash_Inr: "shardEntryHash H e = Inr h \<Longrightarrow> h = H (shard_text H e)"
  by (auto simp: shardEntryHash_def stableStringify_Inr shard_text_def payload_text_def split: sum.splits)

lemma shard_text_eq:
  "shard_text H e = ''{'' @ json_string ''delegationId'' @ '':'' @ json_string (se_delegationId e) @
     '','' @ json_string ''kind'' @ '':'' @ json_string (se_kind e) @
     '','' @ json_string ''payloadHash'' @ '':'' @ json_string (H (payload_text e)) @
     '','' @ json_string ''prevHash'' @ '':'' @ json_string (se_prevHash e) @
     '','' @ json_string ''seq'' @ '':'' @ digits_of (se_seq e) @
     '','' @ json_string ''ts'' @ '':'' @ json_string (se_ts e) @ ''}''"
  by (simp add: shard_text_def entry_object_def json_text_def sort_entries_def json_object_def json_member_def
      less_char_def string_of_int_def)

type_synonym shard_body = "string \<times> nat \<times> string \<times> string \<times> string"

definition shard_body :: "(string \<Rightarrow> string) \<Rightarrow> shard_entry \<Rightarrow> shard_body" where
  "shard_body H e = (se_delegationId e, se_seq e, se_kind e, se_ts e, H (payload_text e))"

lemma shard_text_inj:
  "shard_text H e = shard_text H f \<Longrightarrow> shard_body H e = shard_body H f \<and> se_prevHash e = se_prevHash f"
  unfolding shard_text_eq shard_body_def by (auto dest: digits_comma_inj)

text \<open>The chain without its numbering, which is checked beside it.\<close>

definition shard_link :: "(string \<Rightarrow> string) \<Rightarrow> string \<Rightarrow> string \<Rightarrow> shard_entry \<Rightarrow> bool" where
  "shard_link H delegationId prev e \<longleftrightarrow> se_delegationId e = delegationId \<and> se_prevHash e = prev \<and>
     length (se_hash e) = 64 \<and> length (se_prevHash e) = 64 \<and> se_payload e \<noteq> JUndef \<and> shardEntryHash H e = Inr (se_hash e)"

fun shard_links :: "(string \<Rightarrow> string) \<Rightarrow> string \<Rightarrow> string \<Rightarrow> shard_entry list \<Rightarrow> bool" where
  "shard_links H delegationId prev [] = True"
| "shard_links H delegationId prev (e # es) = (shard_link H delegationId prev e \<and> shard_links H delegationId (se_hash e) es)"

interpretation shard: tamper_evident_chain "shard_links H delegationId" "shard_link H delegationId" se_hash
  H "shard_text H" "shard_body H" "\<lambda>_. True" for H delegationId
proof unfold_locales
  show "shard_links H delegationId p []" for p by simp
  show "shard_links H delegationId p (e # es) \<longleftrightarrow> shard_link H delegationId p e \<and> shard_links H delegationId (se_hash e) es" for p e es
    by simp
  show "se_hash e = H (shard_text H e)" if "shard_link H delegationId p e" for p e
    using that shardEntryHash_Inr by (auto simp: shard_link_def)
  show "p = q \<and> shard_body H e = shard_body H f"
    if "shard_link H delegationId p e" "shard_link H delegationId q f" "shard_text H e = shard_text H f" for p q e f
    using that(1,2) shard_text_inj [OF that(3)] by (auto simp: shard_link_def)
qed

lemma verify_from_iff:
  "verify_from H delegationId i prev es \<longleftrightarrow>
     shard_links H delegationId prev es \<and> map se_seq es = [i + 1..<i + 1 + length es]"
proof (induction es arbitrary: i prev)
  case (Cons e es)
  have "[i + 1..<i + 1 + length (e # es)] = (i + 1) # [i + 2..<i + 2 + length es]" by (simp add: upt_rec)
  then show ?case using Cons by (auto simp: entry_ok_def shard_link_def)
qed simp

lemma entriesVerify_iff:
  "entriesVerify H es delegationId \<longleftrightarrow>
     shard_links H delegationId SHARD_GENESIS es \<and> map se_seq es = [1..<1 + length es]"
  by (simp add: entriesVerify_def verify_from_iff)

lemma entriesVerify_snoc:
  "entriesVerify H (es @ [e]) delegationId \<longleftrightarrow> entriesVerify H es delegationId \<and>
     shard_link H delegationId (shard.tip SHARD_GENESIS es) e \<and> se_seq e = length es + 1"
proof -
  have "map se_seq (es @ [e]) = [1..<1 + length (es @ [e])] \<longleftrightarrow> map se_seq es = [1..<1 + length es] \<and> se_seq e = length es + 1"
    by simp
  then show ?thesis unfolding entriesVerify_iff shard.chain_ok_snoc by auto
qed

definition hex_digest :: "(string \<Rightarrow> string) \<Rightarrow> bool" where
  "hex_digest H \<longleftrightarrow> (\<forall>t. length (H t) = 64)"

text \<open>Two texts on which the digest agrees.\<close>

definition collision :: "(string \<Rightarrow> string) \<Rightarrow> bool" where
  "collision H \<longleftrightarrow> (\<exists>x y. x \<noteq> y \<and> H x = H y)"

definition shard_content :: "shard_entry \<Rightarrow> string \<times> nat \<times> string \<times> string \<times> string" where
  "shard_content e = (se_delegationId e, se_seq e, se_kind e, se_ts e, payload_text e)"

lemma body_content:
  "shard_body H e = shard_body H f \<Longrightarrow> shard_content e = shard_content f \<or> collision H"
  by (auto simp: shard_body_def shard_content_def collision_def)

lemma verified_shards_agree:
  assumes "entriesVerify H es d" and "entriesVerify H fs d" and "length es = length fs"
    and "shard.tip SHARD_GENESIS es = shard.tip SHARD_GENESIS fs"
  shows "map shard_content es = map shard_content fs \<or> collision H"
proof (cases "es = []")
  case False
  have "map (shard_body H) es = map (shard_body H) fs \<or> collision H"
    using shard.same_tip_same_log [OF assms(3), where p = SHARD_GENESIS and q = SHARD_GENESIS and H = H and delegationId = d]
      assms False unfolding entriesVerify_iff collision_def by blast
  moreover have "map shard_content es = map shard_content fs" if b: "map (shard_body H) es = map (shard_body H) fs" "\<not> collision H"
  proof (rule nth_equalityI)
    fix i assume "i < length (map shard_content es)"
    then have i: "i < length es" "i < length fs" using assms(3) by simp_all
    then have "shard_body H (es ! i) = shard_body H (fs ! i)" using b(1) by (metis nth_map)
    with body_content b(2) i show "map shard_content es ! i = map shard_content fs ! i" by fastforce
  qed (use assms(3) in simp)
  ultimately show ?thesis by blast
qed (use assms(3) in simp)

section \<open>Properties of shards and payloads\<close>



definition demo_digest :: "string \<Rightarrow> string" where
  "demo_digest t = replicate 64 (CHR ''a'')"

definition demo_shard :: "string \<Rightarrow> shard_entry list" where
  "demo_shard payload = [\<lparr>se_delegationId = ''d-a'', se_seq = 1, se_prevHash = SHARD_GENESIS, se_hash = demo_digest [], se_kind = ''note'',
     se_payload = JStr payload, se_ts = ''t''\<rparr>]"


end
