(* ===== verification/Delegation.thy ===== *)
theory Delegation
  imports Delegation_Shard
begin

text \<open>
  The delegation manager of \<open>core-ts/src/orchestration/index.ts\<close>: spawning a sub-agent for a ready task,
  its handle with append, complete and fail, resuming a failed delegation, scheduling with cascade skips
  and the shared run budget. Recovery from the durable store is in \<open>Delegation_Recovery\<close>.

  Parameters: the digest, the spelling of a spend, the card registry, the paths a skill writes, the
  writable servers, the clock and the durable store. A store call returns the new store and whether it
  succeeded, so a call that throws may still have changed the store. A handle is the delegation identifier
  and the epoch it captured; the state object it closes over is the entry of the manager's map, which is
  never replaced once a handle was issued.
\<close>

section \<open>State\<close>

datatype context_strategy = CsCompact | CsFull
datatype card_provenance = PvBuiltin | PvUser | PvCommunity

record agent_card =
  ac_name :: string
  ac_description :: "string option"
  ac_instructions :: string
  ac_skills :: "string list"
  ac_mcpAllowlist :: "string list"
  ac_toolTiers :: "(string, int) jsmap"
  ac_maxIterations :: nat
  ac_contextStrategy :: context_strategy
  ac_provenance :: card_provenance

datatype delegation_status = DsActive | DsCompleted | DsFailed | DsResumed

record task_observation =
  ob_delegationId :: string
  ob_status :: delegation_status
  ob_summary :: string
  ob_touched :: "string list"
  ob_result :: jv
  ob_cost :: "int iteration_cost"

record delegation_state =
  ds_task :: delegation_task
  ds_card :: agent_card
  ds_owns :: "string list"
  ds_writableMcp :: "string list"
  ds_permittedTools :: "string list"
  ds_entries :: "shard_entry list"
  ds_guardian :: loop_guardian
  ds_status :: delegation_status
  ds_observation :: "task_observation option"

record checkpoint =
  cp_delegationId :: string
  cp_taskId :: string
  cp_binding :: resolved_binding
  cp_scope :: delegation_scope
  cp_snapshotPrefixHash :: string
  cp_lastSeq :: nat

record persisted_delegation =
  pz_runId :: string
  pz_binding :: jv
  pz_task :: delegation_task
  pz_card :: agent_card
  pz_owns :: "string list"
  pz_writableMcp :: "string list"
  pz_permittedTools :: "string list"
  pz_entries :: "shard_entry list"
  pz_checkpoint :: checkpoint
  pz_status :: delegation_status
  pz_observation :: "task_observation option"

record persisted_run =
  pr_runId :: string
  pr_binding :: jv
  pr_budget :: "int option iteration_cost"
  pr_active :: "string list"
  pr_completed :: "string list"
  pr_failed :: "string list"
  pr_skipped :: "string list"

datatype quarantine_reason =
    LegacyOrInvalidState | BindingMismatch | BindingInactive | TaskOrCardMismatch | ShardIntegrityFailed | CheckpointMismatch

datatype delegation_error =
    PayloadRefused payload_error
  | NotResumable
  | Quarantined quarantine_reason
  | InvalidCost
  | InvalidSummary
  | InvalidRunSpend
  | UnknownTask
  | AlreadySpawned
  | TaskTerminal
  | NotReady "string list"
  | NoAssignedCard
  | CardNotFound string
  | LaneConflict string string "string list"
  | StoreFailed
  | UnknownDelegation
  | NoCheckpoint

text \<open>
  What the store holds for a run or a delegation: nothing, a value without the shape of the interface,
  a quarantine marker, or a record. \<open>None\<close> stands for a load that throws.
\<close>

datatype stored_run = NoRun | BadRun | RunRecord persisted_run
datatype stored_delegation = NoRecord | BadRecord | Marker quarantine_reason | DelegationRecord persisted_delegation

record 'p delegation_store =
  st_save :: "'p \<Rightarrow> persisted_delegation \<Rightarrow> 'p \<times> bool"
  st_saveRun :: "'p \<Rightarrow> persisted_run \<Rightarrow> 'p \<times> bool"
  st_load :: "'p \<Rightarrow> string \<Rightarrow> stored_delegation option"
  st_loadRun :: "'p \<Rightarrow> stored_run option"
  st_quarantine :: "'p \<Rightarrow> string \<Rightarrow> quarantine_reason \<Rightarrow> 'p"

record 'p delegation_deps =
  dd_digest :: "string \<Rightarrow> string"
  dd_usd :: "nat \<Rightarrow> string"
  dd_resolveCard :: "string \<Rightarrow> agent_card option"
  dd_skillTouchedPaths :: "string \<Rightarrow> string list"
  dd_mcpWritable :: "string \<Rightarrow> bool"
  dd_persistence :: "'p delegation_store option"
  dd_isBindingActive :: "(resolved_binding \<Rightarrow> bool option) option"

datatype delegation_event =
    DelegationSpawned string string "string list" string
  | DelegationCompleted string string
  | DelegationFailed string string
  | DelegationResumed string nat
  | DelegationQuarantined string quarantine_reason
  | LaneViolated string string "string list"
  | CascadeSkip string

record 'p manager =
  dm_runId :: string
  dm_binding :: resolved_binding
  dm_plan :: plan_dag
  dm_completed :: "string list"
  dm_failed :: "string list"
  dm_skipped :: "string list"
  dm_delegations :: "(string, delegation_state) jsmap"
  dm_checkpoints :: "(string, checkpoint) jsmap"
  dm_issued :: "string list"
  dm_epochs :: "(string, nat) jsmap"
  dm_budget :: "int iteration_cost"
  dm_nanos :: nat
  dm_store :: 'p
  dm_events :: "delegation_event list"

record delegation_handle =
  dh_id :: string
  dh_epoch :: nat
  dh_taskId :: string
  dh_card :: agent_card
  dh_owns :: "string list"
  dh_writableMcp :: "string list"

section \<open>Helpers\<close>

definition set_add :: "'a \<Rightarrow> 'a list \<Rightarrow> 'a list" where
  "set_add x xs = (if x \<in> set xs then xs else xs @ [x])"

definition delegationIdFor :: "string \<Rightarrow> string" where
  "delegationIdFor taskId = ''d-'' @ taskId"

definition dm_emit :: "delegation_event \<Rightarrow> 'p manager \<Rightarrow> 'p manager" where
  "dm_emit e m = m\<lparr>dm_events := dm_events m @ [e]\<rparr>"

definition task_by_id :: "'p manager \<Rightarrow> string \<Rightarrow> delegation_task option" where
  "task_by_id m taskId = find (\<lambda>t. dt_taskId t = taskId) (pl_nodes (dm_plan m))"

definition isTerminal :: "'p manager \<Rightarrow> string \<Rightarrow> bool" where
  "isTerminal m taskId \<longleftrightarrow> taskId \<in> set (dm_completed m) \<or> taskId \<in> set (dm_failed m) \<or> taskId \<in> set (dm_skipped m)"

definition running :: "delegation_state \<Rightarrow> bool" where
  "running st \<longleftrightarrow> ds_status st = DsActive \<or> ds_status st = DsResumed"

definition activeOwns :: "'p manager \<Rightarrow> string option \<Rightarrow> (string \<times> string list) list" where
  "activeOwns m exceptId =
     map (\<lambda>(i, st). (i, ds_owns st)) (filter (\<lambda>(i, st). Some i \<noteq> exceptId \<and> running st) (dm_delegations m))"

definition first_overlap :: "string list \<Rightarrow> (string \<times> string list) list \<Rightarrow> (string \<times> string list) option" where
  "first_overlap owns others =
     (case find (\<lambda>(i, o1). overlappingPaths owns o1 \<noteq> []) others of
        None \<Rightarrow> None
      | Some (i, o1) \<Rightarrow> Some (i, overlappingPaths owns o1))"

definition nextRunBudget :: "'p delegation_deps \<Rightarrow> 'p manager \<Rightarrow> int iteration_cost \<Rightarrow> nat \<Rightarrow> (int iteration_cost \<times> nat) option" where
  "nextRunBudget deps m cost nanos =
     (let iterations = ic_iterations (dm_budget m) + ic_iterations cost;
          wallMs = ic_wallMs (dm_budget m) + ic_wallMs cost;
          nextNanos = dm_nanos m + nanos
      in if \<not> isSafeInteger iterations \<or> \<not> isSafeInteger wallMs \<or> nextNanos > MAX_SAFE_USD_NANOS then None
         else (case spendUsdFromNanos (dd_usd deps) nextNanos of
                 None \<Rightarrow> None
               | Some spend \<Rightarrow> Some (\<lparr>ic_iterations = iterations, ic_spendUsd = spend, ic_wallMs = wallMs\<rparr>, nextNanos)))"

definition withinDelegationBudget :: "delegation_state \<Rightarrow> int iteration_cost \<Rightarrow> nat \<Rightarrow> bool" where
  "withinDelegationBudget st cost nanos \<longleftrightarrow>
     ic_iterations cost \<le> int (bs_iterations (dt_budgetSlice (ds_task st))) \<and>
     ic_iterations cost \<le> int (dt_maxIterations (ds_task st)) \<and>
     ic_iterations cost \<le> int (ac_maxIterations (ds_card st)) \<and>
     (case iterationCostSpendNanos (bs_spendUsd (dt_budgetSlice (ds_task st))) of
        None \<Rightarrow> False
      | Some slice \<Rightarrow> nanos \<le> slice)"

definition bindingIsActive :: "'p delegation_deps \<Rightarrow> resolved_binding \<Rightarrow> bool" where
  "bindingIsActive deps b =
     (case dd_isBindingActive deps of
        None \<Rightarrow> True
      | Some f \<Rightarrow> (case f b of None \<Rightarrow> False | Some r \<Rightarrow> r))"

definition last_hash :: "shard_entry list \<Rightarrow> string" where
  "last_hash es = (if es = [] then SHARD_GENESIS else se_hash (last es))"

definition last_seq :: "shard_entry list \<Rightarrow> nat" where
  "last_seq es = (if es = [] then 0 else se_seq (last es))"

definition checkpointFor :: "resolved_binding \<Rightarrow> string \<Rightarrow> delegation_state \<Rightarrow> checkpoint" where
  "checkpointFor b delegationId st =
     \<lparr>cp_delegationId = delegationId, cp_taskId = dt_taskId (ds_task st), cp_binding = b,
      cp_scope = dt_scope (ds_task st), cp_snapshotPrefixHash = last_hash (ds_entries st), cp_lastSeq = last_seq (ds_entries st)\<rparr>"

definition put_state :: "string \<Rightarrow> delegation_state \<Rightarrow> 'p manager \<Rightarrow> 'p manager" where
  "put_state delegationId st m = m\<lparr>dm_delegations := AList.update delegationId st (dm_delegations m)\<rparr>"

definition writeCheckpoint :: "string \<Rightarrow> delegation_state \<Rightarrow> 'p manager \<Rightarrow> 'p manager" where
  "writeCheckpoint delegationId st m =
     m\<lparr>dm_checkpoints := AList.update delegationId (checkpointFor (dm_binding m) delegationId st) (dm_checkpoints m)\<rparr>"

lemma nextRunBudget_code [code]:
  "nextRunBudget deps m cost nanos =
     (let iterations = ic_iterations (dm_budget m) + ic_iterations cost;
          wallMs = ic_wallMs (dm_budget m) + ic_wallMs cost;
          nextNanos = dm_nanos m + nanos
      in if \<not> isSafeInteger iterations \<or> \<not> isSafeInteger wallMs \<or> int nextNanos > 9007199254740991 then None
         else (case spendUsdFromNanos (dd_usd deps) nextNanos of
                 None \<Rightarrow> None
               | Some spend \<Rightarrow> Some (\<lparr>ic_iterations = iterations, ic_spendUsd = spend, ic_wallMs = wallMs\<rparr>, nextNanos)))"
  unfolding nextRunBudget_def max_nanos_int Let_def ..

section \<open>Persistence\<close>

definition persistedState :: "'p manager \<Rightarrow> string \<Rightarrow> delegation_state \<Rightarrow> persisted_delegation" where
  "persistedState m delegationId st =
     \<lparr>pz_runId = dm_runId m, pz_binding = resolved_json (dm_binding m), pz_task = ds_task st, pz_card = ds_card st,
      pz_owns = ds_owns st, pz_writableMcp = ds_writableMcp st, pz_permittedTools = sort (ds_permittedTools st),
      pz_entries = ds_entries st,
      pz_checkpoint = (case map_of (dm_checkpoints m) delegationId of
          None \<Rightarrow> checkpointFor (dm_binding m) delegationId st | Some c \<Rightarrow> c),
      pz_status = ds_status st, pz_observation = ds_observation st\<rparr>"

definition raw_cost :: "int iteration_cost \<Rightarrow> int option iteration_cost" where
  "raw_cost c = \<lparr>ic_iterations = Some (ic_iterations c), ic_spendUsd = ic_spendUsd c, ic_wallMs = Some (ic_wallMs c)\<rparr>"

definition persistedRunState :: "'p delegation_deps \<Rightarrow> 'p manager \<Rightarrow> delegation_error + persisted_run" where
  "persistedRunState deps m =
     (case spendUsdFromNanos (dd_usd deps) (dm_nanos m) of
        None \<Rightarrow> Inl InvalidRunSpend
      | Some spend \<Rightarrow>
          Inr \<lparr>pr_runId = dm_runId m, pr_binding = resolved_json (dm_binding m),
               pr_budget = raw_cost ((dm_budget m)\<lparr>ic_spendUsd := spend\<rparr>),
               pr_active = sort (map (\<lambda>(i, st). dt_taskId (ds_task st)) (filter (\<lambda>(i, st). running st) (dm_delegations m))),
               pr_completed = sort (dm_completed m), pr_failed = sort (dm_failed m), pr_skipped = sort (dm_skipped m)\<rparr>)"

definition persistRun :: "'p delegation_deps \<Rightarrow> 'p manager \<Rightarrow> 'p \<times> (delegation_error + unit)" where
  "persistRun deps m =
     (case dd_persistence deps of
        None \<Rightarrow> (dm_store m, Inr ())
      | Some port \<Rightarrow>
          (case persistedRunState deps m of
             Inl e \<Rightarrow> (dm_store m, Inl e)
           | Inr r \<Rightarrow> (let (p, ok) = st_saveRun port (dm_store m) r in (p, if ok then Inr () else Inl StoreFailed))))"

definition dm_persist :: "'p delegation_deps \<Rightarrow> 'p manager \<Rightarrow> string \<Rightarrow> delegation_state \<Rightarrow> 'p \<times> (delegation_error + unit)" where
  "dm_persist deps m delegationId st =
     (case dd_persistence deps of
        None \<Rightarrow> (dm_store m, Inr ())
      | Some port \<Rightarrow>
          (let (p, ok) = st_save port (dm_store m) (persistedState m delegationId st)
           in if ok then persistRun deps (m\<lparr>dm_store := p\<rparr>) else (p, Inl StoreFailed)))"

definition dm_quarantine :: "'p delegation_deps \<Rightarrow> 'p manager \<Rightarrow> string \<Rightarrow> quarantine_reason \<Rightarrow> 'p manager" where
  "dm_quarantine deps m delegationId reason =
     dm_emit (DelegationQuarantined delegationId reason)
       (case dd_persistence deps of
          None \<Rightarrow> m
        | Some port \<Rightarrow> m\<lparr>dm_store := st_quarantine port (dm_store m) delegationId reason\<rparr>)"

section \<open>Handles\<close>

definition makeHandle :: "'p manager \<Rightarrow> string \<Rightarrow> delegation_state \<Rightarrow> 'p manager \<times> delegation_handle" where
  "makeHandle m delegationId st =
     (let epoch = get_or 0 (dm_epochs m) delegationId + 1
      in (m\<lparr>dm_epochs := AList.update delegationId epoch (dm_epochs m), dm_issued := set_add delegationId (dm_issued m)\<rparr>,
          \<lparr>dh_id = delegationId, dh_epoch = epoch, dh_taskId = dt_taskId (ds_task st), dh_card = ds_card st,
           dh_owns = ds_owns st, dh_writableMcp = ds_writableMcp st\<rparr>))"

definition handle_state :: "'p manager \<Rightarrow> delegation_handle \<Rightarrow> delegation_state option" where
  "handle_state m h =
     (case map_of (dm_delegations m) (dh_id h) of
        None \<Rightarrow> None
      | Some st \<Rightarrow> if map_of (dm_epochs m) (dh_id h) = Some (dh_epoch h) \<and> running st then Some st else None)"

definition permitsTool :: "'p manager \<Rightarrow> delegation_handle \<Rightarrow> string \<Rightarrow> bool" where
  "permitsTool m h name = (case handle_state m h of None \<Rightarrow> False | Some st \<Rightarrow> name \<in> set (ds_permittedTools st))"

definition permitsMcp :: "'p manager \<Rightarrow> delegation_handle \<Rightarrow> string \<Rightarrow> bool" where
  "permitsMcp m h server = (case handle_state m h of None \<Rightarrow> False | Some st \<Rightarrow> server \<in> set (ds_writableMcp st))"

definition new_entry :: "(string \<Rightarrow> string) \<Rightarrow> string \<Rightarrow> shard_entry list \<Rightarrow> string \<Rightarrow> string \<Rightarrow> jv \<Rightarrow> payload_error + shard_entry" where
  "new_entry H delegationId entries ts kind payload =
     (case assertBoundedSerializable payload of
        Inl e \<Rightarrow> Inl e
      | Inr _ \<Rightarrow>
          (let base = \<lparr>se_delegationId = delegationId, se_seq = last_seq entries + 1, se_prevHash = last_hash entries,
                       se_hash = [], se_kind = kind, se_payload = payload, se_ts = ts\<rparr>
           in case shardEntryHash H base of
                Inl e \<Rightarrow> Inl e
              | Inr h \<Rightarrow> Inr (base\<lparr>se_hash := h\<rparr>)))"

definition appendShard :: "'p delegation_deps \<Rightarrow> 'p manager \<Rightarrow> string \<Rightarrow> delegation_state \<Rightarrow> string \<Rightarrow> string \<Rightarrow> jv \<Rightarrow>
    'p manager \<times> (delegation_error + shard_entry)" where
  "appendShard deps m delegationId st ts kind payload =
     (if \<not> running st then (m, Inl NotResumable)
      else
        (case new_entry (dd_digest deps) delegationId (ds_entries st) ts kind payload of
           Inl e \<Rightarrow> (m, Inl (PayloadRefused e))
         | Inr entry \<Rightarrow>
             (let st' = st\<lparr>ds_entries := ds_entries st @ [entry]\<rparr>;
                  m1 = writeCheckpoint delegationId st' (put_state delegationId st' m)
              in case dm_persist deps m1 delegationId st' of
                   (p, Inr _) \<Rightarrow> (m1\<lparr>dm_store := p\<rparr>, Inr entry)
                 | (p, Inl e) \<Rightarrow>
                     (put_state delegationId (st'\<lparr>ds_entries := butlast (ds_entries st')\<rparr>)
                        (m1\<lparr>dm_store := p,
                            dm_checkpoints := (case map_of (dm_checkpoints m) delegationId of
                                None \<Rightarrow> AList.delete delegationId (dm_checkpoints m1)
                              | Some c \<Rightarrow> AList.update delegationId c (dm_checkpoints m1))\<rparr>), Inl e))))"

definition h_append :: "'p delegation_deps \<Rightarrow> 'p manager \<Rightarrow> delegation_handle \<Rightarrow> string \<Rightarrow> string \<Rightarrow> jv \<Rightarrow>
    'p manager \<times> (delegation_error + shard_entry)" where
  "h_append deps m h ts kind payload =
     (case handle_state m h of
        None \<Rightarrow> (m, Inl NotResumable)
      | Some st \<Rightarrow> appendShard deps m (dh_id h) st ts kind payload)"

definition h_shard :: "'p manager \<Rightarrow> delegation_handle \<Rightarrow> shard_entry list" where
  "h_shard m h = (case map_of (dm_delegations m) (dh_id h) of None \<Rightarrow> [] | Some st \<Rightarrow> ds_entries st)"

definition h_guardian :: "'p manager \<Rightarrow> delegation_handle \<Rightarrow> delegation_error + loop_guardian" where
  "h_guardian m h = (case handle_state m h of None \<Rightarrow> Inl NotResumable | Some st \<Rightarrow> Inr (ds_guardian st))"

definition summary_ok :: "string \<Rightarrow> bool" where
  "summary_ok s \<longleftrightarrow> \<not> (length (trim s) = 0 \<or> blen s > 8192)"

text \<open>
  The tail \<open>complete\<close> and \<open>fail\<close> share: record the observation under the new status, charge the run, persist, and
  undo all of it when the store refuses.
\<close>

definition settle_delegation :: "'p delegation_deps \<Rightarrow> 'p manager \<Rightarrow> string \<Rightarrow> delegation_state \<Rightarrow> delegation_status \<Rightarrow>
    task_observation \<Rightarrow> int iteration_cost \<times> nat \<Rightarrow> 'p manager \<times> (delegation_error + task_observation)" where
  "settle_delegation deps m delegationId st status observation budget =
     (let taskId = dt_taskId (ds_task st);
          st' = st\<lparr>ds_status := status, ds_observation := Some observation\<rparr>;
          done = status = DsCompleted;
          m1 = writeCheckpoint delegationId st' ((put_state delegationId st' m)\<lparr>
                 dm_completed := (if done then set_add taskId (dm_completed m) else dm_completed m),
                 dm_failed := (if done then dm_failed m else set_add taskId (dm_failed m)),
                 dm_budget := fst budget, dm_nanos := snd budget\<rparr>)
      in case dm_persist deps m1 delegationId st' of
           (p, Inr _) \<Rightarrow>
             (dm_emit (if done then DelegationCompleted delegationId taskId else DelegationFailed delegationId taskId)
                (m1\<lparr>dm_store := p\<rparr>), Inr observation)
         | (p, Inl e) \<Rightarrow>
             (put_state delegationId (st'\<lparr>ds_status := ds_status st, ds_observation := ds_observation st\<rparr>)
                (m1\<lparr>dm_store := p,
                    dm_completed := (if done then removeAll taskId (dm_completed m1) else dm_completed m1),
                    dm_failed := (if done then dm_failed m1 else removeAll taskId (dm_failed m1)),
                    dm_budget := dm_budget m, dm_nanos := dm_nanos m\<rparr>), Inl e))"

definition h_complete :: "'p delegation_deps \<Rightarrow> 'p manager \<Rightarrow> delegation_handle \<Rightarrow> string \<Rightarrow> jv \<Rightarrow> int option iteration_cost \<Rightarrow>
    'p manager \<times> (delegation_error + task_observation)" where
  "h_complete deps m h summary result cost =
     (case handle_state m h of
        None \<Rightarrow> (m, Inl NotResumable)
      | Some st \<Rightarrow>
          (case quantizedIterationCost (dd_usd deps) cost of
             None \<Rightarrow> (m, Inl InvalidCost)
           | Some (c, nanos) \<Rightarrow>
               if \<not> withinDelegationBudget st c nanos then (m, Inl InvalidCost)
               else if \<not> summary_ok summary then (m, Inl InvalidSummary)
               else
                 (case assertBoundedSerializable result of
                    Inl e \<Rightarrow> (m, Inl (PayloadRefused e))
                  | Inr _ \<Rightarrow>
                      (case nextRunBudget deps m c nanos of
                         None \<Rightarrow> (m, Inl InvalidCost)
                       | Some budget \<Rightarrow>
                           settle_delegation deps m (dh_id h) st DsCompleted
                             \<lparr>ob_delegationId = dh_id h, ob_status = DsCompleted, ob_summary = summary, ob_touched = ds_owns st,
                              ob_result = result, ob_cost = c\<rparr> budget))))"

definition h_fail :: "'p delegation_deps \<Rightarrow> 'p manager \<Rightarrow> delegation_handle \<Rightarrow> string \<Rightarrow> int option iteration_cost \<Rightarrow>
    'p manager \<times> (delegation_error + task_observation)" where
  "h_fail deps m h summary cost =
     (case handle_state m h of
        None \<Rightarrow> (m, Inl NotResumable)
      | Some st \<Rightarrow>
          (case quantizedIterationCost (dd_usd deps) cost of
             None \<Rightarrow> (m, Inl InvalidCost)
           | Some (c, nanos) \<Rightarrow>
               if \<not> summary_ok summary then (m, Inl InvalidSummary)
               else
                 (case nextRunBudget deps m c nanos of
                    None \<Rightarrow> (m, Inl InvalidCost)
                  | Some budget \<Rightarrow>
                      settle_delegation deps m (dh_id h) st DsFailed
                        \<lparr>ob_delegationId = dh_id h, ob_status = DsFailed, ob_summary = summary, ob_touched = ds_owns st,
                         ob_result = JUndef, ob_cost = c\<rparr> budget)))"

section \<open>The manager\<close>

definition makeDelegationManager :: "string \<Rightarrow> plan_input \<Rightarrow> jv \<Rightarrow> 'p \<Rightarrow> (binding_error + plan_error) + 'p manager" where
  "makeDelegationManager newRunId plan rawBinding store =
     (case resolvedWorkBinding rawBinding of
        Inl e \<Rightarrow> Inl (Inl e)
      | Inr b \<Rightarrow>
          (let dag = normalizePlan plan in
           case assertValidPlan dag of
             Inl e \<Rightarrow> Inl (Inr e)
           | Inr _ \<Rightarrow>
               Inr \<lparr>dm_runId = newRunId, dm_binding = b, dm_plan = dag, dm_completed = [], dm_failed = [], dm_skipped = [],
                    dm_delegations = [], dm_checkpoints = [], dm_issued = [], dm_epochs = [],
                    dm_budget = \<lparr>ic_iterations = 0, ic_spendUsd = ''0'', ic_wallMs = 0\<rparr>, dm_nanos = 0,
                    dm_store = store, dm_events = []\<rparr>))"

definition task_ready :: "'p manager \<Rightarrow> delegation_task \<Rightarrow> bool" where
  "task_ready m t \<longleftrightarrow> \<not> isTerminal m (dt_taskId t) \<and> map_of (dm_delegations m) (delegationIdFor (dt_taskId t)) = None \<and>
     list_all (\<lambda>d. d \<in> set (dm_completed m)) (dt_dependsOn t)"

definition readySet :: "'p manager \<Rightarrow> delegation_task list" where
  "readySet m = filter (task_ready m) (pl_nodes (dm_plan m))"

definition inGrantedLane :: "delegation_task \<Rightarrow> string \<Rightarrow> bool" where
  "inGrantedLane t p \<longleftrightarrow> list_ex (\<lambda>g. globMatches g p) (sc_owns (dt_scope t)) \<and>
     \<not> list_ex (\<lambda>g. globMatches g p) (sc_doNotTouch (dt_scope t))"

definition out_of_lane :: "'p delegation_deps \<Rightarrow> delegation_task \<Rightarrow> agent_card \<Rightarrow> string list" where
  "out_of_lane deps t agent = filter (\<lambda>p. \<not> inGrantedLane t p) (concat (map (dd_skillTouchedPaths deps) (ac_skills agent)))"

definition fresh_state :: "'p delegation_deps \<Rightarrow> delegation_task \<Rightarrow> agent_card \<Rightarrow> delegation_state" where
  "fresh_state deps t agent =
     \<lparr>ds_task = t, ds_card = agent, ds_owns = sc_owns (dt_scope t),
      ds_writableMcp = filter (dd_mcpWritable deps) (ac_mcpAllowlist agent), ds_permittedTools = map_keys (ac_toolTiers agent),
      ds_entries = [], ds_guardian = makeLoopGuardian, ds_status = DsActive, ds_observation = None\<rparr>"

definition start_delegation :: "'p delegation_deps \<Rightarrow> 'p manager \<Rightarrow> delegation_task \<Rightarrow> agent_card \<Rightarrow>
    'p manager \<times> (delegation_error + delegation_handle)" where
  "start_delegation deps m t agent =
     (let delegationId = delegationIdFor (dt_taskId t);
          st = fresh_state deps t agent;
          m1 = writeCheckpoint delegationId st (put_state delegationId st m)
      in case dm_persist deps m1 delegationId st of
           (p, Inl e) \<Rightarrow>
             (m1\<lparr>dm_store := p, dm_delegations := AList.delete delegationId (dm_delegations m1),
                 dm_checkpoints := AList.delete delegationId (dm_checkpoints m1)\<rparr>, Inl e)
         | (p, Inr _) \<Rightarrow>
             (let (m2, h) = makeHandle (dm_emit (DelegationSpawned delegationId (dt_taskId t) (ds_owns st) (ac_name agent))
                  (m1\<lparr>dm_store := p\<rparr>)) delegationId st
              in (m2, Inr h)))"

definition dm_spawn :: "'p delegation_deps \<Rightarrow> 'p manager \<Rightarrow> string \<Rightarrow> 'p manager \<times> (delegation_error + delegation_handle)" where
  "dm_spawn deps m taskId =
     (case task_by_id m taskId of
        None \<Rightarrow> (m, Inl UnknownTask)
      | Some t \<Rightarrow>
          (let delegationId = delegationIdFor taskId;
               unmet = filter (\<lambda>d. d \<notin> set (dm_completed m)) (dt_dependsOn t)
           in if map_of (dm_delegations m) delegationId \<noteq> None then (m, Inl AlreadySpawned)
              else if taskId \<in> set (dm_failed m) \<or> taskId \<in> set (dm_skipped m) then (m, Inl TaskTerminal)
              else if unmet \<noteq> [] then (m, Inl (NotReady unmet))
              else
                (case dt_assignedTo t of
                   None \<Rightarrow> (m, Inl NoAssignedCard)
                 | Some name \<Rightarrow>
                     (case dd_resolveCard deps name of
                        None \<Rightarrow> (m, Inl (CardNotFound name))
                      | Some agent \<Rightarrow>
                          (let outOfLane = out_of_lane deps t agent in
                           if outOfLane \<noteq> [] then
                             (dm_emit (LaneViolated delegationId taskId outOfLane) m,
                              Inl (LaneConflict delegationId (''card:'' @ ac_name agent) outOfLane))
                           else
                             (case first_overlap (sc_owns (dt_scope t)) (activeOwns m None) of
                                Some (other, paths) \<Rightarrow> (m, Inl (LaneConflict other delegationId paths))
                              | None \<Rightarrow> start_delegation deps m t agent))))))"

definition resume_refused :: "'p delegation_deps \<Rightarrow> 'p manager \<Rightarrow> string \<Rightarrow> delegation_state \<Rightarrow> checkpoint \<Rightarrow> quarantine_reason option" where
  "resume_refused deps m delegationId st cp =
     (if \<not> bindingIsActive deps (dm_binding m) then Some BindingInactive
      else if \<not> entriesVerify (dd_digest deps) (ds_entries st) delegationId then Some ShardIntegrityFailed
      else if cp \<noteq> checkpointFor (dm_binding m) delegationId st then Some CheckpointMismatch
      else None)"

definition resumeState :: "'p delegation_deps \<Rightarrow> 'p manager \<Rightarrow> string \<Rightarrow> delegation_state \<Rightarrow>
    'p manager \<times> (delegation_error + delegation_handle)" where
  "resumeState deps m delegationId st =
     (case map_of (dm_checkpoints m) delegationId of
        None \<Rightarrow> (m, Inl NoCheckpoint)
      | Some cp \<Rightarrow>
          (case resume_refused deps m delegationId st cp of
             Some reason \<Rightarrow> (dm_quarantine deps m delegationId reason, Inl (Quarantined reason))
           | None \<Rightarrow>
               (case first_overlap (ds_owns st) (activeOwns m (Some delegationId)) of
                  Some (other, paths) \<Rightarrow> (m, Inl (LaneConflict other delegationId paths))
                | None \<Rightarrow>
                    (let taskId = dt_taskId (ds_task st);
                         st' = st\<lparr>ds_status := DsResumed, ds_observation := None, ds_guardian := makeLoopGuardian\<rparr>;
                         m1 = (put_state delegationId st' m)\<lparr>dm_failed := removeAll taskId (dm_failed m)\<rparr>
                     in case dm_persist deps m1 delegationId st' of
                          (p, Inl e) \<Rightarrow>
                            (put_state delegationId
                               (st'\<lparr>ds_status := ds_status st, ds_guardian := ds_guardian st, ds_observation := ds_observation st\<rparr>)
                               (m1\<lparr>dm_store := p,
                                   dm_failed := (if ds_status st = DsFailed then set_add taskId (dm_failed m1) else dm_failed m1)\<rparr>), Inl e)
                        | (p, Inr _) \<Rightarrow>
                            (let (m2, h) = makeHandle (dm_emit (DelegationResumed delegationId (cp_lastSeq cp)) (m1\<lparr>dm_store := p\<rparr>)) delegationId st'
                             in (m2, Inr h))))))"

section \<open>Scheduling\<close>

definition blocked :: "string list \<Rightarrow> string list \<Rightarrow> delegation_task \<Rightarrow> bool" where
  "blocked failed skipped t \<longleftrightarrow> list_ex (\<lambda>d. d \<in> set failed \<or> d \<in> set skipped) (dt_dependsOn t)"

fun skip_pass :: "string list \<Rightarrow> string list \<Rightarrow> delegation_task list \<Rightarrow> string list \<Rightarrow> string list" where
  "skip_pass completed failed [] skipped = skipped"
| "skip_pass completed failed (t # ts) skipped =
     skip_pass completed failed ts
       (if \<not> (dt_taskId t \<in> set completed \<or> dt_taskId t \<in> set failed \<or> dt_taskId t \<in> set skipped) \<and> blocked failed skipped t
        then skipped @ [dt_taskId t] else skipped)"

lemma skip_pass_extends:
  "\<exists>new. skip_pass completed failed nodes skipped = skipped @ new \<and> set new \<subseteq> dt_taskId ` set nodes \<and>
     set new \<inter> (set skipped \<union> set completed \<union> set failed) = {} \<and> distinct new"
proof (induction nodes arbitrary: skipped)
  case (Cons t ts)
  let ?s = "if \<not> (dt_taskId t \<in> set completed \<or> dt_taskId t \<in> set failed \<or> dt_taskId t \<in> set skipped) \<and> blocked failed skipped t
        then skipped @ [dt_taskId t] else skipped"
  obtain new where "skip_pass completed failed ts ?s = ?s @ new" "set new \<subseteq> dt_taskId ` set ts"
    "set new \<inter> (set ?s \<union> set completed \<union> set failed) = {}" "distinct new" using Cons by blast
  then show ?case
    by (intro exI [of _ "drop (length skipped) ?s @ new"]) (auto split: if_splits)
qed simp

function skip_loop :: "string list \<Rightarrow> string list \<Rightarrow> delegation_task list \<Rightarrow> string list \<Rightarrow> string list" where
  "skip_loop completed failed nodes skipped =
     (let skipped' = skip_pass completed failed nodes skipped
      in if skipped' = skipped then skipped else skip_loop completed failed nodes skipped')"
  by pat_completeness auto
termination
proof (relation "measure (\<lambda>(c, f, ns, s). length (filter (\<lambda>t. dt_taskId t \<notin> set s) ns))", goal_cases)
  case (2 completed failed nodes skipped x)
  obtain new where n: "skip_pass completed failed nodes skipped = skipped @ new" "set new \<subseteq> dt_taskId ` set nodes"
    "set new \<inter> (set skipped \<union> set completed \<union> set failed) = {}" using skip_pass_extends by blast
  with 2 have "new \<noteq> []" by auto
  then obtain i where "i \<in> set new" by (cases new) auto
  with n obtain t where "t \<in> set nodes" "dt_taskId t = i" "i \<notin> set skipped" by blast
  with 2 n \<open>i \<in> set new\<close> show ?case by (auto intro!: length_filter_strict [of t])
qed simp

declare skip_loop.simps [simp del]

record schedule_result =
  sr_ready :: "string list"
  sr_cascadeSkipped :: "string list"

definition schedule_view :: "'p manager \<Rightarrow> schedule_result" where
  "schedule_view m =
     \<lparr>sr_ready = map dt_taskId (filter (task_ready m) (pl_nodes (dm_plan m))),
      sr_cascadeSkipped = map dt_taskId (filter (\<lambda>t. dt_taskId t \<in> set (dm_skipped m)) (pl_nodes (dm_plan m)))\<rparr>"

definition dm_schedule :: "'p delegation_deps \<Rightarrow> 'p manager \<Rightarrow> 'p manager \<times> (delegation_error + schedule_result)" where
  "dm_schedule deps m =
     (let skipped' = skip_loop (dm_completed m) (dm_failed m) (pl_nodes (dm_plan m)) (dm_skipped m);
          newlySkipped = drop (length (dm_skipped m)) skipped';
          m1 = m\<lparr>dm_skipped := skipped'\<rparr>
      in if newlySkipped = [] then (m1, Inr (schedule_view m1))
         else
           (case persistRun deps m1 of
              (p, Inl e) \<Rightarrow> (m1\<lparr>dm_store := p, dm_skipped := filter (\<lambda>i. i \<notin> set newlySkipped) skipped'\<rparr>, Inl e)
            | (p, Inr _) \<Rightarrow>
                (let m2 = foldl (\<lambda>acc i. dm_emit (CascadeSkip i) acc) (m1\<lparr>dm_store := p\<rparr>) newlySkipped
                 in (m2, Inr (schedule_view m2)))))"

definition runBudgetSpent :: "'p delegation_deps \<Rightarrow> 'p manager \<Rightarrow> delegation_error + int iteration_cost" where
  "runBudgetSpent deps m =
     (case spendUsdFromNanos (dd_usd deps) (dm_nanos m) of
        None \<Rightarrow> Inl InvalidRunSpend
      | Some spend \<Rightarrow> Inr ((dm_budget m)\<lparr>ic_spendUsd := spend\<rparr>))"

definition verifyShardChain :: "'p delegation_deps \<Rightarrow> 'p manager \<Rightarrow> string \<Rightarrow> bool" where
  "verifyShardChain deps m delegationId =
     (case map_of (dm_delegations m) delegationId of
        None \<Rightarrow> False
      | Some st \<Rightarrow> entriesVerify (dd_digest deps) (ds_entries st) delegationId)"

definition terminalObservation :: "'p manager \<Rightarrow> string \<Rightarrow> task_observation option" where
  "terminalObservation m delegationId =
     (case map_of (dm_delegations m) delegationId of None \<Rightarrow> None | Some st \<Rightarrow> ds_observation st)"

section \<open>Runs\<close>

definition resume_loaded :: "'p delegation_deps \<Rightarrow> 'p manager \<Rightarrow> string \<Rightarrow> delegation_state \<Rightarrow>
    'p manager \<times> (delegation_error + delegation_handle)" where
  "resume_loaded deps m delegationId st =
     (if ds_status st = DsCompleted then (m, Inl NotResumable)
      else if ds_status st \<noteq> DsFailed then (m, Inl NotResumable)
      else resumeState deps m delegationId st)"

datatype delegation_op =
    OpSpawn string
  | OpResume string
  | OpAppend delegation_handle string string jv
  | OpComplete delegation_handle string jv "int option iteration_cost"
  | OpFail delegation_handle string "int option iteration_cost"
  | OpSchedule

text \<open>
  One step of a run in one process, with the observation it hands to the parent. A resume of a delegation
  the manager does not hold is a recovery and not a step of this run.
\<close>

definition run_op :: "'p delegation_deps \<Rightarrow> 'p manager \<Rightarrow> delegation_op \<Rightarrow> 'p manager \<times> task_observation list" where
  "run_op deps m op =
     (case op of
        OpSpawn taskId \<Rightarrow> (fst (dm_spawn deps m taskId), [])
      | OpResume i \<Rightarrow> (case map_of (dm_delegations m) i of None \<Rightarrow> (m, []) | Some st \<Rightarrow> (fst (resume_loaded deps m i st), []))
      | OpAppend h ts kind payload \<Rightarrow> (fst (h_append deps m h ts kind payload), [])
      | OpComplete h summary result cost \<Rightarrow>
          (case h_complete deps m h summary result cost of (m', Inr ob) \<Rightarrow> (m', [ob]) | (m', Inl _) \<Rightarrow> (m', []))
      | OpFail h summary cost \<Rightarrow> (case h_fail deps m h summary cost of (m', Inr ob) \<Rightarrow> (m', [ob]) | (m', Inl _) \<Rightarrow> (m', []))
      | OpSchedule \<Rightarrow> (fst (dm_schedule deps m), []))"

definition delegation_step :: "'p delegation_deps \<Rightarrow> 'p manager \<Rightarrow> delegation_op \<Rightarrow> 'p manager" where
  "delegation_step deps m op = fst (run_op deps m op)"

end
