(* ===== verification/Delegation_Run.thy ===== *)
theory Delegation_Run
  imports Delegation
begin

text \<open>
  Properties of a run of the delegation manager: a refused store write is undone, the run invariant
  (disjoint write lanes, completed dependencies, a disjoint ledger, verifying shards, current checkpoints, an exact
  budget) is kept by every operation, cascade skips are the least fixed point, the schedule never gets stuck, the run
  budget is the sum of the reported costs and a stale handle stays refused.
\<close>

section \<open>Undoing a refused write\<close>

lemma update_same: "map_of m k = Some v \<Longrightarrow> AList.update k v m = m"
  by (induction m) (auto split: if_splits)

lemma update_twice: "AList.update k v (AList.update k w m) = AList.update k v m"
  by (induction m) auto

lemma delete_fresh: "map_of m k = None \<Longrightarrow> AList.delete k m = m"
  by (induction m) (auto split: if_splits)

lemma delete_update: "map_of m k = None \<Longrightarrow> AList.delete k (AList.update k v m) = m"
  by (induction m) (auto simp: delete_fresh split: if_splits)

lemma removeAll_set_add: "x \<notin> set xs \<Longrightarrow> removeAll x (set_add x xs) = xs"
  by (simp add: set_add_def)

lemma set_set_add [simp]: "set (set_add x xs) = insert x (set xs)"
  by (auto simp: set_add_def)

lemma delegationIdFor_inj [simp]: "delegationIdFor a = delegationIdFor b \<longleftrightarrow> a = b"
  by (simp add: delegationIdFor_def)

definition entry_inv :: "'p delegation_deps \<Rightarrow> 'p manager \<Rightarrow> string \<Rightarrow> delegation_state \<Rightarrow> bool" where
  "entry_inv deps m i st \<longleftrightarrow>
     ds_task st \<in> set (pl_nodes (dm_plan m)) \<and> i = delegationIdFor (dt_taskId (ds_task st)) \<and>
     ds_owns st = sc_owns (dt_scope (ds_task st)) \<and>
     set (dt_dependsOn (ds_task st)) \<subseteq> set (dm_completed m) \<and> dt_taskId (ds_task st) \<notin> set (dm_skipped m) \<and>
     (ds_status st = DsCompleted \<longleftrightarrow> dt_taskId (ds_task st) \<in> set (dm_completed m)) \<and>
     (ds_status st = DsFailed \<longleftrightarrow> dt_taskId (ds_task st) \<in> set (dm_failed m)) \<and>
     (running st \<longleftrightarrow> ds_observation st = None) \<and>
     entriesVerify (dd_digest deps) (ds_entries st) i \<and>
     map_of (dm_checkpoints m) i = Some (checkpointFor (dm_binding m) i st)"

definition lanes_inv :: "'p manager \<Rightarrow> bool" where
  "lanes_inv m \<longleftrightarrow> (\<forall>i j st st'. map_of (dm_delegations m) i = Some st \<longrightarrow> map_of (dm_delegations m) j = Some st' \<longrightarrow>
     i \<noteq> j \<longrightarrow> running st \<longrightarrow> running st' \<longrightarrow> overlappingPaths (ds_owns st) (ds_owns st') = [])"

definition ledger_inv :: "'p manager \<Rightarrow> bool" where
  "ledger_inv m \<longleftrightarrow> set (dm_completed m) \<inter> set (dm_failed m) = {} \<and> set (dm_completed m) \<inter> set (dm_skipped m) = {} \<and>
     set (dm_failed m) \<inter> set (dm_skipped m) = {} \<and>
     set (dm_completed m) \<union> set (dm_failed m) \<union> set (dm_skipped m) \<subseteq> dt_taskId ` set (pl_nodes (dm_plan m)) \<and>
     distinct (dm_completed m) \<and> distinct (dm_failed m) \<and> distinct (dm_skipped m)"

definition budget_inv :: "'p manager \<Rightarrow> bool" where
  "budget_inv m \<longleftrightarrow> 0 \<le> ic_iterations (dm_budget m) \<and> isSafeInteger (ic_iterations (dm_budget m)) \<and>
     0 \<le> ic_wallMs (dm_budget m) \<and> isSafeInteger (ic_wallMs (dm_budget m)) \<and>
     iterationCostSpendNanos (ic_spendUsd (dm_budget m)) = Some (dm_nanos m)"

definition dm_inv :: "'p delegation_deps \<Rightarrow> 'p manager \<Rightarrow> bool" where
  "dm_inv deps m \<longleftrightarrow>
     deps_wf (pl_nodes (dm_plan m)) \<and> acyclic (dep_rel (pl_nodes (dm_plan m))) \<and>
     wf_map (dm_delegations m) \<and> (\<forall>i. map_of (dm_checkpoints m) i = None \<longleftrightarrow> map_of (dm_delegations m) i = None) \<and>
     (\<forall>i st. map_of (dm_delegations m) i = Some st \<longrightarrow> entry_inv deps m i st) \<and>
     lanes_inv m \<and> ledger_inv m \<and> budget_inv m"

lemma dm_invD:
  assumes "dm_inv deps m"
  shows "deps_wf (pl_nodes (dm_plan m))" "acyclic (dep_rel (pl_nodes (dm_plan m)))" "wf_map (dm_delegations m)"
    "\<And>i. map_of (dm_checkpoints m) i = None \<longleftrightarrow> map_of (dm_delegations m) i = None"
    "\<And>i st. map_of (dm_delegations m) i = Some st \<Longrightarrow> entry_inv deps m i st"
    "lanes_inv m" "ledger_inv m" "budget_inv m"
  using assms by (simp_all add: dm_inv_def)

lemma entry_checkpoint: "entry_inv deps m i st \<Longrightarrow> map_of (dm_checkpoints m) i = Some (checkpointFor (dm_binding m) i st)"
  unfolding entry_inv_def by blast

lemma checkpointFor_cong [simp]:
  "checkpointFor b i (st\<lparr>ds_status := x\<rparr>) = checkpointFor b i st"
  "checkpointFor b i (st\<lparr>ds_observation := y\<rparr>) = checkpointFor b i st"
  "checkpointFor b i (st\<lparr>ds_guardian := g\<rparr>) = checkpointFor b i st"
  by (simp_all add: checkpointFor_def)

lemma handle_stateD:
  "handle_state m h = Some st \<Longrightarrow> map_of (dm_delegations m) (dh_id h) = Some st \<and> running st \<and>
     map_of (dm_epochs m) (dh_id h) = Some (dh_epoch h)"
  by (auto simp: handle_state_def split: option.splits if_splits)

lemma running_not_done: "running st \<Longrightarrow> ds_status st \<noteq> DsCompleted \<and> ds_status st \<noteq> DsFailed"
  by (auto simp: running_def)

lemma put_state_back:
  "map_of (dm_delegations m) i = Some st \<Longrightarrow> dm_delegations m' = AList.update i w (dm_delegations m) \<Longrightarrow>
     dm_delegations (put_state i st m') = dm_delegations m"
  by (simp add: put_state_def update_twice update_same)

lemma append_rollback:
  assumes "map_of (dm_delegations m) i = Some st" and "map_of (dm_checkpoints m) i = Some c"
    and "appendShard deps m i st ts kind payload = (m', Inl e)"
  shows "m' = m\<lparr>dm_store := dm_store m'\<rparr>"
  using assms
  by (auto simp: appendShard_def Let_def put_state_def writeCheckpoint_def update_twice update_same
      split: if_splits sum.splits prod.splits)

lemma settle_rollback:
  assumes inv: "dm_inv deps m" and st: "map_of (dm_delegations m) i = Some st" and run: "running st"
    and s: "settle_delegation deps m i st status ob budget = (m', Inl e)"
  shows "m' = m\<lparr>dm_store := dm_store m'\<rparr>"
proof -
  have ent: "entry_inv deps m i st" using dm_invD(5) [OF inv st] .
  have t: "dt_taskId (ds_task st) \<notin> set (dm_completed m)" "dt_taskId (ds_task st) \<notin> set (dm_failed m)"
    using ent running_not_done [OF run] by (auto simp: entry_inv_def)
  have c: "AList.update i (checkpointFor (dm_binding m) i st) (dm_checkpoints m) = dm_checkpoints m"
    using entry_checkpoint [OF ent] by (simp add: update_same)
  show ?thesis
    using s t by (auto simp: settle_delegation_def Let_def put_state_def writeCheckpoint_def update_twice update_same [OF st] c
        removeAll_set_add split: sum.splits prod.splits if_splits)
qed

lemma start_rollback:
  assumes "map_of (dm_delegations m) (delegationIdFor (dt_taskId t)) = None"
    and "map_of (dm_checkpoints m) (delegationIdFor (dt_taskId t)) = None"
    and "start_delegation deps m t agent = (m', Inl e)"
  shows "m' = m\<lparr>dm_store := dm_store m'\<rparr>"
  using assms
  by (auto simp: start_delegation_def Let_def put_state_def writeCheckpoint_def delete_update
      split: sum.splits prod.splits)

section \<open>The invariant of a run\<close>

lemma dm_inv_cong:
  assumes "dm_inv deps m" and "dm_plan m' = dm_plan m" "dm_binding m' = dm_binding m" "dm_completed m' = dm_completed m"
    "dm_failed m' = dm_failed m" "dm_skipped m' = dm_skipped m" "dm_delegations m' = dm_delegations m"
    "dm_checkpoints m' = dm_checkpoints m" "dm_budget m' = dm_budget m" "dm_nanos m' = dm_nanos m"
  shows "dm_inv deps m'"
  using assms(1) unfolding dm_inv_def entry_inv_def lanes_inv_def ledger_inv_def budget_inv_def assms(2-) .

lemma dm_inv_store [simp]: "dm_inv deps (m\<lparr>dm_store := p\<rparr>) = dm_inv deps m"
  by (rule iffI; erule dm_inv_cong) simp_all

lemma dm_inv_emit [simp]: "dm_inv deps (dm_emit e m) = dm_inv deps m"
  by (rule iffI; erule dm_inv_cong) (simp_all add: dm_emit_def)

lemma dm_inv_handle: "makeHandle m i st = (m', h) \<Longrightarrow> dm_inv deps m' = dm_inv deps m"
  by (rule iffI; erule dm_inv_cong) (auto simp: makeHandle_def Let_def)

lemma entry_inv_other:
  assumes "entry_inv deps m j st" and "dm_plan m' = dm_plan m" "dm_binding m' = dm_binding m"
    and "dt_taskId (ds_task st) \<in> set (dm_completed m') \<longleftrightarrow> dt_taskId (ds_task st) \<in> set (dm_completed m)"
    and "dt_taskId (ds_task st) \<in> set (dm_failed m') \<longleftrightarrow> dt_taskId (ds_task st) \<in> set (dm_failed m)"
    and "dt_taskId (ds_task st) \<notin> set (dm_skipped m')"
    and "set (dm_completed m) \<subseteq> set (dm_completed m')" and "map_of (dm_checkpoints m') j = map_of (dm_checkpoints m) j"
  shows "entry_inv deps m' j st"
  using assms unfolding entry_inv_def by auto

lemma dm_inv_update:
  assumes inv: "dm_inv deps m"
    and frame: "dm_plan m' = dm_plan m" "dm_binding m' = dm_binding m" "dm_skipped m' = dm_skipped m"
      "dm_delegations m' = AList.update i st' (dm_delegations m)"
      "dm_checkpoints m' = AList.update i c (dm_checkpoints m)"
    and ent: "entry_inv deps m' i st'"
    and sets: "\<And>t. t \<noteq> dt_taskId (ds_task st') \<Longrightarrow> (t \<in> set (dm_completed m') \<longleftrightarrow> t \<in> set (dm_completed m)) \<and>
        (t \<in> set (dm_failed m') \<longleftrightarrow> t \<in> set (dm_failed m))"
    and grow: "set (dm_completed m) \<subseteq> set (dm_completed m')"
    and lane: "\<And>j st. running st' \<Longrightarrow> map_of (dm_delegations m) j = Some st \<Longrightarrow> j \<noteq> i \<Longrightarrow> running st \<Longrightarrow>
        overlappingPaths (ds_owns st') (ds_owns st) = []"
    and led: "ledger_inv m'" and bud: "budget_inv m'"
  shows "dm_inv deps m'"
proof -
  note d = dm_invD [OF inv]
  have others: "entry_inv deps m' j st" if "map_of (dm_delegations m') j = Some st" for j st
  proof (cases "j = i")
    case True
    with that ent frame(4) show ?thesis by simp
  next
    case False
    with that frame(4) have old: "entry_inv deps m j st" using d(5) by simp
    have i: "i = delegationIdFor (dt_taskId (ds_task st'))" using ent unfolding entry_inv_def by blast
    have j: "j = delegationIdFor (dt_taskId (ds_task st))" "dt_taskId (ds_task st) \<notin> set (dm_skipped m)"
      using old unfolding entry_inv_def by blast+
    from False i j have "dt_taskId (ds_task st) \<noteq> dt_taskId (ds_task st')" by auto
    from sets [OF this] j(2) False show ?thesis
      by (intro entry_inv_other [OF old frame(1,2)]) (simp_all add: frame grow)
  qed
  have "lanes_inv m'"
    using d(6) lane overlap_sym unfolding lanes_inv_def frame(4) by (auto split: if_splits)
  moreover have "\<forall>j. map_of (dm_checkpoints m') j = None \<longleftrightarrow> map_of (dm_delegations m') j = None"
    using d(4) by (simp add: frame)
  ultimately show ?thesis
    using others d(1,2,3) led bud unfolding dm_inv_def by (simp add: frame)
qed

lemma first_overlap_None:
  assumes "first_overlap owns (activeOwns m ex) = None" and "map_of (dm_delegations m) j = Some st" and "running st" and "Some j \<noteq> ex"
  shows "overlappingPaths owns (ds_owns st) = []"
proof -
  have "find (\<lambda>(i, o1). overlappingPaths owns o1 \<noteq> []) (activeOwns m ex) = None"
    using assms(1) by (auto simp: first_overlap_def split: option.splits)
  moreover have "(j, ds_owns st) \<in> set (activeOwns m ex)"
    using map_of_SomeD [OF assms(2)] assms(3,4) by (force simp: activeOwns_def)
  ultimately show ?thesis by (force simp: find_None_iff)
qed

lemma tip_last_hash: "shard.tip SHARD_GENESIS es = last_hash es"
  by (simp add: shard.tip_def last_hash_def)

lemma last_seq_verified: "entriesVerify H es i \<Longrightarrow> last_seq es = length es"
proof (cases "es = []")
  case False
  assume "entriesVerify H es i"
  then have "map se_seq es = [1..<1 + length es]" by (simp add: entriesVerify_iff)
  then have "last (map se_seq es) = length es" using False by (auto simp: Suc_le_eq)
  with False show ?thesis by (simp add: last_seq_def last_map)
qed (simp add: last_seq_def)

lemma shardEntryHash_unhashed: "shardEntryHash H (e\<lparr>se_hash := h\<rparr>) = shardEntryHash H e"
  by (simp add: shardEntryHash_def entry_object_def split: sum.split)

lemma new_entry_verifies:
  assumes "hex_digest H" and "entriesVerify H es i" and "new_entry H i es ts kind payload = Inr e"
  shows "entriesVerify H (es @ [e]) i"
proof -
  let ?base = "\<lparr>se_delegationId = i, se_seq = last_seq es + 1, se_prevHash = last_hash es, se_hash = [],
      se_kind = kind, se_payload = payload, se_ts = ts\<rparr>"
  obtain h where h: "assertBoundedSerializable payload = Inr ()" "shardEntryHash H ?base = Inr h" "e = ?base\<lparr>se_hash := h\<rparr>"
    using assms(3) by (auto simp: new_entry_def Let_def split: sum.splits)
  have "shardEntryHash H e = shardEntryHash H ?base" unfolding h(3) by (rule shardEntryHash_unhashed)
  moreover have "length h = 64" using shardEntryHash_Inr [OF h(2)] assms(1) by (simp add: hex_digest_def)
  moreover have "length (last_hash es) = 64"
  proof (cases "es = []")
    case False
    then have "last es \<in> set es" by simp
    moreover have "shard_links H i p es \<Longrightarrow> x \<in> set es \<Longrightarrow> length (se_hash x) = 64" for p x
      by (induction es arbitrary: p) (auto simp: shard_link_def)
    ultimately show ?thesis using False assms(2) unfolding last_hash_def entriesVerify_iff by auto
  qed (simp add: last_hash_def SHARD_GENESIS_def)
  moreover have "payload \<noteq> JUndef" using h(1) by (auto simp: assertBounded_iff)
  ultimately have "shard_link H i (last_hash es) e" using h unfolding shard_link_def by simp
  then show ?thesis
    using assms(2) last_seq_verified [OF assms(2)] h(3) unfolding entriesVerify_snoc tip_last_hash by simp
qed

lemma append_done:
  assumes "appendShard deps m i st ts kind payload = (m', Inr e)"
  shows "running st \<and> new_entry (dd_digest deps) i (ds_entries st) ts kind payload = Inr e \<and>
    (\<exists>p. m' = (writeCheckpoint i (st\<lparr>ds_entries := ds_entries st @ [e]\<rparr>) (put_state i (st\<lparr>ds_entries := ds_entries st @ [e]\<rparr>) m))\<lparr>dm_store := p\<rparr>)"
  using assms by (auto simp: appendShard_def Let_def split: if_splits sum.splits prod.splits)

lemma delegation_append_inv:
  assumes inv: "dm_inv deps m" and hex: "hex_digest (dd_digest deps)" and st: "map_of (dm_delegations m) i = Some st"
    and a: "appendShard deps m i st ts kind payload = (m', r)"
  shows "dm_inv deps m'"
proof (cases r)
  case (Inl e)
  have "m' = m\<lparr>dm_store := dm_store m'\<rparr>"
    using append_rollback [OF st _ a [unfolded Inl]] entry_checkpoint [OF dm_invD(5) [OF inv st]] by blast
  with inv show ?thesis by (metis dm_inv_store)
next
  case (Inr e)
  let ?st = "st\<lparr>ds_entries := ds_entries st @ [e]\<rparr>"
  note d = append_done [OF a [unfolded Inr]]
  have ent: "entry_inv deps m i st" using dm_invD(5) [OF inv st] .
  have ver: "entriesVerify (dd_digest deps) (ds_entries st @ [e]) i"
    using new_entry_verifies [OF hex] ent d unfolding entry_inv_def by blast
  obtain p where m': "m' = (writeCheckpoint i ?st (put_state i ?st m))\<lparr>dm_store := p\<rparr>" using d by blast
  have "dm_inv deps (writeCheckpoint i ?st (put_state i ?st m))"
  proof (rule dm_inv_update [OF inv, where i = i and st' = ?st and c = "checkpointFor (dm_binding m) i ?st"])
    show "entry_inv deps (writeCheckpoint i ?st (put_state i ?st m)) i ?st"
      using ent ver unfolding entry_inv_def by (auto simp: writeCheckpoint_def put_state_def running_def)
    show "overlappingPaths (ds_owns ?st) (ds_owns w) = []"
      if "running ?st" "map_of (dm_delegations m) j = Some w" "j \<noteq> i" "running w" for j w
      using dm_invD(6) [OF inv] st that d unfolding lanes_inv_def by (simp add: overlap_sym)
    show "ledger_inv (writeCheckpoint i ?st (put_state i ?st m))" "budget_inv (writeCheckpoint i ?st (put_state i ?st m))"
      using dm_invD(7,8) [OF inv] by (simp_all add: ledger_inv_def budget_inv_def writeCheckpoint_def put_state_def)
  qed (simp_all add: writeCheckpoint_def put_state_def)
  then show ?thesis unfolding m' by simp
qed

lemma spendUsd_Some: "spendUsdFromNanos usd n = Some s \<Longrightarrow> iterationCostSpendNanos s = Some n"
  by (auto simp: spendUsdFromNanos_def split: if_splits)

lemma quantized_Some:
  assumes "quantizedIterationCost usd cost = Some (c, n)"
  shows "0 \<le> ic_iterations c \<and> 0 \<le> ic_wallMs c \<and> isSafeInteger (ic_iterations c) \<and> isSafeInteger (ic_wallMs c) \<and>
    iterationCostSpendNanos (ic_spendUsd c) = Some n \<and> ic_iterations cost = Some (ic_iterations c) \<and>
    ic_wallMs cost = Some (ic_wallMs c) \<and> iterationCostSpendNanos (ic_spendUsd cost) = Some n"
  using assms by (auto simp: quantizedIterationCost_def safe_count_def dest: spendUsd_Some split: option.splits if_splits)

lemma nextRunBudget_Some:
  assumes "nextRunBudget deps m c n = Some (b, k)"
  shows "ic_iterations b = ic_iterations (dm_budget m) + ic_iterations c \<and> ic_wallMs b = ic_wallMs (dm_budget m) + ic_wallMs c \<and>
    k = dm_nanos m + n \<and> isSafeInteger (ic_iterations b) \<and> isSafeInteger (ic_wallMs b) \<and> iterationCostSpendNanos (ic_spendUsd b) = Some k"
  using assms by (auto simp: nextRunBudget_def Let_def dest: spendUsd_Some split: option.splits if_splits)

definition settled :: "'p manager \<Rightarrow> string \<Rightarrow> delegation_state \<Rightarrow> delegation_status \<Rightarrow> task_observation \<Rightarrow> int iteration_cost \<times> nat \<Rightarrow>
    'p manager" where
  "settled m i st status ob budget =
     writeCheckpoint i (st\<lparr>ds_status := status, ds_observation := Some ob\<rparr>)
       ((put_state i (st\<lparr>ds_status := status, ds_observation := Some ob\<rparr>) m)\<lparr>
          dm_completed := (if status = DsCompleted then set_add (dt_taskId (ds_task st)) (dm_completed m) else dm_completed m),
          dm_failed := (if status = DsCompleted then dm_failed m else set_add (dt_taskId (ds_task st)) (dm_failed m)),
          dm_budget := fst budget, dm_nanos := snd budget\<rparr>)"

lemma settle_done:
  assumes "settle_delegation deps m i st status ob budget = (m', Inr ob')"
  shows "ob' = ob \<and> (\<exists>p e. m' = dm_emit e ((settled m i st status ob budget)\<lparr>dm_store := p\<rparr>))"
  using assms unfolding settle_delegation_def Let_def settled_def [symmetric] by (auto split: sum.splits prod.splits)

lemma distinct_set_add: "distinct xs \<Longrightarrow> distinct (set_add x xs)"
  by (simp add: set_add_def)

lemma settled_inv:
  assumes inv: "dm_inv deps m" and st: "map_of (dm_delegations m) i = Some st" and run: "running st"
    and status: "status = DsCompleted \<or> status = DsFailed"
    and b: "0 \<le> ic_iterations c" "0 \<le> ic_wallMs c" "nextRunBudget deps m c n = Some budget"
  shows "dm_inv deps (settled m i st status ob budget)"
proof -
  let ?st = "st\<lparr>ds_status := status, ds_observation := Some ob\<rparr>" and ?m = "settled m i st status ob budget"
  let ?t = "dt_taskId (ds_task st)"
  have ent: "entry_inv deps m i st" using dm_invD(5) [OF inv st] .
  have t: "?t \<notin> set (dm_completed m)" "?t \<notin> set (dm_failed m)" "?t \<notin> set (dm_skipped m)" "?t \<in> dt_taskId ` set (pl_nodes (dm_plan m))"
    using ent running_not_done [OF run] by (auto simp: entry_inv_def)
  have nodep: "?t \<notin> set (dt_dependsOn (ds_task st))"
    using ent t(1) unfolding entry_inv_def by blast
  have nr: "\<not> running ?st" using status by (auto simp: running_def)
  obtain bud k where bk: "budget = (bud, k)" by fastforce
  show ?thesis
  proof (rule dm_inv_update [OF inv, where i = i and st' = ?st and c = "checkpointFor (dm_binding m) i ?st"])
    show "entry_inv deps ?m i ?st"
      using ent t status unfolding entry_inv_def by (auto simp: settled_def writeCheckpoint_def put_state_def running_def)
    show "ledger_inv ?m"
      using dm_invD(7) [OF inv] t status unfolding ledger_inv_def
      by (auto simp: settled_def writeCheckpoint_def put_state_def distinct_set_add)
    show "budget_inv ?m"
      using dm_invD(8) [OF inv] b(1,2) nextRunBudget_Some [OF b(3) [unfolded bk]] unfolding budget_inv_def bk
      by (auto simp: settled_def writeCheckpoint_def put_state_def)
    show "set (dm_completed m) \<subseteq> set (dm_completed ?m)" by (auto simp: settled_def writeCheckpoint_def put_state_def)
  qed (use nr in \<open>simp_all add: settled_def writeCheckpoint_def put_state_def\<close>)
qed

lemma settle_inv:
  assumes inv: "dm_inv deps m" and st: "map_of (dm_delegations m) i = Some st" and run: "running st"
    and status: "status = DsCompleted \<or> status = DsFailed"
    and b: "0 \<le> ic_iterations c" "0 \<le> ic_wallMs c" "nextRunBudget deps m c n = Some budget"
    and s: "settle_delegation deps m i st status ob budget = (m', r)"
  shows "dm_inv deps m'"
proof (cases r)
  case (Inl e)
  from settle_rollback [OF inv st run s [unfolded Inl]] inv show ?thesis by (metis dm_inv_store)
next
  case (Inr ob')
  from settle_done [OF s [unfolded Inr]] settled_inv [OF inv st run status b] show ?thesis by force
qed

lemma delegation_complete_inv:
  assumes inv: "dm_inv deps m" and c: "h_complete deps m h summary result cost = (m', r)"
  shows "dm_inv deps m'"
proof (cases "handle_state m h")
  case (Some st)
  note hs = handle_stateD [OF Some]
  show ?thesis
  proof (cases "quantizedIterationCost (dd_usd deps) cost")
    case q: (Some cn)
    obtain k n where cn: "cn = (k, n)" by fastforce
    note qs = quantized_Some [OF q [unfolded cn]]
    show ?thesis
    proof (cases "nextRunBudget deps m k n")
      case b: (Some budget)
      show ?thesis
        using c Some q cn b inv hs qs
        by (auto simp: h_complete_def split: if_splits sum.splits elim!: settle_inv [OF inv, rotated -1])
    qed (use c inv Some q cn in \<open>auto simp: h_complete_def split: if_splits sum.splits\<close>)
  qed (use c inv Some in \<open>auto simp: h_complete_def\<close>)
qed (use c inv in \<open>auto simp: h_complete_def\<close>)

lemma fail_inv:
  assumes inv: "dm_inv deps m" and c: "h_fail deps m h summary cost = (m', r)"
  shows "dm_inv deps m'"
proof (cases "handle_state m h")
  case (Some st)
  note hs = handle_stateD [OF Some]
  show ?thesis
  proof (cases "quantizedIterationCost (dd_usd deps) cost")
    case q: (Some cn)
    obtain k n where cn: "cn = (k, n)" by fastforce
    note qs = quantized_Some [OF q [unfolded cn]]
    show ?thesis
    proof (cases "nextRunBudget deps m k n")
      case b: (Some budget)
      show ?thesis
        using c Some q cn b inv hs qs
        by (auto simp: h_fail_def split: if_splits sum.splits elim!: settle_inv [OF inv, rotated -1])
    qed (use c inv Some q cn in \<open>auto simp: h_fail_def split: if_splits\<close>)
  qed (use c inv Some in \<open>auto simp: h_fail_def\<close>)
qed (use c inv in \<open>auto simp: h_fail_def\<close>)

definition started :: "'p delegation_deps \<Rightarrow> 'p manager \<Rightarrow> delegation_task \<Rightarrow> agent_card \<Rightarrow> 'p manager" where
  "started deps m t agent =
     writeCheckpoint (delegationIdFor (dt_taskId t)) (fresh_state deps t agent)
       (put_state (delegationIdFor (dt_taskId t)) (fresh_state deps t agent) m)"

lemma start_done:
  assumes "start_delegation deps m t agent = (m', Inr h)"
  shows "\<exists>p e. (m', h) = makeHandle (dm_emit e ((started deps m t agent)\<lparr>dm_store := p\<rparr>))
     (delegationIdFor (dt_taskId t)) (fresh_state deps t agent)"
  using assms unfolding start_delegation_def Let_def started_def [symmetric]
  by (auto split: sum.splits prod.splits) metis+

definition startable :: "'p manager \<Rightarrow> delegation_task \<Rightarrow> bool" where
  "startable m t \<longleftrightarrow> t \<in> set (pl_nodes (dm_plan m)) \<and> map_of (dm_delegations m) (delegationIdFor (dt_taskId t)) = None \<and>
     dt_taskId t \<notin> set (dm_completed m) \<and> dt_taskId t \<notin> set (dm_failed m) \<and> dt_taskId t \<notin> set (dm_skipped m) \<and>
     set (dt_dependsOn t) \<subseteq> set (dm_completed m) \<and>
     first_overlap (sc_owns (dt_scope t)) (activeOwns m None) = None"

lemma started_inv:
  assumes inv: "dm_inv deps m" and t: "startable m t"
  shows "dm_inv deps (started deps m t agent)"
proof -
  let ?i = "delegationIdFor (dt_taskId t)" and ?st = "fresh_state deps t agent" and ?m = "started deps m t agent"
  show ?thesis
  proof (rule dm_inv_update [OF inv, where i = ?i and st' = ?st and c = "checkpointFor (dm_binding m) ?i ?st"])
    show "entry_inv deps ?m ?i ?st"
      using t by (simp add: entry_inv_def started_def writeCheckpoint_def put_state_def startable_def running_def
          fresh_state_def entriesVerify_def)
    show "overlappingPaths (ds_owns ?st) (ds_owns w) = []"
      if "map_of (dm_delegations m) j = Some w" "running w" for j w
      using first_overlap_None [of "sc_owns (dt_scope t)" m None j w] t that by (simp add: startable_def fresh_state_def)
    show "ledger_inv ?m" "budget_inv ?m" using dm_invD(7,8) [OF inv]
      by (simp_all add: ledger_inv_def budget_inv_def started_def writeCheckpoint_def put_state_def)
  qed (simp_all add: started_def writeCheckpoint_def put_state_def)
qed

lemma spawn_done:
  assumes "dm_spawn deps m taskId = (m', Inr h)"
  obtains t agent where "task_by_id m taskId = Some t" "dt_taskId t = taskId" "t \<in> set (pl_nodes (dm_plan m))"
    "map_of (dm_delegations m) (delegationIdFor taskId) = None" "taskId \<notin> set (dm_failed m)" "taskId \<notin> set (dm_skipped m)"
    "set (dt_dependsOn t) \<subseteq> set (dm_completed m)" "out_of_lane deps t agent = []"
    "first_overlap (sc_owns (dt_scope t)) (activeOwns m None) = None"
    "start_delegation deps m t agent = (m', Inr h)" "\<exists>name. dt_assignedTo t = Some name \<and> dd_resolveCard deps name = Some agent"
proof -
  from assms obtain t where t: "task_by_id m taskId = Some t" by (auto simp: dm_spawn_def split: option.splits)
  have "dt_taskId t = taskId" "t \<in> set (pl_nodes (dm_plan m))"
    using t find_SomeD unfolding task_by_id_def by fastforce+
  with assms t that show thesis
    by (auto simp: dm_spawn_def Let_def filter_empty_conv subset_iff split: option.splits if_splits prod.splits)
qed

lemma spawn_failed:
  assumes inv: "dm_inv deps m" and s: "dm_spawn deps m taskId = (m', Inl e)"
  shows "m' = m\<lparr>dm_store := dm_store m', dm_events := dm_events m'\<rparr>"
proof (cases "task_by_id m taskId")
  case (Some t)
  then have i: "dt_taskId t = taskId" using find_SomeD unfolding task_by_id_def by fastforce
  have r: "m' = m\<lparr>dm_store := dm_store m'\<rparr>"
    if "map_of (dm_delegations m) (delegationIdFor taskId) = None" "start_delegation deps m t agent = (m', Inl e)" for agent
    using start_rollback that dm_invD(4) [OF inv] i by metis
  show ?thesis
    using s Some
    by (auto simp: dm_spawn_def Let_def dm_emit_def split: option.splits if_splits prod.splits dest!: r)
qed (use s in \<open>simp add: dm_spawn_def\<close>)

text \<open>
  The manager refuses a spawn of a completed task only through its map of delegations, so the lemma asks that
  a completed task is in that map; every run that was not recovered keeps this.
\<close>

definition completed_known :: "'p manager \<Rightarrow> bool" where
  "completed_known m \<longleftrightarrow> (\<forall>t \<in> set (dm_completed m). map_of (dm_delegations m) (delegationIdFor t) \<noteq> None)"

lemma delegation_spawn_inv:
  assumes inv: "dm_inv deps m" and known: "completed_known m" and s: "dm_spawn deps m taskId = (m', r)"
  shows "dm_inv deps m'"
proof (cases r)
  case (Inl e)
  from spawn_failed [OF inv s [unfolded Inl]] show ?thesis
    by (rule ssubst) (rule dm_inv_cong [OF inv], simp_all)
next
  case (Inr h)
  from s [unfolded Inr] obtain t agent where t: "task_by_id m taskId = Some t" "dt_taskId t = taskId" "t \<in> set (pl_nodes (dm_plan m))"
    "map_of (dm_delegations m) (delegationIdFor taskId) = None" "taskId \<notin> set (dm_failed m)" "taskId \<notin> set (dm_skipped m)"
    "set (dt_dependsOn t) \<subseteq> set (dm_completed m)"
    "first_overlap (sc_owns (dt_scope t)) (activeOwns m None) = None" "start_delegation deps m t agent = (m', Inr h)"
    by (rule spawn_done) blast
  then have "startable m t" using known unfolding startable_def completed_known_def by auto
  from started_inv [OF inv this] start_done [OF t(9)] dm_inv_handle [of _ _ _ m' h] show ?thesis
    by (metis dm_inv_emit dm_inv_store)
qed

definition resumed :: "'p manager \<Rightarrow> string \<Rightarrow> delegation_state \<Rightarrow> 'p manager" where
  "resumed m i st =
     (put_state i (st\<lparr>ds_status := DsResumed, ds_observation := None, ds_guardian := makeLoopGuardian\<rparr>) m)
       \<lparr>dm_failed := removeAll (dt_taskId (ds_task st)) (dm_failed m)\<rparr>"

lemma resume_done:
  assumes "resumeState deps m i st = (m', Inr h)"
  shows "\<exists>cp p e. map_of (dm_checkpoints m) i = Some cp \<and> resume_refused deps m i st cp = None \<and>
    first_overlap (ds_owns st) (activeOwns m (Some i)) = None \<and>
    (m', h) = makeHandle (dm_emit e ((resumed m i st)\<lparr>dm_store := p\<rparr>)) i
      (st\<lparr>ds_status := DsResumed, ds_observation := None, ds_guardian := makeLoopGuardian\<rparr>)"
  using assms unfolding resumeState_def Let_def resumed_def [symmetric]
  by (auto split: option.splits sum.splits prod.splits) metis+

lemma resumed_inv:
  assumes inv: "dm_inv deps m" and st: "map_of (dm_delegations m) i = Some st" and fl: "ds_status st = DsFailed"
    and lane: "first_overlap (ds_owns st) (activeOwns m (Some i)) = None"
  shows "dm_inv deps (resumed m i st)"
proof -
  let ?st = "st\<lparr>ds_status := DsResumed, ds_observation := None, ds_guardian := makeLoopGuardian\<rparr>" and ?m = "resumed m i st"
  have ent: "entry_inv deps m i st" using dm_invD(5) [OF inv st] .
  have led: "ledger_inv m" using dm_invD(7) [OF inv] .
  show ?thesis
  proof (rule dm_inv_update [OF inv, where i = i and st' = ?st and c = "checkpointFor (dm_binding m) i st"])
    show "dm_checkpoints ?m = AList.update i (checkpointFor (dm_binding m) i st) (dm_checkpoints m)"
      using entry_checkpoint [OF ent] by (simp add: resumed_def put_state_def update_same)
    show "entry_inv deps ?m i ?st"
      using ent fl led unfolding entry_inv_def ledger_inv_def by (auto simp: resumed_def put_state_def running_def)
    show "overlappingPaths (ds_owns ?st) (ds_owns w) = []"
      if "map_of (dm_delegations m) j = Some w" "j \<noteq> i" "running w" for j w
      using first_overlap_None [OF lane that(1,3)] that(2) by simp
    show "ledger_inv ?m" using led unfolding ledger_inv_def by (auto simp: resumed_def put_state_def distinct_removeAll)
    show "budget_inv ?m" using dm_invD(8) [OF inv] by (simp add: budget_inv_def resumed_def put_state_def)
  qed (simp_all add: resumed_def put_state_def)
qed

lemma resume_refused_frame:
  assumes inv: "dm_inv deps m" and st: "map_of (dm_delegations m) i = Some st" and fl: "ds_status st = DsFailed"
    and s: "resumeState deps m i st = (m', Inl e)"
  shows "\<exists>fs. set fs = set (dm_failed m) \<and> distinct fs \<and>
    m' = m\<lparr>dm_store := dm_store m', dm_events := dm_events m', dm_failed := fs\<rparr>"
proof -
  have ent: "entry_inv deps m i st" using dm_invD(5) [OF inv st] .
  have t: "dt_taskId (ds_task st) \<in> set (dm_failed m)" and d: "distinct (dm_failed m)"
    using ent fl dm_invD(7) [OF inv] unfolding entry_inv_def ledger_inv_def by blast+
  let ?fs = "set_add (dt_taskId (ds_task st)) (removeAll (dt_taskId (ds_task st)) (dm_failed m))"
  have same: "st\<lparr>ds_status := DsFailed\<rparr> = st" using fl by (cases st) simp
  have fs: "set ?fs = set (dm_failed m)" "distinct ?fs" using t d by (auto simp: distinct_set_add distinct_removeAll)
  have "m' = m\<lparr>dm_store := dm_store m', dm_events := dm_events m', dm_failed := dm_failed m\<rparr> \<or>
      m' = m\<lparr>dm_store := dm_store m', dm_events := dm_events m', dm_failed := ?fs\<rparr>"
    using s fl st
    by (auto simp: resumeState_def Let_def dm_quarantine_def dm_emit_def put_state_def update_twice same update_same [OF st]
        split: option.splits sum.splits prod.splits)
  with fs d show ?thesis by blast
qed

lemma ledger_reorder: "ledger_inv m \<Longrightarrow> set fs = set (dm_failed m) \<Longrightarrow> distinct fs \<Longrightarrow> ledger_inv (m\<lparr>dm_failed := fs\<rparr>)"
  by (simp add: ledger_inv_def)

lemma dm_inv_reorder:
  assumes "dm_inv deps m" and "set fs = set (dm_failed m)" and "distinct fs"
  shows "dm_inv deps (m\<lparr>dm_failed := fs\<rparr>)"
proof -
  have "entry_inv deps (m\<lparr>dm_failed := fs\<rparr>) i st = entry_inv deps m i st" for i st
    unfolding entry_inv_def using assms(2) by simp
  with assms ledger_reorder [OF dm_invD(7) [OF assms(1)] assms(2,3)] show ?thesis
    unfolding dm_inv_def by (simp add: lanes_inv_def budget_inv_def)
qed

lemma resume_inv:
  assumes inv: "dm_inv deps m" and st: "map_of (dm_delegations m) i = Some st" and fl: "ds_status st = DsFailed"
    and s: "resumeState deps m i st = (m', r)"
  shows "dm_inv deps m'"
proof (cases r)
  case (Inl e)
  from resume_refused_frame [OF inv st fl s [unfolded Inl]] obtain fs where
    f: "set fs = set (dm_failed m)" "distinct fs" "m' = m\<lparr>dm_store := dm_store m', dm_events := dm_events m', dm_failed := fs\<rparr>" by blast
  from dm_inv_reorder [OF inv f(1,2)] show ?thesis by (rule dm_inv_cong; subst f(3)) simp_all
next
  case (Inr h)
  from resume_done [OF s [unfolded Inr]] resumed_inv [OF inv st fl] dm_inv_handle [of _ _ _ m' h] show ?thesis
    by (metis dm_inv_emit dm_inv_store)
qed

section \<open>Cascade skips\<close>

inductive_set doomed :: "string list \<Rightarrow> string list \<Rightarrow> delegation_task list \<Rightarrow> string list \<Rightarrow> string set"
  for completed failed nodes skipped where
  direct: "t \<in> set nodes \<Longrightarrow> dt_taskId t \<notin> set completed \<union> set failed \<union> set skipped \<Longrightarrow>
     d \<in> set (dt_dependsOn t) \<Longrightarrow> d \<in> set failed \<union> set skipped \<Longrightarrow> dt_taskId t \<in> doomed completed failed nodes skipped"
| cascade: "t \<in> set nodes \<Longrightarrow> dt_taskId t \<notin> set completed \<union> set failed \<union> set skipped \<Longrightarrow>
     d \<in> set (dt_dependsOn t) \<Longrightarrow> d \<in> doomed completed failed nodes skipped \<Longrightarrow> dt_taskId t \<in> doomed completed failed nodes skipped"

lemma skip_pass_sound:
  assumes "set ns \<subseteq> set nodes" and "set skipped \<subseteq> set s0 \<union> doomed completed failed nodes s0" and "set s0 \<subseteq> set skipped"
  shows "set (skip_pass completed failed ns skipped) \<subseteq> set s0 \<union> doomed completed failed nodes s0"
  using assms
proof (induction ns arbitrary: skipped)
  case (Cons t ts)
  let ?hit = "\<not> (dt_taskId t \<in> set completed \<or> dt_taskId t \<in> set failed \<or> dt_taskId t \<in> set skipped) \<and> blocked failed skipped t"
  have "dt_taskId t \<in> doomed completed failed nodes s0" if ?hit
  proof -
    from that obtain d where d: "d \<in> set (dt_dependsOn t)" "d \<in> set failed \<or> d \<in> set skipped"
      by (auto simp: blocked_def list_ex_iff)
    have t: "t \<in> set nodes" "dt_taskId t \<notin> set completed \<union> set failed \<union> set s0" using Cons.prems that by auto
    from d(2) Cons.prems(2) consider "d \<in> set failed \<union> set s0" | "d \<in> doomed completed failed nodes s0" by blast
    then show ?thesis using doomed.direct [OF t d(1)] doomed.cascade [OF t d(1)] by cases
  qed
  then have "set (skip_pass completed failed ts (if ?hit then skipped @ [dt_taskId t] else skipped))
      \<subseteq> set s0 \<union> doomed completed failed nodes s0"
    using Cons.prems by (intro Cons.IH) auto
  then show ?case by simp
qed simp

lemma skip_pass_fixed:
  "skip_pass completed failed nodes skipped = skipped \<Longrightarrow> t \<in> set nodes \<Longrightarrow>
     dt_taskId t \<notin> set completed \<union> set failed \<union> set skipped \<Longrightarrow> \<not> blocked failed skipped t"
proof (induction nodes)
  case (Cons u us)
  let ?s = "if \<not> (dt_taskId u \<in> set completed \<or> dt_taskId u \<in> set failed \<or> dt_taskId u \<in> set skipped) \<and> blocked failed skipped u
        then skipped @ [dt_taskId u] else skipped"
  obtain new where "skip_pass completed failed us ?s = ?s @ new" using skip_pass_extends by blast
  with Cons.prems(1) have s: "?s = skipped" by (auto split: if_splits)
  with Cons.prems(1) have "skip_pass completed failed us skipped = skipped" by simp
  with Cons s show ?case by (auto split: if_splits)
qed simp

lemma skip_loop_extends:
  "\<exists>new. skip_loop completed failed nodes skipped = skipped @ new \<and> set new \<subseteq> dt_taskId ` set nodes \<and>
     set new \<inter> (set skipped \<union> set completed \<union> set failed) = {} \<and> distinct new"
proof (induction completed failed nodes skipped rule: skip_loop.induct)
  case (1 completed failed nodes skipped)
  let ?p = "skip_pass completed failed nodes skipped"
  show ?case
  proof (cases "?p = skipped")
    case False
    obtain n1 where n1: "?p = skipped @ n1" "set n1 \<subseteq> dt_taskId ` set nodes" "set n1 \<inter> (set skipped \<union> set completed \<union> set failed) = {}" "distinct n1"
      using skip_pass_extends by blast
    obtain n2 where n2: "skip_loop completed failed nodes ?p = ?p @ n2" "set n2 \<subseteq> dt_taskId ` set nodes"
      "set n2 \<inter> (set ?p \<union> set completed \<union> set failed) = {}" "distinct n2" using 1 [OF refl False] by blast
    have "skip_loop completed failed nodes skipped = skipped @ (n1 @ n2)"
      using False n1(1) n2(1) by (subst skip_loop.simps) simp
    with n1 n2 show ?thesis by (intro exI [of _ "n1 @ n2"]) auto
  qed (subst skip_loop.simps, simp)
qed

lemma skip_loop_fixed:
  "skip_pass completed failed nodes (skip_loop completed failed nodes skipped) = skip_loop completed failed nodes skipped"
proof (induction completed failed nodes skipped rule: skip_loop.induct)
  case (1 completed failed nodes skipped)
  then show ?case by (subst (1 2) skip_loop.simps) (simp add: Let_def)
qed

lemma skip_loop_sound:
  "set skipped \<subseteq> set s0 \<union> doomed completed failed nodes s0 \<Longrightarrow> set s0 \<subseteq> set skipped \<Longrightarrow>
     set (skip_loop completed failed nodes skipped) \<subseteq> set s0 \<union> doomed completed failed nodes s0"
proof (induction completed failed nodes skipped rule: skip_loop.induct)
  case (1 completed failed nodes skipped)
  have "set (skip_pass completed failed nodes skipped) \<subseteq> set s0 \<union> doomed completed failed nodes s0"
    using skip_pass_sound [OF subset_refl] 1(2,3) by blast
  moreover have "set s0 \<subseteq> set (skip_pass completed failed nodes skipped)"
    using 1(3) skip_pass_extends [of completed failed nodes skipped] by auto
  ultimately show ?case using 1 by (subst skip_loop.simps) (simp add: Let_def)
qed

lemma skip_loop_exact:
  "set (skip_loop completed failed nodes skipped) = set skipped \<union> doomed completed failed nodes skipped"
proof
  show "set (skip_loop completed failed nodes skipped) \<subseteq> set skipped \<union> doomed completed failed nodes skipped"
    by (rule skip_loop_sound) auto
  let ?S = "skip_loop completed failed nodes skipped"
  have sub: "set skipped \<subseteq> set ?S" using skip_loop_extends [of completed failed nodes skipped] by auto
  have closed: "dt_taskId t \<in> set ?S"
    if "t \<in> set nodes" "dt_taskId t \<notin> set completed \<union> set failed \<union> set skipped" "d \<in> set (dt_dependsOn t)" "d \<in> set failed \<union> set ?S" for t d
  proof (rule ccontr)
    assume "dt_taskId t \<notin> set ?S"
    with that(2) have "\<not> blocked failed ?S t" using skip_pass_fixed [OF skip_loop_fixed that(1)] by blast
    with that(3,4) show False unfolding blocked_def list_ex_iff by blast
  qed
  have "x \<in> set ?S" if "x \<in> doomed completed failed nodes skipped" for x
    using that
  proof induction
    case (direct t d)
    show ?case using direct(4) sub by (intro closed [OF direct(1-3)]) blast
  next
    case (cascade t d)
    show ?case using cascade(5) by (intro closed [OF cascade(1-3)]) blast
  qed
  with sub show "set skipped \<union> doomed completed failed nodes skipped \<subseteq> set ?S" by blast
qed

lemma doomed_fresh: "x \<in> doomed completed failed nodes skipped \<Longrightarrow> x \<notin> set completed \<union> set failed \<union> set skipped"
  by (induction rule: doomed.induct) auto

lemma doomed_blocked:
  assumes "dt_taskId t \<in> doomed completed failed nodes skipped" and "t \<in> set nodes" and "distinct (map dt_taskId nodes)"
  shows "\<exists>d \<in> set (dt_dependsOn t). d \<in> set failed \<union> set skipped \<union> doomed completed failed nodes skipped"
  using assms(1)
proof cases
  case (direct u d)
  with task_eqI [OF assms(3,2)] show ?thesis by blast
next
  case (cascade u d)
  with task_eqI [OF assms(3,2)] show ?thesis by blast
qed

lemma known_not_doomed:
  assumes inv: "dm_inv deps m" and st: "map_of (dm_delegations m) i = Some st"
  shows "dt_taskId (ds_task st) \<notin> doomed (dm_completed m) (dm_failed m) (pl_nodes (dm_plan m)) (dm_skipped m)"
proof
  let ?D = "doomed (dm_completed m) (dm_failed m) (pl_nodes (dm_plan m)) (dm_skipped m)"
  assume x: "dt_taskId (ds_task st) \<in> ?D"
  have ent: "ds_task st \<in> set (pl_nodes (dm_plan m))" "set (dt_dependsOn (ds_task st)) \<subseteq> set (dm_completed m)"
    using dm_invD(5) [OF inv st] unfolding entry_inv_def by blast+
  have "distinct (map dt_taskId (pl_nodes (dm_plan m)))" using dm_invD(1) [OF inv] by (simp add: deps_wf_def)
  from doomed_blocked [OF x ent(1) this] obtain d where d: "d \<in> set (dt_dependsOn (ds_task st))"
    "d \<in> set (dm_failed m) \<union> set (dm_skipped m) \<union> ?D" by blast
  with ent(2) have "d \<in> set (dm_completed m)" by blast
  moreover have "d \<notin> ?D" using doomed_fresh calculation by blast
  ultimately show False using d(2) dm_invD(7) [OF inv] unfolding ledger_inv_def by blast
qed

definition cascaded :: "'p manager \<Rightarrow> 'p manager" where
  "cascaded m = m\<lparr>dm_skipped := skip_loop (dm_completed m) (dm_failed m) (pl_nodes (dm_plan m)) (dm_skipped m)\<rparr>"

lemma cascaded_inv:
  assumes inv: "dm_inv deps m"
  shows "dm_inv deps (cascaded m)"
proof -
  note d = dm_invD [OF inv]
  let ?D = "doomed (dm_completed m) (dm_failed m) (pl_nodes (dm_plan m)) (dm_skipped m)"
  obtain new where new: "dm_skipped (cascaded m) = dm_skipped m @ new" "set new \<subseteq> dt_taskId ` set (pl_nodes (dm_plan m))"
    "set new \<inter> (set (dm_skipped m) \<union> set (dm_completed m) \<union> set (dm_failed m)) = {}" "distinct new"
    using skip_loop_extends by (fastforce simp: cascaded_def)
  have sk: "set (dm_skipped (cascaded m)) = set (dm_skipped m) \<union> ?D" by (simp add: cascaded_def skip_loop_exact)
  have "entry_inv deps (cascaded m) i st" if st: "map_of (dm_delegations m) i = Some st" for i st
  proof (rule entry_inv_other [OF d(5) [OF st]])
    show "dt_taskId (ds_task st) \<notin> set (dm_skipped (cascaded m))"
      using known_not_doomed [OF inv st] d(5) [OF st] unfolding sk entry_inv_def by blast
  qed (simp_all add: cascaded_def)
  moreover have "ledger_inv (cascaded m)"
    using d(7) new(2-4) unfolding ledger_inv_def new(1) by (auto simp: cascaded_def)
  ultimately show ?thesis
    using d(1-4,6,8) unfolding dm_inv_def by (simp add: cascaded_def lanes_inv_def budget_inv_def)
qed

lemma emit_all: "foldl (\<lambda>acc i. dm_emit (f i) acc) m is1 = m\<lparr>dm_events := dm_events m @ map f is1\<rparr>"
  by (induction is1 arbitrary: m) (simp_all add: dm_emit_def)

lemma schedule_done:
  assumes "dm_schedule deps m = (m', Inr r)"
  shows "r = schedule_view m' \<and> m' = (cascaded m)\<lparr>dm_store := dm_store m', dm_events := dm_events m'\<rparr>"
  using assms unfolding dm_schedule_def Let_def cascaded_def [symmetric] emit_all
  by (auto split: if_splits sum.splits prod.splits)

lemma schedule_failed:
  assumes "dm_schedule deps m = (m', Inl e)"
  shows "m' = m\<lparr>dm_store := dm_store m'\<rparr>"
proof -
  obtain new where new: "skip_loop (dm_completed m) (dm_failed m) (pl_nodes (dm_plan m)) (dm_skipped m) = dm_skipped m @ new"
    "set new \<inter> set (dm_skipped m) = {}" using skip_loop_extends [of "dm_completed m" "dm_failed m" "pl_nodes (dm_plan m)" "dm_skipped m"] by auto
  have "filter (\<lambda>i. i \<notin> set new) (dm_skipped m @ new) = dm_skipped m"
    using new(2) by (auto simp: filter_id_conv)
  with assms new(1) show ?thesis by (auto simp: dm_schedule_def Let_def split: if_splits sum.splits prod.splits)
qed

lemma schedule_inv:
  assumes inv: "dm_inv deps m" and s: "dm_schedule deps m = (m', r)"
  shows "dm_inv deps m'"
proof (cases r)
  case (Inl e)
  from schedule_failed [OF s [unfolded Inl]] inv show ?thesis by (metis dm_inv_store)
next
  case (Inr v)
  from schedule_done [OF s [unfolded Inr]] have "m' = (cascaded m)\<lparr>dm_store := dm_store m', dm_events := dm_events m'\<rparr>" by blast
  then show ?thesis by (rule ssubst) (rule dm_inv_cong [OF cascaded_inv [OF inv]], simp_all)
qed

definition delegation_ok :: "'p delegation_deps \<Rightarrow> 'p manager \<Rightarrow> bool" where
  "delegation_ok deps m \<longleftrightarrow> hex_digest (dd_digest deps) \<and> dm_inv deps m \<and> completed_known m"

lemma completed_knownI:
  assumes "completed_known m" and "\<And>i. map_of (dm_delegations m) i \<noteq> None \<Longrightarrow> map_of (dm_delegations m') i \<noteq> None"
    and "\<And>t. t \<in> set (dm_completed m') \<Longrightarrow> t \<in> set (dm_completed m) \<or> map_of (dm_delegations m') (delegationIdFor t) \<noteq> None"
  shows "completed_known m'"
  using assms unfolding completed_known_def by blast

lemma known_same:
  "completed_known m \<Longrightarrow> dm_delegations m' = dm_delegations m \<Longrightarrow> dm_completed m' = dm_completed m \<Longrightarrow> completed_known m'"
  by (simp add: completed_known_def)

lemma handle_frame:
  "makeHandle m i st = (m', h) \<Longrightarrow> dm_delegations m' = dm_delegations m \<and> dm_completed m' = dm_completed m \<and>
     dm_failed m' = dm_failed m \<and> dm_skipped m' = dm_skipped m \<and> dm_budget m' = dm_budget m \<and> dm_nanos m' = dm_nanos m \<and>
     dm_plan m' = dm_plan m \<and> dm_binding m' = dm_binding m \<and> dm_checkpoints m' = dm_checkpoints m"
  by (auto simp: makeHandle_def Let_def)

lemma delegation_emit_frame [simp]:
  "dm_delegations (dm_emit e m) = dm_delegations m" "dm_completed (dm_emit e m) = dm_completed m"
  "dm_failed (dm_emit e m) = dm_failed m" "dm_skipped (dm_emit e m) = dm_skipped m" "dm_budget (dm_emit e m) = dm_budget m"
  "dm_nanos (dm_emit e m) = dm_nanos m" "dm_plan (dm_emit e m) = dm_plan m" "dm_binding (dm_emit e m) = dm_binding m"
  "dm_checkpoints (dm_emit e m) = dm_checkpoints m" "dm_epochs (dm_emit e m) = dm_epochs m" "dm_issued (dm_emit e m) = dm_issued m"
  "dm_store (dm_emit e m) = dm_store m"
  by (simp_all add: dm_emit_def)

lemma spawn_known:
  assumes inv: "dm_inv deps m" and k: "completed_known m" and s: "dm_spawn deps m taskId = (m', r)"
  shows "completed_known m'"
proof (cases r)
  case (Inl e)
  from spawn_failed [OF inv s [unfolded Inl]] have f: "m' = m\<lparr>dm_store := dm_store m', dm_events := dm_events m'\<rparr>" .
  show ?thesis using arg_cong [OF f, of dm_delegations] arg_cong [OF f, of dm_completed] by (intro known_same [OF k]) simp_all
next
  case (Inr h)
  from s [unfolded Inr] obtain t agent where "start_delegation deps m t agent = (m', Inr h)" by (rule spawn_done)
  from start_done [OF this] obtain p e where "makeHandle (dm_emit e ((started deps m t agent)\<lparr>dm_store := p\<rparr>))
     (delegationIdFor (dt_taskId t)) (fresh_state deps t agent) = (m', h)" by metis
  from handle_frame [OF this] show ?thesis
    by (intro completed_knownI [OF k]) (auto simp: started_def writeCheckpoint_def put_state_def)
qed

lemma settle_known:
  assumes inv: "dm_inv deps m" and k: "completed_known m" and st: "map_of (dm_delegations m) i = Some st" and run: "running st"
    and s: "settle_delegation deps m i st status ob budget = (m', r)"
  shows "completed_known m'"
proof (cases r)
  case (Inl e)
  from settle_rollback [OF inv st run s [unfolded Inl]] have f: "m' = m\<lparr>dm_store := dm_store m'\<rparr>" .
  show ?thesis using arg_cong [OF f, of dm_delegations] arg_cong [OF f, of dm_completed] by (intro known_same [OF k]) simp_all
next
  case (Inr o1)
  from settle_done [OF s [unfolded Inr]] obtain p e where m': "m' = dm_emit e ((settled m i st status ob budget)\<lparr>dm_store := p\<rparr>)" by blast
  have "i = delegationIdFor (dt_taskId (ds_task st))" using dm_invD(5) [OF inv st] unfolding entry_inv_def by blast
  with k show ?thesis unfolding m'
    by (intro completed_knownI [OF k]) (auto simp: settled_def writeCheckpoint_def put_state_def split: if_splits)
qed

lemma complete_known:
  "dm_inv deps m \<Longrightarrow> completed_known m \<Longrightarrow> h_complete deps m h summary result cost = (m', r) \<Longrightarrow> completed_known m'"
  by (auto simp: h_complete_def split: option.splits prod.splits if_splits sum.splits dest!: handle_stateD intro: settle_known)

lemma fail_known:
  "dm_inv deps m \<Longrightarrow> completed_known m \<Longrightarrow> h_fail deps m h summary cost = (m', r) \<Longrightarrow> completed_known m'"
  by (auto simp: h_fail_def split: option.splits prod.splits if_splits sum.splits dest!: handle_stateD intro: settle_known)

lemma append_known:
  assumes "completed_known m" and "map_of (dm_delegations m) i = Some st" and "appendShard deps m i st ts kind payload = (m', r)"
  shows "completed_known m'"
  by (rule completed_knownI [OF assms(1)])
     (use assms(3) in \<open>auto simp: appendShard_def Let_def put_state_def writeCheckpoint_def split: if_splits sum.splits prod.splits\<close>)

lemma resume_known:
  assumes "completed_known m" and "resumeState deps m i st = (m', r)"
  shows "completed_known m'"
  by (rule completed_knownI [OF assms(1)])
     (use assms(2) in \<open>auto simp: resumeState_def Let_def put_state_def makeHandle_def dm_quarantine_def
        split: option.splits sum.splits prod.splits\<close>)

lemma schedule_known:
  assumes "completed_known m" and "dm_schedule deps m = (m', r)"
  shows "completed_known m'"
  by (rule known_same [OF assms(1)])
     (use assms(2) in \<open>auto simp: dm_schedule_def Let_def emit_all split: if_splits sum.splits prod.splits\<close>)

text \<open>A step leaves the manager alone or is one of the six operations on what the manager holds.\<close>

lemma delegation_step_cases [case_names Idle Spawn Resume Append Complete Fail Schedule]:
  assumes "P m"
    and "\<And>t m' r. dm_spawn deps m t = (m', r) \<Longrightarrow> P m'"
    and "\<And>i st m' r. map_of (dm_delegations m) i = Some st \<Longrightarrow> ds_status st = DsFailed \<Longrightarrow> resumeState deps m i st = (m', r) \<Longrightarrow> P m'"
    and "\<And>i st ts kind payload m' r. map_of (dm_delegations m) i = Some st \<Longrightarrow> appendShard deps m i st ts kind payload = (m', r) \<Longrightarrow> P m'"
    and "\<And>h summary result cost m' r. h_complete deps m h summary result cost = (m', r) \<Longrightarrow> P m'"
    and "\<And>h summary cost m' r. h_fail deps m h summary cost = (m', r) \<Longrightarrow> P m'"
    and "\<And>m' r. dm_schedule deps m = (m', r) \<Longrightarrow> P m'"
  shows "P (delegation_step deps m op)"
proof (cases op)
  case (OpSpawn t)
  then show ?thesis using assms(2) by (cases "dm_spawn deps m t") (simp add: delegation_step_def run_op_def)
next
  case (OpResume i)
  then show ?thesis using assms(1,3)
    by (auto simp: delegation_step_def run_op_def resume_loaded_def split: option.splits) (metis prod.collapse)
next
  case (OpAppend h ts kind payload)
  then show ?thesis using assms(1,4)
    by (auto simp: delegation_step_def run_op_def h_append_def dest!: handle_stateD split: option.splits) (metis prod.collapse)
next
  case (OpComplete h summary result cost)
  then show ?thesis using assms(5) by (auto simp: delegation_step_def run_op_def split: prod.splits sum.splits)
next
  case (OpFail h summary cost)
  then show ?thesis using assms(6) by (auto simp: delegation_step_def run_op_def split: prod.splits sum.splits)
next
  case OpSchedule
  then show ?thesis using assms(7) by (cases "dm_schedule deps m") (simp add: delegation_step_def run_op_def)
qed

lemma step_ok:
  assumes "delegation_ok deps m"
  shows "delegation_ok deps (delegation_step deps m op)"
proof -
  have ok: "hex_digest (dd_digest deps)" "dm_inv deps m" "completed_known m" using assms by (simp_all add: delegation_ok_def)
  have "dm_inv deps (delegation_step deps m op)"
    by (rule delegation_step_cases [where P = "dm_inv deps"], rule ok(2), erule delegation_spawn_inv [OF ok(2,3)],
        erule (2) resume_inv [OF ok(2)], erule (1) delegation_append_inv [OF ok(2,1)], erule delegation_complete_inv [OF ok(2)],
        erule fail_inv [OF ok(2)], erule schedule_inv [OF ok(2)])
  moreover have "completed_known (delegation_step deps m op)"
    by (rule delegation_step_cases [where P = completed_known], rule ok(3), erule spawn_known [OF ok(2,3)],
        erule resume_known [OF ok(3)], erule (1) append_known [OF ok(3)], erule complete_known [OF ok(2,3)],
        erule fail_known [OF ok(2,3)], erule schedule_known [OF ok(3)])
  ultimately show ?thesis using ok(1) by (simp add: delegation_ok_def)
qed

interpretation delegation: invariant_machine "delegation_step deps" "delegation_ok deps" for deps
  by unfold_locales (rule step_ok)

lemma manager_starts_ok:
  assumes "makeDelegationManager runId plan raw store = Inr m" and "hex_digest (dd_digest deps)"
  shows "delegation_ok deps m"
proof -
  obtain b where b: "resolvedWorkBinding raw = Inr b" "assertValidPlan (normalizePlan plan) = Inr ()"
    "m = \<lparr>dm_runId = runId, dm_binding = b, dm_plan = normalizePlan plan, dm_completed = [], dm_failed = [], dm_skipped = [],
      dm_delegations = [], dm_checkpoints = [], dm_issued = [], dm_epochs = [],
      dm_budget = \<lparr>ic_iterations = 0, ic_spendUsd = ''0'', ic_wallMs = 0\<rparr>, dm_nanos = 0, dm_store = store, dm_events = []\<rparr>"
    using assms(1) by (auto simp: makeDelegationManager_def Let_def split: sum.splits)
  have "iterationCostSpendNanos ''0'' = Some 0"
    by (simp add: iterationCostSpendNanos_def parse_spelling_def parse_exponent_def is_digit_def num_of_digits_def digit_num_def
        scaled_nanos_def Let_def)
  then have "budget_inv m" unfolding b(3) by (simp add: budget_inv_def isSafeInteger_def)
  then show ?thesis
    using valid_plan_deps [OF b(2)] assms(2)
    by (simp add: delegation_ok_def dm_inv_def lanes_inv_def ledger_inv_def completed_known_def b(3))
qed

section \<open>Progress, budget and stale handles\<close>

lemma schedule_view_fields [simp]:
  "sr_ready (schedule_view m) = map dt_taskId (readySet m)"
  "sr_cascadeSkipped (schedule_view m) = map dt_taskId (filter (\<lambda>t. dt_taskId t \<in> set (dm_skipped m)) (pl_nodes (dm_plan m)))"
  by (simp_all add: schedule_view_def readySet_def)

lemma task_ready_cong: "dm_completed m' = dm_completed m \<Longrightarrow> dm_failed m' = dm_failed m \<Longrightarrow> dm_skipped m' = dm_skipped m \<Longrightarrow>
    dm_delegations m' = dm_delegations m \<Longrightarrow> task_ready m' t = task_ready m t"
  by (simp add: task_ready_def isTerminal_def)

lemma cascaded_progress:
  assumes inv: "dm_inv deps m" and t: "t \<in> set (pl_nodes (dm_plan m))" "\<not> isTerminal (cascaded m) (dt_taskId t)"
  shows "(\<exists>u \<in> set (pl_nodes (dm_plan m)). task_ready (cascaded m) u) \<or> (\<exists>i st. map_of (dm_delegations m) i = Some st \<and> running st)"
proof (rule ccontr)
  assume stuck: "\<not> ?thesis"
  let ?n = "pl_nodes (dm_plan m)" and ?c = "cascaded m"
  have sk: "set (dm_skipped ?c) = set (dm_skipped m) \<union> doomed (dm_completed m) (dm_failed m) ?n (dm_skipped m)"
    by (simp add: cascaded_def skip_loop_exact)
  have "dt_taskId ` set ?n \<subseteq> {i. isTerminal ?c i}"
  proof (rule acyclic_all_visited [OF dm_invD(2,1) [OF inv]])
    fix u assume u: "u \<in> set ?n" "dt_taskId u \<notin> {i. isTerminal ?c i}"
    then have nt: "dt_taskId u \<notin> set (dm_completed m) \<union> set (dm_failed m) \<union> set (dm_skipped m)"
      "dt_taskId u \<notin> doomed (dm_completed m) (dm_failed m) ?n (dm_skipped m)"
      using sk by (auto simp: isTerminal_def cascaded_def)
    have "map_of (dm_delegations m) (delegationIdFor (dt_taskId u)) = None"
    proof (rule ccontr)
      assume "map_of (dm_delegations m) (delegationIdFor (dt_taskId u)) \<noteq> None"
      then obtain st where st: "map_of (dm_delegations m) (delegationIdFor (dt_taskId u)) = Some st" by blast
      have "dt_taskId (ds_task st) = dt_taskId u" "ds_status st = DsCompleted \<longleftrightarrow> dt_taskId (ds_task st) \<in> set (dm_completed m)"
        "ds_status st = DsFailed \<longleftrightarrow> dt_taskId (ds_task st) \<in> set (dm_failed m)"
        using dm_invD(5) [OF inv st] unfolding entry_inv_def by simp_all
      then have "running st" using nt by (cases "ds_status st") (simp_all add: running_def)
      with st stuck show False by blast
    qed
    moreover have "\<not> task_ready ?c u" using stuck u(1) by blast
    ultimately obtain d where d: "d \<in> set (dt_dependsOn u)" "d \<notin> set (dm_completed m)"
      using u(2) by (auto simp: task_ready_def list_all_iff cascaded_def)
    have "d \<notin> set (dm_failed m) \<union> set (dm_skipped m) \<union> doomed (dm_completed m) (dm_failed m) ?n (dm_skipped m)"
      using doomed.direct [OF u(1) nt(1) d(1)] doomed.cascade [OF u(1) nt(1) d(1)] nt(2) by blast
    with d sk show "\<exists>d \<in> set (dt_dependsOn u). d \<notin> {i. isTerminal ?c i}"
      by (auto simp: isTerminal_def cascaded_def)
  qed
  with t show False by blast
qed

fun run_ops :: "'p delegation_deps \<Rightarrow> 'p manager \<Rightarrow> delegation_op list \<Rightarrow> 'p manager \<times> task_observation list" where
  "run_ops deps m [] = (m, [])"
| "run_ops deps m (op # ops) =
     (let (m1, obs) = run_op deps m op; (m2, rest) = run_ops deps m1 ops in (m2, obs @ rest))"

lemma run_ops_state: "fst (run_ops deps m ops) = foldl (delegation_step deps) m ops"
proof (induction ops arbitrary: m)
  case (Cons op ops)
  have "fst (run_ops deps (fst (run_op deps m op)) ops) = foldl (delegation_step deps) (fst (run_op deps m op)) ops" by (rule Cons)
  then show ?case by (simp add: delegation_step_def [of deps m op] case_prod_beta Let_def)
qed simp

definition cost_of :: "task_observation \<Rightarrow> int \<times> int \<times> int" where
  "cost_of ob = (ic_iterations (ob_cost ob), ic_wallMs (ob_cost ob),
     int (case iterationCostSpendNanos (ic_spendUsd (ob_cost ob)) of None \<Rightarrow> 0 | Some n \<Rightarrow> n))"

definition spent :: "'p manager \<Rightarrow> int \<times> int \<times> int" where
  "spent m = (ic_iterations (dm_budget m), ic_wallMs (dm_budget m), int (dm_nanos m))"

definition add3 :: "int \<times> int \<times> int \<Rightarrow> int \<times> int \<times> int \<Rightarrow> int \<times> int \<times> int" where
  "add3 x y = (case (x, y) of ((a, b, c), (d, e, f)) \<Rightarrow> (a + d, b + e, c + f))"

lemma settle_spent:
  assumes inv: "dm_inv deps m" and st: "map_of (dm_delegations m) i = Some st" and run: "running st"
    and q: "quantizedIterationCost usd cost = Some (c, n)" and b: "nextRunBudget deps m c n = Some budget"
    and s: "settle_delegation deps m i st status ob budget = (m', r)" and oc: "ob_cost ob = c"
  shows "spent m' = (case r of Inl _ \<Rightarrow> spent m | Inr ob' \<Rightarrow> add3 (spent m) (cost_of ob'))"
proof (cases r)
  case (Inl e)
  from settle_rollback [OF inv st run s [unfolded Inl]] have f: "m' = m\<lparr>dm_store := dm_store m'\<rparr>" .
  show ?thesis using arg_cong [OF f, of dm_budget] arg_cong [OF f, of dm_nanos] Inl by (simp add: spent_def)
next
  case (Inr o1)
  from settle_done [OF s [unfolded Inr]] obtain p e where o1: "o1 = ob" and
    m': "m' = dm_emit e ((settled m i st status ob budget)\<lparr>dm_store := p\<rparr>)" by blast
  obtain bud k where bk: "budget = (bud, k)" by fastforce
  show ?thesis unfolding m' Inr o1
    using nextRunBudget_Some [OF b [unfolded bk]] quantized_Some [OF q] oc bk
    by (simp add: spent_def cost_of_def settled_def writeCheckpoint_def put_state_def add3_def)
qed

lemma complete_spent:
  assumes "dm_inv deps m" and "h_complete deps m h summary result cost = (m', r)"
  shows "spent m' = (case r of Inl _ \<Rightarrow> spent m | Inr ob' \<Rightarrow> add3 (spent m) (cost_of ob'))"
  using assms(2)
  by (auto simp: h_complete_def split: option.splits prod.splits if_splits sum.splits
      dest!: handle_stateD dest: settle_spent [OF assms(1)])

lemma fail_spent:
  assumes "dm_inv deps m" and "h_fail deps m h summary cost = (m', r)"
  shows "spent m' = (case r of Inl _ \<Rightarrow> spent m | Inr ob' \<Rightarrow> add3 (spent m) (cost_of ob'))"
  using assms(2)
  by (auto simp: h_fail_def split: option.splits prod.splits if_splits sum.splits
      dest!: handle_stateD dest: settle_spent [OF assms(1)])

lemma spawn_spent:
  assumes inv: "dm_inv deps m" and s: "dm_spawn deps m taskId = (m', r)"
  shows "spent m' = spent m"
proof (cases r)
  case (Inl e)
  from spawn_failed [OF inv s [unfolded Inl]] have f: "m' = m\<lparr>dm_store := dm_store m', dm_events := dm_events m'\<rparr>" .
  show ?thesis using arg_cong [OF f, of dm_budget] arg_cong [OF f, of dm_nanos] by (simp add: spent_def)
next
  case (Inr h)
  from s [unfolded Inr] obtain t agent where "start_delegation deps m t agent = (m', Inr h)" by (rule spawn_done)
  from start_done [OF this] obtain p e where "makeHandle (dm_emit e ((started deps m t agent)\<lparr>dm_store := p\<rparr>))
     (delegationIdFor (dt_taskId t)) (fresh_state deps t agent) = (m', h)" by metis
  from handle_frame [OF this] show ?thesis by (simp add: spent_def started_def writeCheckpoint_def put_state_def)
qed

lemma resume_spent: "resumeState deps m i st = (m', r) \<Longrightarrow> spent m' = spent m"
  by (auto simp: resumeState_def Let_def put_state_def makeHandle_def dm_quarantine_def spent_def split: option.splits sum.splits prod.splits)

lemma append_spent: "appendShard deps m i st ts kind payload = (m', r) \<Longrightarrow> spent m' = spent m"
  by (auto simp: appendShard_def Let_def put_state_def writeCheckpoint_def spent_def split: if_splits sum.splits prod.splits)

lemma schedule_spent: "dm_schedule deps m = (m', r) \<Longrightarrow> spent m' = spent m"
  by (auto simp: dm_schedule_def Let_def emit_all spent_def split: if_splits sum.splits prod.splits)

definition total_cost :: "task_observation list \<Rightarrow> int \<times> int \<times> int" where
  "total_cost obs = foldl (\<lambda>acc ob. add3 acc (cost_of ob)) (0, 0, 0) obs"

lemma add3_assoc: "add3 (add3 x y) z = add3 x (add3 y z)" and add3_zero [simp]: "add3 x (0, 0, 0) = x" "add3 (0, 0, 0) x = x"
  by (auto simp: add3_def split: prod.splits)

lemma total_cost_from: "foldl (\<lambda>acc ob. add3 acc (cost_of ob)) x obs = add3 x (total_cost obs)"
proof (induction obs arbitrary: x)
  case (Cons ob obs)
  have "total_cost (ob # obs) = add3 (cost_of ob) (total_cost obs)" using Cons [of "cost_of ob"] by (simp add: total_cost_def)
  with Cons [of "add3 x (cost_of ob)"] show ?case by (simp add: add3_assoc)
qed (simp add: total_cost_def)

lemma total_cost_append: "total_cost (xs @ ys) = add3 (total_cost xs) (total_cost ys)"
  using total_cost_from [of "total_cost xs" ys] by (simp add: total_cost_def)

lemma total_cost_single [simp]: "total_cost [ob] = cost_of ob" "total_cost [] = (0, 0, 0)"
  by (simp_all add: total_cost_def)

lemma step_spent:
  assumes "dm_inv deps m" and "run_op deps m op = (m', obs)"
  shows "spent m' = add3 (spent m) (total_cost obs)"
proof (cases op)
  case (OpSpawn t)
  obtain m1 r where e: "dm_spawn deps m t = (m1, r)" by fastforce
  with spawn_spent [OF assms(1) e] assms(2) OpSpawn show ?thesis by (auto simp: run_op_def)
next
  case (OpResume i)
  with assms(2) show ?thesis
    by (auto simp: run_op_def resume_loaded_def split: option.splits if_splits) (metis prod.collapse resume_spent)
next
  case (OpAppend h ts kind payload)
  with assms(2) show ?thesis
    by (auto simp: run_op_def h_append_def split: option.splits) (metis prod.collapse append_spent)
next
  case (OpComplete h summary result cost)
  obtain m1 r where e: "h_complete deps m h summary result cost = (m1, r)" by fastforce
  with complete_spent [OF assms(1) e] assms(2) OpComplete show ?thesis by (auto simp: run_op_def split: sum.splits)
next
  case (OpFail h summary cost)
  obtain m1 r where e: "h_fail deps m h summary cost = (m1, r)" by fastforce
  with fail_spent [OF assms(1) e] assms(2) OpFail show ?thesis by (auto simp: run_op_def split: sum.splits)
next
  case OpSchedule
  obtain m1 r where e: "dm_schedule deps m = (m1, r)" by fastforce
  with schedule_spent [OF e] assms(2) OpSchedule show ?thesis by (auto simp: run_op_def)
qed

lemma run_spent:
  "delegation_ok deps m \<Longrightarrow> run_ops deps m ops = (m', obs) \<Longrightarrow> spent m' = add3 (spent m) (total_cost obs)"
proof (induction ops arbitrary: m m' obs)
  case (Cons op ops)
  obtain m1 o1 where r: "run_op deps m op = (m1, o1)" by fastforce
  obtain o2 where r2: "run_ops deps m1 ops = (m', o2)" "obs = o1 @ o2"
    using Cons.prems(2) r by (auto split: prod.splits)
  have "delegation_ok deps m1" using step_ok [OF Cons.prems(1), of op] r by (simp add: delegation_step_def)
  from Cons.IH [OF this r2(1)] step_spent [OF _ r] Cons.prems(1) show ?case
    by (simp add: r2(2) total_cost_append add3_assoc delegation_ok_def)
qed simp

text \<open>A handle is stale once a later one was issued or its delegation is no longer running.\<close>

definition stale :: "delegation_handle \<Rightarrow> 'p manager \<Rightarrow> bool" where
  "stale h m \<longleftrightarrow> (\<exists>k st. map_of (dm_epochs m) (dh_id h) = Some k \<and> map_of (dm_delegations m) (dh_id h) = Some st \<and>
     (dh_epoch h < k \<or> dh_epoch h = k \<and> \<not> running st))"

lemma stale_refused: "stale h m \<Longrightarrow> handle_state m h = None"
  by (auto simp: stale_def handle_state_def split: option.splits)

lemma stale_same:
  "stale h m \<Longrightarrow> dm_epochs m' = dm_epochs m \<Longrightarrow> map_of (dm_delegations m') (dh_id h) = map_of (dm_delegations m) (dh_id h) \<Longrightarrow> stale h m'"
  by (simp add: stale_def)

lemma stale_put:
  assumes "stale h m" and "dm_epochs m' = dm_epochs m" and "dm_delegations m' = AList.update i st' (dm_delegations m)"
    and "map_of (dm_delegations m) i = Some st" and "running st' \<Longrightarrow> running st"
  shows "stale h m'"
  using assms unfolding stale_def by (auto split: if_splits)

lemma stale_handle:
  assumes "stale h m" and "makeHandle m i st = (m', h')" and "map_of (dm_delegations m') (dh_id h) \<noteq> None"
    and "i = dh_id h \<Longrightarrow> map_of (dm_delegations m) i \<noteq> None"
  shows "stale h m'"
  using assms by (auto simp: stale_def makeHandle_def Let_def get_or_def)

lemma spawn_stale:
  assumes inv: "dm_inv deps m" and st: "stale h m" and s: "dm_spawn deps m taskId = (m', r)"
  shows "stale h m'"
proof (cases r)
  case (Inl e)
  from spawn_failed [OF inv s [unfolded Inl]] have f: "m' = m\<lparr>dm_store := dm_store m', dm_events := dm_events m'\<rparr>" .
  show ?thesis using arg_cong [OF f, of dm_epochs] arg_cong [OF f, of dm_delegations] by (intro stale_same [OF st]) simp_all
next
  case (Inr h1)
  from s [unfolded Inr] obtain t agent where t: "start_delegation deps m t agent = (m', Inr h1)" "dt_taskId t = taskId"
    "map_of (dm_delegations m) (delegationIdFor taskId) = None" by (rule spawn_done) blast
  from start_done [OF t(1)] obtain p e where mh: "makeHandle (dm_emit e ((started deps m t agent)\<lparr>dm_store := p\<rparr>))
     (delegationIdFor (dt_taskId t)) (fresh_state deps t agent) = (m', h1)" by metis
  have ne: "dh_id h \<noteq> delegationIdFor (dt_taskId t)" using st t(2,3) by (auto simp: stale_def)
  have "stale h (dm_emit e ((started deps m t agent)\<lparr>dm_store := p\<rparr>))"
    using ne by (intro stale_same [OF st]) (simp_all add: started_def writeCheckpoint_def put_state_def)
  then show ?thesis
    using handle_frame [OF mh] ne by (intro stale_handle [OF _ mh]) (auto simp: stale_def)
qed

lemma settle_stale:
  assumes inv: "dm_inv deps m" and old: "stale h m" and st: "map_of (dm_delegations m) i = Some st" and run: "running st"
    and s: "settle_delegation deps m i st status ob budget = (m', r)" and status: "status = DsCompleted \<or> status = DsFailed"
  shows "stale h m'"
proof (cases r)
  case (Inl e)
  from settle_rollback [OF inv st run s [unfolded Inl]] have f: "m' = m\<lparr>dm_store := dm_store m'\<rparr>" .
  show ?thesis using arg_cong [OF f, of dm_epochs] arg_cong [OF f, of dm_delegations] by (intro stale_same [OF old]) simp_all
next
  case (Inr o1)
  from settle_done [OF s [unfolded Inr]] obtain p e where m': "m' = dm_emit e ((settled m i st status ob budget)\<lparr>dm_store := p\<rparr>)" by blast
  show ?thesis unfolding m'
    by (rule stale_put [OF old _ _ st, where st' = "st\<lparr>ds_status := status, ds_observation := Some ob\<rparr>"])
       (use status in \<open>auto simp: settled_def writeCheckpoint_def put_state_def running_def\<close>)
qed

lemma append_stale:
  assumes inv: "dm_inv deps m" and old: "stale h m" and st: "map_of (dm_delegations m) i = Some st"
    and s: "appendShard deps m i st ts kind payload = (m', r)"
  shows "stale h m'"
proof (cases r)
  case (Inl e)
  have f: "m' = m\<lparr>dm_store := dm_store m'\<rparr>"
    using append_rollback [OF st _ s [unfolded Inl]] entry_checkpoint [OF dm_invD(5) [OF inv st]] by blast
  show ?thesis using arg_cong [OF f, of dm_epochs] arg_cong [OF f, of dm_delegations] by (intro stale_same [OF old]) simp_all
next
  case (Inr e)
  from append_done [OF s [unfolded Inr]] obtain p where
    m': "m' = (writeCheckpoint i (st\<lparr>ds_entries := ds_entries st @ [e]\<rparr>) (put_state i (st\<lparr>ds_entries := ds_entries st @ [e]\<rparr>) m))\<lparr>dm_store := p\<rparr>"
    by blast
  show ?thesis unfolding m'
    by (rule stale_put [OF old _ _ st, where st' = "st\<lparr>ds_entries := ds_entries st @ [e]\<rparr>"])
       (auto simp: writeCheckpoint_def put_state_def running_def)
qed

lemma resume_stale:
  assumes inv: "dm_inv deps m" and old: "stale h m" and st: "map_of (dm_delegations m) i = Some st" and fl: "ds_status st = DsFailed"
    and s: "resumeState deps m i st = (m', r)"
  shows "stale h m'"
proof (cases r)
  case (Inl e)
  from resume_refused_frame [OF inv st fl s [unfolded Inl]] obtain fs where
    f: "m' = m\<lparr>dm_store := dm_store m', dm_events := dm_events m', dm_failed := fs\<rparr>" by blast
  show ?thesis using arg_cong [OF f, of dm_epochs] arg_cong [OF f, of dm_delegations] by (intro stale_same [OF old]) simp_all
next
  case (Inr h1)
  let ?st = "st\<lparr>ds_status := DsResumed, ds_observation := None, ds_guardian := makeLoopGuardian\<rparr>"
  from resume_done [OF s [unfolded Inr]] obtain p e where
    mh: "makeHandle (dm_emit e ((resumed m i st)\<lparr>dm_store := p\<rparr>)) i ?st = (m', h1)" by metis
  show ?thesis
  proof (cases "dh_id h = i")
    case True
    from old True obtain k where k: "map_of (dm_epochs m) i = Some k" "dh_epoch h \<le> k" by (auto simp: stale_def)
    have "dm_epochs (dm_emit e ((resumed m i st)\<lparr>dm_store := p\<rparr>)) = dm_epochs m" by (simp add: resumed_def put_state_def)
    with mh k have "map_of (dm_epochs m') i = Some (k + 1)" by (auto simp: makeHandle_def Let_def get_or_def)
    moreover have "map_of (dm_delegations m') i = Some ?st"
      using handle_frame [OF mh] by (simp add: resumed_def put_state_def)
    ultimately show ?thesis using True k(2) by (auto simp: stale_def)
  next
    case False
    have "stale h (dm_emit e ((resumed m i st)\<lparr>dm_store := p\<rparr>))"
      using False by (intro stale_same [OF old]) (simp_all add: resumed_def put_state_def)
    then show ?thesis using handle_frame [OF mh] False by (intro stale_handle [OF _ mh]) (auto simp: stale_def)
  qed
qed

lemma delegation_complete_stale:
  "dm_inv deps m \<Longrightarrow> stale h m \<Longrightarrow> h_complete deps m h1 summary result cost = (m', r) \<Longrightarrow> stale h m'"
  by (auto simp: h_complete_def split: option.splits prod.splits if_splits sum.splits dest!: handle_stateD intro: settle_stale)

lemma fail_stale:
  "dm_inv deps m \<Longrightarrow> stale h m \<Longrightarrow> h_fail deps m h1 summary cost = (m', r) \<Longrightarrow> stale h m'"
  by (auto simp: h_fail_def split: option.splits prod.splits if_splits sum.splits dest!: handle_stateD intro: settle_stale)

lemma schedule_stale:
  assumes "stale h m" and "dm_schedule deps m = (m', r)"
  shows "stale h m'"
  by (rule stale_same [OF assms(1)])
     (use assms(2) in \<open>auto simp: dm_schedule_def Let_def emit_all split: if_splits sum.splits prod.splits\<close>)

lemma step_stale:
  assumes inv: "dm_inv deps m" and old: "stale h m"
  shows "stale h (delegation_step deps m op)"
  by (rule delegation_step_cases [where P = "stale h"], rule old, erule spawn_stale [OF inv old],
      erule (2) resume_stale [OF inv old], erule (1) append_stale [OF inv old], erule delegation_complete_stale [OF inv old],
      erule fail_stale [OF inv old], erule schedule_stale [OF old])

interpretation stale_handles: latch_machine "delegation_step deps" "\<lambda>m. delegation_ok deps m \<and> stale h m" for deps h
  by unfold_locales (metis step_ok step_stale delegation_ok_def)

lemma complete_makes_stale:
  assumes inv: "dm_inv deps m" and c: "h_complete deps m h summary result cost = (m', Inr ob)"
  shows "stale h m'"
proof -
  from c obtain st where hs: "handle_state m h = Some st" by (auto simp: h_complete_def split: option.splits)
  from c hs obtain budget where s: "settle_delegation deps m (dh_id h) st DsCompleted
      \<lparr>ob_delegationId = dh_id h, ob_status = DsCompleted, ob_summary = summary, ob_touched = ds_owns st, ob_result = result,
       ob_cost = fst (the (quantizedIterationCost (dd_usd deps) cost))\<rparr> budget = (m', Inr ob)"
    by (auto simp: h_complete_def split: option.splits prod.splits if_splits sum.splits)
  from settle_done [OF s] handle_stateD [OF hs] show ?thesis
    by (auto simp: stale_def settled_def writeCheckpoint_def put_state_def running_def)
qed

lemma fail_makes_stale:
  assumes inv: "dm_inv deps m" and c: "h_fail deps m h summary cost = (m', Inr ob)"
  shows "stale h m'"
proof -
  from c obtain st where hs: "handle_state m h = Some st" by (auto simp: h_fail_def split: option.splits)
  from c hs obtain budget where s: "settle_delegation deps m (dh_id h) st DsFailed
      \<lparr>ob_delegationId = dh_id h, ob_status = DsFailed, ob_summary = summary, ob_touched = ds_owns st, ob_result = JUndef,
       ob_cost = fst (the (quantizedIterationCost (dd_usd deps) cost))\<rparr> budget = (m', Inr ob)"
    by (auto simp: h_fail_def split: option.splits prod.splits if_splits sum.splits)
  from settle_done [OF s] handle_stateD [OF hs] show ?thesis
    by (auto simp: stale_def settled_def writeCheckpoint_def put_state_def running_def)
qed

end
