(* ===== verification/Delegation_Recovery.thy ===== *)
theory Delegation_Recovery
  imports Delegation_Run
begin

text \<open>
  Recovery of a delegation run from its durable store (\<open>core-ts/src/orchestration/index.ts\<close>): validation of
  the stored run and of each stored delegation, the two-phase recovery of the active set, the cold recovery
  of one target with quarantine, the read-only preflight, and the public \<open>resume\<close>, \<open>recover\<close>,
  \<open>recoverActive\<close> and \<open>preflightRecovery\<close>.

  A stored value without the shape of its interface is \<open>BadRun\<close> or \<open>BadRecord\<close>; the shape tests of the
  code are this case. The comparisons of canonical JSON texts are equality of the typed values, where the tool tiers
  of a card are compared in key order; a task or card too large for the payload guard, on which the comparison of the
  code throws, is outside the model.
\<close>

section \<open>Validation\<close>

datatype recovery_error = ValidationFailed string quarantine_reason | RecoveryRefused delegation_error

record validated_run =
  vr_runId :: string
  vr_budget :: "int iteration_cost"
  vr_active :: "string list"
  vr_completed :: "string list"
  vr_failed :: "string list"
  vr_skipped :: "string list"

definition validatePersistedRun :: "'p delegation_deps \<Rightarrow> 'p manager \<Rightarrow> string \<Rightarrow> stored_run \<Rightarrow> recovery_error + validated_run" where
  "validatePersistedRun deps m delegationId value =
     (case value of
        RunRecord raw \<Rightarrow>
          if pr_runId raw = [] then Inl (ValidationFailed delegationId LegacyOrInvalidState)
          else
            (case resolvedWorkBinding (pr_binding raw) of
               Inl _ \<Rightarrow> Inl (ValidationFailed delegationId LegacyOrInvalidState)
             | Inr b \<Rightarrow>
                 if b \<noteq> dm_binding m then Inl (ValidationFailed delegationId BindingMismatch)
                 else if \<not> bindingIsActive deps b then Inl (ValidationFailed delegationId BindingInactive)
                 else
                   (case canonicalizeIterationCost (dd_usd deps) (pr_budget raw) of
                      None \<Rightarrow> Inl (ValidationFailed delegationId LegacyOrInvalidState)
                    | Some budget \<Rightarrow>
                        (let flat = pr_active raw @ pr_completed raw @ pr_failed raw @ pr_skipped raw in
                         if pr_budget raw \<noteq> raw_cost budget \<or> list_ex (\<lambda>i. task_by_id m i = None) flat \<or>
                            length (dedup flat) \<noteq> length flat
                         then Inl (ValidationFailed delegationId LegacyOrInvalidState)
                         else Inr \<lparr>vr_runId = pr_runId raw, vr_budget = budget, vr_active = pr_active raw,
                                   vr_completed = pr_completed raw, vr_failed = pr_failed raw, vr_skipped = pr_skipped raw\<rparr>)))
      | _ \<Rightarrow> Inl (ValidationFailed delegationId LegacyOrInvalidState))"

definition terminalObservationValid :: "'p delegation_deps \<Rightarrow> task_observation option \<Rightarrow> string \<Rightarrow> delegation_status \<Rightarrow>
    string list \<Rightarrow> int iteration_cost \<Rightarrow> bool" where
  "terminalObservationValid deps value delegationId status owns budget =
     (case value of
        None \<Rightarrow> False
      | Some ob \<Rightarrow>
          (case (canonicalizeIterationCost (dd_usd deps) (raw_cost (ob_cost ob)), canonicalizeIterationCost (dd_usd deps) (raw_cost budget)) of
             (Some cost, Some canonicalBudget) \<Rightarrow>
               (case (iterationCostSpendNanos (ic_spendUsd cost), iterationCostSpendNanos (ic_spendUsd canonicalBudget)) of
                  (Some costNanos, Some budgetNanos) \<Rightarrow>
                    ob_delegationId ob = delegationId \<and> ob_status ob = status \<and> summary_ok (ob_summary ob) \<and>
                    ob_touched ob = owns \<and> ob_cost ob = cost \<and> budget = canonicalBudget \<and>
                    ic_iterations cost \<le> ic_iterations canonicalBudget \<and> costNanos \<le> budgetNanos \<and>
                    ic_wallMs cost \<le> ic_wallMs canonicalBudget \<and>
                    (if status = DsCompleted then assertBoundedSerializable (ob_result ob) = Inr ()
                     else status = DsFailed \<and> ob_result ob = JUndef)
                | _ \<Rightarrow> False)
           | _ \<Rightarrow> False))"

definition same_card :: "agent_card \<Rightarrow> agent_card \<Rightarrow> bool" where
  "same_card a b \<longleftrightarrow> a\<lparr>ac_toolTiers := sort_entries (ac_toolTiers a)\<rparr> = b\<lparr>ac_toolTiers := sort_entries (ac_toolTiers b)\<rparr>"

definition status_fits_run :: "delegation_status \<Rightarrow> string \<Rightarrow> validated_run \<Rightarrow> bool" where
  "status_fits_run status taskId run \<longleftrightarrow>
     (let live = (status = DsActive \<or> status = DsResumed) in
      (live \<longleftrightarrow> taskId \<in> set (vr_active run)) \<and>
      (status = DsCompleted \<longleftrightarrow> taskId \<in> set (vr_completed run)) \<and>
      (status = DsFailed \<longleftrightarrow> taskId \<in> set (vr_failed run)) \<and>
      \<not> (live \<and> taskId \<in> set (vr_completed run @ vr_failed run @ vr_skipped run)))"

definition restored_state :: "persisted_delegation \<Rightarrow> delegation_task \<Rightarrow> agent_card \<Rightarrow> delegation_state" where
  "restored_state raw t agent =
     \<lparr>ds_task = t, ds_card = agent, ds_owns = pz_owns raw, ds_writableMcp = pz_writableMcp raw,
      ds_permittedTools = dedup (pz_permittedTools raw), ds_entries = pz_entries raw, ds_guardian = makeLoopGuardian,
      ds_status = pz_status raw, ds_observation = pz_observation raw\<rparr>"

definition current_card :: "'p delegation_deps \<Rightarrow> delegation_task option \<Rightarrow> agent_card option" where
  "current_card deps t = (case t of None \<Rightarrow> None | Some u \<Rightarrow> (case dt_assignedTo u of None \<Rightarrow> None | Some name \<Rightarrow> dd_resolveCard deps name))"

definition task_card_fits :: "'p delegation_deps \<Rightarrow> string \<Rightarrow> persisted_delegation \<Rightarrow> delegation_task \<Rightarrow> agent_card \<Rightarrow> bool" where
  "task_card_fits deps delegationId raw t agent \<longleftrightarrow>
     delegationId = delegationIdFor (dt_taskId t) \<and> pz_task raw = t \<and> same_card (pz_card raw) agent \<and>
     pz_owns raw = sc_owns (dt_scope t) \<and>
     sort (pz_permittedTools raw) = sort (map_keys (ac_toolTiers agent)) \<and>
     pz_writableMcp raw = filter (dd_mcpWritable deps) (ac_mcpAllowlist agent) \<and> out_of_lane deps t agent = []"

definition observation_fits :: "'p delegation_deps \<Rightarrow> string \<Rightarrow> persisted_delegation \<Rightarrow> int iteration_cost \<Rightarrow> bool" where
  "observation_fits deps delegationId raw budget \<longleftrightarrow>
     (if pz_status raw = DsCompleted \<or> pz_status raw = DsFailed
      then terminalObservationValid deps (pz_observation raw) delegationId (pz_status raw) (pz_owns raw) budget
      else pz_observation raw = None)"

definition validate_record :: "'p delegation_deps \<Rightarrow> 'p manager \<Rightarrow> string \<Rightarrow> persisted_delegation \<Rightarrow> validated_run \<Rightarrow>
    quarantine_reason + delegation_state" where
  "validate_record deps m delegationId raw run =
     (if pz_runId raw \<noteq> vr_runId run then Inl LegacyOrInvalidState
      else
        (case resolvedWorkBinding (pz_binding raw) of
           Inl _ \<Rightarrow> Inl LegacyOrInvalidState
         | Inr b \<Rightarrow>
             if b \<noteq> dm_binding m then Inl BindingMismatch
             else if \<not> bindingIsActive deps b then Inl BindingInactive
             else
               (let found = task_by_id m (dt_taskId (pz_task raw)) in
                case (found, current_card deps found) of
                  (Some t, Some agent) \<Rightarrow>
                    if \<not> task_card_fits deps delegationId raw t agent then Inl TaskOrCardMismatch
                    else if \<not> entriesVerify (dd_digest deps) (pz_entries raw) delegationId then Inl ShardIntegrityFailed
                    else if pz_checkpoint raw \<noteq> checkpointFor (dm_binding m) delegationId (restored_state raw t agent) then Inl CheckpointMismatch
                    else if \<not> status_fits_run (pz_status raw) (dt_taskId t) run then Inl LegacyOrInvalidState
                    else if \<not> observation_fits deps delegationId raw (vr_budget run) then Inl LegacyOrInvalidState
                    else Inr (restored_state raw t agent)
                | _ \<Rightarrow> Inl TaskOrCardMismatch)))"

definition validatePersistedDelegation :: "'p delegation_deps \<Rightarrow> 'p manager \<Rightarrow> string \<Rightarrow> stored_delegation \<Rightarrow> validated_run \<Rightarrow>
    recovery_error + delegation_state" where
  "validatePersistedDelegation deps m delegationId value run =
     (case value of
        NoRecord \<Rightarrow> Inl (ValidationFailed delegationId LegacyOrInvalidState)
      | BadRecord \<Rightarrow> Inl (ValidationFailed delegationId LegacyOrInvalidState)
      | Marker reason \<Rightarrow> Inl (ValidationFailed delegationId reason)
      | DelegationRecord raw \<Rightarrow>
          (case validate_record deps m delegationId raw run of
             Inl reason \<Rightarrow> Inl (ValidationFailed delegationId reason)
           | Inr st \<Rightarrow> Inr st))"

section \<open>Installing\<close>

definition installRun :: "'p manager \<Rightarrow> validated_run \<Rightarrow> delegation_error + 'p manager" where
  "installRun m run =
     (case iterationCostSpendNanos (ic_spendUsd (vr_budget run)) of
        None \<Rightarrow> Inl (Quarantined LegacyOrInvalidState)
      | Some nanos \<Rightarrow>
          Inr (m\<lparr>dm_runId := vr_runId run, dm_completed := dedup (vr_completed run), dm_failed := dedup (vr_failed run),
                 dm_skipped := dedup (vr_skipped run), dm_budget := vr_budget run, dm_nanos := nanos\<rparr>))"

definition install_one :: "'p manager \<Rightarrow> delegation_state \<Rightarrow> 'p manager" where
  "install_one m st =
     (let delegationId = delegationIdFor (dt_taskId (ds_task st))
      in writeCheckpoint delegationId st (put_state delegationId st m))"

definition installSnapshots :: "'p manager \<Rightarrow> delegation_state list \<Rightarrow> 'p manager" where
  "installSnapshots m snapshots = foldl install_one m snapshots"

definition loadRunValue :: "'p delegation_deps \<Rightarrow> 'p manager \<Rightarrow> stored_run" where
  "loadRunValue deps m =
     (case dd_persistence deps of
        None \<Rightarrow> NoRun
      | Some port \<Rightarrow> (case st_loadRun port (dm_store m) of None \<Rightarrow> NoRun | Some v \<Rightarrow> v))"

definition loadDelegationValue :: "'p delegation_deps \<Rightarrow> 'p manager \<Rightarrow> string \<Rightarrow> stored_delegation" where
  "loadDelegationValue deps m delegationId =
     (case dd_persistence deps of
        None \<Rightarrow> NoRecord
      | Some port \<Rightarrow> (case st_load port (dm_store m) delegationId of None \<Rightarrow> NoRecord | Some v \<Rightarrow> v))"

fun validate_all :: "('a \<Rightarrow> 'e + 'b) \<Rightarrow> 'a list \<Rightarrow> 'e + 'b list" where
  "validate_all f [] = Inr []"
| "validate_all f (x # xs) =
     (case f x of
        Inl e \<Rightarrow> Inl e
      | Inr y \<Rightarrow> (case validate_all f xs of Inl e \<Rightarrow> Inl e | Inr ys \<Rightarrow> Inr (y # ys)))"

fun lanes_clash :: "delegation_state list \<Rightarrow> bool" where
  "lanes_clash [] = False"
| "lanes_clash (st # sts) = (list_ex (\<lambda>u. overlappingPaths (ds_owns st) (ds_owns u) \<noteq> []) sts \<or> lanes_clash sts)"

definition first_or :: "string \<Rightarrow> string list \<Rightarrow> string" where
  "first_or d xs = (case xs of [] \<Rightarrow> d | x # _ \<Rightarrow> x)"

definition validateActiveSnapshots :: "'p delegation_deps \<Rightarrow> 'p manager \<Rightarrow> string list \<Rightarrow> validated_run \<Rightarrow> bool \<Rightarrow>
    recovery_error + delegation_state list" where
  "validateActiveSnapshots deps m requested run rejectIssued =
     (let expected = map delegationIdFor (vr_active run) in
      if length (dedup requested) \<noteq> length requested then Inl (RecoveryRefused NotResumable)
      else if length requested \<noteq> length expected \<or> list_ex (\<lambda>i. i \<notin> set expected) requested then Inl (RecoveryRefused NotResumable)
      else if rejectIssued \<and> list_ex (\<lambda>i. i \<in> set (dm_issued m)) requested then Inl (RecoveryRefused NotResumable)
      else
        (case validate_all (\<lambda>i. validatePersistedDelegation deps m i (loadDelegationValue deps m i) run) requested of
           Inl e \<Rightarrow> Inl e
         | Inr snapshots \<Rightarrow>
             if lanes_clash snapshots then Inl (ValidationFailed (first_or ''active-set'' requested) TaskOrCardMismatch)
             else Inr snapshots))"

definition prepareActiveRecovery :: "'p delegation_deps \<Rightarrow> 'p manager \<Rightarrow> string list \<Rightarrow>
    recovery_error + (validated_run \<times> delegation_state list)" where
  "prepareActiveRecovery deps m ids =
     (if Option.is_none (dd_persistence deps) then Inl (RecoveryRefused NotResumable)
      else
        (case validatePersistedRun deps m (first_or ''active-set'' ids) (loadRunValue deps m) of
           Inl e \<Rightarrow> Inl e
         | Inr run \<Rightarrow>
             (case validateActiveSnapshots deps m ids run True of
                Inl e \<Rightarrow> Inl e
              | Inr snapshots \<Rightarrow> Inr (run, snapshots))))"

definition install_all :: "'p manager \<Rightarrow> validated_run \<Rightarrow> delegation_state list \<Rightarrow> recovery_error + 'p manager" where
  "install_all m run snapshots =
     (case installRun m run of
        Inl e \<Rightarrow> Inl (RecoveryRefused e)
      | Inr m1 \<Rightarrow> Inr (installSnapshots m1 snapshots))"

text \<open>
  Cold recovery of one target: the whole active set is validated with it. A validation failure of the requested
  record itself, when it is not active, quarantines it; any other failure is passed on unchanged.
\<close>

definition prepareColdTargetRecovery :: "'p delegation_deps \<Rightarrow> 'p manager \<Rightarrow> string \<Rightarrow>
    recovery_error + (validated_run \<times> delegation_state list \<times> delegation_state)" where
  "prepareColdTargetRecovery deps m delegationId =
     (case validatePersistedRun deps m delegationId (loadRunValue deps m) of
        Inl e \<Rightarrow> Inl e
      | Inr run \<Rightarrow>
          (case validateActiveSnapshots deps m (map delegationIdFor (vr_active run)) run False of
             Inl e \<Rightarrow> Inl e
           | Inr snapshots \<Rightarrow>
               (case find (\<lambda>st. delegationIdFor (dt_taskId (ds_task st)) = delegationId) snapshots of
                  Some target \<Rightarrow> Inr (run, snapshots, target)
                | None \<Rightarrow>
                    (case validatePersistedDelegation deps m delegationId (loadDelegationValue deps m delegationId) run of
                       Inl e \<Rightarrow> Inl e
                     | Inr target \<Rightarrow> Inr (run, snapshots @ [target], target)))))"

definition target_active :: "'p delegation_deps \<Rightarrow> 'p manager \<Rightarrow> string \<Rightarrow> bool" where
  "target_active deps m delegationId =
     (case validatePersistedRun deps m delegationId (loadRunValue deps m) of
        Inl _ \<Rightarrow> False
      | Inr run \<Rightarrow> delegationId \<in> set (map delegationIdFor (vr_active run)))"

definition hydrateColdTarget :: "'p delegation_deps \<Rightarrow> 'p manager \<Rightarrow> string \<Rightarrow> 'p manager \<times> (recovery_error + delegation_state)" where
  "hydrateColdTarget deps m delegationId =
     (case prepareColdTargetRecovery deps m delegationId of
        Inl e \<Rightarrow>
          (case e of
             ValidationFailed i reason \<Rightarrow>
               if i = delegationId \<and> \<not> target_active deps m delegationId
               then (dm_quarantine deps m delegationId reason, Inl (RecoveryRefused (Quarantined reason)))
               else (m, Inl e)
           | _ \<Rightarrow> (m, Inl e))
      | Inr (run, snapshots, target) \<Rightarrow>
          (case install_all m run snapshots of Inl e \<Rightarrow> (m, Inl e) | Inr m1 \<Rightarrow> (m1, Inr target)))"

definition restorePersisted :: "'p delegation_deps \<Rightarrow> 'p manager \<Rightarrow> string \<Rightarrow> 'p manager \<times> (recovery_error + delegation_state)" where
  "restorePersisted deps m delegationId =
     (let outcome =
        (case validatePersistedRun deps m delegationId (loadRunValue deps m) of
           Inl e \<Rightarrow> Inl e
         | Inr run \<Rightarrow>
             (case validatePersistedDelegation deps m delegationId (loadDelegationValue deps m delegationId) run of
                Inl e \<Rightarrow> Inl e
              | Inr st \<Rightarrow> (case install_all m run [st] of Inl e \<Rightarrow> Inl e | Inr m1 \<Rightarrow> Inr (m1, st))))
      in case outcome of
           Inr (m1, st) \<Rightarrow> (m1, Inr st)
         | Inl (ValidationFailed i reason) \<Rightarrow>
             (dm_quarantine deps m delegationId reason, Inl (RecoveryRefused (Quarantined reason)))
         | Inl e \<Rightarrow> (m, Inl e))"

definition loadRecoveryTarget :: "'p delegation_deps \<Rightarrow> 'p manager \<Rightarrow> string \<Rightarrow> 'p manager \<times> (recovery_error + delegation_state)" where
  "loadRecoveryTarget deps m delegationId =
     (case map_of (dm_delegations m) delegationId of
        Some st \<Rightarrow> (m, Inr st)
      | None \<Rightarrow>
          if Option.is_none (dd_persistence deps) then (m, Inl (RecoveryRefused UnknownDelegation))
          else if dm_delegations m = [] then hydrateColdTarget deps m delegationId
          else restorePersisted deps m delegationId)"

section \<open>Public operations\<close>

definition dm_resume :: "'p delegation_deps \<Rightarrow> 'p manager \<Rightarrow> string \<Rightarrow> 'p manager \<times> (recovery_error + delegation_handle)" where
  "dm_resume deps m delegationId =
     (case loadRecoveryTarget deps m delegationId of
        (m1, Inl e) \<Rightarrow> (m1, Inl e)
      | (m1, Inr st) \<Rightarrow>
          (case resume_loaded deps m1 delegationId st of
             (m2, Inl e) \<Rightarrow> (m2, Inl (RecoveryRefused e))
           | (m2, Inr h) \<Rightarrow> (m2, Inr h)))"

datatype recovery_result = RecoveredTerminal task_observation | Resumable delegation_handle

definition dm_recover :: "'p delegation_deps \<Rightarrow> 'p manager \<Rightarrow> string \<Rightarrow> 'p manager \<times> (recovery_error + recovery_result)" where
  "dm_recover deps m delegationId =
     (case loadRecoveryTarget deps m delegationId of
        (m1, Inl e) \<Rightarrow> (m1, Inl e)
      | (m1, Inr st) \<Rightarrow>
          if ds_status st = DsCompleted \<or> ds_status st = DsFailed then
            (case ds_observation st of
               None \<Rightarrow> (dm_quarantine deps m1 delegationId LegacyOrInvalidState, Inl (RecoveryRefused (Quarantined LegacyOrInvalidState)))
             | Some ob \<Rightarrow> (m1, Inr (RecoveredTerminal ob)))
          else if delegationId \<in> set (dm_issued m1) then (m1, Inl (RecoveryRefused NotResumable))
          else (let (m2, h) = makeHandle m1 delegationId st in (m2, Inr (Resumable h))))"

fun make_handles :: "'p manager \<Rightarrow> (string \<times> delegation_state) list \<Rightarrow> 'p manager \<times> delegation_handle list" where
  "make_handles m [] = (m, [])"
| "make_handles m ((i, st) # rest) =
     (let (m1, h) = makeHandle m i st; (m2, hs) = make_handles m1 rest in (m2, h # hs))"

definition recoverActive :: "'p delegation_deps \<Rightarrow> 'p manager \<Rightarrow> string list \<Rightarrow> 'p manager \<times> (recovery_error + delegation_handle list)" where
  "recoverActive deps m ids =
     (case prepareActiveRecovery deps m ids of
        Inl e \<Rightarrow> (m, Inl e)
      | Inr (run, snapshots) \<Rightarrow>
          (case install_all m run snapshots of
             Inl e \<Rightarrow> (m, Inl e)
           | Inr m1 \<Rightarrow> (let (m2, hs) = make_handles m1 (zip ids snapshots) in (m2, Inr hs))))"

datatype recovery_preflight =
    PreflightNone
  | PreflightTerminal "task_observation list" "int iteration_cost"
  | PreflightContinuation "string list" "task_observation list" "int iteration_cost"

text \<open>The running totals of the preflight, refused as soon as one leaves the safe integers.\<close>

fun tally :: "task_observation list \<Rightarrow> int \<times> int \<times> int \<Rightarrow> recovery_error + (int \<times> int \<times> int)" where
  "tally [] acc = Inr acc"
| "tally (ob # obs) (iterations, wallMs, nanos) =
     (case iterationCostSpendNanos (ic_spendUsd (ob_cost ob)) of
        None \<Rightarrow> Inl (ValidationFailed (ob_delegationId ob) LegacyOrInvalidState)
      | Some n \<Rightarrow>
          (let i = iterations + ic_iterations (ob_cost ob); w = wallMs + ic_wallMs (ob_cost ob); s = nanos + int n
           in if \<not> isSafeInteger i \<or> \<not> isSafeInteger w \<or> \<not> isSafeInteger s
              then Inl (ValidationFailed ''run-inventory'' LegacyOrInvalidState)
              else tally obs (i, w, s)))"

fun inventory :: "'p delegation_deps \<Rightarrow> 'p manager \<Rightarrow> validated_run \<Rightarrow> delegation_task list \<Rightarrow> recovery_error + delegation_state list" where
  "inventory deps m run [] = Inr []"
| "inventory deps m run (t # ts) =
     (let delegationId = delegationIdFor (dt_taskId t); value = loadDelegationValue deps m delegationId in
      if dt_taskId t \<notin> set (vr_active run @ vr_completed run @ vr_failed run) then
        (if value \<noteq> NoRecord then Inl (ValidationFailed delegationId LegacyOrInvalidState) else inventory deps m run ts)
      else
        (case validatePersistedDelegation deps m delegationId value run of
           Inl e \<Rightarrow> Inl e
         | Inr st \<Rightarrow> (case inventory deps m run ts of Inl e \<Rightarrow> Inl e | Inr sts \<Rightarrow> Inr (st # sts))))"

definition load_throws :: "'p delegation_deps \<Rightarrow> 'p manager \<Rightarrow> bool" where
  "load_throws deps m =
     (case dd_persistence deps of
        None \<Rightarrow> False
      | Some port \<Rightarrow> st_loadRun port (dm_store m) = None \<or>
          list_ex (\<lambda>t. st_load port (dm_store m) (delegationIdFor (dt_taskId t)) = None) (pl_nodes (dm_plan m)))"

definition preflight_run :: "'p delegation_deps \<Rightarrow> 'p manager \<Rightarrow> validated_run \<Rightarrow> recovery_error + recovery_preflight" where
  "preflight_run deps m run =
     (case inventory deps m run (pl_nodes (dm_plan m)) of
        Inl e \<Rightarrow> Inl e
      | Inr snapshots \<Rightarrow>
          if snapshots = [] then Inl (ValidationFailed ''run-inventory'' LegacyOrInvalidState)
          else if lanes_clash (filter running snapshots) then Inl (ValidationFailed ''run-inventory'' TaskOrCardMismatch)
          else
            (let observations = concat (map (\<lambda>st. case ds_observation st of None \<Rightarrow> [] | Some ob \<Rightarrow> [ob]) snapshots) in
             case tally observations (0, 0, 0) of
               Inl e \<Rightarrow> Inl e
             | Inr (iterations, wallMs, nanos) \<Rightarrow>
                 if (case iterationCostSpendNanos (ic_spendUsd (vr_budget run)) of None \<Rightarrow> True | Some n \<Rightarrow> nanos \<noteq> int n) \<or>
                    iterations \<noteq> ic_iterations (vr_budget run) \<or> wallMs \<noteq> ic_wallMs (vr_budget run)
                 then Inl (ValidationFailed ''run-inventory'' LegacyOrInvalidState)
                 else Inr (if vr_active run = [] then PreflightTerminal observations (vr_budget run)
                           else PreflightContinuation (map delegationIdFor (vr_active run)) observations (vr_budget run))))"

definition preflightRecovery :: "'p delegation_deps \<Rightarrow> 'p manager \<Rightarrow> recovery_error + recovery_preflight" where
  "preflightRecovery deps m =
     (if Option.is_none (dd_persistence deps) then Inl (RecoveryRefused NotResumable)
      else if dm_delegations m \<noteq> [] \<or> dm_issued m \<noteq> [] then Inl (RecoveryRefused NotResumable)
      else if load_throws deps m then Inl (RecoveryRefused (Quarantined LegacyOrInvalidState))
      else if loadRunValue deps m = NoRun then
        (if list_ex (\<lambda>t. loadDelegationValue deps m (delegationIdFor (dt_taskId t)) \<noteq> NoRecord) (pl_nodes (dm_plan m))
         then Inl (RecoveryRefused (Quarantined LegacyOrInvalidState)) else Inr PreflightNone)
      else
        (case validatePersistedRun deps m ''run-inventory'' (loadRunValue deps m) of
           Inl e \<Rightarrow> Inl e
         | Inr run \<Rightarrow> preflight_run deps m run))"

section \<open>Cards stay the authority\<close>

definition card_inv :: "'p delegation_deps \<Rightarrow> delegation_state \<Rightarrow> bool" where
  "card_inv deps st \<longleftrightarrow> (\<exists>name. dt_assignedTo (ds_task st) = Some name \<and> dd_resolveCard deps name = Some (ds_card st)) \<and>
     ds_permittedTools st = map_keys (ac_toolTiers (ds_card st)) \<and>
     ds_writableMcp st = filter (dd_mcpWritable deps) (ac_mcpAllowlist (ds_card st)) \<and>
     out_of_lane deps (ds_task st) (ds_card st) = []"

definition cards_inv :: "'p delegation_deps \<Rightarrow> 'p manager \<Rightarrow> bool" where
  "cards_inv deps m \<longleftrightarrow> (\<forall>i st. map_of (dm_delegations m) i = Some st \<longrightarrow> card_inv deps st)"

lemma card_inv_frame [simp]:
  "card_inv deps (st\<lparr>ds_status := x\<rparr>) = card_inv deps st" "card_inv deps (st\<lparr>ds_observation := y\<rparr>) = card_inv deps st"
  "card_inv deps (st\<lparr>ds_guardian := g\<rparr>) = card_inv deps st" "card_inv deps (st\<lparr>ds_entries := es\<rparr>) = card_inv deps st"
  by (simp_all add: card_inv_def)

lemma cards_put:
  "cards_inv deps m \<Longrightarrow> dm_delegations m' = AList.update i st' (dm_delegations m) \<Longrightarrow> card_inv deps st' \<Longrightarrow> cards_inv deps m'"
  by (auto simp: cards_inv_def)

lemma cards_same: "cards_inv deps m \<Longrightarrow> dm_delegations m' = dm_delegations m \<Longrightarrow> cards_inv deps m'"
  by (simp add: cards_inv_def)

lemma settle_cards:
  assumes "cards_inv deps m" and "map_of (dm_delegations m) i = Some st"
    and "settle_delegation deps m i st status ob budget = (m', r)"
  shows "cards_inv deps m'"
proof -
  have st: "card_inv deps st" using assms(1,2) by (simp add: cards_inv_def)
  obtain st' where "dm_delegations m' = AList.update i st' (dm_delegations m)" "card_inv deps st'"
    using assms(3) st by (auto simp: settle_delegation_def Let_def put_state_def writeCheckpoint_def update_twice split: sum.splits prod.splits)
  then show ?thesis by (rule cards_put [OF assms(1)])
qed

lemma append_cards:
  assumes "cards_inv deps m" and "map_of (dm_delegations m) i = Some st" and "appendShard deps m i st ts kind payload = (m', r)"
  shows "cards_inv deps m'"
proof -
  have st: "card_inv deps st" using assms(1,2) by (simp add: cards_inv_def)
  have "dm_delegations m' = dm_delegations m \<or> (\<exists>st'. dm_delegations m' = AList.update i st' (dm_delegations m) \<and> card_inv deps st')"
    using assms(3) st by (auto simp: appendShard_def Let_def put_state_def writeCheckpoint_def update_twice split: if_splits sum.splits prod.splits)
  then show ?thesis using cards_put [OF assms(1)] cards_same [OF assms(1)] by blast
qed

lemma resume_cards:
  assumes "cards_inv deps m" and "map_of (dm_delegations m) i = Some st" and "resumeState deps m i st = (m', r)"
  shows "cards_inv deps m'"
proof -
  have st: "card_inv deps st" using assms(1,2) by (simp add: cards_inv_def)
  have "dm_delegations m' = dm_delegations m \<or> (\<exists>st'. dm_delegations m' = AList.update i st' (dm_delegations m) \<and> card_inv deps st')"
    using assms(3) st
    by (auto simp: resumeState_def Let_def put_state_def update_twice makeHandle_def dm_quarantine_def
        split: option.splits sum.splits prod.splits)
  then show ?thesis using cards_put [OF assms(1)] cards_same [OF assms(1)] by blast
qed

lemma spawn_cards:
  assumes inv: "dm_inv deps m" and c: "cards_inv deps m" and s: "dm_spawn deps m taskId = (m', r)"
  shows "cards_inv deps m'"
proof (cases r)
  case (Inl e)
  from spawn_failed [OF inv s [unfolded Inl]] have f: "m' = m\<lparr>dm_store := dm_store m', dm_events := dm_events m'\<rparr>" .
  show ?thesis using arg_cong [OF f, of dm_delegations] by (intro cards_same [OF c]) simp
next
  case (Inr h)
  from s [unfolded Inr] obtain t agent where t: "start_delegation deps m t agent = (m', Inr h)" "out_of_lane deps t agent = []"
    "\<exists>name. dt_assignedTo t = Some name \<and> dd_resolveCard deps name = Some agent" by (rule spawn_done)
  from start_done [OF t(1)] obtain p e where "makeHandle (dm_emit e ((started deps m t agent)\<lparr>dm_store := p\<rparr>))
     (delegationIdFor (dt_taskId t)) (fresh_state deps t agent) = (m', h)" by metis
  from handle_frame [OF this] have "dm_delegations m' =
      AList.update (delegationIdFor (dt_taskId t)) (fresh_state deps t agent) (dm_delegations m)"
    by (simp add: started_def writeCheckpoint_def put_state_def)
  moreover have "card_inv deps (fresh_state deps t agent)" using t(2,3) by (simp add: card_inv_def fresh_state_def)
  ultimately show ?thesis by (rule cards_put [OF c])
qed

lemma complete_cards:
  "cards_inv deps m \<Longrightarrow> h_complete deps m h summary result cost = (m', r) \<Longrightarrow> cards_inv deps m'"
  by (auto simp: h_complete_def split: option.splits prod.splits if_splits sum.splits dest!: handle_stateD intro: settle_cards)

lemma fail_cards:
  "cards_inv deps m \<Longrightarrow> h_fail deps m h summary cost = (m', r) \<Longrightarrow> cards_inv deps m'"
  by (auto simp: h_fail_def split: option.splits prod.splits if_splits sum.splits dest!: handle_stateD intro: settle_cards)

lemma schedule_cards:
  assumes "cards_inv deps m" and "dm_schedule deps m = (m', r)"
  shows "cards_inv deps m'"
  by (rule cards_same [OF assms(1)])
     (use assms(2) in \<open>auto simp: dm_schedule_def Let_def emit_all split: if_splits sum.splits prod.splits\<close>)

lemma step_cards:
  assumes inv: "dm_inv deps m" and c: "cards_inv deps m"
  shows "cards_inv deps (delegation_step deps m op)"
  by (rule delegation_step_cases [where P = "cards_inv deps"], rule c, erule spawn_cards [OF inv c],
      erule (1) resume_cards [OF c], erule (1) append_cards [OF c], erule complete_cards [OF c],
      erule fail_cards [OF c], erule schedule_cards [OF c])

interpretation carded: invariant_machine "delegation_step deps" "\<lambda>m. delegation_ok deps m \<and> cards_inv deps m" for deps
  by unfold_locales (metis step_ok step_cards delegation_ok_def)

section \<open>What recovery installs\<close>

lemma validate_all_Inr: "validate_all f xs = Inr ys \<longleftrightarrow> list_all2 (\<lambda>x y. f x = Inr y) xs ys"
proof (induction xs arbitrary: ys)
  case (Cons x xs)
  show ?case
  proof (cases "f x")
    case (Inr y)
    have "validate_all f (x # xs) = Inr ys \<longleftrightarrow> (\<exists>zs. ys = y # zs \<and> validate_all f xs = Inr zs)"
      by (auto simp: Inr split: sum.splits)
    then show ?thesis unfolding list_all2_Cons1 Cons using Inr by auto
  qed (cases ys; simp)
qed auto

lemma lanes_clash_iff: "\<not> lanes_clash sts \<longleftrightarrow> (\<forall>i j. i < j \<and> j < length sts \<longrightarrow> overlappingPaths (ds_owns (sts ! i)) (ds_owns (sts ! j)) = [])"
proof (induction sts)
  case (Cons st sts)
  have "(\<forall>i j. i < j \<and> j < length (st # sts) \<longrightarrow> overlappingPaths (ds_owns ((st # sts) ! i)) (ds_owns ((st # sts) ! j)) = []) \<longleftrightarrow>
      (\<forall>j < length sts. overlappingPaths (ds_owns st) (ds_owns (sts ! j)) = []) \<and>
      (\<forall>i j. i < j \<and> j < length sts \<longrightarrow> overlappingPaths (ds_owns (sts ! i)) (ds_owns (sts ! j)) = [])"
    by (auto simp: nth_Cons less_Suc_eq_0_disj split: nat.splits)
  then show ?case by (auto simp: Cons list_ex_length)
qed simp

definition idOf :: "delegation_state \<Rightarrow> string" where
  "idOf st = delegationIdFor (dt_taskId (ds_task st))"

text \<open>What a validated delegation is known to be.\<close>

definition snapshot_ok :: "'p delegation_deps \<Rightarrow> 'p manager \<Rightarrow> validated_run \<Rightarrow> string \<Rightarrow> delegation_state \<Rightarrow> bool" where
  "snapshot_ok deps m run i st \<longleftrightarrow>
     i = idOf st \<and> ds_task st \<in> set (pl_nodes (dm_plan m)) \<and> ds_owns st = sc_owns (dt_scope (ds_task st)) \<and>
     current_card deps (Some (ds_task st)) = Some (ds_card st) \<and> set (ds_permittedTools st) = set (map_keys (ac_toolTiers (ds_card st))) \<and>
     out_of_lane deps (ds_task st) (ds_card st) = [] \<and> entriesVerify (dd_digest deps) (ds_entries st) i \<and>
     status_fits_run (ds_status st) (dt_taskId (ds_task st)) run"

lemma sort_eq_set: "sort xs = sort ys \<Longrightarrow> set xs = set ys"
  by (metis set_sort)

lemma validated_ok:
  assumes "validatePersistedDelegation deps m i value run = Inr st"
  shows "snapshot_ok deps m run i st"
proof -
  from assms obtain raw where r: "validate_record deps m i raw run = Inr st"
    by (auto simp: validatePersistedDelegation_def split: stored_delegation.splits sum.splits)
  obtain t agent where t: "task_by_id m (dt_taskId (pz_task raw)) = Some t" "current_card deps (Some t) = Some agent"
    "task_card_fits deps i raw t agent" "entriesVerify (dd_digest deps) (pz_entries raw) i"
    "status_fits_run (pz_status raw) (dt_taskId t) run" "st = restored_state raw t agent"
    using r by (auto simp: validate_record_def Let_def split: if_splits sum.splits option.splits prod.splits)
  have "t \<in> set (pl_nodes (dm_plan m))" using t(1) find_SomeD unfolding task_by_id_def by fastforce
  moreover have "set (pz_permittedTools raw) = set (map_keys (ac_toolTiers agent))"
    using t(3) by (intro sort_eq_set) (simp add: task_card_fits_def)
  ultimately show ?thesis using t
    by (simp add: snapshot_ok_def task_card_fits_def restored_state_def idOf_def)
qed

lemma install_delegations:
  "dm_delegations (installSnapshots m sts) = foldl (\<lambda>d st. AList.update (idOf st) st d) (dm_delegations m) sts"
  "dm_checkpoints (installSnapshots m sts) = foldl (\<lambda>c st. AList.update (idOf st) (checkpointFor (dm_binding m) (idOf st) st) c) (dm_checkpoints m) sts"
  "dm_completed (installSnapshots m sts) = dm_completed m" "dm_failed (installSnapshots m sts) = dm_failed m"
  "dm_skipped (installSnapshots m sts) = dm_skipped m" "dm_budget (installSnapshots m sts) = dm_budget m"
  "dm_nanos (installSnapshots m sts) = dm_nanos m" "dm_runId (installSnapshots m sts) = dm_runId m"
  "dm_epochs (installSnapshots m sts) = dm_epochs m" "dm_issued (installSnapshots m sts) = dm_issued m"
  "dm_plan (installSnapshots m sts) = dm_plan m" "dm_binding (installSnapshots m sts) = dm_binding m"
  "dm_store (installSnapshots m sts) = dm_store m"
  unfolding installSnapshots_def
  by (induction sts arbitrary: m) (simp_all add: install_one_def Let_def writeCheckpoint_def put_state_def idOf_def)

lemma installed_delegation:
  assumes "distinct (map idOf sts)"
  shows "map_of (dm_delegations (installSnapshots m sts)) i =
    (case find (\<lambda>st. idOf st = i) sts of None \<Rightarrow> map_of (dm_delegations m) i | Some st \<Rightarrow> Some st)"
  unfolding install_delegations using map_of_fold_update [OF assms, where g = "\<lambda>x. x"] by simp

lemma install_all_Inr:
  "install_all m run sts = Inr m1 \<Longrightarrow> \<exists>nanos. iterationCostSpendNanos (ic_spendUsd (vr_budget run)) = Some nanos \<and>
     m1 = installSnapshots (m\<lparr>dm_runId := vr_runId run, dm_completed := dedup (vr_completed run), dm_failed := dedup (vr_failed run),
       dm_skipped := dedup (vr_skipped run), dm_budget := vr_budget run, dm_nanos := nanos\<rparr>) sts"
  by (auto simp: install_all_def installRun_def split: option.splits sum.splits)

lemma install_all_state:
  assumes "install_all m run sts = Inr m1" and "distinct (map idOf sts)"
  shows "st \<in> set sts \<Longrightarrow> map_of (dm_delegations m1) (idOf st) = Some st"
    and "i \<notin> idOf ` set sts \<Longrightarrow> map_of (dm_delegations m1) i = map_of (dm_delegations m) i"
proof -
  obtain nanos where m1: "m1 = installSnapshots (m\<lparr>dm_runId := vr_runId run, dm_completed := dedup (vr_completed run),
      dm_failed := dedup (vr_failed run), dm_skipped := dedup (vr_skipped run), dm_budget := vr_budget run, dm_nanos := nanos\<rparr>) sts"
    using install_all_Inr [OF assms(1)] by blast
  show "map_of (dm_delegations m1) (idOf st) = Some st" if "st \<in> set sts"
    unfolding m1 installed_delegation [OF assms(2)] using find_key [OF assms(2) that] by simp
  show "map_of (dm_delegations m1) i = map_of (dm_delegations m) i" if "i \<notin> idOf ` set sts"
  proof -
    have "find (\<lambda>st. idOf st = i) sts = None" using that by (auto simp: find_None_iff)
    then show ?thesis unfolding m1 installed_delegation [OF assms(2)] by simp
  qed
qed

lemma make_handles_frame:
  "make_handles m xs = (m', hs) \<Longrightarrow> dm_delegations m' = dm_delegations m \<and> dm_completed m' = dm_completed m \<and>
     dm_failed m' = dm_failed m \<and> dm_skipped m' = dm_skipped m \<and> dm_budget m' = dm_budget m \<and> dm_nanos m' = dm_nanos m \<and>
     dm_runId m' = dm_runId m \<and> map dh_id hs = map fst xs \<and> (\<forall>i. i \<notin> fst ` set xs \<longrightarrow> map_of (dm_epochs m') i = map_of (dm_epochs m) i)"
proof (induction m xs arbitrary: m' hs rule: make_handles.induct)
  case (2 m i st rest)
  obtain m1 h where h: "makeHandle m i st = (m1, h)" by fastforce
  obtain hs' where r: "make_handles m1 rest = (m', hs')" "hs = h # hs'" using 2(2) h by (auto split: prod.splits)
  from 2(1) [OF h [symmetric] refl r(1)] h r(2) show ?case by (auto simp: makeHandle_def Let_def)
qed simp

lemma make_handles_current:
  "make_handles m xs = (m', hs) \<Longrightarrow> distinct (map fst xs) \<Longrightarrow> h \<in> set hs \<Longrightarrow> map_of (dm_epochs m') (dh_id h) = Some (dh_epoch h)"
proof (induction m xs arbitrary: m' hs rule: make_handles.induct)
  case (2 m i st rest)
  obtain m1 h1 where h1: "makeHandle m i st = (m1, h1)" by fastforce
  obtain hs' where r: "make_handles m1 rest = (m', hs')" "hs = h1 # hs'" using 2(2) h1 by (auto split: prod.splits)
  have "map_of (dm_epochs m1) (dh_id h1) = Some (dh_epoch h1)" "dh_id h1 = i" using h1 by (auto simp: makeHandle_def Let_def)
  moreover have "map_of (dm_epochs m') i = map_of (dm_epochs m1) i" using make_handles_frame [OF r(1)] 2(3) by simp
  ultimately show ?case using 2(1) [OF h1 [symmetric] refl r(1)] 2(3,4) r(2) by auto
qed simp

lemma validated_run_distinct:
  assumes "validatePersistedRun deps m i value = Inr run"
  shows "distinct (vr_active run @ vr_completed run @ vr_failed run @ vr_skipped run) \<and> vr_runId run \<noteq> [] \<and>
    (\<forall>t \<in> set (vr_active run @ vr_completed run @ vr_failed run @ vr_skipped run). task_by_id m t \<noteq> None)"
proof -
  have "length (dedup flat) = length flat \<longleftrightarrow> distinct flat" for flat :: "string list" by simp
  then show ?thesis
    using assms by (auto simp: validatePersistedRun_def Let_def list_ex_iff split: stored_run.splits if_splits sum.splits option.splits)
qed

lemma recover_done:
  assumes "recoverActive deps m ids = (m', Inr hs)"
  obtains run snaps m1 where "validatePersistedRun deps m (first_or ''active-set'' ids) (loadRunValue deps m) = Inr run"
    "distinct ids" "set ids = delegationIdFor ` set (vr_active run)" "\<forall>i \<in> set ids. i \<notin> set (dm_issued m)"
    "list_all2 (snapshot_ok deps m run) ids snaps" "\<not> lanes_clash snaps"
    "install_all m run snaps = Inr m1" "make_handles m1 (zip ids snaps) = (m', hs)"
proof -
  from assms obtain run snaps m1 where r: "validatePersistedRun deps m (first_or ''active-set'' ids) (loadRunValue deps m) = Inr run"
    "validateActiveSnapshots deps m ids run True = Inr snaps" "install_all m run snaps = Inr m1" "make_handles m1 (zip ids snaps) = (m', hs)"
    by (auto simp: recoverActive_def prepareActiveRecovery_def split: if_splits sum.splits prod.splits)
  have dd: "length (dedup ids) = length ids \<longleftrightarrow> distinct ids" by simp
  have v: "distinct ids" "length ids = length (vr_active run)" "set ids \<subseteq> delegationIdFor ` set (vr_active run)"
    "\<forall>i \<in> set ids. i \<notin> set (dm_issued m)" "\<not> lanes_clash snaps"
    "validate_all (\<lambda>i. validatePersistedDelegation deps m i (loadDelegationValue deps m i) run) ids = Inr snaps"
    using r(2) unfolding validateActiveSnapshots_def Let_def dd
    by (auto simp: list_ex_iff split: if_splits sum.splits)
  have "distinct (map delegationIdFor (vr_active run))"
    using validated_run_distinct [OF r(1)] by (auto simp: distinct_map inj_on_def)
  then have "set ids = set (map delegationIdFor (vr_active run))"
    using v(1-3) by (metis List.finite_set card_subset_eq distinct_card length_map list.set_map)
  moreover have "list_all2 (snapshot_ok deps m run) ids snaps"
    using v(6) unfolding validate_all_Inr by (rule list_all2_mono) (rule validated_ok)
  ultimately show thesis using that r v by simp
qed

lemma snapshots_ids: "list_all2 (snapshot_ok deps m run) ids snaps \<Longrightarrow> map idOf snaps = ids"
  by (induction rule: list_all2_induct) (auto simp: snapshot_ok_def)

lemma recovered_state:
  assumes "recoverActive deps m ids = (m', Inr hs)" and "i \<in> set ids"
  obtains run st where "validatePersistedRun deps m (first_or ''active-set'' ids) (loadRunValue deps m) = Inr run"
    "map_of (dm_delegations m') i = Some st" "snapshot_ok deps m run i st" "running st"
proof -
  from assms(1) obtain run snaps m1 where r: "validatePersistedRun deps m (first_or ''active-set'' ids) (loadRunValue deps m) = Inr run"
    "distinct ids" "set ids = delegationIdFor ` set (vr_active run)"
    "list_all2 (snapshot_ok deps m run) ids snaps" "install_all m run snaps = Inr m1" "make_handles m1 (zip ids snaps) = (m', hs)"
    by (rule recover_done) blast
  note ids = snapshots_ids [OF r(4)]
  from assms(2) ids obtain st where st: "st \<in> set snaps" "idOf st = i" by force
  have ok: "snapshot_ok deps m run i st"
    using r(4) st by (metis in_set_conv_nth list_all2_conv_all_nth snapshot_ok_def)
  have "map_of (dm_delegations m1) i = Some st"
    using install_all_state(1) [OF r(5) _ st(1)] ids r(2) st(2) by simp
  moreover have "dm_delegations m' = dm_delegations m1" using make_handles_frame [OF r(6)] by blast
  moreover have "running st"
  proof -
    have "dt_taskId (ds_task st) \<in> set (vr_active run)"
      using assms(2) r(3) st(2) by (auto simp: idOf_def)
    then show ?thesis using ok by (auto simp: snapshot_ok_def status_fits_run_def running_def Let_def)
  qed
  ultimately show thesis using that r(1) ok by simp
qed

lemma recovered_handles:
  assumes "recoverActive deps m ids = (m', Inr hs)"
  shows "map dh_id hs = ids \<and> (\<forall>h \<in> set hs. handle_state m' h \<noteq> None)"
proof -
  from assms obtain run snaps m1 where r: "distinct ids" "list_all2 (snapshot_ok deps m run) ids snaps"
    "make_handles m1 (zip ids snaps) = (m', hs)" by (rule recover_done) blast
  have z: "map fst (zip ids snaps) = ids" using list_all2_lengthD [OF r(2)] by simp
  have h: "map dh_id hs = ids" using make_handles_frame [OF r(3)] z by simp
  have "handle_state m' h \<noteq> None" if hh: "h \<in> set hs" for h
  proof -
    have "dh_id h \<in> set ids" using h hh by force
    with assms obtain st where "map_of (dm_delegations m') (dh_id h) = Some st" "running st" by (rule recovered_state)
    moreover have "map_of (dm_epochs m') (dh_id h) = Some (dh_epoch h)"
      using make_handles_current [OF r(3) _ hh] z r(1) by simp
    ultimately show ?thesis by (simp add: handle_state_def)
  qed
  with h show ?thesis by blast
qed

lemma recovered_lanes:
  assumes "recoverActive deps m ids = (m', Inr hs)" and "i \<in> set ids" and "j \<in> set ids" and "i \<noteq> j"
    and "map_of (dm_delegations m') i = Some st" and "map_of (dm_delegations m') j = Some st'"
  shows "overlappingPaths (ds_owns st) (ds_owns st') = []"
proof -
  from assms(1) obtain run snaps m1 where r: "distinct ids" "list_all2 (snapshot_ok deps m run) ids snaps" "\<not> lanes_clash snaps"
    "install_all m run snaps = Inr m1" "make_handles m1 (zip ids snaps) = (m', hs)" by (rule recover_done) blast
  note ids = snapshots_ids [OF r(2)]
  have at: "st \<in> set snaps \<and> idOf st = i" if "map_of (dm_delegations m') i = Some st" "i \<in> set ids" for i st
  proof -
    from that(2) ids obtain u where u: "u \<in> set snaps" "idOf u = i" by force
    have "map_of (dm_delegations m1) i = Some u"
      using install_all_state(1) [OF r(4) _ u(1)] ids r(1) u(2) by simp
    with that(1) make_handles_frame [OF r(5)] u show ?thesis by simp
  qed
  from at [OF assms(5,2)] at [OF assms(6,3)] assms(4) obtain a b where
    "a < length snaps" "b < length snaps" "snaps ! a = st" "snaps ! b = st'" "a \<noteq> b" by (metis in_set_conv_nth)
  with r(3) show ?thesis unfolding lanes_clash_iff by (metis nat_neq_iff overlap_sym)
qed

section \<open>A stored run comes back\<close>

text \<open>The store holds what the manager last wrote for the run and for every running delegation.\<close>

definition durable :: "'p delegation_deps \<Rightarrow> 'p manager \<Rightarrow> bool" where
  "durable deps m \<longleftrightarrow> (\<exists>port r. dd_persistence deps = Some port \<and> persistedRunState deps m = Inr r \<and>
     st_loadRun port (dm_store m) = Some (RunRecord r) \<and>
     (\<forall>i st. map_of (dm_delegations m) i = Some st \<longrightarrow> running st \<longrightarrow>
        st_load port (dm_store m) i = Some (DelegationRecord (persistedState m i st))))"

definition cold_copy :: "'p manager \<Rightarrow> 'p manager \<Rightarrow> bool" where
  "cold_copy m c \<longleftrightarrow> dm_plan c = dm_plan m \<and> dm_binding c = dm_binding m \<and> dm_store c = dm_store m \<and>
     dm_issued c = [] \<and> dm_delegations c = []"

definition active_ids :: "'p manager \<Rightarrow> string list" where
  "active_ids m = map fst (filter (\<lambda>x. running (snd x)) (dm_delegations m))"

definition active_tasks :: "'p manager \<Rightarrow> string list" where
  "active_tasks m = map (\<lambda>x. dt_taskId (ds_task (snd x))) (filter (\<lambda>x. running (snd x)) (dm_delegations m))"

lemma active_entry:
  assumes "dm_inv deps m" and "x \<in> set (dm_delegations m)"
  shows "entry_inv deps m (fst x) (snd x)"
  using dm_invD(5) [OF assms(1)] map_of_eq_Some_iff [OF dm_invD(3) [OF assms(1)]] assms(2) by (metis prod.collapse)

lemma active_ids_tasks:
  assumes "dm_inv deps m"
  shows "active_ids m = map delegationIdFor (active_tasks m)"
  unfolding active_ids_def active_tasks_def map_map comp_def
  by (rule map_cong [OF refl]) (use active_entry [OF assms] in \<open>auto simp: entry_inv_def\<close>)

lemma distinct_active_ids: "dm_inv deps m \<Longrightarrow> distinct (active_ids m)"
  using dm_invD(3) unfolding active_ids_def by (metis distinct_map_filter)

lemma active_iff:
  assumes inv: "dm_inv deps m" and st: "map_of (dm_delegations m) i = Some st"
  shows "dt_taskId (ds_task st) \<in> set (active_tasks m) \<longleftrightarrow> running st"
proof
  assume "dt_taskId (ds_task st) \<in> set (active_tasks m)"
  then obtain x where x: "x \<in> set (dm_delegations m)" "running (snd x)" "dt_taskId (ds_task (snd x)) = dt_taskId (ds_task st)"
    by (auto simp: active_tasks_def)
  have "fst x = delegationIdFor (dt_taskId (ds_task (snd x)))" "i = delegationIdFor (dt_taskId (ds_task st))"
    using active_entry [OF inv x(1)] dm_invD(5) [OF inv st] unfolding entry_inv_def by blast+
  then have "fst x = i" using x(3) by simp
  then have "map_of (dm_delegations m) i = Some (snd x)"
    using x(1) map_of_eq_Some_iff [OF dm_invD(3) [OF inv]] by (metis prod.collapse)
  with st x(2) show "running st" by simp
next
  assume "running st"
  with map_of_SomeD [OF st] show "dt_taskId (ds_task st) \<in> set (active_tasks m)" by (force simp: active_tasks_def)
qed

lemma active_running_inv:
  assumes "dm_inv deps m" and "t \<in> set (active_tasks m)"
  shows "t \<notin> set (dm_completed m) \<union> set (dm_failed m) \<union> set (dm_skipped m) \<and> t \<in> dt_taskId ` set (pl_nodes (dm_plan m))"
proof -
  from assms(2) obtain x where x: "x \<in> set (dm_delegations m)" "running (snd x)" "t = dt_taskId (ds_task (snd x))"
    by (auto simp: active_tasks_def)
  from active_entry [OF assms(1) x(1)] running_not_done [OF x(2)] x(3) show ?thesis by (auto simp: entry_inv_def)
qed

lemma canonical_raw:
  assumes "0 \<le> ic_iterations c" "isSafeInteger (ic_iterations c)" "0 \<le> ic_wallMs c" "isSafeInteger (ic_wallMs c)"
    and "spendUsdFromNanos usd n = Some (ic_spendUsd c)"
  shows "canonicalizeIterationCost usd (raw_cost c) = Some c"
  using assms spendUsd_Some [OF assms(5)]
  by (simp add: canonicalizeIterationCost_def quantizedIterationCost_def raw_cost_def safe_count_def)

lemma task_by_id_node:
  assumes "distinct (map dt_taskId (pl_nodes (dm_plan m)))" and "t \<in> set (pl_nodes (dm_plan m))"
  shows "task_by_id m (dt_taskId t) = Some t"
  unfolding task_by_id_def using find_key [OF assms] .

definition run_image :: "'p manager \<Rightarrow> string \<Rightarrow> validated_run" where
  "run_image m spend =
     \<lparr>vr_runId = dm_runId m, vr_budget = (dm_budget m)\<lparr>ic_spendUsd := spend\<rparr>, vr_active = sort (active_tasks m),
      vr_completed = sort (dm_completed m), vr_failed = sort (dm_failed m), vr_skipped = sort (dm_skipped m)\<rparr>"

lemma stored_run_validates:
  assumes inv: "dm_inv deps m" and r: "persistedRunState deps m = Inr r" and c: "cold_copy m c"
    and env: "dm_runId m \<noteq> []" "resolved_clean (dm_binding m)" "bindingIsActive deps (dm_binding m)"
  obtains spend where "validatePersistedRun deps c i (RunRecord r) = Inr (run_image m spend)"
    "spendUsdFromNanos (dd_usd deps) (dm_nanos m) = Some spend"
proof -
  from r obtain spend where sp: "spendUsdFromNanos (dd_usd deps) (dm_nanos m) = Some spend"
    by (auto simp: persistedRunState_def split: option.splits)
  let ?b = "(dm_budget m)\<lparr>ic_spendUsd := spend\<rparr>"
  have rr: "r = \<lparr>pr_runId = dm_runId m, pr_binding = resolved_json (dm_binding m), pr_budget = raw_cost ?b,
      pr_active = sort (active_tasks m), pr_completed = sort (dm_completed m), pr_failed = sort (dm_failed m),
      pr_skipped = sort (dm_skipped m)\<rparr>"
    using r sp unfolding persistedRunState_def active_tasks_def case_prod_unfold by simp
  have can: "canonicalizeIterationCost (dd_usd deps) (raw_cost ?b) = Some ?b"
    using dm_invD(8) [OF inv] sp by (intro canonical_raw) (auto simp: budget_inv_def)
  note led = dm_invD(7) [OF inv, unfolded ledger_inv_def]
  let ?flat = "sort (active_tasks m) @ sort (dm_completed m) @ sort (dm_failed m) @ sort (dm_skipped m)"
  have "distinct (active_tasks m)"
    using distinct_active_ids [OF inv] unfolding active_ids_tasks [OF inv] by (simp add: distinct_map)
  then have "distinct ?flat" using led active_running_inv [OF inv] by auto
  then have d: "length (dedup ?flat) = length ?flat" by (simp only: length_dedup_iff)
  have k: "task_by_id c t \<noteq> None" if "t \<in> set ?flat" for t
  proof -
    have "t \<in> dt_taskId ` set (pl_nodes (dm_plan c))"
      using that led active_running_inv [OF inv] c by (auto simp: cold_copy_def)
    then show ?thesis by (auto simp: task_by_id_def find_None_iff)
  qed
  have "validatePersistedRun deps c i (RunRecord r) = Inr (run_image m spend)"
    using env can d k c resolve_resolved_json [OF env(2)]
    unfolding validatePersistedRun_def rr run_image_def Let_def
    by (auto simp: cold_copy_def list_ex_iff simp del: length_dedup_iff length_append)
  with sp show thesis using that by blast
qed

lemma stored_delegation_validates:
  assumes inv: "dm_inv deps m" and cards: "cards_inv deps m" and st: "map_of (dm_delegations m) i = Some st" and run: "running st"
    and c: "cold_copy m c" and env: "resolved_clean (dm_binding m)" "bindingIsActive deps (dm_binding m)"
  shows "validatePersistedDelegation deps c i (DelegationRecord (persistedState m i st)) (run_image m spend) =
    Inr (st\<lparr>ds_guardian := makeLoopGuardian, ds_permittedTools := dedup (sort (ds_permittedTools st))\<rparr>)"
proof -
  let ?p = "persistedState m i st" and ?run = "run_image m spend"
  have ent: "entry_inv deps m i st" using dm_invD(5) [OF inv st] .
  have card: "card_inv deps st" using cards st by (simp add: cards_inv_def)
  have e: "ds_task st \<in> set (pl_nodes (dm_plan m))" "i = delegationIdFor (dt_taskId (ds_task st))"
    "ds_owns st = sc_owns (dt_scope (ds_task st))" "entriesVerify (dd_digest deps) (ds_entries st) i" "ds_observation st = None"
    "dt_taskId (ds_task st) \<notin> set (dm_completed m) \<union> set (dm_failed m) \<union> set (dm_skipped m)"
    using ent run running_not_done [OF run] unfolding entry_inv_def by auto
  have cp: "map_of (dm_checkpoints m) i = Some (checkpointFor (dm_binding m) i st)" using entry_checkpoint [OF ent] .
  have dist: "distinct (map dt_taskId (pl_nodes (dm_plan c)))"
    using dm_invD(1) [OF inv] c by (simp add: deps_wf_def cold_copy_def)
  have t: "task_by_id c (dt_taskId (ds_task st)) = Some (ds_task st)"
    using task_by_id_node [OF dist] e(1) c by (simp add: cold_copy_def)
  have cc: "current_card deps (Some (ds_task st)) = Some (ds_card st)" using card by (auto simp: current_card_def card_inv_def)
  have fits: "task_card_fits deps i ?p (ds_task st) (ds_card st)"
    using card e(2,3) by (simp add: task_card_fits_def persistedState_def same_card_def card_inv_def sorted_sort_id)
  have cpt: "pz_checkpoint ?p = checkpointFor (dm_binding c) i (restored_state ?p (ds_task st) (ds_card st))"
    using cp c by (simp add: persistedState_def restored_state_def checkpointFor_def cold_copy_def)
  have stat: "status_fits_run (pz_status ?p) (dt_taskId (ds_task st)) ?run"
    using active_iff [OF inv st] run e(6) running_not_done [OF run]
    by (auto simp: status_fits_run_def run_image_def persistedState_def running_def Let_def)
  have obs: "observation_fits deps i ?p (vr_budget ?run)"
    using e(5) running_not_done [OF run] by (simp add: observation_fits_def persistedState_def)
  have rs: "restored_state ?p (ds_task st) (ds_card st) =
      st\<lparr>ds_guardian := makeLoopGuardian, ds_permittedTools := dedup (sort (ds_permittedTools st))\<rparr>"
    by (cases st) (simp add: restored_state_def persistedState_def)
  have raw: "pz_runId ?p = vr_runId ?run" "pz_binding ?p = resolved_json (dm_binding m)" "pz_task ?p = ds_task st" "pz_entries ?p = ds_entries st"
    by (simp_all add: persistedState_def run_image_def)
  have "validate_record deps c i ?p ?run = Inr (restored_state ?p (ds_task st) (ds_card st))"
    unfolding validate_record_def raw Let_def t cc
    using fits cpt stat obs e(4) env c by (simp add: resolve_resolved_json cold_copy_def raw)
  then show ?thesis by (simp add: validatePersistedDelegation_def rs)
qed

lemma run_image_nanos:
  assumes "spendUsdFromNanos usd (dm_nanos m) = Some spend"
  shows "iterationCostSpendNanos (ic_spendUsd (vr_budget (run_image m spend))) = Some (dm_nanos m)"
  using spendUsd_Some [OF assms] by (simp add: run_image_def)

lemma dedup_id: "distinct xs \<Longrightarrow> dedup xs = xs"
proof -
  have "distinct xs \<Longrightarrow> set xs \<inter> set seen = {} \<Longrightarrow> dedup_acc seen xs = xs" for seen
    by (induction xs arbitrary: seen) auto
  then show "distinct xs \<Longrightarrow> dedup xs = xs" by (simp add: dedup_def)
qed

text \<open>Same delegation, up to the local loop guardian and the order of the permitted tools.\<close>

definition same_delegation :: "delegation_state \<Rightarrow> delegation_state \<Rightarrow> bool" where
  "same_delegation a b \<longleftrightarrow> set (ds_permittedTools a) = set (ds_permittedTools b) \<and>
     a\<lparr>ds_guardian := makeLoopGuardian, ds_permittedTools := []\<rparr> = b\<lparr>ds_guardian := makeLoopGuardian, ds_permittedTools := []\<rparr>"

definition reloaded :: "delegation_state \<Rightarrow> delegation_state" where
  "reloaded st = st\<lparr>ds_guardian := makeLoopGuardian, ds_permittedTools := dedup (sort (ds_permittedTools st))\<rparr>"

definition active_part :: "'p manager \<Rightarrow> (string \<times> delegation_state) list" where
  "active_part m = filter (\<lambda>x. running (snd x)) (dm_delegations m)"

definition snapshots_of :: "'p manager \<Rightarrow> delegation_state list" where
  "snapshots_of m = map (\<lambda>x. reloaded (snd x)) (active_part m)"

lemma active_get:
  assumes "dm_inv deps m" and "x \<in> set (active_part m)"
  shows "map_of (dm_delegations m) (fst x) = Some (snd x) \<and> running (snd x)"
  using assms(2) map_of_eq_Some_iff [OF dm_invD(3) [OF assms(1)], of "fst x" "snd x"] by (simp add: active_part_def)

lemma snapshot_ids:
  assumes "dm_inv deps m"
  shows "map idOf (snapshots_of m) = active_ids m"
  unfolding active_ids_tasks [OF assms] active_tasks_def by (simp add: idOf_def snapshots_of_def active_part_def reloaded_def)

lemma snapshots_disjoint:
  assumes inv: "dm_inv deps m"
  shows "\<not> lanes_clash (snapshots_of m)"
  unfolding lanes_clash_iff
proof (intro allI impI)
  fix a b assume ab: "a < b \<and> b < length (snapshots_of m)"
  then have len: "a < length (active_part m)" "b < length (active_part m)" by (simp_all add: snapshots_of_def)
  have "length (active_part m) = length (active_ids m)" by (simp add: active_ids_def active_part_def)
  then have "active_ids m ! a \<noteq> active_ids m ! b"
    using ab len nth_eq_iff_index_eq [OF distinct_active_ids [OF inv], of a b] by simp
  then have "fst (active_part m ! a) \<noteq> fst (active_part m ! b)" using len by (simp add: active_ids_def active_part_def)
  with active_get [OF inv nth_mem [OF len(1)]] active_get [OF inv nth_mem [OF len(2)]] dm_invD(6) [OF inv]
  have "overlappingPaths (ds_owns (snd (active_part m ! a))) (ds_owns (snd (active_part m ! b))) = []" unfolding lanes_inv_def by blast
  then show "overlappingPaths (ds_owns (snapshots_of m ! a)) (ds_owns (snapshots_of m ! b)) = []"
    using len by (simp add: snapshots_of_def reloaded_def)
qed

lemma active_prepared:
  assumes inv: "dm_inv deps m" and cards: "cards_inv deps m" and dur: "durable deps m" and c: "cold_copy m c"
    and env: "dm_runId m \<noteq> []" "resolved_clean (dm_binding m)" "bindingIsActive deps (dm_binding m)"
  obtains spend where "prepareActiveRecovery deps c (active_ids m) = Inr (run_image m spend, snapshots_of m)"
    "spendUsdFromNanos (dd_usd deps) (dm_nanos m) = Some spend"
proof -
  from dur obtain port r where p: "dd_persistence deps = Some port" "persistedRunState deps m = Inr r"
    "st_loadRun port (dm_store m) = Some (RunRecord r)"
    and ld: "\<And>i st. map_of (dm_delegations m) i = Some st \<Longrightarrow> running st \<Longrightarrow>
        st_load port (dm_store m) i = Some (DelegationRecord (persistedState m i st))" by (auto simp: durable_def)
  obtain spend where v: "validatePersistedRun deps c (first_or ''active-set'' (active_ids m)) (RunRecord r) = Inr (run_image m spend)"
    and sp: "spendUsdFromNanos (dd_usd deps) (dm_nanos m) = Some spend"
    using stored_run_validates [OF inv p(2) c env] by blast
  let ?run = "run_image m spend"
  have load: "loadDelegationValue deps c (fst x) = DelegationRecord (persistedState m (fst x) (snd x))" if "x \<in> set (active_part m)" for x
    using ld active_get [OF inv that] p(1) c by (simp add: loadDelegationValue_def cold_copy_def)
  have all: "validate_all (\<lambda>i. validatePersistedDelegation deps c i (loadDelegationValue deps c i) ?run) (active_ids m) = Inr (snapshots_of m)"
    unfolding validate_all_Inr active_ids_def snapshots_of_def active_part_def [symmetric] list_all2_map1 list_all2_map2
    by (rule list.rel_refl_strong)
       (use stored_delegation_validates [OF inv cards _ _ c env(2,3)] active_get [OF inv] load in \<open>simp add: reloaded_def\<close>)
  have "length (dedup (active_ids m)) = length (active_ids m)" using distinct_active_ids [OF inv] by simp
  moreover have "length (active_ids m) = length (map delegationIdFor (vr_active ?run))"
    "set (active_ids m) = set (map delegationIdFor (vr_active ?run))"
    by (simp_all add: active_ids_tasks [OF inv] run_image_def)
  ultimately have "validateActiveSnapshots deps c (active_ids m) ?run True = Inr (snapshots_of m)"
    unfolding validateActiveSnapshots_def Let_def all using snapshots_disjoint [OF inv] c by (simp add: list_ex_iff cold_copy_def)
  moreover have "loadRunValue deps c = RunRecord r" using p c by (simp add: loadRunValue_def cold_copy_def)
  ultimately show thesis using that v sp p(1) by (simp add: prepareActiveRecovery_def)
qed

lemma reloaded_same: "same_delegation (reloaded st) st"
  by (simp add: same_delegation_def reloaded_def)

lemma recover_roundtrip:
  assumes inv: "dm_inv deps m" and cards: "cards_inv deps m" and dur: "durable deps m" and c: "cold_copy m c"
    and env: "dm_runId m \<noteq> []" "resolved_clean (dm_binding m)" "bindingIsActive deps (dm_binding m)"
  obtains m' hs where "recoverActive deps c (active_ids m) = (m', Inr hs)" "dm_runId m' = dm_runId m"
    "set (dm_completed m') = set (dm_completed m)" "set (dm_failed m') = set (dm_failed m)" "set (dm_skipped m') = set (dm_skipped m)"
    "spent m' = spent m"
    "\<And>i. rel_option same_delegation (map_of (dm_delegations m') i)
        (case map_of (dm_delegations m) i of None \<Rightarrow> None | Some st \<Rightarrow> if running st then Some st else None)"
proof -
  from active_prepared [OF assms] obtain spend where
    prep: "prepareActiveRecovery deps c (active_ids m) = Inr (run_image m spend, snapshots_of m)"
    and sp: "spendUsdFromNanos (dd_usd deps) (dm_nanos m) = Some spend" .
  let ?run = "run_image m spend"
  note ido = snapshot_ids [OF inv] and dist = distinct_active_ids [OF inv]
  obtain m1 where m1: "install_all c ?run (snapshots_of m) = Inr m1"
    using run_image_nanos [OF sp] by (simp add: install_all_def installRun_def)
  obtain m' hs where mh: "make_handles m1 (zip (active_ids m) (snapshots_of m)) = (m', hs)" by fastforce
  have rec: "recoverActive deps c (active_ids m) = (m', Inr hs)" using prep m1 mh by (simp add: recoverActive_def)
  note fr = make_handles_frame [OF mh]
  obtain nanos where n: "iterationCostSpendNanos (ic_spendUsd (vr_budget ?run)) = Some nanos"
    and eq: "m1 = installSnapshots (c\<lparr>dm_runId := vr_runId ?run, dm_completed := dedup (vr_completed ?run),
      dm_failed := dedup (vr_failed ?run), dm_skipped := dedup (vr_skipped ?run), dm_budget := vr_budget ?run, dm_nanos := nanos\<rparr>) (snapshots_of m)"
    using install_all_Inr [OF m1] by blast
  have sets: "dm_runId m' = dm_runId m" "set (dm_completed m') = set (dm_completed m)" "set (dm_failed m') = set (dm_failed m)"
    "set (dm_skipped m') = set (dm_skipped m)" "spent m' = spent m"
    using fr n run_image_nanos [OF sp] unfolding eq by (simp_all add: install_delegations run_image_def spent_def)
  have dd: "dm_delegations m' = dm_delegations m1" using fr by blast
  have "rel_option same_delegation (map_of (dm_delegations m') i)
        (case map_of (dm_delegations m) i of None \<Rightarrow> None | Some st \<Rightarrow> if running st then Some st else None)" for i
  proof (cases "i \<in> set (active_ids m)")
    case True
    then obtain x where x: "x \<in> set (active_part m)" "fst x = i" by (auto simp: active_ids_def active_part_def)
    have "idOf (reloaded (snd x)) = i"
      using dm_invD(5) [OF inv] active_get [OF inv x(1)] x(2) by (fastforce simp: idOf_def entry_inv_def reloaded_def)
    moreover have "map_of (dm_delegations m1) (idOf (reloaded (snd x))) = Some (reloaded (snd x))"
      using install_all_state(1) [OF m1, of "reloaded (snd x)"] ido dist x(1) by (simp add: snapshots_of_def)
    ultimately show ?thesis using active_get [OF inv x(1)] x(2) dd reloaded_same by simp
  next
    case False
    then have "i \<notin> idOf ` set (snapshots_of m)" by (metis ido list.set_map)
    then have "map_of (dm_delegations m1) i = None"
      using install_all_state(2) [OF m1, of i] ido dist c by (simp add: cold_copy_def)
    moreover have "\<not> running st" if "map_of (dm_delegations m) i = Some st" for st
      using False map_of_SomeD [OF that] by (force simp: active_ids_def)
    ultimately show ?thesis using dd by (auto split: option.splits)
  qed
  with that rec sets show thesis by blast
qed

section \<open>The preflight balances the books\<close>

lemma tally_Inr: "tally obs acc = Inr r \<Longrightarrow> r = add3 acc (total_cost obs)"
proof (induction obs acc rule: tally.induct)
  case (2 ob obs iterations wallMs nanos)
  then obtain n where n: "iterationCostSpendNanos (ic_spendUsd (ob_cost ob)) = Some n"
    by (auto split: option.splits)
  have c: "add3 (iterations, wallMs, nanos) (cost_of ob) =
      (iterations + ic_iterations (ob_cost ob), wallMs + ic_wallMs (ob_cost ob), nanos + int n)"
    by (simp add: add3_def cost_of_def n)
  from 2 n have "r = add3 (iterations + ic_iterations (ob_cost ob), wallMs + ic_wallMs (ob_cost ob), nanos + int n) (total_cost obs)"
    by (simp add: Let_def split: if_splits)
  then show ?case unfolding c [symmetric] using total_cost_append [of "[ob]" obs] by (simp add: add3_assoc)
qed simp

definition observations_of :: "delegation_state list \<Rightarrow> task_observation list" where
  "observations_of sts = concat (map (\<lambda>st. case ds_observation st of None \<Rightarrow> [] | Some ob \<Rightarrow> [ob]) sts)"

definition booked :: "int iteration_cost \<Rightarrow> (int \<times> int \<times> int) option" where
  "booked b = map_option (\<lambda>n. (ic_iterations b, ic_wallMs b, int n)) (iterationCostSpendNanos (ic_spendUsd b))"

lemma preflight_run_books:
  assumes "preflight_run deps m run = Inr pf"
  obtains sts where "inventory deps m run (pl_nodes (dm_plan m)) = Inr sts"
    "booked (vr_budget run) = Some (total_cost (observations_of sts))" "\<not> lanes_clash (filter running sts)"
    "pf = (if vr_active run = [] then PreflightTerminal (observations_of sts) (vr_budget run)
       else PreflightContinuation (map delegationIdFor (vr_active run)) (observations_of sts) (vr_budget run))"
proof -
  from assms obtain sts a b c where s: "inventory deps m run (pl_nodes (dm_plan m)) = Inr sts" "\<not> lanes_clash (filter running sts)"
    "tally (observations_of sts) (0, 0, 0) = Inr (a, b, c)" "iterationCostSpendNanos (ic_spendUsd (vr_budget run)) = Some (nat c)"
    "c = int (nat c)" "a = ic_iterations (vr_budget run)" "b = ic_wallMs (vr_budget run)"
    "pf = (if vr_active run = [] then PreflightTerminal (observations_of sts) (vr_budget run)
       else PreflightContinuation (map delegationIdFor (vr_active run)) (observations_of sts) (vr_budget run))"
    by (auto simp: preflight_run_def Let_def observations_of_def split: sum.splits if_splits prod.splits option.splits)
  have "booked (vr_budget run) = Some (total_cost (observations_of sts))"
    using tally_Inr [OF s(3)] s(4-7) by (simp add: booked_def)
  with s that show thesis by blast
qed

text \<open>The terminal observations a manager holds, in the order of the plan.\<close>

definition terminal_observations :: "'p manager \<Rightarrow> task_observation list" where
  "terminal_observations m = concat (map (\<lambda>t. case terminalObservation m (delegationIdFor (dt_taskId t)) of None \<Rightarrow> [] | Some ob \<Rightarrow> [ob])
     (pl_nodes (dm_plan m)))"

text \<open>The store mirrors the whole manager: the run, every known delegation and nothing else.\<close>

definition mirrored :: "'p delegation_deps \<Rightarrow> 'p manager \<Rightarrow> 'p manager \<Rightarrow> bool" where
  "mirrored deps m c \<longleftrightarrow> cold_copy m c \<and> (\<exists>r. persistedRunState deps m = Inr r \<and> loadRunValue deps c = RunRecord r) \<and>
     (\<forall>t \<in> set (pl_nodes (dm_plan m)). loadDelegationValue deps c (delegationIdFor (dt_taskId t)) =
        (case map_of (dm_delegations m) (delegationIdFor (dt_taskId t)) of
           None \<Rightarrow> NoRecord | Some st \<Rightarrow> DelegationRecord (persistedState m (delegationIdFor (dt_taskId t)) st)))"

lemma validated_observation:
  "validatePersistedDelegation deps c i (DelegationRecord raw) run = Inr st \<Longrightarrow> ds_observation st = pz_observation raw"
  by (auto simp: validatePersistedDelegation_def validate_record_def Let_def restored_state_def
      split: if_splits sum.splits option.splits prod.splits)

lemma inventory_observations:
  assumes "inventory deps c run nodes = Inr sts"
    and "\<forall>t \<in> set nodes. loadDelegationValue deps c (delegationIdFor (dt_taskId t)) =
        (case map_of (dm_delegations m) (delegationIdFor (dt_taskId t)) of
           None \<Rightarrow> NoRecord | Some st \<Rightarrow> DelegationRecord (persistedState m (delegationIdFor (dt_taskId t)) st))"
  shows "observations_of sts =
    concat (map (\<lambda>t. case terminalObservation m (delegationIdFor (dt_taskId t)) of None \<Rightarrow> [] | Some ob \<Rightarrow> [ob]) nodes)"
  using assms
proof (induction nodes arbitrary: sts)
  case (Cons t ts)
  let ?i = "delegationIdFor (dt_taskId t)"
  show ?case
  proof (cases "map_of (dm_delegations m) ?i")
    case None
    then have "inventory deps c run ts = Inr sts"
      using Cons.prems by (auto simp: Let_def validatePersistedDelegation_def split: if_splits)
    with Cons None show ?thesis by (simp add: terminalObservation_def)
  next
    case (Some st)
    then have v: "loadDelegationValue deps c ?i = DelegationRecord (persistedState m ?i st)" using Cons.prems(2) by simp
    obtain st' sts' where s: "validatePersistedDelegation deps c ?i (DelegationRecord (persistedState m ?i st)) run = Inr st'"
      "inventory deps c run ts = Inr sts'" "sts = st' # sts'"
      using Cons.prems(1) v by (auto simp: Let_def split: if_splits sum.splits)
    have "ds_observation st' = ds_observation st" using validated_observation [OF s(1)] by (simp add: persistedState_def)
    with Cons.IH [OF s(2)] Cons.prems(2) s(3) Some show ?thesis by (simp add: terminalObservation_def observations_of_def)
  qed
qed (simp add: observations_of_def)

lemma unbalanced_run_refused:
  assumes inv: "dm_inv deps m" and mir: "mirrored deps m c"
    and env: "dm_runId m \<noteq> []" "resolved_clean (dm_binding m)" "bindingIsActive deps (dm_binding m)"
    and books: "spent m \<noteq> total_cost (terminal_observations m)"
  shows "preflightRecovery deps c \<noteq> Inr pf"
proof
  assume pf: "preflightRecovery deps c = Inr pf"
  from mir obtain r where c: "cold_copy m c" and r: "persistedRunState deps m = Inr r" "loadRunValue deps c = RunRecord r"
    by (auto simp: mirrored_def)
  obtain spend where v: "validatePersistedRun deps c ''run-inventory'' (RunRecord r) = Inr (run_image m spend)"
    and sp: "spendUsdFromNanos (dd_usd deps) (dm_nanos m) = Some spend"
    using stored_run_validates [OF inv r(1) c env] by blast
  have "preflight_run deps c (run_image m spend) = Inr pf"
    using pf v r(2) by (auto simp: preflightRecovery_def split: if_splits)
  then obtain sts where s: "inventory deps c (run_image m spend) (pl_nodes (dm_plan c)) = Inr sts"
    "booked (vr_budget (run_image m spend)) = Some (total_cost (observations_of sts))" by (rule preflight_run_books) blast
  have "observations_of sts = terminal_observations m"
    using inventory_observations [OF s(1), of m] mir c by (simp add: mirrored_def cold_copy_def terminal_observations_def)
  moreover have "booked (vr_budget (run_image m spend)) = Some (spent m)"
    using run_image_nanos [OF sp] by (simp add: booked_def spent_def run_image_def)
  ultimately show False using s(2) books by simp
qed

lemma resume_drops_observation:
  assumes inv: "dm_inv deps m" and st: "map_of (dm_delegations m) i = Some st" and r: "resumeState deps m i st = (m', Inr h)"
  shows "spent m' = spent m \<and> terminalObservation m' i = None \<and>
    (\<forall>j. j \<noteq> i \<longrightarrow> terminalObservation m' j = terminalObservation m j) \<and> dm_plan m' = dm_plan m"
proof -
  from resume_done [OF r] obtain p e where
    mh: "makeHandle (dm_emit e ((resumed m i st)\<lparr>dm_store := p\<rparr>)) i
      (st\<lparr>ds_status := DsResumed, ds_observation := None, ds_guardian := makeLoopGuardian\<rparr>) = (m', h)" by metis
  from handle_frame [OF mh] show ?thesis by (simp add: spent_def terminalObservation_def resumed_def put_state_def)
qed

lemma observations_without:
  assumes "distinct (map dt_taskId nodes)" and "t \<in> set nodes" and "f (dt_taskId t) = Some ob"
    and "g (dt_taskId t) = None" and "\<And>u. u \<noteq> dt_taskId t \<Longrightarrow> g u = f u"
  shows "total_cost (concat (map (\<lambda>t. case f (dt_taskId t) of None \<Rightarrow> [] | Some ob \<Rightarrow> [ob]) nodes)) =
    add3 (cost_of ob) (total_cost (concat (map (\<lambda>t. case g (dt_taskId t) of None \<Rightarrow> [] | Some ob \<Rightarrow> [ob]) nodes)))"
  using assms(1,2)
proof (induction nodes)
  case (Cons u us)
  let ?F = "\<lambda>t. case f (dt_taskId t) of None \<Rightarrow> [] | Some ob \<Rightarrow> [ob]" and ?G = "\<lambda>t. case g (dt_taskId t) of None \<Rightarrow> [] | Some ob \<Rightarrow> [ob]"
  have comm: "add3 a (add3 b c) = add3 b (add3 a c)" for a b c by (auto simp: add3_def split: prod.splits)
  show ?case
  proof (cases "dt_taskId u = dt_taskId t")
    case True
    then have e: "map ?F us = map ?G us" using Cons.prems(1) assms(5) by (intro map_cong) (auto simp: image_iff)
    have "concat (map ?F (u # us)) = [ob] @ concat (map ?G us)" "concat (map ?G (u # us)) = concat (map ?G us)"
      unfolding list.map concat.simps e using True assms(3,4) by simp_all
    then show ?thesis by (simp only: total_cost_append total_cost_single)
  next
    case False
    then have "t \<in> set us" using Cons.prems(2) by auto
    with Cons assms(5) [OF False] show ?thesis by (simp add: total_cost_append comm)
  qed
qed simp

text \<open>
  A failed attempt that cost something is paid for by the run, but a resume removes its observation. The books of a
  run that balanced before then no longer do, and the preflight refuses what the store holds of it.
\<close>

lemma resume_unbalances_books:
  assumes ok: "delegation_ok deps m" and st: "map_of (dm_delegations m) i = Some st" and fl: "ds_status st = DsFailed"
    and ob: "ds_observation st = Some ob" "cost_of ob \<noteq> (0, 0, 0)"
    and r: "resumeState deps m i st = (m', Inr h)" and bal: "spent m = total_cost (terminal_observations m)"
  shows "spent m' \<noteq> total_cost (terminal_observations m')"
proof -
  have inv: "dm_inv deps m" using ok by (simp add: delegation_ok_def)
  have e: "ds_task st \<in> set (pl_nodes (dm_plan m))" "i = delegationIdFor (dt_taskId (ds_task st))"
    using dm_invD(5) [OF inv st] unfolding entry_inv_def by blast+
  note d = resume_drops_observation [OF inv st r]
  have "total_cost (terminal_observations m) = add3 (cost_of ob) (total_cost (terminal_observations m'))"
    unfolding terminal_observations_def conjunct2 [OF conjunct2 [OF conjunct2 [OF d]]]
  proof (rule observations_without [where t = "ds_task st"])
    show "distinct (map dt_taskId (pl_nodes (dm_plan m)))" using dm_invD(1) [OF inv] by (simp add: deps_wf_def)
    show "terminalObservation m (delegationIdFor (dt_taskId (ds_task st))) = Some ob"
      using st ob(1) e(2) by (simp add: terminalObservation_def)
    show "terminalObservation m' (delegationIdFor (dt_taskId (ds_task st))) = None" using d e(2) by simp
    show "terminalObservation m' (delegationIdFor u) = terminalObservation m (delegationIdFor u)" if "u \<noteq> dt_taskId (ds_task st)" for u
      using d e(2) that by simp
  qed (rule e(1))
  moreover have "add3 x y = y \<Longrightarrow> x = (0, 0, 0)" for x y by (auto simp: add3_def split: prod.splits)
  ultimately show ?thesis using bal d ob(2) by metis
qed

text \<open>
  The spawn guard consults the failed and skipped tasks and the map of delegations, not the completed tasks, so
  after a recovery a completed task passes every guard.
\<close>

lemma recovered_completed_task_respawns:
  assumes "recoverActive deps c ids = (m, Inr hs)" and "dm_delegations c = []" and "delegationIdFor taskId \<notin> set ids"
    and "taskId \<in> set (dm_completed m)" and "task_by_id m taskId = Some t" and "set (dt_dependsOn t) \<subseteq> set (dm_completed m)"
    and "taskId \<notin> set (dm_failed m)" and "taskId \<notin> set (dm_skipped m)"
    and "dt_assignedTo t = Some name" and "dd_resolveCard deps name = Some agent" and "out_of_lane deps t agent = []"
    and "first_overlap (sc_owns (dt_scope t)) (activeOwns m None) = None"
  shows "dm_spawn deps m taskId = start_delegation deps m t agent"
proof -
  from assms(1) obtain run snaps m1 where r: "distinct ids" "list_all2 (snapshot_ok deps c run) ids snaps"
    "install_all c run snaps = Inr m1" "make_handles m1 (zip ids snaps) = (m, hs)" by (rule recover_done) blast
  note ids = snapshots_ids [OF r(2)]
  have "delegationIdFor taskId \<notin> idOf ` set snaps" using assms(3) ids by (metis list.set_map)
  then have "map_of (dm_delegations m) (delegationIdFor taskId) = None"
    using install_all_state(2) [OF r(3), of "delegationIdFor taskId"] ids r(1) assms(2) make_handles_frame [OF r(4)] by simp
  moreover have "filter (\<lambda>d. d \<notin> set (dm_completed m)) (dt_dependsOn t) = []"
    using assms(6) by (auto simp: filter_empty_conv)
  ultimately show ?thesis
    using assms(5,7-12) by (simp add: dm_spawn_def Let_def)
qed

end
