(* ===== verification/Delegation_Durable.thy ===== *)
theory Delegation_Durable
  imports Delegation_Recovery
begin

text \<open>
  A delegation run against a durable store that keeps what it was given. \<open>reliable_port\<close> is the documented
  behaviour of \<open>DelegationPersistencePort\<close> (a save is read back, and does not disturb the other records); under it
  the store mirrors the manager after every operation, so a new process can recover the run.
\<close>

section \<open>The store keeps what it was given\<close>

definition reliable_port :: "'p delegation_store \<Rightarrow> bool" where
  "reliable_port port \<longleftrightarrow>
     (\<forall>p d. snd (st_save port p d) \<and>
        (\<forall>i. st_load port (fst (st_save port p d)) i =
          (if i = cp_delegationId (pz_checkpoint d) then Some (DelegationRecord d) else st_load port p i)) \<and>
        st_loadRun port (fst (st_save port p d)) = st_loadRun port p) \<and>
     (\<forall>p r. snd (st_saveRun port p r) \<and> st_loadRun port (fst (st_saveRun port p r)) = Some (RunRecord r) \<and>
        (\<forall>i. st_load port (fst (st_saveRun port p r)) i = st_load port p i))"

definition spend_known :: "'p delegation_deps \<Rightarrow> 'p manager \<Rightarrow> bool" where
  "spend_known deps m \<longleftrightarrow> spendUsdFromNanos (dd_usd deps) (dm_nanos m) \<noteq> None"

definition mirrored_inv :: "'p delegation_deps \<Rightarrow> 'p delegation_store \<Rightarrow> 'p manager \<Rightarrow> bool" where
  "mirrored_inv deps port m \<longleftrightarrow> spend_known deps m \<and>
     (dm_delegations m \<noteq> [] \<longrightarrow> (\<exists>r. persistedRunState deps m = Inr r \<and> st_loadRun port (dm_store m) = Some (RunRecord r))) \<and>
     (\<forall>i st. map_of (dm_delegations m) i = Some st \<longrightarrow>
        st_load port (dm_store m) i = Some (DelegationRecord (persistedState m i st)))"

lemma runState_cong:
  assumes "dm_runId m' = dm_runId m" "dm_binding m' = dm_binding m" "dm_budget m' = dm_budget m" "dm_nanos m' = dm_nanos m"
    "dm_delegations m' = dm_delegations m" "dm_completed m' = dm_completed m" "dm_failed m' = dm_failed m" "dm_skipped m' = dm_skipped m"
  shows "persistedRunState deps m' = persistedRunState deps m"
  unfolding persistedRunState_def assms ..

lemma persistedState_cong:
  assumes "dm_runId m' = dm_runId m" "dm_binding m' = dm_binding m" "map_of (dm_checkpoints m') i = map_of (dm_checkpoints m) i"
  shows "persistedState m' i st = persistedState m i st"
  unfolding persistedState_def assms ..

lemma mirrored_cong:
  assumes "mirrored_inv deps port m" and "dm_runId m' = dm_runId m" "dm_binding m' = dm_binding m" "dm_budget m' = dm_budget m"
    "dm_nanos m' = dm_nanos m" "dm_delegations m' = dm_delegations m" "dm_completed m' = dm_completed m" "dm_failed m' = dm_failed m"
    "dm_skipped m' = dm_skipped m" "dm_checkpoints m' = dm_checkpoints m" "dm_store m' = dm_store m"
  shows "mirrored_inv deps port m'"
  using assms(1) runState_cong [OF assms(2-9)] persistedState_cong [OF assms(2,3)] assms(2-)
  by (auto simp: mirrored_inv_def spend_known_def)

lemma mirrored_emit [simp]: "mirrored_inv deps port (dm_emit e m) = mirrored_inv deps port m"
  by (auto elim!: mirrored_cong simp: dm_emit_def)

lemma mirrored_handle: "makeHandle m i st = (m', h) \<Longrightarrow> mirrored_inv deps port m \<Longrightarrow> mirrored_inv deps port m'"
  by (erule mirrored_cong) (auto simp: makeHandle_def Let_def)

lemma persistRun_reliable:
  assumes "reliable_port port" and "dd_persistence deps = Some port" and "spend_known deps m"
  obtains p r where "persistRun deps m = (p, Inr ())" "persistedRunState deps m = Inr r" "st_loadRun port p = Some (RunRecord r)"
    "\<And>i. st_load port p i = st_load port (dm_store m) i"
proof -
  from assms(3) obtain r where r: "persistedRunState deps m = Inr r" by (auto simp: spend_known_def persistedRunState_def)
  show thesis
    by (rule that [of "fst (st_saveRun port (dm_store m) r)" r])
       (use assms(1,2) r in \<open>auto simp: persistRun_def reliable_port_def case_prod_unfold\<close>)
qed

lemma persist_reliable:
  assumes rel: "reliable_port port" and port: "dd_persistence deps = Some port" and known: "spend_known deps m"
    and cp: "map_of (dm_checkpoints m) i = Some c" "cp_delegationId c = i"
  obtains p r where "dm_persist deps m i st = (p, Inr ())" "persistedRunState deps m = Inr r" "st_loadRun port p = Some (RunRecord r)"
    "\<And>j. st_load port p j = (if j = i then Some (DelegationRecord (persistedState m i st)) else st_load port (dm_store m) j)"
proof -
  let ?s = "st_save port (dm_store m) (persistedState m i st)"
  let ?m = "m\<lparr>dm_store := fst ?s\<rparr>"
  have c: "cp_delegationId (pz_checkpoint (persistedState m i st)) = i" using cp by (simp add: persistedState_def)
  have "spend_known deps ?m" using known by (simp add: spend_known_def)
  from persistRun_reliable [OF rel port this]
  obtain p r where pr: "persistRun deps ?m = (p, Inr ())" "persistedRunState deps ?m = Inr r" "st_loadRun port p = Some (RunRecord r)"
    "\<And>j. st_load port p j = st_load port (fst ?s) j" by auto
  show thesis
    by (rule that [of p r]) (use rel port pr c runState_cong [of ?m m deps] in \<open>auto simp: dm_persist_def reliable_port_def case_prod_unfold\<close>)
qed

lemma persist_mirrors:
  assumes rel: "reliable_port port" and port: "dd_persistence deps = Some port" and old: "mirrored_inv deps port m"
    and frame: "dm_runId m1 = dm_runId m" "dm_binding m1 = dm_binding m" "dm_store m1 = dm_store m"
      "dm_delegations m1 = AList.update i st' (dm_delegations m)" "\<And>j. j \<noteq> i \<Longrightarrow> map_of (dm_checkpoints m1) j = map_of (dm_checkpoints m) j"
    and cp: "map_of (dm_checkpoints m1) i = Some c" "cp_delegationId c = i" and known: "spend_known deps m1"
    and d: "dm_persist deps m1 i st' = (p, res)"
  shows "res = Inr () \<and> mirrored_inv deps port (m1\<lparr>dm_store := p\<rparr>)"
proof -
  obtain p' r where pr: "dm_persist deps m1 i st' = (p', Inr ())" "persistedRunState deps m1 = Inr r" "st_loadRun port p' = Some (RunRecord r)"
    "\<And>j. st_load port p' j = (if j = i then Some (DelegationRecord (persistedState m1 i st')) else st_load port (dm_store m1) j)"
    using persist_reliable [OF rel port known cp] by metis
  let ?m = "m1\<lparr>dm_store := p\<rparr>"
  have p: "p = p'" "res = Inr ()" using d pr(1) by auto
  have run: "persistedRunState deps ?m = Inr r" using pr(2) runState_cong [of ?m m1 deps] by simp
  have "st_load port p j = Some (DelegationRecord (persistedState ?m j st))" if j: "map_of (dm_delegations m1) j = Some st" for j st
  proof (cases "j = i")
    case True
    with j frame(4) have "st = st'" by (simp add: update_conv')
    with True p pr(4) show ?thesis using persistedState_cong [of ?m m1 i st'] by simp
  next
    case False
    with j frame(4) have "map_of (dm_delegations m) j = Some st" by (simp add: update_conv')
    with old have "st_load port (dm_store m) j = Some (DelegationRecord (persistedState m j st))" by (simp add: mirrored_inv_def)
    with False p pr(4) frame show ?thesis using persistedState_cong [of ?m m j st] by simp
  qed
  with run p pr(3) known show ?thesis by (simp add: mirrored_inv_def spend_known_def)
qed

section \<open>Every operation keeps the mirror\<close>

lemma checkpoint_id [simp]: "cp_delegationId (checkpointFor b i st) = i"
  by (simp add: checkpointFor_def)

lemma mirrored_start:
  assumes "reliable_port port" "dd_persistence deps = Some port" "mirrored_inv deps port m"
    and s: "start_delegation deps m t agent = (m', r)"
  shows "mirrored_inv deps port m'"
proof -
  let ?i = "delegationIdFor (dt_taskId t)" let ?st = "fresh_state deps t agent"
  let ?m = "writeCheckpoint ?i ?st (put_state ?i ?st m)"
  obtain p res where d: "dm_persist deps ?m ?i ?st = (p, res)" by force
  have k: "spend_known deps ?m" using assms(3) by (simp add: mirrored_inv_def spend_known_def writeCheckpoint_def put_state_def)
  have "res = Inr () \<and> mirrored_inv deps port (?m\<lparr>dm_store := p\<rparr>)"
    by (rule persist_mirrors [OF assms(1-3) _ _ _ _ _ _ _ k d, where c = "checkpointFor (dm_binding m) ?i ?st"])
       (simp_all add: writeCheckpoint_def put_state_def update_conv')
  with s d show ?thesis by (auto simp: start_delegation_def Let_def split: prod.splits elim!: mirrored_handle)
qed

lemma mirrored_spawn:
  assumes "reliable_port port" "dd_persistence deps = Some port" "mirrored_inv deps port m" and s: "dm_spawn deps m taskId = (m', r)"
  shows "mirrored_inv deps port m'"
  using s assms(3) by (auto simp: dm_spawn_def Let_def split: option.splits if_splits prod.splits intro: mirrored_start [OF assms(1-3)])

lemma mirrored_append:
  assumes "reliable_port port" "dd_persistence deps = Some port" "mirrored_inv deps port m"
    and s: "appendShard deps m i st ts kind payload = (m', r)"
  shows "mirrored_inv deps port m'"
proof (cases "running st \<and> \<not> isl (new_entry (dd_digest deps) i (ds_entries st) ts kind payload)")
  case True
  then obtain e where e: "new_entry (dd_digest deps) i (ds_entries st) ts kind payload = Inr e"
    by (cases "new_entry (dd_digest deps) i (ds_entries st) ts kind payload") auto
  let ?st = "st\<lparr>ds_entries := ds_entries st @ [e]\<rparr>"
  let ?m = "writeCheckpoint i ?st (put_state i ?st m)"
  obtain p res where d: "dm_persist deps ?m i ?st = (p, res)" by force
  have k: "spend_known deps ?m" using assms(3) by (simp add: mirrored_inv_def spend_known_def writeCheckpoint_def put_state_def)
  have "res = Inr () \<and> mirrored_inv deps port (?m\<lparr>dm_store := p\<rparr>)"
    by (rule persist_mirrors [OF assms(1-3) _ _ _ _ _ _ _ k d, where c = "checkpointFor (dm_binding m) i ?st"])
       (simp_all add: writeCheckpoint_def put_state_def update_conv')
  with s d e True show ?thesis by (auto simp: appendShard_def Let_def)
qed (use s assms(3) in \<open>auto simp: appendShard_def split: if_splits sum.splits\<close>)

lemma mirrored_settle:
  assumes "reliable_port port" "dd_persistence deps = Some port" "mirrored_inv deps port m"
    and b: "nextRunBudget deps m c n = Some budget" and s: "settle_delegation deps m i st status ob budget = (m', r)"
  shows "mirrored_inv deps port m'"
proof -
  let ?st = "st\<lparr>ds_status := status, ds_observation := Some ob\<rparr>"
  let ?m = "settled m i st status ob budget"
  obtain p res where d: "dm_persist deps ?m i ?st = (p, res)" by force
  have k: "spend_known deps ?m" using b
    by (auto simp: nextRunBudget_def spend_known_def settled_def writeCheckpoint_def put_state_def Let_def split: if_splits option.splits)
  have "res = Inr () \<and> mirrored_inv deps port (?m\<lparr>dm_store := p\<rparr>)"
    by (rule persist_mirrors [OF assms(1-3) _ _ _ _ _ _ _ k d, where c = "checkpointFor (dm_binding m) i ?st"])
       (simp_all add: settled_def writeCheckpoint_def put_state_def update_conv')
  with s d show ?thesis by (auto simp: settle_delegation_def settled_def Let_def)
qed

lemma mirrored_complete:
  assumes "reliable_port port" "dd_persistence deps = Some port" "mirrored_inv deps port m"
    and c: "h_complete deps m h summary result cost = (m', r)"
  shows "mirrored_inv deps port m'"
  using c assms(3) by (auto simp: h_complete_def split: option.splits prod.splits if_splits sum.splits intro: mirrored_settle [OF assms(1-3)])

lemma mirrored_fail:
  assumes "reliable_port port" "dd_persistence deps = Some port" "mirrored_inv deps port m"
    and c: "h_fail deps m h summary cost = (m', r)"
  shows "mirrored_inv deps port m'"
  using c assms(3) by (auto simp: h_fail_def split: option.splits prod.splits if_splits sum.splits intro: mirrored_settle [OF assms(1-3)])

lemma resume_accepted:
  assumes "dm_inv deps m" and "bindingIsActive deps (dm_binding m)" and "map_of (dm_delegations m) i = Some st"
  shows "resume_refused deps m i st (checkpointFor (dm_binding m) i st) = None"
proof -
  have "entriesVerify (dd_digest deps) (ds_entries st) i" using dm_invD(5) [OF assms(1,3)] unfolding entry_inv_def by blast
  with assms(2) show ?thesis by (simp add: resume_refused_def)
qed

lemma mirrored_resume:
  assumes "reliable_port port" "dd_persistence deps = Some port" "mirrored_inv deps port m"
    and inv: "dm_inv deps m" and act: "bindingIsActive deps (dm_binding m)" and st: "map_of (dm_delegations m) i = Some st"
    and s: "resumeState deps m i st = (m', r)"
  shows "mirrored_inv deps port m'"
proof -
  let ?st = "st\<lparr>ds_status := DsResumed, ds_observation := None, ds_guardian := makeLoopGuardian\<rparr>"
  let ?m = "(put_state i ?st m)\<lparr>dm_failed := removeAll (dt_taskId (ds_task st)) (dm_failed m)\<rparr>"
  have cp: "map_of (dm_checkpoints m) i = Some (checkpointFor (dm_binding m) i st)" by (rule entry_checkpoint [OF dm_invD(5) [OF inv st]])
  obtain p res where d: "dm_persist deps ?m i ?st = (p, res)" by force
  have k: "spend_known deps ?m" using assms(3) by (simp add: mirrored_inv_def spend_known_def put_state_def)
  have "res = Inr () \<and> mirrored_inv deps port (?m\<lparr>dm_store := p\<rparr>)"
    by (rule persist_mirrors [OF assms(1-3) _ _ _ _ _ _ _ k d, where c = "checkpointFor (dm_binding m) i st"])
       (simp_all add: put_state_def cp)
  with s d assms(3) show ?thesis
    by (auto simp: resumeState_def Let_def cp resume_accepted [OF inv act st] split: option.splits prod.splits elim!: mirrored_handle)
qed

lemma mirrored_schedule:
  assumes "reliable_port port" "dd_persistence deps = Some port" "mirrored_inv deps port m" and s: "dm_schedule deps m = (m', r)"
  shows "mirrored_inv deps port m'"
proof -
  have k: "spend_known deps (cascaded m)" using assms(3) by (simp add: mirrored_inv_def spend_known_def cascaded_def)
  from persistRun_reliable [OF assms(1,2) k] obtain p x where p: "persistRun deps (cascaded m) = (p, Inr ())"
    "persistedRunState deps (cascaded m) = Inr x" "st_loadRun port p = Some (RunRecord x)"
    "\<And>i. st_load port p i = st_load port (dm_store (cascaded m)) i" by metis
  let ?m = "(cascaded m)\<lparr>dm_store := p\<rparr>"
  have "persistedRunState deps ?m = Inr x" using p(2) runState_cong [of ?m "cascaded m" deps] by simp
  moreover have "persistedState ?m i st = persistedState m i st" for i st by (rule persistedState_cong) (simp_all add: cascaded_def)
  ultimately have new: "mirrored_inv deps port ?m"
    using assms(3) p by (auto simp: mirrored_inv_def cascaded_def spend_known_def)
  have same: "mirrored_inv deps port (cascaded m)"
    if "skip_loop (dm_completed m) (dm_failed m) (pl_nodes (dm_plan m)) (dm_skipped m) = dm_skipped m"
    using assms(3) that by (simp add: cascaded_def)
  obtain new where "skip_loop (dm_completed m) (dm_failed m) (pl_nodes (dm_plan m)) (dm_skipped m) = dm_skipped m @ new"
    using skip_loop_extends by blast
  with s p(1) new same show ?thesis
    by (auto simp: dm_schedule_def Let_def emit_all cascaded_def split: if_splits elim!: mirrored_cong)
qed

definition same_run :: "'p manager \<Rightarrow> 'p manager \<Rightarrow> bool" where
  "same_run m m' \<longleftrightarrow> dm_runId m' = dm_runId m \<and> dm_binding m' = dm_binding m \<and> dm_plan m' = dm_plan m"

lemma step_same_run: "same_run m (delegation_step deps m op)"
proof (rule delegation_step_cases [where P = "same_run m"])
  fix t m' r assume "dm_spawn deps m t = (m', r)"
  then show "same_run m m'"
    by (auto simp: dm_spawn_def start_delegation_def same_run_def Let_def dm_emit_def makeHandle_def writeCheckpoint_def put_state_def
        split: option.splits if_splits prod.splits sum.splits)
next
  fix i st m' r assume "resumeState deps m i st = (m', r)"
  then show "same_run m m'"
    by (auto simp: resumeState_def same_run_def Let_def dm_emit_def makeHandle_def dm_quarantine_def put_state_def
        split: option.splits if_splits prod.splits sum.splits)
next
  fix i st ts kind payload m' r assume "appendShard deps m i st ts kind payload = (m', r)"
  then show "same_run m m'"
    by (auto simp: appendShard_def same_run_def Let_def writeCheckpoint_def put_state_def split: if_splits prod.splits sum.splits)
next
  fix h summary result cost m' r assume "h_complete deps m h summary result cost = (m', r)"
  then show "same_run m m'"
    by (auto simp: h_complete_def settle_delegation_def same_run_def Let_def writeCheckpoint_def put_state_def dm_emit_def
        split: option.splits if_splits prod.splits sum.splits)
next
  fix h summary cost m' r assume "h_fail deps m h summary cost = (m', r)"
  then show "same_run m m'"
    by (auto simp: h_fail_def settle_delegation_def same_run_def Let_def writeCheckpoint_def put_state_def dm_emit_def
        split: option.splits if_splits prod.splits sum.splits)
next
  fix m' r assume "dm_schedule deps m = (m', r)"
  then show "same_run m m'" by (auto simp: dm_schedule_def same_run_def Let_def emit_all split: if_splits prod.splits sum.splits)
qed (simp add: same_run_def)

section \<open>Runs that a new process can recover\<close>

definition recorded :: "'p delegation_deps \<Rightarrow> 'p delegation_store \<Rightarrow> 'p manager \<Rightarrow> 'p manager \<Rightarrow> bool" where
  "recorded deps port m0 m \<longleftrightarrow> reliable_port port \<and> dd_persistence deps = Some port \<and> bindingIsActive deps (dm_binding m) \<and>
     delegation_ok deps m \<and> cards_inv deps m \<and> same_run m0 m \<and> mirrored_inv deps port m"

lemma step_recorded:
  assumes "recorded deps port m0 m"
  shows "recorded deps port m0 (delegation_step deps m op)"
proof -
  from assms have rel: "reliable_port port" "dd_persistence deps = Some port" "mirrored_inv deps port m"
    and act: "bindingIsActive deps (dm_binding m)" and ok: "delegation_ok deps m" and inv: "dm_inv deps m"
    and cards: "cards_inv deps m" and run: "same_run m0 m" by (simp_all add: recorded_def delegation_ok_def)
  have "mirrored_inv deps port (delegation_step deps m op)"
    by (rule delegation_step_cases [where P = "mirrored_inv deps port"], rule rel(3), erule mirrored_spawn [OF rel],
        erule mirrored_resume [OF rel inv act], assumption, erule mirrored_append [OF rel], erule mirrored_complete [OF rel],
        erule mirrored_fail [OF rel], erule mirrored_schedule [OF rel])
  with step_ok [OF ok, of op] step_cards [OF inv cards, of op] step_same_run [of m deps op] rel act run
  show ?thesis by (simp add: recorded_def same_run_def)
qed

interpretation recorded_run: invariant_machine "delegation_step deps" "recorded deps port m0" for deps port m0
  by unfold_locales (rule step_recorded)

lemma manager_starts_recorded:
  assumes "makeDelegationManager runId plan raw store = Inr m0" and "hex_digest (dd_digest deps)" and "reliable_port port"
    and "dd_persistence deps = Some port" and "dd_usd deps 0 = ''0''" and "bindingIsActive deps (dm_binding m0)"
  shows "recorded deps port m0 m0"
proof -
  have "dm_delegations m0 = []" "dm_nanos m0 = 0" using assms(1)
    by (auto simp: makeDelegationManager_def Let_def split: sum.splits)
  moreover have "iterationCostSpendNanos ''0'' = Some 0" by code_simp
  then have "spendUsdFromNanos (dd_usd deps) 0 \<noteq> None" by (simp add: spendUsdFromNanos_def assms(5))
  ultimately show ?thesis using assms manager_starts_ok [OF assms(1,2)]
    by (simp add: recorded_def cards_inv_def same_run_def mirrored_inv_def spend_known_def)
qed

lemma recorded_durable: "recorded deps port m0 m \<Longrightarrow> dm_delegations m \<noteq> [] \<Longrightarrow> durable deps m"
  by (auto simp: recorded_def mirrored_inv_def durable_def)

lemma new_manager_cold:
  assumes "makeDelegationManager runId plan raw store = Inr m0" and "same_run m0 m"
    and "makeDelegationManager runId' plan raw (dm_store m) = Inr c"
  shows "cold_copy m c" "resolved_clean (dm_binding m)" "dm_runId m = runId"
  using assms resolve_clean by (auto simp: makeDelegationManager_def Let_def cold_copy_def same_run_def split: sum.splits)

end
