(* ===== verification/Delegation_Properties.thy ===== *)
theory Delegation_Properties
  imports Delegation_Durable
begin

text \<open>
  The properties of a delegation run and of its recovery, over the manager of \<open>Delegation\<close>, the invariants of
  \<open>Delegation_Run\<close> and the recovery paths of \<open>Delegation_Recovery\<close>.
\<close>

section \<open>Properties of a delegation run\<close>

definition demo_card :: agent_card where
  "demo_card = \<lparr>ac_name = ''coder'', ac_description = None, ac_instructions = [], ac_skills = [], ac_mcpAllowlist = [''git''],
     ac_toolTiers = [(''bash'', 2), (''fs.read'', 0)], ac_maxIterations = 3, ac_contextStrategy = CsCompact, ac_provenance = PvBuiltin\<rparr>"

definition demo_memory_deps :: "unit delegation_deps" where
  "demo_memory_deps = \<lparr>dd_digest = demo_digest, dd_usd = (\<lambda>n. if n = 0 then ''0'' else ''1e-9''), dd_resolveCard = (\<lambda>_. Some demo_card),
     dd_skillTouchedPaths = (\<lambda>_. []), dd_mcpWritable = (\<lambda>_. True), dd_persistence = None, dd_isBindingActive = None\<rparr>"

definition demo_raw_binding :: jv where
  "demo_raw_binding = JObj [(''operatorId'', JStr ''op''), (''profileId'', JStr ''p''), (''projectId'', JStr ''pr''),
     (''sessionId'', JStr ''s''), (''scope'', JStr ''project'')]"

definition demo_manager :: "'p \<Rightarrow> 'p manager" where
  "demo_manager disk = projr (makeDelegationManager ''r-1'' (DagPlan demo_dag) demo_raw_binding disk)"

lemma demo_manager_made: "makeDelegationManager ''r-1'' (DagPlan demo_dag) demo_raw_binding disk = Inr (demo_manager disk)"
proof -
  have "\<not> isl (resolvedWorkBinding demo_raw_binding)" by code_simp
  then show ?thesis unfolding demo_manager_def
    by (cases "resolvedWorkBinding demo_raw_binding") (simp_all add: makeDelegationManager_def normalizePlan_def Let_def demo_dag_valid)
qed

lemma demo_hex: "hex_digest demo_digest" "hex_digest (dd_digest demo_memory_deps)"
  by (simp_all add: hex_digest_def demo_digest_def demo_memory_deps_def)

definition demo_cost :: "int option iteration_cost" where
  "demo_cost = \<lparr>ic_iterations = Some 1, ic_spendUsd = ''1e-9'', ic_wallMs = Some 5\<rparr>"

definition demo_after_spawn :: "unit manager" where
  "demo_after_spawn = foldl (delegation_step demo_memory_deps) (demo_manager ()) [OpSpawn ''a'']"

definition demo_handle :: delegation_handle where
  "demo_handle = projr (snd (dm_spawn demo_memory_deps (demo_manager ()) ''a''))"

lemma demo_complete: "isl (snd (h_complete demo_memory_deps demo_after_spawn demo_handle ''ok'' JNull demo_cost)) = False"
  by code_simp

lemma nanos_bound: "iterationCostSpendNanos s = Some n \<Longrightarrow> n \<le> MAX_SAFE_USD_NANOS"
  by (auto simp: iterationCostSpendNanos_def Let_def split: option.splits if_splits)

lemma reachable_inv:
  assumes "makeDelegationManager runId plan raw store = Inr m0" and "hex_digest (dd_digest deps)" and "m = foldl (delegation_step deps) m0 ops"
  shows "dm_inv deps m"
proof -
  have "delegation_ok deps m" unfolding assms(3) by (rule delegation.inv_run [OF manager_starts_ok [OF assms(1,2)]])
  then show ?thesis by (simp add: delegation_ok_def)
qed



text \<open>
  C24: a validated plan never gets stuck: whenever a schedule succeeds and some task is neither completed, failed nor
  skipped afterwards, then a task is ready or a delegation is still running.
\<close>

theorem schedule_never_stuck:
  assumes "makeDelegationManager runId plan raw store = Inr m0" and "hex_digest (dd_digest deps)"
    and "m = foldl (delegation_step deps) m0 ops" and "dm_schedule deps m = (m', Inr r)"
    and "t \<in> set (pl_nodes (dm_plan m'))" and "\<not> isTerminal m' (dt_taskId t)"
  shows "sr_ready r \<noteq> [] \<or> (\<exists>i st. map_of (dm_delegations m') i = Some st \<and> running st)"
proof -
  have inv: "dm_inv deps m" by (rule reachable_inv [OF assms(1-3)])
  from schedule_done [OF assms(4)] have r: "r = schedule_view m'"
    and m': "m' = (cascaded m)\<lparr>dm_store := dm_store m', dm_events := dm_events m'\<rparr>" by blast+
  have same: "dm_plan m' = dm_plan m" "dm_delegations m' = dm_delegations m" "dm_completed m' = dm_completed (cascaded m)"
    "dm_failed m' = dm_failed (cascaded m)" "dm_skipped m' = dm_skipped (cascaded m)"
    by (subst m'; simp add: cascaded_def)+
  have ready: "task_ready m' u = task_ready (cascaded m) u" for u
    by (rule task_ready_cong) (simp_all add: same cascaded_def)
  have nt: "\<not> isTerminal (cascaded m) (dt_taskId t)" using assms(6) by (simp add: isTerminal_def same)
  from cascaded_progress [OF inv _ nt] assms(5) consider u where "u \<in> set (pl_nodes (dm_plan m))" "task_ready (cascaded m) u"
    | i st where "map_of (dm_delegations m) i = Some st" "running st" by (auto simp: same)
  then show ?thesis
  proof cases
    case 1
    then have "u \<in> set (readySet m')" by (simp add: readySet_def same ready)
    then show ?thesis by (auto simp: r)
  qed (auto simp: same)
qed

theorem schedule_never_stuck_witness:
  "(let m' = fst (dm_schedule demo_memory_deps (demo_manager ())); r = projr (snd (dm_schedule demo_memory_deps (demo_manager ())))
    in sr_ready r \<noteq> [] \<or> (\<exists>i st. map_of (dm_delegations m') i = Some st \<and> running st))"
proof -
  let ?s = "dm_schedule demo_memory_deps (demo_manager ())"
  let ?t = "demo_task ''a'' [] [''src/a'']"
  have "isl (snd ?s) = False" by code_simp
  then have s: "?s = (fst ?s, Inr (projr (snd ?s)))" by (cases "snd ?s") (simp_all add: prod_eq_iff)
  have t: "?t \<in> set (pl_nodes (dm_plan (fst ?s)))" by code_simp
  have n: "\<not> isTerminal (fst ?s) (dt_taskId ?t)" by code_simp
  have f: "demo_manager () = foldl (delegation_step demo_memory_deps) (demo_manager ()) []" by simp
  from schedule_never_stuck [OF demo_manager_made demo_hex(2) f s t n] show ?thesis by (simp only: Let_def)
qed

text \<open>
  C25: a schedule skips exactly the tasks that wait, directly or through other waiting tasks, for a failed or skipped one, and
  its loop terminates; when the store refuses the new ledger the manager is as before.
\<close>

theorem cascade_skip_is_exact:
  "case dm_schedule deps m of
     (m', Inr r) \<Rightarrow> set (dm_skipped m') = set (dm_skipped m) \<union> doomed (dm_completed m) (dm_failed m) (pl_nodes (dm_plan m)) (dm_skipped m)
   | (m', Inl e) \<Rightarrow> m' = m\<lparr>dm_store := dm_store m'\<rparr>"
proof (cases "dm_schedule deps m")
  case (Pair m' r)
  show ?thesis
  proof (cases r)
    case (Inr v)
    from schedule_done [OF Pair [unfolded Inr]] have m': "m' = (cascaded m)\<lparr>dm_store := dm_store m', dm_events := dm_events m'\<rparr>" by blast
    have "dm_skipped m' = dm_skipped (cascaded m)" by (subst m') simp
    with Pair Inr show ?thesis by (simp add: cascaded_def skip_loop_exact)
  qed (use Pair schedule_failed in auto)
qed

text \<open>
  C19: the run budget is exact. After any sequence of operations the iterations, milliseconds and billionths of a
  dollar the manager has booked are the sums over the observations it handed out, and all three are safe integers.
\<close>

theorem run_budget_is_exact:
  assumes "makeDelegationManager runId plan raw store = Inr m0" and "hex_digest (dd_digest deps)"
    and "run_ops deps m0 ops = (m, obs)"
  shows "spent m = total_cost obs \<and> isSafeInteger (ic_iterations (dm_budget m)) \<and> isSafeInteger (ic_wallMs (dm_budget m)) \<and>
    dm_nanos m \<le> MAX_SAFE_USD_NANOS"
proof -
  have ok: "delegation_ok deps m0" by (rule manager_starts_ok [OF assms(1,2)])
  have "m = foldl (delegation_step deps) m0 ops" using run_ops_state [of deps m0 ops] assms(3) by simp
  from dm_invD(8) [OF reachable_inv [OF assms(1,2) this]] have b: "budget_inv m" .
  have "spent m0 = (0, 0, 0)" using assms(1)
    by (auto simp: makeDelegationManager_def spent_def Let_def split: sum.splits)
  then have "spent m = total_cost obs" using run_spent [OF ok assms(3)] by simp
  with b nanos_bound show ?thesis by (auto simp: budget_inv_def)
qed

theorem run_budget_is_exact_witness:
  "(let (m, obs) = run_ops demo_memory_deps (demo_manager ()) [OpSpawn ''a'', OpComplete demo_handle ''ok'' JNull demo_cost]
    in total_cost obs = (1, 5, 1) \<and> spent m = (1, 5, 1))"
proof -
  let ?r = "run_ops demo_memory_deps (demo_manager ()) [OpSpawn ''a'', OpComplete demo_handle ''ok'' JNull demo_cost]"
  have r: "?r = (fst ?r, snd ?r)" by simp
  have "total_cost (snd ?r) = (1, 5, 1)" by code_simp
  with run_budget_is_exact [OF demo_manager_made demo_hex(2) r] show ?thesis by (simp add: case_prod_unfold)
qed

text \<open>
  C21: a settled handle is dead for good. Once a delegation was completed or failed through a handle, whatever happens
  afterwards (the delegation may be resumed under a new handle) the old one can append nothing, complete nothing,
  fail nothing and permits no tool and no server.
\<close>

theorem settled_handle_stays_dead:
  assumes "makeDelegationManager runId plan raw store = Inr m0" and "hex_digest (dd_digest deps)"
    and "m = foldl (delegation_step deps) m0 ops"
    and "h_complete deps m h summary result cost = (m1, Inr ob) \<or> h_fail deps m h summary cost = (m1, Inr ob)"
    and "m2 = foldl (delegation_step deps) m1 ops2"
  shows "h_append deps m2 h ts kind payload = (m2, Inl NotResumable) \<and> h_complete deps m2 h s2 r2 c2 = (m2, Inl NotResumable) \<and>
    h_fail deps m2 h s3 c3 = (m2, Inl NotResumable) \<and> \<not> permitsTool m2 h tool \<and> \<not> permitsMcp m2 h server"
proof -
  have ok: "delegation_ok deps m" unfolding assms(3) by (rule delegation.inv_run [OF manager_starts_ok [OF assms(1,2)]])
  then have inv: "dm_inv deps m" and known: "completed_known m" and hex: "hex_digest (dd_digest deps)"
    using assms(2) by (simp_all add: delegation_ok_def)
  from assms(4) have "stale h m1" using complete_makes_stale [OF inv] fail_makes_stale [OF inv] by blast
  moreover have "delegation_ok deps m1" using assms(4)
    step_ok [OF ok, of "OpComplete h summary result cost"] step_ok [OF ok, of "OpFail h summary cost"]
    by (auto simp: delegation_step_def run_op_def)
  ultimately have "stale h m2" using stale_handles.latch_run [of deps m1 h ops2] unfolding assms(5) by simp
  from stale_refused [OF this] show ?thesis
    by (simp add: h_append_def h_complete_def h_fail_def permitsTool_def permitsMcp_def)
qed

theorem settled_handle_stays_dead_witness:
  "(let m1 = fst (h_complete demo_memory_deps demo_after_spawn demo_handle ''ok'' JNull demo_cost);
        m2 = foldl (delegation_step demo_memory_deps) m1 [OpSpawn ''b'']
    in h_append demo_memory_deps m2 demo_handle ''t'' ''note'' JNull = (m2, Inl NotResumable) \<and> \<not> permitsTool m2 demo_handle ''bash'')"
proof -
  let ?c = "h_complete demo_memory_deps demo_after_spawn demo_handle ''ok'' JNull demo_cost"
  have "?c = (fst ?c, Inr (projr (snd ?c)))" using demo_complete by (cases "snd ?c") (simp_all add: prod_eq_iff)
  then have c: "?c = (fst ?c, Inr (projr (snd ?c))) \<or> h_fail demo_memory_deps demo_after_spawn demo_handle ''ok'' demo_cost
      = (fst ?c, Inr (projr (snd ?c)))" ..
  from settled_handle_stays_dead [OF demo_manager_made demo_hex(2) demo_after_spawn_def c refl, of "[OpSpawn ''b'']"] show ?thesis
    unfolding Let_def by blast
qed

text \<open>
  C20: a refused operation leaves no trace in memory. When an append, a completion, a failure, a schedule or a spawn is
  refused, for whatever reason and also when the durable store throws after a partial write, the manager keeps its
  tasks, states, checkpoints, handles and budget; only the store itself, and the events of a lane violation, may differ.
\<close>

theorem refused_operation_is_undone:
  assumes "makeDelegationManager runId plan raw store = Inr m0" and "hex_digest (dd_digest deps)"
    and "m = foldl (delegation_step deps) m0 ops"
  shows "(case h_append deps m h ts kind payload of (m', Inl e) \<Rightarrow> m' = m\<lparr>dm_store := dm_store m'\<rparr> | (m', Inr _) \<Rightarrow> True) \<and>
    (case h_complete deps m h summary result cost of (m', Inl e) \<Rightarrow> m' = m\<lparr>dm_store := dm_store m'\<rparr> | (m', Inr _) \<Rightarrow> True) \<and>
    (case h_fail deps m h summary cost of (m', Inl e) \<Rightarrow> m' = m\<lparr>dm_store := dm_store m'\<rparr> | (m', Inr _) \<Rightarrow> True) \<and>
    (case dm_schedule deps m of (m', Inl e) \<Rightarrow> m' = m\<lparr>dm_store := dm_store m'\<rparr> | (m', Inr _) \<Rightarrow> True) \<and>
    (case dm_spawn deps m taskId of (m', Inl e) \<Rightarrow> m' = m\<lparr>dm_store := dm_store m', dm_events := dm_events m'\<rparr> | (m', Inr _) \<Rightarrow> True)"
proof -
  have inv: "dm_inv deps m" by (rule reachable_inv [OF assms])
  have same: "m = m\<lparr>dm_store := dm_store m\<rparr>" by simp
  have "m' = m\<lparr>dm_store := dm_store m'\<rparr>" if "h_append deps m h ts kind payload = (m', Inl e)" for m' e
  proof (cases "handle_state m h")
    case (Some st)
    from handle_stateD [OF Some] have st: "map_of (dm_delegations m) (dh_id h) = Some st" by simp
    from that Some append_rollback [OF st entry_checkpoint [OF dm_invD(5) [OF inv st]]] show ?thesis by (simp add: h_append_def)
  qed (use that in \<open>auto simp: h_append_def\<close>)
  moreover have "m' = m\<lparr>dm_store := dm_store m'\<rparr>" if "h_complete deps m h summary result cost = (m', Inl e)" for m' e
    using that same unfolding h_complete_def
    by (auto split: option.splits prod.splits if_splits sum.splits dest!: handle_stateD intro: settle_rollback [OF inv])
  moreover have "m' = m\<lparr>dm_store := dm_store m'\<rparr>" if "h_fail deps m h summary cost = (m', Inl e)" for m' e
    using that same unfolding h_fail_def
    by (auto split: option.splits prod.splits if_splits sum.splits dest!: handle_stateD intro: settle_rollback [OF inv])
  ultimately show ?thesis using schedule_failed [of deps m] spawn_failed [OF inv, of taskId]
    by (fastforce split: prod.split sum.split)
qed

definition demo_broken_deps :: "nat delegation_deps" where
  "demo_broken_deps = \<lparr>dd_digest = demo_digest, dd_usd = (\<lambda>n. if n = 0 then ''0'' else ''1e-9''), dd_resolveCard = (\<lambda>_. Some demo_card),
     dd_skillTouchedPaths = (\<lambda>_. []), dd_mcpWritable = (\<lambda>_. True),
     dd_persistence = Some \<lparr>st_save = (\<lambda>p _. (p + 1, True)), st_saveRun = (\<lambda>p _. (p + 1, False)), st_load = (\<lambda>_ _. None),
       st_loadRun = (\<lambda>_. None), st_quarantine = (\<lambda>p _ _. p)\<rparr>, dd_isBindingActive = None\<rparr>"

theorem refused_operation_is_undone_witness:
  "(let (m', r) = dm_spawn demo_broken_deps (demo_manager 0) ''a''
    in isl r \<and> dm_store m' = 2 \<and> m' = (demo_manager 0)\<lparr>dm_store := dm_store m', dm_events := dm_events m'\<rparr>)"
proof -
  let ?s = "dm_spawn demo_broken_deps (demo_manager 0) ''a''"
  have hex: "hex_digest (dd_digest demo_broken_deps)" using demo_hex(1) by (simp add: demo_broken_deps_def)
  have "isl (snd ?s)" "dm_store (fst ?s) = 2" by code_simp+
  moreover have start: "demo_manager (0 :: nat) = foldl (delegation_step demo_broken_deps) (demo_manager 0) []" by simp
  have "case ?s of (m', Inl e) \<Rightarrow> m' = (demo_manager 0)\<lparr>dm_store := dm_store m', dm_events := dm_events m'\<rparr> | (m', Inr _) \<Rightarrow> True"
    by (rule refused_operation_is_undone [OF demo_manager_made hex start, THEN conjunct2, THEN conjunct2, THEN conjunct2, THEN conjunct2])
  ultimately show ?thesis by (cases ?s; cases "snd ?s") simp_all
qed

text \<open>
  The card is the only source of a delegate's authority: right after a spawn, the new handle permits exactly the
  tools of the card the task is assigned to, and exactly the servers of that card's allowlist that are writable,
  and every path the card's skills may touch lies in the task's lane.
\<close>

theorem card_is_sole_authority:
  "case dm_spawn deps m taskId of
     (m', Inl e) \<Rightarrow> True
   | (m', Inr h) \<Rightarrow>
       dh_id h = delegationIdFor taskId \<and> current_card deps (task_by_id m taskId) = Some (dh_card h) \<and>
       (\<forall>tool. permitsTool m' h tool \<longleftrightarrow> tool \<in> set (map_keys (ac_toolTiers (dh_card h)))) \<and>
       (\<forall>server. permitsMcp m' h server \<longleftrightarrow> server \<in> set (ac_mcpAllowlist (dh_card h)) \<and> dd_mcpWritable deps server) \<and>
       out_of_lane deps (the (task_by_id m taskId)) (dh_card h) = []"
proof -
  have "dh_id h = delegationIdFor taskId \<and> current_card deps (task_by_id m taskId) = Some (dh_card h) \<and>
       (\<forall>tool. permitsTool m' h tool \<longleftrightarrow> tool \<in> set (map_keys (ac_toolTiers (dh_card h)))) \<and>
       (\<forall>server. permitsMcp m' h server \<longleftrightarrow> server \<in> set (ac_mcpAllowlist (dh_card h)) \<and> dd_mcpWritable deps server) \<and>
       out_of_lane deps (the (task_by_id m taskId)) (dh_card h) = []" if s: "dm_spawn deps m taskId = (m', Inr h)" for m' h
  proof -
    from spawn_done [OF s] obtain t agent where t: "task_by_id m taskId = Some t" "dt_taskId t = taskId" "out_of_lane deps t agent = []"
      "start_delegation deps m t agent = (m', Inr h)" and card: "\<exists>name. dt_assignedTo t = Some name \<and> dd_resolveCard deps name = Some agent" by metis
    from start_done [OF t(4)] obtain p e where
      h: "(m', h) = makeHandle (dm_emit e ((started deps m t agent)\<lparr>dm_store := p\<rparr>)) (delegationIdFor taskId) (fresh_state deps t agent)"
      unfolding t(2) by blast
    from h have f: "dh_id h = delegationIdFor taskId" "dh_card h = agent"
      "handle_state m' h = Some (fresh_state deps t agent)"
      by (auto simp: makeHandle_def Let_def fresh_state_def handle_state_def started_def put_state_def writeCheckpoint_def t(2) running_def)
    from card have "current_card deps (Some t) = Some agent" by (auto simp: current_card_def)
    with f t show ?thesis by (auto simp: permitsTool_def permitsMcp_def fresh_state_def)
  qed
  then show ?thesis by (auto split: prod.split sum.split)
qed

section \<open>Properties of recovery\<close>

type_synonym demo_disk = "persisted_run option \<times> (string, persisted_delegation) jsmap"

definition demo_port :: "demo_disk delegation_store" where
  "demo_port =
     \<lparr>st_save = (\<lambda>(run, ds) d. ((run, AList.update (cp_delegationId (pz_checkpoint d)) d ds), True)),
      st_saveRun = (\<lambda>(run, ds) r. ((Some r, ds), True)),
      st_load = (\<lambda>(run, ds) i. Some (case map_of ds i of None \<Rightarrow> NoRecord | Some d \<Rightarrow> DelegationRecord d)),
      st_loadRun = (\<lambda>(run, ds). Some (case run of None \<Rightarrow> NoRun | Some r \<Rightarrow> RunRecord r)),
      st_quarantine = (\<lambda>p i reason. p)\<rparr>"

lemma demo_port_reliable: "reliable_port demo_port"
  by (auto simp: reliable_port_def demo_port_def update_conv')

definition demo_disk_deps :: "demo_disk delegation_deps" where
  "demo_disk_deps = \<lparr>dd_digest = demo_digest, dd_usd = (\<lambda>n. if n = 0 then ''0'' else ''1e-9''), dd_resolveCard = (\<lambda>_. Some demo_card),
     dd_skillTouchedPaths = (\<lambda>_. []), dd_mcpWritable = (\<lambda>_. True), dd_persistence = Some demo_port, dd_isBindingActive = None\<rparr>"



text \<open>
  C26: recovering the active set is all or nothing. A refusal leaves the manager as it was; a success gives one live handle
  per requested delegation, in order, none of which had been issued before, and every one of them runs, verifies,
  carries the card its task is assigned to now and shares no path pattern with another.
\<close>

theorem recovery_is_all_or_nothing:
  "case recoverActive deps m ids of
     (m', Inl e) \<Rightarrow> m' = m
   | (m', Inr hs) \<Rightarrow>
       map dh_id hs = ids \<and> list_all (\<lambda>h. handle_state m' h \<noteq> None) hs \<and> list_all (\<lambda>i. i \<notin> set (dm_issued m)) ids \<and>
       list_all (\<lambda>i. case map_of (dm_delegations m') i of
            None \<Rightarrow> False
          | Some st \<Rightarrow> running st \<and> i = delegationIdFor (dt_taskId (ds_task st)) \<and> ds_task st \<in> set (pl_nodes (dm_plan m)) \<and>
              verifyShardChain deps m' i \<and> current_card deps (Some (ds_task st)) = Some (ds_card st) \<and>
              list_all (\<lambda>j. j = i \<or> (case map_of (dm_delegations m') j of
                   None \<Rightarrow> False | Some st' \<Rightarrow> overlappingPaths (ds_owns st) (ds_owns st') = [])) ids) ids"
proof (cases "recoverActive deps m ids")
  case (Pair m' r)
  show ?thesis
  proof (cases r)
    case (Inl e)
    with Pair show ?thesis by (auto simp: recoverActive_def split: sum.splits prod.splits)
  next
    case (Inr hs)
    note rec = Pair [unfolded Inr]
    have fresh: "list_all (\<lambda>i. i \<notin> set (dm_issued m)) ids"
      using recover_done [OF rec] by (metis (no_types, lifting) list_all_iff)
    have entry: "\<exists>st. map_of (dm_delegations m') i = Some st \<and> running st \<and> i = delegationIdFor (dt_taskId (ds_task st)) \<and>
        ds_task st \<in> set (pl_nodes (dm_plan m)) \<and> verifyShardChain deps m' i \<and> current_card deps (Some (ds_task st)) = Some (ds_card st)"
      if "i \<in> set ids" for i
      using recovered_state [OF rec that]
      by (metis (no_types, lifting) snapshot_ok_def idOf_def verifyShardChain_def option.simps(5))
    have "list_all (\<lambda>i. case map_of (dm_delegations m') i of
            None \<Rightarrow> False
          | Some st \<Rightarrow> running st \<and> i = delegationIdFor (dt_taskId (ds_task st)) \<and> ds_task st \<in> set (pl_nodes (dm_plan m)) \<and>
              verifyShardChain deps m' i \<and> current_card deps (Some (ds_task st)) = Some (ds_card st) \<and>
              list_all (\<lambda>j. j = i \<or> (case map_of (dm_delegations m') j of
                   None \<Rightarrow> False | Some st' \<Rightarrow> overlappingPaths (ds_owns st) (ds_owns st') = [])) ids) ids"
      unfolding list_all_iff
    proof (intro ballI)
      fix i assume i: "i \<in> set ids"
      from entry [OF i] obtain st where st: "map_of (dm_delegations m') i = Some st" "running st"
        "i = delegationIdFor (dt_taskId (ds_task st))" "ds_task st \<in> set (pl_nodes (dm_plan m))" "verifyShardChain deps m' i"
        "current_card deps (Some (ds_task st)) = Some (ds_card st)" by blast
      have "j = i \<or> (case map_of (dm_delegations m') j of None \<Rightarrow> False | Some st' \<Rightarrow> overlappingPaths (ds_owns st) (ds_owns st') = [])"
        if "j \<in> set ids" for j
        using entry [OF that] recovered_lanes [OF rec i that _ st(1)] by fastforce
      with st show "case map_of (dm_delegations m') i of
            None \<Rightarrow> False
          | Some st \<Rightarrow> running st \<and> i = delegationIdFor (dt_taskId (ds_task st)) \<and> ds_task st \<in> set (pl_nodes (dm_plan m)) \<and>
              verifyShardChain deps m' i \<and> current_card deps (Some (ds_task st)) = Some (ds_card st) \<and>
              (\<forall>j\<in>set ids. j = i \<or> (case map_of (dm_delegations m') j of
                   None \<Rightarrow> False | Some st' \<Rightarrow> overlappingPaths (ds_owns st) (ds_owns st') = []))" by simp
    qed
    with Pair Inr fresh recovered_handles [OF rec] show ?thesis by (simp add: list_all_iff)
  qed
qed

text \<open>
  Preflight only passes balanced books. It answers that there is nothing to recover exactly when the store holds
  neither a run nor a delegation of the plan; otherwise the budget it reports equals, in iterations, milliseconds and
  billionths of a dollar, the sum over the terminal observations it hands over.
\<close>

theorem preflight_balances_books:
  "case preflightRecovery deps m of
     Inl e \<Rightarrow> True
   | Inr PreflightNone \<Rightarrow> loadRunValue deps m = NoRun \<and>
       list_all (\<lambda>t. loadDelegationValue deps m (delegationIdFor (dt_taskId t)) = NoRecord) (pl_nodes (dm_plan m))
   | Inr (PreflightTerminal obs budget) \<Rightarrow> booked budget = Some (total_cost obs)
   | Inr (PreflightContinuation ids obs budget) \<Rightarrow> booked budget = Some (total_cost obs) \<and> ids \<noteq> []"
proof (cases "preflightRecovery deps m")
  case (Inr pf)
  show ?thesis
  proof (cases "loadRunValue deps m = NoRun")
    case True
    with Inr show ?thesis
      by (auto simp: preflightRecovery_def list_ex_iff list_all_iff split: if_splits)
  next
    case False
    with Inr obtain run where "preflight_run deps m run = Inr pf"
      by (auto simp: preflightRecovery_def split: if_splits sum.splits)
    from preflight_run_books [OF this] obtain sts where "booked (vr_budget run) = Some (total_cost (observations_of sts))"
      "pf = (if vr_active run = [] then PreflightTerminal (observations_of sts) (vr_budget run)
       else PreflightContinuation (map delegationIdFor (vr_active run)) (observations_of sts) (vr_budget run))" by blast
    with Inr show ?thesis by simp
  qed
qed simp

end
