(* ===== verification/Hook_Gate.thy ===== *)
theory Hook_Gate
  imports Safety_Policy Observability
begin

text \<open>
  The gate between the agent loop and the safety policy (\<open>core-ts/src/runtime/hook-gate.ts\<close>): a requested
  call is validated, resolved to the call the policy judges, evaluated, narrowed by the project
  policy and, where needed, shown to the operator as a card.

  Parameters: the ports of \<open>HookGateDeps\<close>. A port that may throw returns an option or a flag; \<open>'w\<close> is the state of the
  world they act on. The policy is a parameter here and is instantiated with \<open>evaluate\<close> below. The grant store is the
  one of \<open>Grant_Store\<close>. \<open>gx_cards\<close> lists the cards shown, each with the answer; \<open>None\<close> is an approval that failed. The default card summary, Russian in the source, is an ASCII text here.
\<close>

section \<open>Data\<close>

datatype loop_provenance = LpOperator | LpLearned | LpUntrusted

record loop_call =
  lc_name :: string
  lc_args :: "(string \<times> jv) list"
  lc_source :: "loop_provenance option"

record hook_ctx =
  hx_provenance :: loop_provenance
  hx_narrowed :: bool
  hx_sessionId :: "string option"
  hx_turnId :: "string option"
  hx_ordinal :: "nat option"

datatype approval_decision = Confirmed "grant_scope option" | Rejected

datatype policy_narrowing = NarrowUnchanged | NarrowAsk string | NarrowDeny

datatype baseline = BaseAllow | BaseAsk

record pending_action =
  pa_actionId :: string
  pa_actionHash :: string
  pa_tier :: tier
  pa_requiresStepUp :: bool
  pa_summary :: string
  pa_canRememberSimilar :: bool

datatype gate_verdict = GateAllow | GateDeny | GateModify loop_call

record 'w gate_deps =
  gt_evaluate :: "grant_store \<Rightarrow> 'w \<Rightarrow> tool_call \<Rightarrow> context_span list \<Rightarrow> verdict option"
  gt_grantDeps :: grant_deps
  gt_binding :: "jv option"
  gt_resolve :: "(loop_call \<Rightarrow> hook_ctx \<Rightarrow> tool_call option) option"
  gt_complete :: "('w \<Rightarrow> loop_call \<Rightarrow> tool_call \<Rightarrow> bool \<Rightarrow> 'w \<times> bool) option"
  gt_approve :: "'w \<Rightarrow> pending_action \<Rightarrow> 'w \<times> approval_decision option"
  gt_validate :: "(loop_call \<Rightarrow> bool option) option"
  gt_learned :: "('w \<Rightarrow> loop_call \<Rightarrow> hook_ctx \<Rightarrow> bool option) option"
  gt_narrow :: "('w \<Rightarrow> loop_call \<Rightarrow> tool_call \<Rightarrow> hook_ctx \<Rightarrow> baseline \<Rightarrow> policy_narrowing option) option"
  gt_observe :: "('w \<Rightarrow> loop_call \<Rightarrow> hook_ctx \<Rightarrow> tier \<Rightarrow> bool \<Rightarrow> 'w) option"
  gt_H :: "string \<Rightarrow> string"
  gt_uuid :: "'w \<Rightarrow> string"
  gt_now :: "'w \<Rightarrow> string"

record 'w gate_state =
  gx_grants :: grant_store
  gx_world :: 'w
  gx_cards :: "(pending_action \<times> approval_decision option) list"

section \<open>The call the policy judges\<close>

definition toSafetyCall :: "loop_call \<Rightarrow> hook_ctx \<Rightarrow> tool_call" where
  "toSafetyCall call ctx =
     \<lparr>tc_tool = lc_name call, tc_args = lc_args call, tc_argsTainted = Some (hx_provenance ctx \<noteq> LpOperator),
      tc_policyTier = JUndef, tc_outboundSink = JUndef\<rparr>"

definition safetyCtx :: "hook_ctx \<Rightarrow> context_span list" where
  "safetyCtx ctx =
     (if hx_narrowed ctx then [\<lparr>cs_text = [], cs_provenance = Untrusted, cs_source = ''narrowed''\<rparr>] else [])"

text \<open>
  A structured clone keeps the data of a class instance and loses its class; it throws on a function. The walk
  then counts objects and arrays and refuses more than 4096 of them or a depth over 32.
\<close>

primrec structuredClone :: "jv \<Rightarrow> jv option" where
  "structuredClone JUndef = Some JUndef"
| "structuredClone JNull = Some JNull"
| "structuredClone (JBool b) = Some (JBool b)"
| "structuredClone (JNum n) = Some (JNum n)"
| "structuredClone JNonFin = Some JNonFin"
| "structuredClone (JStr s) = Some (JStr s)"
| "structuredClone (JArr vs) =
     (let cs = map structuredClone vs in if list_ex Option.is_none cs then None else Some (JArr (map the cs)))"
| "structuredClone (JObj kvs) =
     (let cs = map (map_prod id structuredClone) kvs in
      if list_ex (\<lambda>kv. Option.is_none (snd kv)) cs then None else Some (JObj (map (map_prod id the) cs)))"
| "structuredClone (JExotic kvs) =
     (let cs = map (map_prod id structuredClone) kvs in
      if list_ex (\<lambda>kv. Option.is_none (snd kv)) cs then None else Some (JObj (map (map_prod id the) cs)))"
| "structuredClone JFun = None"

definition MAX_SNAPSHOT_NODES :: nat where "MAX_SNAPSHOT_NODES = 4096"
definition MAX_SNAPSHOT_DEPTH :: nat where "MAX_SNAPSHOT_DEPTH = 32"

fun visit_each :: "(nat \<Rightarrow> nat option) list \<Rightarrow> nat \<Rightarrow> nat option" where
  "visit_each [] nodes = Some nodes"
| "visit_each (f # fs) nodes = (case f nodes of None \<Rightarrow> None | Some n \<Rightarrow> visit_each fs n)"

definition enter_node :: "nat \<Rightarrow> (nat \<Rightarrow> nat option) list \<Rightarrow> nat \<Rightarrow> nat option" where
  "enter_node depth children nodes =
     (if nodes + 1 > MAX_SNAPSHOT_NODES \<or> depth > MAX_SNAPSHOT_DEPTH then None else visit_each children (nodes + 1))"

primrec freeze :: "jv \<Rightarrow> nat \<Rightarrow> nat \<Rightarrow> nat option" where
  "freeze JUndef = (\<lambda>depth nodes. Some nodes)"
| "freeze JNull = (\<lambda>depth nodes. Some nodes)"
| "freeze (JBool b) = (\<lambda>depth nodes. Some nodes)"
| "freeze (JNum n) = (\<lambda>depth nodes. Some nodes)"
| "freeze JNonFin = (\<lambda>depth nodes. Some nodes)"
| "freeze (JStr s) = (\<lambda>depth nodes. Some nodes)"
| "freeze (JArr vs) = (\<lambda>depth. enter_node depth (map (\<lambda>f. f (depth + 1)) (map freeze vs)))"
| "freeze (JObj kvs) = (\<lambda>depth. enter_node depth (map (\<lambda>kf. snd kf (depth + 1)) (map (map_prod id freeze) kvs)))"
| "freeze (JExotic kvs) = (\<lambda>depth nodes. None)"
| "freeze JFun = (\<lambda>depth nodes. Some nodes)"

definition snapshotSafetyArgs :: "(string \<times> jv) list \<Rightarrow> (string \<times> jv) list option" where
  "snapshotSafetyArgs args =
     (case structuredClone (JObj args) of
        Some (JObj copied) \<Rightarrow> (case freeze (JObj copied) 0 0 of None \<Rightarrow> None | Some _ \<Rightarrow> Some copied)
      | _ \<Rightarrow> None)"

definition safety_call :: "'w gate_deps \<Rightarrow> loop_call \<Rightarrow> hook_ctx \<Rightarrow> tool_call option" where
  "safety_call deps call ctx =
     (case (case gt_resolve deps of None \<Rightarrow> Some (toSafetyCall call ctx) | Some f \<Rightarrow> f call ctx) of
        None \<Rightarrow> None
      | Some resolved \<Rightarrow>
          (case snapshotSafetyArgs (tc_args resolved) of
             None \<Rightarrow> None
           | Some args \<Rightarrow> Some (resolved\<lparr>tc_args := args, tc_argsTainted := Some (hx_provenance ctx \<noteq> LpOperator)\<rparr>)))"

section \<open>Before a tool runs\<close>

definition gate_complete :: "'w gate_deps \<Rightarrow> 'w gate_state \<Rightarrow> loop_call \<Rightarrow> tool_call \<Rightarrow> bool \<Rightarrow> 'w gate_state \<times> bool" where
  "gate_complete deps st call sc allowed =
     (case gt_complete deps of
        None \<Rightarrow> (st, True)
      | Some f \<Rightarrow> (let (w, ok) = f (gx_world st) call sc allowed in (st\<lparr>gx_world := w\<rparr>, ok)))"

definition gate_refuse :: "'w gate_deps \<Rightarrow> 'w gate_state \<Rightarrow> loop_call \<Rightarrow> tool_call \<Rightarrow> 'w gate_state \<times> gate_verdict" where
  "gate_refuse deps st call sc = (fst (gate_complete deps st call sc False), GateDeny)"

definition learned_covers :: "'w gate_deps \<Rightarrow> 'w gate_state \<Rightarrow> loop_call \<Rightarrow> hook_ctx \<Rightarrow> verdict \<Rightarrow> bool" where
  "learned_covers deps st call ctx v =
     (case (v, gt_learned deps) of
        (Ask t _, Some f) \<Rightarrow> t = 2 \<and> \<not> hx_narrowed ctx \<and> hx_provenance ctx = LpOperator \<and> f (gx_world st) call ctx = Some True
      | _ \<Rightarrow> False)"

definition ask_hash :: "'w gate_deps \<Rightarrow> tool_call \<Rightarrow> string" where
  "ask_hash deps sc =
     gt_H deps (''aisy.runtime.policy.ask.v1'' @ [CHR 0x00] @
       json_text (JObj [(''tool'', JStr (tc_tool sc)), (''args'', JObj (tc_args sc))]))"

definition gate_card :: "'w gate_deps \<Rightarrow> 'w gate_state \<Rightarrow> tool_call \<Rightarrow> verdict \<Rightarrow> policy_narrowing \<Rightarrow> pending_action" where
  "gate_card deps st sc v nw =
     (let askTier = (case v of Ask t _ \<Rightarrow> t | _ \<Rightarrow> 2) in
      \<lparr>pa_actionId = gt_uuid deps (gx_world st),
       pa_actionHash = (case v of Ask _ c \<Rightarrow> cc_hash c | _ \<Rightarrow> ask_hash deps sc),
       pa_tier = askTier,
       pa_requiresStepUp = (askTier = 3),
       pa_summary = (case nw of
            NarrowAsk summary \<Rightarrow> summary
          | _ \<Rightarrow> (case v of Ask _ c \<Rightarrow> cc_summary c | _ \<Rightarrow> ''approval required'')),
       pa_canRememberSimilar = (case nw of NarrowAsk _ \<Rightarrow> False | _ \<Rightarrow> canRememberSimilar (gt_grantDeps deps) sc askTier)\<rparr>)"

definition gate_learn :: "'w gate_deps \<Rightarrow> 'w gate_state \<Rightarrow> tool_call \<Rightarrow> verdict \<Rightarrow> policy_narrowing \<Rightarrow> pending_action \<Rightarrow>
    grant_scope option \<Rightarrow> 'w gate_state" where
  "gate_learn deps st sc v nw action scope =
     (case (v, nw, gt_binding deps) of
        (Ask t _, NarrowUnchanged, Some raw) \<Rightarrow>
          if pa_tier action = 2 \<and> pa_canRememberSimilar action then
            st\<lparr>gx_grants := fst (grant_recordSimilar (gt_grantDeps deps) (gt_now deps (gx_world st)) (gx_grants st) sc t
                 (case scope of None \<Rightarrow> ScopeAlways | Some s \<Rightarrow> s) raw)\<rparr>
          else st
      | _ \<Rightarrow> st)"

definition observe_answer :: "'w gate_deps \<Rightarrow> 'w gate_state \<Rightarrow> loop_call \<Rightarrow> hook_ctx \<Rightarrow> verdict \<Rightarrow> policy_narrowing \<Rightarrow> bool \<Rightarrow> 'w gate_state" where
  "observe_answer deps st call ctx v nw confirmed =
     (case (v, nw, gt_observe deps) of
        (Ask t _, NarrowUnchanged, Some f) \<Rightarrow>
          if t = 1 \<or> t = 2 then st\<lparr>gx_world := f (gx_world st) call ctx t confirmed\<rparr> else st
      | _ \<Rightarrow> st)"

definition gate_ask :: "'w gate_deps \<Rightarrow> 'w gate_state \<Rightarrow> loop_call \<Rightarrow> hook_ctx \<Rightarrow> tool_call \<Rightarrow> verdict \<Rightarrow> policy_narrowing \<Rightarrow>
    'w gate_state \<times> gate_verdict" where
  "gate_ask deps st call ctx sc v nw =
     (let action = gate_card deps st sc v nw;
          (w, answer) = gt_approve deps (gx_world st) action;
          st1 = st\<lparr>gx_world := w, gx_cards := gx_cards st @ [(action, answer)]\<rparr>
      in case answer of
           None \<Rightarrow> gate_refuse deps st1 call sc
         | Some Rejected \<Rightarrow> gate_refuse deps (observe_answer deps st1 call ctx v nw False) call sc
         | Some (Confirmed scope) \<Rightarrow>
             (case gate_complete deps (observe_answer deps st1 call ctx v nw True) call sc True of
                (st2, False) \<Rightarrow> (st2, GateDeny)
              | (st2, True) \<Rightarrow> (gate_learn deps st2 sc v nw action scope, GateAllow)))"

definition gate_decide :: "'w gate_deps \<Rightarrow> 'w gate_state \<Rightarrow> loop_call \<Rightarrow> hook_ctx \<Rightarrow> tool_call \<Rightarrow> verdict \<Rightarrow> 'w gate_state \<times> gate_verdict" where
  "gate_decide deps st call ctx sc v =
     (let base = (if v = Allow \<or> learned_covers deps st call ctx v then BaseAllow else BaseAsk)
      in case (case gt_narrow deps of None \<Rightarrow> Some NarrowUnchanged | Some f \<Rightarrow> f (gx_world st) call sc ctx base) of
           None \<Rightarrow> gate_refuse deps st call sc
         | Some NarrowDeny \<Rightarrow> gate_refuse deps st call sc
         | Some nw \<Rightarrow>
             if base = BaseAllow \<and> nw = NarrowUnchanged then
               (case gate_complete deps st call sc True of (st1, ok) \<Rightarrow> (st1, if ok then GateAllow else GateDeny))
             else gate_ask deps st call ctx sc v nw)"

definition gate_pre :: "'w gate_deps \<Rightarrow> 'w gate_state \<Rightarrow> loop_call \<Rightarrow> hook_ctx \<Rightarrow> 'w gate_state \<times> gate_verdict" where
  "gate_pre deps st call ctx =
     (if (case gt_validate deps of None \<Rightarrow> False | Some f \<Rightarrow> f call \<noteq> Some True) then (st, GateDeny)
      else
        (case safety_call deps call ctx of
           None \<Rightarrow> (st, GateDeny)
         | Some sc \<Rightarrow>
             (case gt_evaluate deps (gx_grants st) (gx_world st) sc (safetyCtx ctx) of
                None \<Rightarrow> gate_refuse deps st call sc
              | Some (Deny _ _) \<Rightarrow> gate_refuse deps st call sc
              | Some (Modify rewritten) \<Rightarrow>
                  if tc_tool sc \<noteq> lc_name call then gate_refuse deps st call sc
                  else
                    (case gate_complete deps st call sc False of
                       (st1, False) \<Rightarrow> (st1, GateDeny)
                     | (st1, True) \<Rightarrow> (st1, GateModify \<lparr>lc_name = tc_tool rewritten, lc_args = tc_args rewritten, lc_source = None\<rparr>))
              | Some v \<Rightarrow> gate_decide deps st call ctx sc v)))"

section \<open>What the gate admits\<close>

lemma gate_complete_frame [simp]:
  "gx_grants (fst (gate_complete deps st call sc a)) = gx_grants st"
  "gx_cards (fst (gate_complete deps st call sc a)) = gx_cards st"
  by (simp_all add: gate_complete_def case_prod_unfold Let_def split: option.split)

lemma gate_refuse_simps [simp]:
  "snd (gate_refuse deps st call sc) = GateDeny" "gx_grants (fst (gate_refuse deps st call sc)) = gx_grants st"
  "gx_cards (fst (gate_refuse deps st call sc)) = gx_cards st"
  by (simp_all add: gate_refuse_def)

lemma observe_frame [simp]:
  "gx_grants (observe_answer deps st call ctx v nw b) = gx_grants st" "gx_cards (observe_answer deps st call ctx v nw b) = gx_cards st"
  by (simp_all add: observe_answer_def split: verdict.split policy_narrowing.split option.split)

lemma gate_learn_cards [simp]: "gx_cards (gate_learn deps st sc v nw a s) = gx_cards st"
  by (simp add: gate_learn_def split: verdict.split policy_narrowing.split option.split)

text \<open>How the gate can come to admit a call: without a card, or with one confirmed card.\<close>

definition admitted_silently :: "'w gate_deps \<Rightarrow> 'w gate_state \<Rightarrow> loop_call \<Rightarrow> hook_ctx \<Rightarrow> tool_call \<Rightarrow> verdict \<Rightarrow> bool" where
  "admitted_silently deps st call ctx sc v \<longleftrightarrow>
     (v = Allow \<or> learned_covers deps st call ctx v) \<and>
     (case gt_narrow deps of None \<Rightarrow> True | Some f \<Rightarrow> f (gx_world st) call sc ctx BaseAllow = Some NarrowUnchanged)"

definition confirmed_card :: "verdict \<Rightarrow> pending_action \<times> approval_decision option \<Rightarrow> bool" where
  "confirmed_card v shown \<longleftrightarrow>
     (case snd shown of Some (Confirmed _) \<Rightarrow> True | _ \<Rightarrow> False) \<and>
     (case v of
        Ask t c \<Rightarrow> pa_tier (fst shown) = t \<and> pa_actionHash (fst shown) = cc_hash c \<and> pa_requiresStepUp (fst shown) = (t = 3)
      | _ \<Rightarrow> True)"

lemma confirmed_cardD:
  "confirmed_card (Ask t c) shown \<Longrightarrow> (\<exists>s. snd shown = Some (Confirmed s)) \<and> pa_tier (fst shown) = t \<and> pa_requiresStepUp (fst shown) = (t = 3)"
  by (auto simp: confirmed_card_def split: option.splits approval_decision.splits)

lemma gate_ask_result:
  assumes "gate_ask deps st call ctx sc v nw = (st', r)"
  shows "\<exists>shown. gx_cards st' = gx_cards st @ [shown] \<and> (r = GateAllow \<longrightarrow> confirmed_card v shown) \<and> (r = GateAllow \<or> r = GateDeny)"
proof -
  obtain w answer where a: "gt_approve deps (gx_world st) (gate_card deps st sc v nw) = (w, answer)" by force
  let ?shown = "(gate_card deps st sc v nw, answer)"
  let ?st = "st\<lparr>gx_world := w, gx_cards := gx_cards st @ [?shown]\<rparr>"
  show ?thesis
  proof (cases "\<exists>scope. answer = Some (Confirmed scope)")
    case True
    then obtain scope where s: "answer = Some (Confirmed scope)" ..
    obtain st2 ok where c: "gate_complete deps (observe_answer deps ?st call ctx v nw True) call sc True = (st2, ok)" by force
    have "gx_cards st2 = gx_cards st @ [?shown]" using arg_cong [OF c, of "\<lambda>x. gx_cards (fst x)"] by simp
    moreover have "confirmed_card v ?shown" using s by (simp add: confirmed_card_def gate_card_def Let_def split: verdict.split)
    ultimately show ?thesis using assms a s c
      by (intro exI [of _ ?shown]) (auto simp: gate_ask_def Let_def split: bool.splits)
  next
    case False
    then have "answer = None \<or> answer = Some Rejected" by (cases answer; cases "the answer") auto
    then show ?thesis using assms a
      by (intro exI [of _ ?shown]) (auto simp: gate_ask_def Let_def gate_refuse_def dest: sym)
  qed
qed

lemma gate_decide_result:
  assumes "gate_decide deps st call ctx sc v = (st', r)"
  shows "r = GateAllow \<or> r = GateDeny"
    and "r = GateAllow \<Longrightarrow> gx_cards st' = gx_cards st \<and> gx_grants st' = gx_grants st \<and> admitted_silently deps st call ctx sc v \<or>
      (\<exists>shown. gx_cards st' = gx_cards st @ [shown] \<and> confirmed_card v shown)"
proof -
  let ?base = "if v = Allow \<or> learned_covers deps st call ctx v then BaseAllow else BaseAsk"
  let ?n = "case gt_narrow deps of None \<Rightarrow> Some NarrowUnchanged | Some f \<Rightarrow> f (gx_world st) call sc ctx ?base"
  have "(r = GateAllow \<or> r = GateDeny) \<and> (r = GateAllow \<longrightarrow> gx_cards st' = gx_cards st \<and> gx_grants st' = gx_grants st \<and>
      admitted_silently deps st call ctx sc v \<or> (\<exists>shown. gx_cards st' = gx_cards st @ [shown] \<and> confirmed_card v shown))"
  proof (cases "\<exists>nw. ?n = Some nw \<and> nw \<noteq> NarrowDeny")
    case False
    then have "gate_decide deps st call ctx sc v = gate_refuse deps st call sc"
      by (auto simp: gate_decide_def Let_def split: option.splits policy_narrowing.splits)
    with assms show ?thesis by (auto simp: gate_refuse_def)
  next
    case True
    then obtain nw where n: "?n = Some nw" "nw \<noteq> NarrowDeny" by blast
    show ?thesis
    proof (cases "?base = BaseAllow \<and> nw = NarrowUnchanged")
      case silent: True
      obtain st1 ok where c: "gate_complete deps st call sc True = (st1, ok)" by force
      have "gx_cards st1 = gx_cards st" "gx_grants st1 = gx_grants st"
        using arg_cong [OF c, of "\<lambda>x. gx_cards (fst x)"] arg_cong [OF c, of "\<lambda>x. gx_grants (fst x)"] by simp_all
      moreover have "gate_decide deps st call ctx sc v = (st1, if ok then GateAllow else GateDeny)"
        unfolding gate_decide_def Let_def n(1) using silent c by simp
      moreover have "admitted_silently deps st call ctx sc v"
        using n silent by (simp add: admitted_silently_def split: if_splits option.splits)
      ultimately show ?thesis using assms by auto
    next
      case False
      then have "gate_decide deps st call ctx sc v = gate_ask deps st call ctx sc v nw"
        using n by (cases nw) (simp_all add: gate_decide_def Let_def)
      with gate_ask_result [of deps st call ctx sc v nw st' r] assms show ?thesis by auto
    qed
  qed
  then show "r = GateAllow \<or> r = GateDeny"
    and "r = GateAllow \<Longrightarrow> gx_cards st' = gx_cards st \<and> gx_grants st' = gx_grants st \<and> admitted_silently deps st call ctx sc v \<or>
      (\<exists>shown. gx_cards st' = gx_cards st @ [shown] \<and> confirmed_card v shown)" by blast+
qed

lemma gate_pre_allow:
  assumes "gate_pre deps st call ctx = (st', GateAllow)"
  obtains sc v where "safety_call deps call ctx = Some sc"
    "gt_evaluate deps (gx_grants st) (gx_world st) sc (safetyCtx ctx) = Some v" "v = Allow \<or> (\<exists>t c. v = Ask t c)"
    "(case gt_validate deps of None \<Rightarrow> True | Some f \<Rightarrow> f call = Some True)"
    "gx_cards st' = gx_cards st \<and> gx_grants st' = gx_grants st \<and> admitted_silently deps st call ctx sc v \<or>
      (\<exists>shown. gx_cards st' = gx_cards st @ [shown] \<and> confirmed_card v shown)"
proof -
  from assms obtain sc where sc: "safety_call deps call ctx = Some sc"
    and val: "(case gt_validate deps of None \<Rightarrow> True | Some f \<Rightarrow> f call = Some True)"
    by (auto simp: gate_pre_def split: if_splits option.splits)
  with assms obtain v where v: "gt_evaluate deps (gx_grants st) (gx_world st) sc (safetyCtx ctx) = Some v"
    and k: "v = Allow \<or> (\<exists>t c. v = Ask t c)" and d: "gate_decide deps st call ctx sc v = (st', GateAllow)"
    by (auto simp: gate_pre_def gate_refuse_def split: if_splits option.splits verdict.splits prod.splits bool.splits)
  from that [OF sc v k val] gate_decide_result(2) [OF d] show thesis by blast
qed

lemma gate_pre_modify:
  assumes "gate_pre deps st call ctx = (st', GateModify c)"
  shows "\<exists>sc d. gt_evaluate deps (gx_grants st) (gx_world st) sc (safetyCtx ctx) = Some (Modify d)"
proof (rule ccontr)
  assume n: "\<nexists>sc d. gt_evaluate deps (gx_grants st) (gx_world st) sc (safetyCtx ctx) = Some (Modify d)"
  from assms obtain sc where sc: "safety_call deps call ctx = Some sc"
    by (auto simp: gate_pre_def split: if_splits option.splits)
  from assms sc n obtain v where "gate_decide deps st call ctx sc v = (st', GateModify c)"
    by (auto simp: gate_pre_def gate_refuse_def split: if_splits option.splits verdict.splits)
  from gate_decide_result(1) [OF this] show False by simp
qed

lemma gate_ask_refused: "gate_ask deps st call ctx sc v nw = (st', r) \<Longrightarrow> r \<noteq> GateAllow \<Longrightarrow> gx_grants st' = gx_grants st"
  by (auto simp: gate_ask_def Let_def gate_refuse_def split: prod.splits option.splits approval_decision.splits bool.splits
      dest: arg_cong [of _ _ "\<lambda>x. gx_grants (fst x)"])

lemma gate_decide_refused: "gate_decide deps st call ctx sc v = (st', r) \<Longrightarrow> r \<noteq> GateAllow \<Longrightarrow> gx_grants st' = gx_grants st"
  by (auto simp: gate_decide_def Let_def gate_refuse_def split: option.splits policy_narrowing.splits if_splits prod.splits
      dest: arg_cong [of _ _ "\<lambda>x. gx_grants (fst x)"] gate_ask_refused)

lemma gate_pre_refused: "gate_pre deps st call ctx = (st', r) \<Longrightarrow> r \<noteq> GateAllow \<Longrightarrow> gx_grants st' = gx_grants st"
  by (auto simp: gate_pre_def gate_refuse_def split: if_splits option.splits verdict.splits prod.splits bool.splits
      dest: arg_cong [of _ _ "\<lambda>x. gx_grants (fst x)"] gate_decide_refused)

lemma safety_call_taint:
  "safety_call deps call ctx = Some sc \<Longrightarrow> tc_argsTainted sc = Some (hx_provenance ctx \<noteq> LpOperator)"
  by (auto simp: safety_call_def split: option.splits)

section \<open>Policies behind the gate\<close>

fun is_deny :: "verdict \<Rightarrow> bool" where
  "is_deny (Deny _ _) = True"
| "is_deny _ = False"

text \<open>
  What the gate relies on in a safety policy: calls with arguments from an untrusted span and outbound calls in a
  narrowed context are denied, a call of tier 3 is at best asked about, and calls are never rewritten.
\<close>

locale safety_judge =
  fixes judge :: "grant_store \<Rightarrow> 'w \<Rightarrow> tool_call \<Rightarrow> context_span list \<Rightarrow> verdict option"
  assumes tainted: "judge g w c ctx = Some v \<Longrightarrow> tc_argsTainted c = Some True \<Longrightarrow> is_deny v"
    and locked: "judge g w c ctx = Some v \<Longrightarrow> isNarrowed ctx \<Longrightarrow> isOutboundOrSideEffecting c \<Longrightarrow> is_deny v"
    and tier3: "judge g w c ctx = Some v \<Longrightarrow> tierOf c = 3 \<Longrightarrow> is_deny v \<or> (\<exists>d. v = Ask 3 d)"
    and no_rewrite: "judge g w c ctx \<noteq> Some (Modify d)"
begin

lemma gate_allow_or_deny: "gt_evaluate deps = judge \<Longrightarrow> snd (gate_pre deps st call ctx) = GateAllow \<or> snd (gate_pre deps st call ctx) = GateDeny"
  using gate_pre_modify [of deps st call ctx "fst (gate_pre deps st call ctx)"] no_rewrite
  by (cases "snd (gate_pre deps st call ctx)") (metis prod.collapse)+

lemma untrusted_refused:
  assumes "gt_evaluate deps = judge" and "hx_provenance ctx \<noteq> LpOperator"
  shows "snd (gate_pre deps st call ctx) = GateDeny"
proof (rule ccontr)
  assume "snd (gate_pre deps st call ctx) \<noteq> GateDeny"
  with gate_allow_or_deny [OF assms(1)] have "gate_pre deps st call ctx = (fst (gate_pre deps st call ctx), GateAllow)" by (metis prod.collapse)
  then show False
  proof (rule gate_pre_allow)
    fix sc v
    assume sc: "safety_call deps call ctx = Some sc" and e: "gt_evaluate deps (gx_grants st) (gx_world st) sc (safetyCtx ctx) = Some v"
      and k: "v = Allow \<or> (\<exists>t c. v = Ask t c)"
    from tainted [OF e [unfolded assms(1)]] safety_call_taint [OF sc] assms(2) k show False by auto
  qed
qed

lemma admitted_call:
  assumes "gt_evaluate deps = judge" and "gate_pre deps st call ctx = (st', GateAllow)"
  obtains sc where "safety_call deps call ctx = Some sc" "hx_provenance ctx = LpOperator"
    "\<not> (hx_narrowed ctx \<and> isOutboundOrSideEffecting sc)"
    "tierOf sc = 3 \<Longrightarrow> \<exists>shown. gx_cards st' = gx_cards st @ [shown] \<and> pa_tier (fst shown) = 3 \<and> pa_requiresStepUp (fst shown) \<and>
       (\<exists>s. snd shown = Some (Confirmed s))"
proof (rule gate_pre_allow [OF assms(2)])
  fix sc v
  assume sc: "safety_call deps call ctx = Some sc" and e: "gt_evaluate deps (gx_grants st) (gx_world st) sc (safetyCtx ctx) = Some v"
    and k: "v = Allow \<or> (\<exists>t c. v = Ask t c)"
    and how: "gx_cards st' = gx_cards st \<and> gx_grants st' = gx_grants st \<and> admitted_silently deps st call ctx sc v \<or>
      (\<exists>shown. gx_cards st' = gx_cards st @ [shown] \<and> confirmed_card v shown)"
  note v = e [unfolded assms(1)] k
  from v(2) have nd: "\<not> is_deny v" by auto
  show thesis
  proof (rule that [OF sc])
    show "hx_provenance ctx = LpOperator" using tainted [OF v(1)] safety_call_taint [OF sc] nd by auto
    show "\<not> (hx_narrowed ctx \<and> isOutboundOrSideEffecting sc)"
      using locked [OF v(1)] nd by (auto simp: isNarrowed_def safetyCtx_def split: if_splits)
  next
    assume t: "tierOf sc = 3"
    with tier3 [OF v(1)] nd obtain d where d: "v = Ask 3 d" by auto
    then have "\<not> admitted_silently deps st call ctx sc v"
      by (auto simp: admitted_silently_def learned_covers_def split: option.splits)
    with how obtain shown where "gx_cards st' = gx_cards st @ [shown]" "confirmed_card (Ask 3 d) shown" unfolding d by blast
    with confirmed_cardD show "\<exists>shown. gx_cards st' = gx_cards st @ [shown] \<and> pa_tier (fst shown) = 3 \<and> pa_requiresStepUp (fst shown) \<and>
       (\<exists>s. snd shown = Some (Confirmed s))" by blast
  qed
qed

end

definition runner_evaluate :: "('w \<Rightarrow> card_env) \<Rightarrow> policy_deps \<Rightarrow> grant_deps \<Rightarrow> ('w \<Rightarrow> bool option) option \<Rightarrow> grant_store \<Rightarrow> 'w \<Rightarrow>
    tool_call \<Rightarrow> context_span list \<Rightarrow> verdict option" where
  "runner_evaluate env pd gd bypass g w call ctx =
     (if (case bypass of None \<Rightarrow> False | Some f \<Rightarrow> f w = Some True) \<and> tc_tool call = ''bash'' then Some Allow
      else Some (evaluate (env w) (pd\<lparr>pd_grants := Some (gd, g)\<rparr>) call ctx))"

lemma evaluate_judged:
  shows "tc_argsTainted c = Some True \<Longrightarrow> is_deny (evaluate env deps c ctx)"
    and "isNarrowed ctx \<Longrightarrow> isOutboundOrSideEffecting c \<Longrightarrow> is_deny (evaluate env deps c ctx)"
    and "tierOf c = 3 \<Longrightarrow> is_deny (evaluate env deps c ctx) \<or> (\<exists>d. evaluate env deps c ctx = Ask 3 d)"
    and "evaluate env deps c ctx \<noteq> Modify d"
proof -
  have den: "is_deny (evaluate env deps c ctx)" if "denied deps c ctx" using evaluate_denied [OF that, of env] by auto
  then show "tc_argsTainted c = Some True \<Longrightarrow> is_deny (evaluate env deps c ctx)"
    and "isNarrowed ctx \<Longrightarrow> isOutboundOrSideEffecting c \<Longrightarrow> is_deny (evaluate env deps c ctx)"
    by (simp_all add: denied_def)
  show "tierOf c = 3 \<Longrightarrow> is_deny (evaluate env deps c ctx) \<or> (\<exists>d. evaluate env deps c ctx = Ask 3 d)"
    using den evaluate_gradient [of deps c ctx env] by (cases "denied deps c ctx") auto
  show "evaluate env deps c ctx \<noteq> Modify d"
    using evaluate_denied [of deps c ctx env] evaluate_gradient [of deps c ctx env] by (cases "denied deps c ctx") (auto split: if_splits)
qed

interpretation runner_policy: safety_judge "runner_evaluate env pd gd None" for env pd gd
  by unfold_locales (use evaluate_judged in \<open>auto simp: runner_evaluate_def\<close>)

section \<open>After a tool ran\<close>

definition rx_escape :: rx where
  "rx_escape =
     Seq (rx_char (CHR 0x1B))
       (rx_alt
         [rx_seq [rx_char (CHR ''[''), Star (Cls (\<lambda>c. CHR ''0'' \<le> c \<and> c \<le> CHR ''?'')),
                  Star (Cls (\<lambda>c. CHR '' '' \<le> c \<and> c \<le> CHR ''/'')), Cls (\<lambda>c. CHR ''@'' \<le> c \<and> c \<le> CHR 0x7E)],
          rx_seq [rx_char (CHR '']''), Star (Cls (\<lambda>c. c \<noteq> CHR 0x07 \<and> c \<noteq> CHR 0x1B)),
                  Alt (rx_char (CHR 0x07)) (Seq (rx_char (CHR 0x1B)) (rx_char (CHR 0x5C)))],
          Cls (\<lambda>c. CHR ''@'' \<le> c \<and> c \<le> CHR ''Z'' \<or> CHR 0x5C \<le> c \<and> c \<le> CHR ''_'')])"

text \<open>Texts are UTF-8 bytes, so a C1 control character is the byte C2 followed by a byte from 80 to 9F.\<close>

definition c0_control :: "char \<Rightarrow> bool" where
  "c0_control c \<longleftrightarrow> (let n = (of_char c :: nat) in n \<le> 8 \<or> 11 \<le> n \<and> n \<le> 31 \<or> n = 127)"

definition rx_stray :: rx where
  "rx_stray = Alt (Cls c0_control) (Seq (rx_char (CHR 0xC2)) (Cls (\<lambda>c. CHR 0x80 \<le> c \<and> c \<le> CHR 0x9F)))"

definition sanitizeControlSequences :: "string \<Rightarrow> string" where
  "sanitizeControlSequences s = rx_replace_all rx_stray (\<lambda>_. []) (rx_replace_all rx_escape (\<lambda>_. []) s)"

record post_deps =
  pp_secretValues :: "string list option"
  pp_filterOutput :: "(string \<Rightarrow> string option) option"
  pp_compress :: "(string \<Rightarrow> string option) option"
  pp_receipt :: "loop_call \<Rightarrow> jv \<Rightarrow> jv option"
  pp_errorMessage :: "jv \<Rightarrow> string option"

record tool_result =
  tr_ok :: bool
  tr_output :: string
  tr_receipt :: "jv option"

definition WITHHELD_RESULT :: tool_result where
  "WITHHELD_RESULT = \<lparr>tr_ok = False, tr_output = ''tool result withheld (redaction or filter unavailable)'', tr_receipt = None\<rparr>"

definition resultParts :: "post_deps \<Rightarrow> jv \<Rightarrow> bool \<times> string" where
  "resultParts deps v =
     (case (case as_record v of None \<Rightarrow> (JUndef, JUndef) | Some kvs \<Rightarrow> (getprop kvs ''ok'', getprop kvs ''output'')) of
        (JBool ok, JStr out) \<Rightarrow> (ok, out)
      | _ \<Rightarrow>
          (case pp_errorMessage deps v of
             Some m \<Rightarrow> (False, m)
           | None \<Rightarrow> (case v of JStr s \<Rightarrow> (True, s) | _ \<Rightarrow> (True, case stringify v of None \<Rightarrow> [] | Some s \<Rightarrow> s))))"

definition redacted_text :: "post_deps \<Rightarrow> string \<Rightarrow> (string list \<times> string) option" where
  "redacted_text deps s =
     (case pp_secretValues deps of
        None \<Rightarrow> None
      | Some values \<Rightarrow>
          (case (case pp_filterOutput deps of None \<Rightarrow> Some (redact_with values s) | Some f \<Rightarrow> f (redact_with values s)) of
             None \<Rightarrow> None
           | Some t \<Rightarrow> Some (values, redact_with values t)))"

definition compressed_text :: "post_deps \<Rightarrow> string list \<Rightarrow> string \<Rightarrow> string" where
  "compressed_text deps values safe =
     (case pp_compress deps of
        None \<Rightarrow> safe
      | Some f \<Rightarrow>
          (case f safe of
             None \<Rightarrow> safe
           | Some candidate \<Rightarrow>
               if list_ex (\<lambda>v. v \<noteq> [] \<and> str_includes candidate v) values then safe else sanitizeControlSequences candidate))"

definition postToolUse :: "post_deps \<Rightarrow> loop_call \<Rightarrow> jv \<Rightarrow> tool_result" where
  "postToolUse deps call v =
     (let (ok, out) = resultParts deps v in
      case redacted_text deps (if ok then out else ''Tool error: '' @ out) of
        None \<Rightarrow> WITHHELD_RESULT
      | Some (values, s) \<Rightarrow>
          (let t = compressed_text deps values (sanitizeControlSequences s) in
           case (if t = out then pp_receipt deps call v else None) of
             Some r \<Rightarrow> \<lparr>tr_ok = True, tr_output = t, tr_receipt = Some r\<rparr>
           | None \<Rightarrow> \<lparr>tr_ok = ok, tr_output = t, tr_receipt = None\<rparr>))"

definition gate_post :: "(loop_call \<Rightarrow> jv \<Rightarrow> tool_result option) option \<Rightarrow> loop_call \<Rightarrow> jv \<Rightarrow> tool_result" where
  "gate_post post call v =
     (case post of None \<Rightarrow> WITHHELD_RESULT | Some f \<Rightarrow> (case f call v of None \<Rightarrow> WITHHELD_RESULT | Some r \<Rightarrow> r))"

section \<open>Redaction of tool results\<close>

definition printable :: "string \<Rightarrow> bool" where
  "printable s \<longleftrightarrow> list_all (\<lambda>c. \<not> c0_control c) s \<and> \<not> list_ex (\<lambda>(a, b). a = CHR 0xC2 \<and> CHR 0x80 \<le> b \<and> b \<le> CHR 0x9F) (zip s (tl s))"

lemma repl_no_match:
  "(\<And>pv t. suffix t s \<Longrightarrow> rx_ends r (pv, t) = []) \<Longrightarrow> rx_repl r f pv 0 s = s"
proof (induction s arbitrary: pv)
  case (Cons c cs)
  have "rx_repl r f (Some c) 0 cs = cs" by (rule Cons.IH) (use Cons.prems in \<open>auto intro: suffix_ConsI\<close>)
  with Cons.prems [of "c # cs"] show ?case by simp
qed simp

lemma printable_Cons: "printable (c # s) \<Longrightarrow> \<not> c0_control c \<and> printable s"
  by (cases s) (auto simp: printable_def)

lemma printable_suffix: "suffix t s \<Longrightarrow> printable s \<Longrightarrow> printable t"
  by (induction s) (auto simp: suffix_Cons dest: printable_Cons)

lemma escape_first: "c \<noteq> CHR 0x1B \<Longrightarrow> rx_ends rx_escape (pv, c # t) = []" "rx_ends rx_escape (pv, []) = []"
  by (simp_all add: rx_escape_def rx_char_def)

lemma printable_sanitized:
  assumes "printable s"
  shows "sanitizeControlSequences s = s"
proof -
  have no_esc: "\<not> c0_control c \<Longrightarrow> c \<noteq> CHR 0x1B" for c by (auto simp: c0_control_def Let_def)
  have "rx_ends rx_escape (pv, t) = []" if "suffix t s" for pv t
    using printable_suffix [OF that assms] escape_first no_esc by (cases t) (auto dest!: printable_Cons)
  then have e: "rx_replace_all rx_escape (\<lambda>_. []) s = s" by (simp add: rx_replace_all_def repl_no_match)
  have "rx_ends rx_stray (pv, t) = []" if "suffix t s" for pv t
    using printable_suffix [OF that assms]
    by (cases t; cases "tl t") (auto simp: rx_stray_def rx_char_def printable_def)
  then show ?thesis unfolding sanitizeControlSequences_def e by (simp add: rx_replace_all_def repl_no_match)
qed

lemma redacted_text_free:
  "redacted_text deps s = Some (values, t) \<Longrightarrow> w \<in> set values \<Longrightarrow> redactable w \<Longrightarrow> \<not> str_includes t w"
  by (auto simp: redacted_text_def str_includes_iff dest: redact_with_removes split: option.splits)

lemma compressed_free:
  assumes "\<not> str_includes safe w" and "w \<in> set values" and "redactable w"
    and "case pp_compress deps of None \<Rightarrow> True | Some f \<Rightarrow> (case f safe of None \<Rightarrow> True | Some c \<Rightarrow> printable c)"
  shows "\<not> str_includes (compressed_text deps values safe) w"
  using assms redactable_nonempty [OF assms(3)]
  by (auto simp: compressed_text_def printable_sanitized list_ex_iff split: option.splits)

text \<open>What the operator-visible part of a tool result was before the control characters were stripped.\<close>

definition raw_text :: "post_deps \<Rightarrow> jv \<Rightarrow> string" where
  "raw_text deps v = (let (ok, out) = resultParts deps v in if ok then out else ''Tool error: '' @ out)"

definition demo_post :: post_deps where
  "demo_post = \<lparr>pp_secretValues = Some [''hunter2''], pp_filterOutput = None, pp_compress = None, pp_receipt = (\<lambda>_ _. None),
     pp_errorMessage = (\<lambda>_. None)\<rparr>"

definition demo_tool :: loop_call where
  "demo_tool = \<lparr>lc_name = ''bash'', lc_args = [(''cmd'', JStr ''env'')], lc_source = None\<rparr>"



text \<open>
  A control byte inside a secret defeats the redaction: it is removed only afterwards, so the secret is
  whole again in the text the model receives.
\<close>

lemma control_byte_smuggles_secret:
  "str_includes (tr_output (postToolUse demo_post demo_tool (JStr (''pw=hun'' @ [CHR 0x00] @ ''ter2;'')))) ''hunter2''"
  by code_simp

text \<open>
  C5: the gate admits a call only on a fresh verdict of the policy on the very arguments it froze, and never against it.
  It admits silently only where the policy allows, or asks at tier 2 in a context free of untrusted material and a
  learned grant covers the call, and the project policy leaves it unchanged; otherwise exactly one card of the verdict's
  tier and action hash was shown and confirmed, with a second factor at tier 3. A refusal leaves the grants alone.
\<close>

theorem gate_admits_exactly:
  "case gate_pre deps st call ctx of
     (st', GateAllow) \<Rightarrow>
       (case safety_call deps call ctx of
          None \<Rightarrow> False
        | Some sc \<Rightarrow>
            (case gt_evaluate deps (gx_grants st) (gx_world st) sc (safetyCtx ctx) of
               None \<Rightarrow> False
             | Some v \<Rightarrow> \<not> is_deny v \<and>
                 (gx_cards st' = gx_cards st \<and> gx_grants st' = gx_grants st \<and> admitted_silently deps st call ctx sc v \<or>
                  (\<exists>shown. gx_cards st' = gx_cards st @ [shown] \<and> confirmed_card v shown))))
   | (st', _) \<Rightarrow> gx_grants st' = gx_grants st"
proof (cases "gate_pre deps st call ctx")
  case (Pair st' r)
  show ?thesis
  proof (cases "r = GateAllow")
    case True
    show ?thesis
    proof (rule gate_pre_allow [OF Pair [unfolded True]])
      fix sc v
      assume "safety_call deps call ctx = Some sc" "gt_evaluate deps (gx_grants st) (gx_world st) sc (safetyCtx ctx) = Some v"
        "v = Allow \<or> (\<exists>t c. v = Ask t c)"
        "gx_cards st' = gx_cards st \<and> gx_grants st' = gx_grants st \<and> admitted_silently deps st call ctx sc v \<or>
          (\<exists>shown. gx_cards st' = gx_cards st @ [shown] \<and> confirmed_card v shown)"
      with Pair True show ?thesis by auto
    qed
  next
    case False
    from gate_pre_refused [OF Pair False] Pair False show ?thesis by (cases r) simp_all
  qed
qed

end
