(* ===== verification/Action_Contract.thy ===== *)
theory Action_Contract
  imports Hook_Gate Delegation_Shard
begin

text \<open>
  The action contract of a turn (\<open>core-ts/src/agent-loop/action-contract.ts\<close>): what kind of evidence an operator's
  request demands, what evidence a tool call gives, and whether the evidence of a turn fulfils the contract.

  Attestations of a supervised provider are checked and sorted here before the loop reads them.

  The six verb patterns mix Russian and English words with Unicode case folding; they are a parameter, the
  record \<open>verb_tests\<close>, and the classification is the decision the code takes over them.
\<close>

section \<open>Contracts\<close>

datatype contract_kind = AnswerOnly | InspectRequired | MutateRequired | DelegateRequired

record action_contract =
  ak_kind :: contract_kind
  ak_requiresMutation :: bool

datatype tool_family = FamInspect | FamMutate | FamDelegate | FamUnknown

record action_evidence =
  ae_tool :: string
  ae_family :: tool_family
  ae_successful :: bool
  ae_receipt :: bool
  ae_operation :: "string option"

datatype missing_evidence = MissNone | MissObservation | MissMutation | MissPostcondition | MissDelegation

record contract_verdict =
  av_satisfied :: bool
  av_missing :: missing_evidence
  av_mutationSatisfied :: "bool option"

datatype span_role = RoleSystem | RoleUser | RoleAssistant | RoleTool

record loop_span =
  ls_role :: span_role
  ls_provenance :: loop_provenance
  ls_text :: string

record verb_tests =
  vt_informational :: "string \<Rightarrow> bool"
  vt_deictic :: "string \<Rightarrow> bool"
  vt_delegate :: "string \<Rightarrow> bool"
  vt_inspect :: "string \<Rightarrow> bool"
  vt_mutate :: "string \<Rightarrow> bool"
  vt_inspectionOverride :: "string \<Rightarrow> bool"

definition operatorTexts :: "loop_span list \<Rightarrow> string list" where
  "operatorTexts spans =
     filter (\<lambda>t. t \<noteq> []) (map (\<lambda>s. trim (ls_text s))
       (filter (\<lambda>s. ls_role s = RoleUser \<and> ls_provenance s = LpOperator) spans))"

definition classifyActionContract :: "verb_tests \<Rightarrow> loop_span list \<Rightarrow> action_contract" where
  "classifyActionContract vt spans =
     (let texts = filter (\<lambda>t. \<not> vt_informational vt t \<and> \<not> vt_deictic vt t) (operatorTexts spans);
          body = js_join [CHR 0x0A] texts;
          mutates = vt_mutate vt body \<and> \<not> vt_inspectionOverride vt body
      in if texts = [] then \<lparr>ak_kind = AnswerOnly, ak_requiresMutation = False\<rparr>
         else if vt_delegate vt body then \<lparr>ak_kind = DelegateRequired, ak_requiresMutation = mutates\<rparr>
         else if mutates then \<lparr>ak_kind = MutateRequired, ak_requiresMutation = False\<rparr>
         else if vt_inspect vt body then \<lparr>ak_kind = InspectRequired, ak_requiresMutation = False\<rparr>
         else if vt_mutate vt body then \<lparr>ak_kind = MutateRequired, ak_requiresMutation = False\<rparr>
         else \<lparr>ak_kind = AnswerOnly, ak_requiresMutation = False\<rparr>)"

section \<open>Evidence\<close>

definition INSPECT_TOOLS :: "string list" where
  "INSPECT_TOOLS = [''read_file'', ''list_dir'', ''search_memory'', ''fetch_url'', ''fetch_web'', ''web_search'', ''list_sessions'']"

definition MUTATE_TOOLS :: "string list" where
  "MUTATE_TOOLS = [''write_file'', ''edit_file'', ''remember'', ''send_message'']"

definition DELEGATE_TOOLS :: "string list" where
  "DELEGATE_TOOLS = [''spawn_subagent'']"

definition CONTROL_MUTATIONS :: "string list" where
  "CONTROL_MUTATIONS = [''session.rename'', ''session.request-delete'', ''policy.tighten-project'', ''policy.tighten-path'',
     ''policy.relax-project'', ''policy.relax-path'']"

definition rx_inspect_bash :: rx where
  "rx_inspect_bash = Seq Bol (rx_ci (rx_alt
     [rx_lit ''pwd'', rx_lit ''ls'', rx_lit ''find'', rx_lit ''rg'', rx_lit ''grep'', rx_lit ''cat'', rx_lit ''head'', rx_lit ''tail'',
      rx_seq [rx_lit ''sed'', rx_plus rx_sp, rx_lit ''-n''],
      rx_seq [rx_lit ''git'', rx_plus rx_sp, rx_alt [rx_lit ''status'', rx_lit ''diff'', rx_lit ''log'', rx_lit ''show'']],
      rx_seq [rx_alt [rx_lit ''pnpm'', rx_lit ''npm'', rx_lit ''yarn'', rx_lit ''bun'', rx_lit ''uv'', rx_lit ''pytest'', rx_lit ''cargo'', rx_lit ''go''],
              rx_plus rx_sp, rx_alt [rx_lit ''test'', rx_lit ''check'', rx_lit ''lint'']],
      Seq (rx_lit ''tsc'') WordB]))"

definition actionToolFamily :: "loop_call \<Rightarrow> tool_family" where
  "actionToolFamily call =
     (if lc_name call = ''configure_agent'' then
        (case getprop (lc_args call) ''operation'' of
           JStr operation \<Rightarrow>
             if operation = ''policy.resolve-path'' then FamInspect
             else if operation \<in> set CONTROL_MUTATIONS then FamMutate
             else FamUnknown
         | _ \<Rightarrow> FamUnknown)
      else if lc_name call \<in> set DELEGATE_TOOLS then FamDelegate
      else if lc_name call \<in> set INSPECT_TOOLS then FamInspect
      else if lc_name call \<in> set MUTATE_TOOLS then FamMutate
      else if lc_name call = ''bash'' then
        (if rx_test rx_inspect_bash (case getprop (lc_args call) ''cmd'' of JStr c \<Rightarrow> trim c | _ \<Rightarrow> []) then FamInspect else FamMutate)
      else FamUnknown)"

definition result_field :: "jv \<Rightarrow> string \<Rightarrow> jv" where
  "result_field v k = (case v of JObj kvs \<Rightarrow> getprop kvs k | JExotic kvs \<Rightarrow> getprop kvs k | _ \<Rightarrow> JUndef)"

definition failedResult :: "jv \<Rightarrow> bool" where
  "failedResult v \<longleftrightarrow> result_field v ''ok'' = JBool False"

definition hasReceipt :: "jv \<Rightarrow> bool" where
  "hasReceipt v \<longleftrightarrow> result_field v ''verified'' = JBool True \<or>
     (case result_field v ''receiptId'' of JStr s \<Rightarrow> s \<noteq> [] | _ \<Rightarrow> False)"

definition actionEvidence :: "loop_call \<Rightarrow> jv \<Rightarrow> action_evidence" where
  "actionEvidence call v =
     \<lparr>ae_tool = lc_name call, ae_family = actionToolFamily call, ae_successful = (v \<noteq> JUndef \<and> \<not> failedResult v),
      ae_receipt = hasReceipt v,
      ae_operation = (if lc_name call = ''configure_agent'' then
          (case getprop (lc_args call) ''operation'' of JStr o1 \<Rightarrow> Some o1 | _ \<Rightarrow> None) else None)\<rparr>"

section \<open>Verdicts\<close>

definition succeeded :: "tool_family \<Rightarrow> action_evidence \<Rightarrow> bool" where
  "succeeded f e \<longleftrightarrow> ae_successful e \<and> ae_family e = f"

text \<open>The backward scan for the last successful mutation, with what came after it.\<close>

fun last_mutation :: "action_evidence list \<Rightarrow> (action_evidence \<times> action_evidence list) option" where
  "last_mutation [] = None"
| "last_mutation (e # es) =
     (case last_mutation es of
        Some r \<Rightarrow> Some r
      | None \<Rightarrow> if succeeded FamMutate e then Some (e, es) else None)"

definition satisfied_verdict :: contract_verdict where
  "satisfied_verdict = \<lparr>av_satisfied = True, av_missing = MissNone, av_mutationSatisfied = None\<rparr>"

definition missing_verdict :: "missing_evidence \<Rightarrow> contract_verdict" where
  "missing_verdict m = \<lparr>av_satisfied = False, av_missing = m, av_mutationSatisfied = None\<rparr>"

definition mutationVerdict :: "action_evidence list \<Rightarrow> contract_verdict" where
  "mutationVerdict evidence =
     (case last_mutation evidence of
        None \<Rightarrow> missing_verdict MissMutation
      | Some (mutation, later) \<Rightarrow>
          if ae_receipt mutation \<or> list_ex (succeeded FamInspect) later then satisfied_verdict else missing_verdict MissPostcondition)"

definition evaluateActionContract :: "action_contract \<Rightarrow> action_evidence list \<Rightarrow> bool \<Rightarrow> contract_verdict" where
  "evaluateActionContract contract evidence planVerified =
     (if ak_kind contract = AnswerOnly \<or> planVerified then satisfied_verdict
      else if ak_kind contract = InspectRequired then
        (if list_ex (succeeded FamInspect) evidence then satisfied_verdict else missing_verdict MissObservation)
      else if ak_kind contract = DelegateRequired then
        (if \<not> list_ex (succeeded FamDelegate) evidence then
           (if ak_requiresMutation contract
            then (missing_verdict MissDelegation)\<lparr>av_mutationSatisfied := Some (av_satisfied (mutationVerdict evidence))\<rparr>
            else missing_verdict MissDelegation)
         else if ak_requiresMutation contract then mutationVerdict evidence else satisfied_verdict)
      else mutationVerdict evidence)"

section \<open>Instructions to the model\<close>

definition kind_text :: "contract_kind \<Rightarrow> string" where
  "kind_text k = (case k of AnswerOnly \<Rightarrow> ''answer-only'' | InspectRequired \<Rightarrow> ''inspect-required''
     | MutateRequired \<Rightarrow> ''mutate-required'' | DelegateRequired \<Rightarrow> ''delegate-required'')"

definition missing_text :: "missing_evidence \<Rightarrow> string" where
  "missing_text m = (case m of MissNone \<Rightarrow> ''none'' | MissObservation \<Rightarrow> ''observation'' | MissMutation \<Rightarrow> ''mutation''
     | MissPostcondition \<Rightarrow> ''postcondition'' | MissDelegation \<Rightarrow> ''delegation'')"

text \<open>The Russian example of a fact, as UTF-8 bytes between quotes.\<close>

definition FACT_EXAMPLE :: string where
  "FACT_EXAMPLE = ''{'' @ [CHR 0x22] @ ''fact'' @ [CHR 0x22] @ '':'' @ [CHR 0x22] @
     [CHR 0xD1, CHR 0x82, CHR 0xD1, CHR 0x8B] @ '' '' @ [CHR 0xD0, CHR 0xBF, CHR 0xD1, CHR 0x80, CHR 0xD0, CHR 0xB5, CHR 0xD0, CHR 0xB4, CHR 0xD0, CHR 0xBF, CHR 0xD0, CHR 0xBE, CHR 0xD1, CHR 0x87, CHR 0xD0, CHR 0xB8, CHR 0xD1, CHR 0x82, CHR 0xD0, CHR 0xB0, CHR 0xD0, CHR 0xB5, CHR 0xD1, CHR 0x88, CHR 0xD1, CHR 0x8C] @ '' '' @ [CHR 0xD0, CHR 0xBA, CHR 0xD1, CHR 0x80, CHR 0xD0, CHR 0xB0, CHR 0xD1, CHR 0x82, CHR 0xD0, CHR 0xBA, CHR 0xD0, CHR 0xB8, CHR 0xD0, CHR 0xB5] @ '' '' @ [CHR 0xD0, CHR 0xBE, CHR 0xD1, CHR 0x82, CHR 0xD1, CHR 0x87, CHR 0xD1, CHR 0x91, CHR 0xD1, CHR 0x82, CHR 0xD1, CHR 0x8B]
     @ [CHR 0x22] @ ''}''"

definition SPAWN_NOW :: "string list" where
  "SPAWN_NOW =
     [''Call spawn_subagent now with a JSON string such as {'' @ [CHR 0x22] @ ''intent'' @ [CHR 0x22] @ '':'' @ [CHR 0x22] @
        ''standalone task'' @ [CHR 0x22] @ ''}.'',
      ''Do not calculate or role-play the subagent result yourself.'']"

definition REMEMBER_EXAMPLE :: string where
  "REMEMBER_EXAMPLE =
     ''For an explicit memory request, call remember with one exact durable fact about the current operator written naturally in second person, for example ''
     @ FACT_EXAMPLE @ ''.''"

definition next_action :: "action_contract \<Rightarrow> contract_verdict \<Rightarrow> string" where
  "next_action contract verdict =
     (let mixed = (ak_kind contract = DelegateRequired \<and> ak_requiresMutation contract) in
      if av_missing verdict = MissDelegation then
        (if mixed \<and> av_mutationSatisfied verdict = Some True then
           js_join '' '' (''Mutation evidence already exists and its postcondition is verified. Do not repeat the mutation.'' # SPAWN_NOW)
         else js_join '' '' (SPAWN_NOW @
           (if mixed then
              [''This mixed contract also requires its explicit mutation obligation; call the still-missing mutation tool in the same provider turn and do not stop after delegation.'',
               REMEMBER_EXAMPLE,
               ''Do not repeat an effect that already has verified evidence; terminal success requires both delegation and mutation evidence.'']
            else [])))
      else if mixed then
        (if av_missing verdict = MissPostcondition then
           ''Delegation evidence already exists. Do not call spawn_subagent again or repeat the mutation; independently verify the mutation postcondition now.''
         else
           ''Delegation evidence already exists. Do not call spawn_subagent again. Call the still-missing mutation tool explicitly requested by the operator now. ''
           @ REMEMBER_EXAMPLE)
      else ''Call a relevant tool now; after a mutation, independently verify the postcondition.'')"

definition actionRecoveryInstruction :: "action_contract \<Rightarrow> contract_verdict \<Rightarrow> string" where
  "actionRecoveryInstruction contract verdict =
     js_join '' ''
       [''Action contract: '' @ kind_text (ak_kind contract) @ ''.'',
        ''Missing evidence: '' @ missing_text (av_missing verdict) @ ''.'',
        ''Do not claim completion. '' @ next_action contract verdict]"

section \<open>Attestations of a supervised provider\<close>

record tool_context =
  tx_sessionId :: string
  tx_turnId :: "string option"
  tx_ordinal :: int

record provider_execution =
  px_call :: loop_call
  px_context :: tool_context
  px_result :: jv

definition provider_tool_name :: "string \<Rightarrow> bool" where
  "provider_tool_name s \<longleftrightarrow> 1 \<le> length s \<and> length s \<le> 128 \<and> list_all (\<lambda>c. is_word c \<or> c \<in> set ''.:-'') s"

definition snapshotProviderEvidence :: "action_evidence \<Rightarrow> action_evidence option" where
  "snapshotProviderEvidence item =
     (if \<not> provider_tool_name (ae_tool item) then None
      else if (case ae_operation item of None \<Rightarrow> False | Some o1 \<Rightarrow> ae_tool item \<noteq> ''configure_agent'' \<or> length o1 > 128) then None
      else if (if ae_tool item = ''bash'' then ae_family item = FamInspect \<or> ae_family item = FamMutate
               else ae_family item = actionToolFamily \<lparr>lc_name = ae_tool item,
                 lc_args = (case ae_operation item of None \<Rightarrow> [] | Some o1 \<Rightarrow> [(''operation'', JStr o1)]), lc_source = None\<rparr>)
      then Some item else None)"

definition attachProviderActionEvidence :: "action_evidence list \<Rightarrow> action_evidence list option" where
  "attachProviderActionEvidence evidence =
     (if length evidence > 128 then None
      else if list_all (\<lambda>e. snapshotProviderEvidence e \<noteq> None) evidence then Some (map (the \<circ> snapshotProviderEvidence) evidence)
      else None)"

definition frozenClone :: "jv \<Rightarrow> jv option" where
  "frozenClone v = (case structuredClone v of None \<Rightarrow> None | Some c \<Rightarrow> (case freeze c 0 0 of None \<Rightarrow> None | Some _ \<Rightarrow> Some c))"

definition provenance_jv :: "loop_provenance option \<Rightarrow> (string \<times> jv) list" where
  "provenance_jv p = (case p of None \<Rightarrow> [] | Some q \<Rightarrow> [(''sourceSpanProvenance'',
     JStr (case q of LpOperator \<Rightarrow> ''operator'' | LpLearned \<Rightarrow> ''learned-procedure'' | LpUntrusted \<Rightarrow> ''untrusted''))])"

definition call_jv :: "loop_call \<Rightarrow> jv" where
  "call_jv call = JObj ([(''name'', JStr (lc_name call)), (''args'', JObj (lc_args call))] @ provenance_jv (lc_source call))"

definition frozen_call :: "loop_call \<Rightarrow> loop_call option" where
  "frozen_call call =
     (case frozenClone (call_jv call) of
        Some (JObj kvs) \<Rightarrow> (case getprop kvs ''args'' of JObj args \<Rightarrow> Some (call\<lparr>lc_args := args\<rparr>) | _ \<Rightarrow> None)
      | _ \<Rightarrow> None)"

definition snapshot_execution :: "provider_execution \<Rightarrow> provider_execution option" where
  "snapshot_execution item =
     (if \<not> provider_tool_name (lc_name (px_call item)) \<or> tx_sessionId (px_context item) = [] \<or>
         tx_turnId (px_context item) = Some [] \<or> \<not> isSafeInteger (tx_ordinal (px_context item)) \<or>
         tx_ordinal (px_context item) < 1 then None
      else
        (case (frozen_call (px_call item), frozenClone (px_result item)) of
           (Some c, Some r) \<Rightarrow> Some (item\<lparr>px_call := c, px_result := r\<rparr>)
         | _ \<Rightarrow> None))"

definition attachProviderToolExecutions :: "provider_execution list \<Rightarrow> provider_execution list option" where
  "attachProviderToolExecutions executions =
     (if length executions > 128 then None
      else if list_all (\<lambda>e. snapshot_execution e \<noteq> None) executions then
        (let snapshot = sort_key (\<lambda>e. tx_ordinal (px_context e)) (map (the \<circ> snapshot_execution) executions)
         in if distinct (map (\<lambda>e. tx_ordinal (px_context e)) snapshot) then Some snapshot else None)
      else None)"

end
