(* ===== verification/Memory_Receipt.thy ===== *)
theory Memory_Receipt
  imports Action_Contract
begin

text \<open>
  Receipts of the \<open>remember\<close> tool (\<open>core-ts/src/runtime/memory-receipt.ts\<close>) and the acknowledgement the agent loop
  renders from one (\<open>core-ts/src/agent-loop/index.ts\<close>, \<open>memoryAcknowledgement\<close>): a receipt names the session, the turn and the
  position of the call through its digests, so a receipt of another call is not acknowledged.

  The patterns with Unicode letters, the reserved prefixes and the change of voice, are the parameters of
  \<open>fact_texts\<close>; the digest is \<open>H\<close>. A plain object is \<open>JObj\<close>; proxies, class instances and accessors are not plain.
\<close>

section \<open>Facts and receipts\<close>

record fact_texts =
  ft_reserved :: "string \<Rightarrow> bool"
  ft_voice :: "string \<Rightarrow> string"
  ft_H :: "string \<Rightarrow> string"

record remember_receipt =
  rr_operationId :: string
  rr_receiptId :: string
  rr_turnId :: string
  rr_fact :: string

definition MAX_FACT_BYTES :: nat where "MAX_FACT_BYTES = 4096"

definition fact_control :: "char \<Rightarrow> bool" where
  "fact_control c \<longleftrightarrow> (of_char c :: nat) \<le> 31 \<or> (of_char c :: nat) = 127"

definition validRememberFact :: "fact_texts \<Rightarrow> string \<Rightarrow> bool" where
  "validRememberFact ft s \<longleftrightarrow> s \<noteq> [] \<and> s = trim s \<and> length s \<le> MAX_FACT_BYTES \<and> \<not> list_ex fact_control s \<and> \<not> ft_reserved ft s"

definition receipt_digest :: "fact_texts \<Rightarrow> string \<Rightarrow> string list \<Rightarrow> string" where
  "receipt_digest ft domain parts = ft_H ft (domain @ concat (map (\<lambda>f. CHR 0x00 # f) parts))"

definition parseRememberFactArgs :: "fact_texts \<Rightarrow> (string \<times> jv) list \<Rightarrow> string option" where
  "parseRememberFactArgs ft args =
     (let hasFact = ''fact'' \<in> set (map fst args); hasText = ''text'' \<in> set (map fst args) in
      if hasFact = hasText then None
      else
        (case getprop args (if hasFact then ''fact'' else ''text'') of
           JStr value \<Rightarrow>
             if \<not> validRememberFact ft value then None
             else
               (case getprop args ''topic'' of
                  JUndef \<Rightarrow> Some (ft_voice ft value)
                | JStr topic \<Rightarrow> if topic = [] \<or> topic \<noteq> trim topic \<or> length topic > 128 \<or> list_ex fact_control topic then None
                    else Some (ft_voice ft value)
                | _ \<Rightarrow> None)
         | _ \<Rightarrow> None))"

definition operation_id :: "fact_texts \<Rightarrow> string \<Rightarrow> string \<Rightarrow> int \<Rightarrow> string" where
  "operation_id ft sessionId turnId ordinal =
     receipt_digest ft ''aisy-memory-remember-operation/v1'' [sessionId, turnId, string_of_int ordinal]"

definition receipt_id :: "fact_texts \<Rightarrow> string \<Rightarrow> string \<Rightarrow> string" where
  "receipt_id ft operationId fct = receipt_digest ft ''aisy-memory-remember-receipt/v1'' [operationId, fct]"

definition makeMemoryRememberReceipt :: "fact_texts \<Rightarrow> string \<Rightarrow> tool_context \<Rightarrow> remember_receipt option" where
  "makeMemoryRememberReceipt ft fct context =
     (case tx_turnId context of
        None \<Rightarrow> None
      | Some turnId \<Rightarrow>
          if turnId = [] \<or> tx_sessionId context = [] \<or> \<not> isSafeInteger (tx_ordinal context) \<or> tx_ordinal context < 1 then None
          else
            (let operationId = operation_id ft (tx_sessionId context) turnId (tx_ordinal context) in
             Some \<lparr>rr_operationId = operationId, rr_receiptId = receipt_id ft operationId fct, rr_turnId = turnId, rr_fact = fct\<rparr>))"

text \<open>The Russian words before the fact, as UTF-8 bytes.\<close>

definition ACK_PREFIX :: string where
  "ACK_PREFIX = [CHR 0xD0, CHR 0x97, CHR 0xD0, CHR 0xB0, CHR 0xD0, CHR 0xBF, CHR 0xD0, CHR 0xBE, CHR 0xD0, CHR 0xBC, CHR 0xD0, CHR 0xBD, CHR 0xD0, CHR 0xB8, CHR 0xD0, CHR 0xBB, CHR 0x2C, CHR 0x20, CHR 0xD1, CHR 0x87, CHR 0xD1, CHR 0x82, CHR 0xD0, CHR 0xBE, CHR 0x20]"

definition renderMemoryAcknowledgement :: "string \<Rightarrow> string" where
  "renderMemoryAcknowledgement fct = ACK_PREFIX @ fct"

definition hex64 :: "string \<Rightarrow> bool" where
  "hex64 s \<longleftrightarrow> length s = 64 \<and> list_all (\<lambda>c. is_digit c \<or> CHR ''a'' \<le> c \<and> c \<le> CHR ''f'') s"

definition exact_keys :: "string list \<Rightarrow> (string \<times> jv) list \<Rightarrow> bool" where
  "exact_keys expected kvs \<longleftrightarrow> length kvs = length expected \<and> list_all (\<lambda>k. k \<in> set (map fst kvs)) expected"

definition RECEIPT_KEYS :: "string list" where
  "RECEIPT_KEYS = [''kind'', ''operationId'', ''receiptId'', ''turnId'', ''fact'', ''committed'']"

definition parseMemoryRememberReceipt :: "fact_texts \<Rightarrow> jv \<Rightarrow> remember_receipt option" where
  "parseMemoryRememberReceipt ft v =
     (case v of
        JObj raw \<Rightarrow>
          if \<not> exact_keys RECEIPT_KEYS raw \<or> getprop raw ''kind'' \<noteq> JStr ''memory.remember/v1'' \<or> getprop raw ''committed'' \<noteq> JBool True
          then None
          else
            (case (getprop raw ''operationId'', getprop raw ''receiptId'', getprop raw ''turnId'', getprop raw ''fact'') of
               (JStr operationId, JStr receiptId, JStr turnId, JStr fct) \<Rightarrow>
                 if hex64 operationId \<and> hex64 receiptId \<and> turnId \<noteq> [] \<and> validRememberFact ft fct \<and>
                    receiptId = receipt_id ft operationId fct
                 then Some \<lparr>rr_operationId = operationId, rr_receiptId = receiptId, rr_turnId = turnId, rr_fact = fct\<rparr>
                 else None
             | _ \<Rightarrow> None)
      | _ \<Rightarrow> None)"

section \<open>Acknowledging a memory\<close>

definition RESULT_KEYS :: "string list" where
  "RESULT_KEYS = [''ok'', ''output'', ''verified'', ''mutationReceipt'']"

definition memoryAcknowledgement :: "fact_texts \<Rightarrow> loop_call \<Rightarrow> tool_context \<Rightarrow> jv \<Rightarrow> (string \<times> string) option" where
  "memoryAcknowledgement ft call context v =
     (case v of
        JObj result \<Rightarrow>
          if lc_name call \<noteq> ''remember'' \<or> \<not> exact_keys RESULT_KEYS result \<or> getprop result ''ok'' \<noteq> JBool True \<or>
             getprop result ''verified'' \<noteq> JBool True then None
          else
            (case (parseMemoryRememberReceipt ft (getprop result ''mutationReceipt''), parseRememberFactArgs ft (lc_args call)) of
               (Some receipt, Some fct) \<Rightarrow>
                 (case makeMemoryRememberReceipt ft fct context of
                    None \<Rightarrow> None
                  | Some expected \<Rightarrow>
                      if rr_operationId receipt \<noteq> rr_operationId expected \<or> rr_receiptId receipt \<noteq> rr_receiptId expected \<or>
                         rr_turnId receipt \<noteq> rr_turnId expected \<or> rr_fact receipt \<noteq> fct then None
                      else if getprop result ''output'' = JStr (renderMemoryAcknowledgement (rr_fact receipt))
                      then Some (rr_receiptId receipt, renderMemoryAcknowledgement (rr_fact receipt))
                      else None)
             | _ \<Rightarrow> None)
      | _ \<Rightarrow> None)"

text \<open>What the tool hands back for a committed fact.\<close>

definition receipt_jv :: "remember_receipt \<Rightarrow> jv" where
  "receipt_jv r = JObj [(''kind'', JStr ''memory.remember/v1''), (''operationId'', JStr (rr_operationId r)),
     (''receiptId'', JStr (rr_receiptId r)), (''turnId'', JStr (rr_turnId r)), (''fact'', JStr (rr_fact r)), (''committed'', JBool True)]"

definition remembered_result :: "remember_receipt \<Rightarrow> jv" where
  "remembered_result r = JObj [(''ok'', JBool True), (''output'', JStr (renderMemoryAcknowledgement (rr_fact r))), (''verified'', JBool True),
     (''mutationReceipt'', receipt_jv r)]"

lemma made_receipt:
  "makeMemoryRememberReceipt ft fct c = Some r \<Longrightarrow>
     rr_fact r = fct \<and> tx_turnId c = Some (rr_turnId r) \<and> rr_turnId r \<noteq> [] \<and> 1 \<le> tx_ordinal c \<and>
     rr_operationId r = operation_id ft (tx_sessionId c) (rr_turnId r) (tx_ordinal c) \<and> rr_receiptId r = receipt_id ft (rr_operationId r) fct"
  by (auto simp: makeMemoryRememberReceipt_def Let_def split: option.splits if_splits)

lemma receipt_roundtrip:
  assumes "hex64 (rr_operationId r)" "hex64 (rr_receiptId r)" "rr_turnId r \<noteq> []" "validRememberFact ft (rr_fact r)"
    and "rr_receiptId r = receipt_id ft (rr_operationId r) (rr_fact r)"
  shows "parseMemoryRememberReceipt ft (receipt_jv r) = Some r"
  using assms by (simp add: parseMemoryRememberReceipt_def receipt_jv_def exact_keys_def RECEIPT_KEYS_def getprop_def)

lemma parsed_receipt_hex: "parseMemoryRememberReceipt ft v = Some r \<Longrightarrow> hex64 (rr_operationId r) \<and> validRememberFact ft (rr_fact r)"
  by (auto simp: parseMemoryRememberReceipt_def split: jv.splits if_splits)

lemma acknowledged:
  assumes "memoryAcknowledgement ft call c v = Some (rid, out)"
  obtains fct r where "lc_name call = ''remember''" "parseRememberFactArgs ft (lc_args call) = Some fct"
    "makeMemoryRememberReceipt ft fct c = Some r" "rid = rr_receiptId r" "out = renderMemoryAcknowledgement fct" "hex64 (rr_operationId r)"
    "validRememberFact ft fct"
proof -
  from assms obtain result receipt fct r where "lc_name call = ''remember''"
    "parseMemoryRememberReceipt ft (getprop result ''mutationReceipt'') = Some receipt"
    "parseRememberFactArgs ft (lc_args call) = Some fct" "makeMemoryRememberReceipt ft fct c = Some r"
    "rr_operationId receipt = rr_operationId r" "rr_fact receipt = fct" "rid = rr_receiptId r" "out = renderMemoryAcknowledgement fct"
    by (auto simp: memoryAcknowledgement_def split: jv.splits if_splits option.splits)
  with that parsed_receipt_hex show thesis by metis
qed

lemma js_join_hd: "js_join sep ((c # x) # xs) = c # js_join sep (x # xs)"
  by (cases xs) simp_all

lemma digest_eq:
  "receipt_digest ft d fs = ft_H ft (js_join [CHR 0x00] (d # fs))"
proof -
  have "d @ concat (map (\<lambda>f. CHR 0x00 # f) fs) = js_join [CHR 0x00] (d # fs)" by (induction fs arbitrary: d) (simp_all add: js_join_hd)
  then show ?thesis by (simp add: receipt_digest_def)
qed

lemma string_of_int_inj: "0 \<le> i \<Longrightarrow> 0 \<le> j \<Longrightarrow> string_of_int i = string_of_int j \<Longrightarrow> i = j"
  by (auto simp: string_of_int_def dest: digits_of_inj)

definition digest_collision :: "fact_texts \<Rightarrow> bool" where
  "digest_collision ft \<longleftrightarrow> (\<exists>x y. x \<noteq> y \<and> ft_H ft x = ft_H ft y)"

definition nul_free :: "string \<Rightarrow> bool" where
  "nul_free s \<longleftrightarrow> CHR 0x00 \<notin> set s"

lemma digest_inj:
  assumes "receipt_digest ft d xs = receipt_digest ft d ys" "length xs = length ys" "list_all nul_free (d # xs)"
  shows "xs = ys \<or> digest_collision ft"
proof (cases "js_join [CHR 0x00] (d # xs) = js_join [CHR 0x00] (d # ys)")
  case True
  have "d # xs = d # ys" by (rule join_sep_inj [OF _ _ True]) (use assms(2,3) in \<open>auto simp: nul_free_def list_all_iff\<close>)
  then show ?thesis by simp
next
  case False
  with assms(1) show ?thesis by (auto simp: digest_eq digest_collision_def)
qed

lemma nul_free_number: "nul_free (string_of_int i)" if "0 \<le> i"
  using that by (auto simp: nul_free_def string_of_int_def is_digit_def dest: set_digits_of)

lemma hex64_nul_free: "hex64 s \<Longrightarrow> nul_free s"
  by (auto simp: hex64_def nul_free_def list_all_iff is_digit_def)

lemma valid_fact_nul_free: "validRememberFact ft s \<Longrightarrow> nul_free s"
  by (auto simp: validRememberFact_def nul_free_def list_ex_iff fact_control_def)


definition demo_facts :: fact_texts where
  "demo_facts = \<lparr>ft_reserved = (\<lambda>_. False), ft_voice = id, ft_H = (\<lambda>_. replicate 64 (CHR ''0''))\<rparr>"

definition demo_remember :: loop_call where
  "demo_remember = \<lparr>lc_name = ''remember'', lc_args = [(''fact'', JStr ''tea'')], lc_source = None\<rparr>"

definition demo_context :: tool_context where
  "demo_context = \<lparr>tx_sessionId = ''s'', tx_turnId = Some ''t'', tx_ordinal = 1\<rparr>"

lemma demo_acknowledged:
  "memoryAcknowledgement demo_facts demo_remember demo_context
     (remembered_result (the (makeMemoryRememberReceipt demo_facts ''tea'' demo_context))) = Some (replicate 64 (CHR ''0''), ACK_PREFIX @ ''tea'')"
  "memoryAcknowledgement demo_facts demo_remember (demo_context\<lparr>tx_ordinal := 2\<rparr>)
     (remembered_result (the (makeMemoryRememberReceipt demo_facts ''tea'' (demo_context\<lparr>tx_ordinal := 2\<rparr>)))) =
     Some (replicate 64 (CHR ''0''), ACK_PREFIX @ ''tea'')"
  by code_simp+


end
