(* ===== verification/Agent_Loop.thy ===== *)
theory Agent_Loop
  imports Memory_Receipt
begin

text \<open>
  The turn loop of the agent (\<open>core-ts/src/agent-loop/index.ts\<close>): one call of \<open>runTurn\<close>, from the checkpoint
  that resumes an interrupted turn to its result.

  An effect is an \<open>act\<close>: it takes the state of the turn and returns the new state with a value, or with a \<open>stop\<close>, the
  exception in flight. A port is a function on the world \<open>'w\<close>; a port that may reject returns an option or a flag.
  The provider is an interaction tree, because it calls back into the loop (progress and tool
  attempts) before it answers. Turns of one loop run one after the other. The ghost field
  \<open>tn_trace\<close> records what the loop did at its ports; no operation reads it.

  Parameters, besides the ports: the patterns over Unicode letters (\<open>text_tests\<close>, \<open>verb_tests\<close>, \<open>fact_texts\<close>), the digest,
  and the addition of dollar amounts, which are decimal spellings. Lengths are counted in UTF-8 bytes. The echo of
  one argument in progress events is left out.
\<close>

section \<open>Data\<close>

record frozen_snapshot =
  fs_prefixBytes :: string
  fs_prefixHash :: string
  fs_breakpoints :: "nat list"
  fs_takenAt :: string

record plan_step =
  ps_intent :: string
  ps_tools :: "string list"
  ps_irreversible :: bool
  ps_trace :: "verification_trace option"

record turn_plan =
  pl_steps :: "plan_step list"

record turn_usage =
  us_input :: nat
  us_output :: nat
  us_dollars :: string

record model_response =
  mr_reply :: string
  mr_toolCalls :: "loop_call list"
  mr_interpretations :: int
  mr_plan :: "turn_plan option"
  mr_usage :: "turn_usage option"
  mr_evidence :: "action_evidence list"
  mr_executions :: "provider_execution list"

record model_request =
  mq_sessionId :: string
  mq_turnId :: "string option"
  mq_toolOrdinalBase :: int
  mq_prefixBytes :: string
  mq_spans :: "loop_span list"

datatype deny_reason = DenyPolicy | DenyUntrustedArgs | DenyQuarantinedRef

datatype tool_phase = Pending | Started | Completed | Failed | Denied deny_reason

datatype progress_event =
    ModelStarted
  | ModelThinking "string option"
  | TextDelta string
  | ToolRequested string string jv
  | ToolResultSeen string jv
  | ApprovalRequired string string nat
  | ModelUsage nat nat "string option"
  | OutboundLockout bool
  | TurnStarted
  | TurnUsage nat nat string
  | ContractKnown contract_kind
  | ContractRecovery contract_kind missing_evidence
  | ToolProgress tool_phase nat string

datatype halt_reason = HaltGuardian | HaltProviders | HaltLint | HaltCap | HaltBudget | HaltStopped

datatype thrown = AllExhausted | OtherError

datatype stop = Halt halt_reason | Threw thrown

datatype turn_state = InProgress nat int | NotInProgress

datatype hook_verdict = HvAllow | HvDeny | HvAsk | HvModify loop_call

datatype pre_decision = Continue loop_call | Intercept jv

record log_entry =
  le_seq :: nat
  le_ts :: string
  le_kind :: string
  le_payloadHash :: string
  le_payload :: jv

record transcript_row =
  tw_sessionId :: string
  tw_turnId :: string
  tw_turnTs :: string
  tw_ordinal :: nat
  tw_span :: loop_span

record workflow_step =
  ws_descriptorId :: string
  ws_placeholderIds :: "string list"
  ws_postconditionIds :: "string list"
  ws_receiptId :: string

datatype turn_status = TsOk | TsClarification | TsApproval | TsHalted

record turn_result =
  rs_reply :: string
  rs_state :: turn_status
  rs_haltReason :: "halt_reason option"
  rs_planHash :: "string option"
  rs_narrowed :: "bool option"
  rs_usage :: "turn_usage option"
  rs_delivery :: "string option"
  rs_contractKind :: "contract_kind option"
  rs_verified :: "bool option"

text \<open>A run of the provider: it answers or rejects, after any number of calls back into the loop.\<close>

datatype 'w provider_run =
    ProvReturn 'w model_response
  | ProvThrow 'w thrown
  | ProvMark 'w int "'w \<Rightarrow> bool \<Rightarrow> 'w provider_run"
  | ProvEvent 'w progress_event "'w \<Rightarrow> bool \<Rightarrow> 'w provider_run"

section \<open>Ports\<close>

record 'w transcript_recorder =
  rc_start :: "'w \<Rightarrow> string \<Rightarrow> frozen_snapshot \<Rightarrow> 'w \<times> frozen_snapshot option"
  rc_history :: "'w \<Rightarrow> string \<Rightarrow> 'w \<times> loop_span list option"
  rc_record :: "'w \<Rightarrow> transcript_row \<Rightarrow> 'w \<times> bool"

record 'w workflow_observer =
  wo_capture :: "'w \<Rightarrow> loop_call \<Rightarrow> tool_context \<Rightarrow> jv \<Rightarrow> 'w \<times> workflow_step option"
  wo_commit :: "'w \<Rightarrow> string \<Rightarrow> string \<Rightarrow> workflow_step list \<Rightarrow> 'w \<times> jv option"

record text_tests =
  tt_signal :: "string \<Rightarrow> bool"
  tt_removeClaims :: "string \<Rightarrow> string"
  tt_scrubMemory :: "string list \<Rightarrow> string \<Rightarrow> string"

record tool_error =
  ek_message :: "string option"
  ek_detail :: jv

record 'w loop_deps =
  ld_H :: "string \<Rightarrow> string"
  ld_addDollars :: "string \<Rightarrow> string \<Rightarrow> string"
  ld_now :: "'w \<Rightarrow> string"
  ld_append :: "'w \<Rightarrow> log_entry \<Rightarrow> 'w option"
  ld_resume :: "'w \<Rightarrow> string \<Rightarrow> string option \<Rightarrow> turn_state option"
  ld_snapshot :: "'w \<Rightarrow> 'w \<times> frozen_snapshot option"
  ld_forget :: "'w \<Rightarrow> string \<Rightarrow> bool \<Rightarrow> 'w \<times> bool"
  ld_prefixExtension :: "('w \<Rightarrow> 'w \<times> string option) option"
  ld_recorder :: "'w transcript_recorder option"
  ld_lateContext :: "('w \<Rightarrow> loop_span list \<Rightarrow> 'w \<times> loop_span list option) option"
  ld_complete :: "'w \<Rightarrow> model_request \<Rightarrow> 'w provider_run"
  ld_observe :: "'w \<Rightarrow> loop_call \<Rightarrow> 'w \<times> nat option"
  ld_note :: "'w \<Rightarrow> 'w"
  ld_preDispatch :: "('w \<Rightarrow> loop_call \<Rightarrow> tool_context \<Rightarrow> 'w \<times> pre_decision option) option"
  ld_pre :: "'w \<Rightarrow> loop_call \<Rightarrow> hook_ctx \<Rightarrow> 'w \<times> hook_verdict option"
  ld_execute :: "('w \<Rightarrow> loop_call \<Rightarrow> tool_context \<Rightarrow> 'w \<times> (tool_error + jv)) option"
  ld_propagate :: "(tool_error \<Rightarrow> loop_call \<Rightarrow> tool_context \<Rightarrow> bool option) option"
  ld_post :: "'w \<Rightarrow> loop_call \<Rightarrow> jv \<Rightarrow> 'w \<times> jv option"
  ld_postDispatch :: "('w \<Rightarrow> loop_call \<Rightarrow> tool_context \<Rightarrow> jv \<Rightarrow> 'w \<times> bool) option"
  ld_probe :: "('w \<Rightarrow> verification_trace option \<Rightarrow> 'w \<times> bool option) option"
  ld_budgetCheck :: "('w \<Rightarrow> string \<Rightarrow> turn_usage \<Rightarrow> 'w \<times> bool option) option"
  ld_workflow :: "'w workflow_observer option"
  ld_maxReplans :: "nat option"
  ld_maxTotalToolCalls :: "nat option"
  ld_verbs :: verb_tests
  ld_texts :: text_tests
  ld_facts :: fact_texts

record 'w turn_input =
  ti_sessionId :: string
  ti_turnId :: "string option"
  ti_turnTs :: "string option"
  ti_spans :: "loop_span list"
  ti_approvalToken :: "string option"
  ti_signal :: "('w \<Rightarrow> bool) option"
  ti_onProgress :: "('w \<Rightarrow> progress_event \<Rightarrow> 'w \<times> bool) option"

section \<open>State\<close>

record session_state =
  ss_snapshot :: "frozen_snapshot option"
  ss_coldStart :: bool
  ss_loaded :: bool
  ss_narrowed :: bool
  ss_totalReplans :: nat
  ss_totalToolCalls :: nat
  ss_transcriptStarted :: bool
  ss_quarantined :: "string list"

datatype turn_event =
    EvLog string jv
  | EvCheckpoint bool int int
  | EvModel model_request
  | EvMark int
  | EvGate loop_call hook_ctx hook_verdict
  | EvExecute loop_call tool_context
  | EvProbe "verification_trace option" bool

record 'w turn =
  tn_world :: 'w
  tn_seq :: nat
  tn_sess :: session_state
  tn_transcriptOrdinal :: nat
  tn_ordinal :: int
  tn_nextStep :: int
  tn_highWater :: int
  tn_usage :: turn_usage
  tn_effect :: bool
  tn_evidence :: "action_evidence list"
  tn_acks :: "(string, string) jsmap"
  tn_grounded :: bool
  tn_steps :: "workflow_step list"
  tn_eligible :: bool
  tn_delivery :: "string option"
  tn_trace :: "turn_event list"

type_synonym ('w, 'a) act = "'w turn \<Rightarrow> (stop + 'a) \<times> 'w turn"

text \<open>What stays fixed once the prompt of a turn is assembled.\<close>

record 'w turn_env =
  te_deps :: "'w loop_deps"
  te_input :: "'w turn_input"
  te_snapshot :: frozen_snapshot
  te_history :: "loop_span list"
  te_contract :: action_contract
  te_contractSpans :: "loop_span list"

section \<open>Effects\<close>

definition ret :: "'a \<Rightarrow> ('w, 'a) act" where
  "ret x = (\<lambda>st. (Inr x, st))"

definition raise :: "stop \<Rightarrow> ('w, 'a) act" where
  "raise e = (\<lambda>st. (Inl e, st))"

definition andThen :: "('w, 'a) act \<Rightarrow> ('a \<Rightarrow> ('w, 'b) act) \<Rightarrow> ('w, 'b) act" where
  "andThen m f = (\<lambda>st. case m st of (Inl e, st1) \<Rightarrow> (Inl e, st1) | (Inr x, st1) \<Rightarrow> f x st1)"

definition handle :: "('w, 'a) act \<Rightarrow> (stop \<Rightarrow> ('w, 'a) act) \<Rightarrow> ('w, 'a) act" where
  "handle m h = (\<lambda>st. case m st of (Inl e, st1) \<Rightarrow> h e st1 | (Inr x, st1) \<Rightarrow> (Inr x, st1))"

definition upd :: "('w turn \<Rightarrow> 'w turn) \<Rightarrow> ('w, unit) act" where
  "upd f = (\<lambda>st. (Inr (), f st))"

definition look :: "('w turn \<Rightarrow> 'a) \<Rightarrow> ('w, 'a) act" where
  "look f = (\<lambda>st. (Inr (f st), st))"

definition port :: "('w \<Rightarrow> 'w \<times> 'a) \<Rightarrow> ('w, 'a) act" where
  "port f = (\<lambda>st. case f (tn_world st) of (w, x) \<Rightarrow> (Inr x, st\<lparr>tn_world := w\<rparr>))"

definition await :: "('w \<Rightarrow> 'w \<times> 'a option) \<Rightarrow> ('w, 'a) act" where
  "await f = andThen (port f) (\<lambda>r. case r of None \<Rightarrow> raise (Threw OtherError) | Some x \<Rightarrow> ret x)"

definition seen :: "turn_event \<Rightarrow> ('w, unit) act" where
  "seen e = upd (\<lambda>st. st\<lparr>tn_trace := tn_trace st @ [e]\<rparr>)"

definition whenever :: "bool \<Rightarrow> ('w, unit) act \<Rightarrow> ('w, unit) act" where
  "whenever b m = (if b then m else ret ())"

primrec each :: "('a \<Rightarrow> ('w, unit) act) \<Rightarrow> 'a list \<Rightarrow> ('w, unit) act" where
  "each f [] = ret ()"
| "each f (x # xs) = andThen (f x) (\<lambda>_. each f xs)"

lemma act_simps [simp]:
  "andThen (upd f) g st = g () (f st)" "andThen (look k) h st = h (k st) st" "andThen (raise e) i st = (Inl e, st)"
  "andThen (ret x) j st = j x st" "andThen (seen ev) g st = g () (st\<lparr>tn_trace := tn_trace st @ [ev]\<rparr>)"
  by (simp_all add: andThen_def upd_def look_def raise_def ret_def seen_def)

lemma act_port: "andThen (port f) g st = (case f (tn_world st) of (w, x) \<Rightarrow> g x (st\<lparr>tn_world := w\<rparr>))"
  by (simp add: andThen_def port_def split: prod.split)

section \<open>Texts\<close>

definition grounds_inbound :: "text_tests \<Rightarrow> loop_span \<Rightarrow> bool" where
  "grounds_inbound tt sp \<longleftrightarrow> (ls_role sp = RoleUser \<or> ls_provenance sp = LpUntrusted) \<and> tt_signal tt (ls_text sp)"

definition grounds_synthesis :: "text_tests \<Rightarrow> loop_span \<Rightarrow> bool" where
  "grounds_synthesis tt sp \<longleftrightarrow> ls_role sp = RoleTool \<and> tt_signal tt (ls_text sp)"

definition renderTerminalReply :: "text_tests \<Rightarrow> string \<Rightarrow> string list \<Rightarrow> bool \<Rightarrow> string" where
  "renderTerminalReply tt reply acknowledgements grounded =
     (let body = (if grounded then reply else tt_removeClaims tt reply) in
      if acknowledgements = [] then body
      else
        (let without = foldl (\<lambda>t a. js_join [] (js_split t a)) body acknowledgements
         in js_join [CHR 0x0A, CHR 0x0A] (filter (\<lambda>t. t \<noteq> []) (tt_scrubMemory tt acknowledgements without # acknowledgements))))"

definition isTurnLocalActionControl :: "loop_span \<Rightarrow> bool" where
  "isTurnLocalActionControl sp \<longleftrightarrow> ls_role sp = RoleSystem \<and> ls_provenance sp = LpOperator \<and>
     startsWith (ls_text sp) ''Action contract: '' \<and> str_includes (ls_text sp) ''Missing evidence: '' \<and>
     str_includes (ls_text sp) ''Do not claim completion.''"

text \<open>The Russian replies for an unverified action, as UTF-8 bytes.\<close>

definition naturalUnverifiedReply :: "contract_kind \<Rightarrow> string" where
  "naturalUnverifiedReply kind =
     (case kind of
        InspectRequired \<Rightarrow>
          [CHR 0xD0, CHR 0x9D, CHR 0xD0, CHR 0xB5, CHR 0x20, CHR 0xD1, CHR 0x81, CHR 0xD0, CHR 0xBC, CHR 0xD0, CHR 0xBE, CHR 0xD0,
           CHR 0xB3, CHR 0xD0, CHR 0xBB, CHR 0xD0, CHR 0xB0, CHR 0x20, CHR 0xD0, CHR 0xBF, CHR 0xD0, CHR 0xBE, CHR 0xD0, CHR 0xBB,
           CHR 0xD1, CHR 0x83, CHR 0xD1, CHR 0x87, CHR 0xD0, CHR 0xB8, CHR 0xD1, CHR 0x82, CHR 0xD1, CHR 0x8C, CHR 0x20, CHR 0xD1,
           CHR 0x80, CHR 0xD0, CHR 0xB5, CHR 0xD0, CHR 0xB7, CHR 0xD1, CHR 0x83, CHR 0xD0, CHR 0xBB, CHR 0xD1, CHR 0x8C, CHR 0xD1,
           CHR 0x82, CHR 0xD0, CHR 0xB0, CHR 0xD1, CHR 0x82, CHR 0x20, CHR 0xD0, CHR 0xBF, CHR 0xD1, CHR 0x80, CHR 0xD0, CHR 0xBE,
           CHR 0xD0, CHR 0xB2, CHR 0xD0, CHR 0xB5, CHR 0xD1, CHR 0x80, CHR 0xD0, CHR 0xBA, CHR 0xD0, CHR 0xB8, CHR 0x2E, CHR 0x20,
           CHR 0xD0, CHR 0x9F, CHR 0xD0, CHR 0xBE, CHR 0xD0, CHR 0xBF, CHR 0xD1, CHR 0x80, CHR 0xD0, CHR 0xBE, CHR 0xD0, CHR 0xB1,
           CHR 0xD1, CHR 0x83, CHR 0xD0, CHR 0xB9, CHR 0x20, CHR 0xD0, CHR 0xB5, CHR 0xD1, CHR 0x89, CHR 0xD1, CHR 0x91, CHR 0x20,
           CHR 0xD1, CHR 0x80, CHR 0xD0, CHR 0xB0, CHR 0xD0, CHR 0xB7, CHR 0x20, CHR 0xD0, CHR 0xB8, CHR 0xD0, CHR 0xBB, CHR 0xD0,
           CHR 0xB8, CHR 0x20, CHR 0xD1, CHR 0x83, CHR 0xD1, CHR 0x82, CHR 0xD0, CHR 0xBE, CHR 0xD1, CHR 0x87, CHR 0xD0, CHR 0xBD,
           CHR 0xD0, CHR 0xB8, CHR 0x2C, CHR 0x20, CHR 0xD1, CHR 0x87, CHR 0xD1, CHR 0x82, CHR 0xD0, CHR 0xBE, CHR 0x20, CHR 0xD0,
           CHR 0xB8, CHR 0xD0, CHR 0xBC, CHR 0xD0, CHR 0xB5, CHR 0xD0, CHR 0xBD, CHR 0xD0, CHR 0xBD, CHR 0xD0, CHR 0xBE, CHR 0x20,
           CHR 0xD0, CHR 0xBE, CHR 0xD1, CHR 0x82, CHR 0xD0, CHR 0xBA, CHR 0xD1, CHR 0x80, CHR 0xD1, CHR 0x8B, CHR 0xD1, CHR 0x82,
           CHR 0xD1, CHR 0x8C, CHR 0x2E]
      | DelegateRequired \<Rightarrow>
          [CHR 0xD0, CHR 0xA1, CHR 0xD1, CHR 0x83, CHR 0xD0, CHR 0xB1, CHR 0xD0, CHR 0xB0, CHR 0xD0, CHR 0xB3, CHR 0xD0, CHR 0xB5,
           CHR 0xD0, CHR 0xBD, CHR 0xD1, CHR 0x82, CHR 0x20, CHR 0xD0, CHR 0xBD, CHR 0xD0, CHR 0xB5, CHR 0x20, CHR 0xD0, CHR 0xB2,
           CHR 0xD0, CHR 0xB5, CHR 0xD1, CHR 0x80, CHR 0xD0, CHR 0xBD, CHR 0xD1, CHR 0x83, CHR 0xD0, CHR 0xBB, CHR 0x20, CHR 0xD1,
           CHR 0x80, CHR 0xD0, CHR 0xB5, CHR 0xD0, CHR 0xB7, CHR 0xD1, CHR 0x83, CHR 0xD0, CHR 0xBB, CHR 0xD1, CHR 0x8C, CHR 0xD1,
           CHR 0x82, CHR 0xD0, CHR 0xB0, CHR 0xD1, CHR 0x82, CHR 0x2E, CHR 0x20, CHR 0xD0, CHR 0x9C, CHR 0xD0, CHR 0xBE, CHR 0xD0,
           CHR 0xB3, CHR 0xD1, CHR 0x83, CHR 0x20, CHR 0xD0, CHR 0xBF, CHR 0xD0, CHR 0xBE, CHR 0xD0, CHR 0xB2, CHR 0xD1, CHR 0x82,
           CHR 0xD0, CHR 0xBE, CHR 0xD1, CHR 0x80, CHR 0xD0, CHR 0xB8, CHR 0xD1, CHR 0x82, CHR 0xD1, CHR 0x8C, CHR 0x20, CHR 0xD0,
           CHR 0xB4, CHR 0xD0, CHR 0xB5, CHR 0xD0, CHR 0xBB, CHR 0xD0, CHR 0xB5, CHR 0xD0, CHR 0xB3, CHR 0xD0, CHR 0xB8, CHR 0xD1,
           CHR 0x80, CHR 0xD0, CHR 0xBE, CHR 0xD0, CHR 0xB2, CHR 0xD0, CHR 0xB0, CHR 0xD0, CHR 0xBD, CHR 0xD0, CHR 0xB8, CHR 0xD0,
           CHR 0xB5, CHR 0x2E]
      | _ \<Rightarrow>
          [CHR 0xD0, CHR 0x98, CHR 0xD0, CHR 0xB7, CHR 0xD0, CHR 0xBC, CHR 0xD0, CHR 0xB5, CHR 0xD0, CHR 0xBD, CHR 0xD0, CHR 0xB5,
           CHR 0xD0, CHR 0xBD, CHR 0xD0, CHR 0xB8, CHR 0xD0, CHR 0xB5, CHR 0x20, CHR 0xD0, CHR 0xBD, CHR 0xD0, CHR 0xB5, CHR 0x20,
           CHR 0xD0, CHR 0xB2, CHR 0xD1, CHR 0x8B, CHR 0xD0, CHR 0xBF, CHR 0xD0, CHR 0xBE, CHR 0xD0, CHR 0xBB, CHR 0xD0, CHR 0xBD,
           CHR 0xD0, CHR 0xB5, CHR 0xD0, CHR 0xBD, CHR 0xD0, CHR 0xBE, CHR 0x2E, CHR 0x20, CHR 0xD0, CHR 0x9C, CHR 0xD0, CHR 0xBE,
           CHR 0xD0, CHR 0xB3, CHR 0xD1, CHR 0x83, CHR 0x20, CHR 0xD0, CHR 0xBF, CHR 0xD0, CHR 0xBE, CHR 0xD0, CHR 0xBF, CHR 0xD1,
           CHR 0x80, CHR 0xD0, CHR 0xBE, CHR 0xD0, CHR 0xB1, CHR 0xD0, CHR 0xBE, CHR 0xD0, CHR 0xB2, CHR 0xD0, CHR 0xB0, CHR 0xD1,
           CHR 0x82, CHR 0xD1, CHR 0x8C, CHR 0x20, CHR 0xD0, CHR 0xB5, CHR 0xD1, CHR 0x89, CHR 0xD1, CHR 0x91, CHR 0x20, CHR 0xD1,
           CHR 0x80, CHR 0xD0, CHR 0xB0, CHR 0xD0, CHR 0xB7, CHR 0x2E])"

text \<open>A group of the history starts at a user span, except that spans before the second user span stay with the first group.\<close>

fun history_groups :: "loop_span list \<Rightarrow> loop_span list list \<Rightarrow> loop_span list list" where
  "history_groups [] groups = groups"
| "history_groups (sp # sps) groups =
     history_groups sps
       (if groups = [] \<or> ls_role sp = RoleUser \<and> list_ex (\<lambda>i. ls_role i = RoleUser) (last groups) then groups @ [[sp]]
        else butlast groups @ [last groups @ [sp]])"

fun find_index :: "('a \<Rightarrow> bool) \<Rightarrow> 'a list \<Rightarrow> nat option" where
  "find_index P [] = None"
| "find_index P (x # xs) = (if P x then Some 0 else map_option Suc (find_index P xs))"

definition last_assistant :: "loop_span list \<Rightarrow> nat option" where
  "last_assistant grp = map_option (\<lambda>k. length grp - 1 - k) (find_index (\<lambda>sp. ls_role sp = RoleAssistant) (rev grp))"

definition project_group :: "text_tests \<Rightarrow> loop_span list \<Rightarrow> loop_span list" where
  "project_group tt grp =
     (let firstControl = find_index isTurnLocalActionControl grp;
          terminal = last_assistant grp;
          indexed = zip [0..<length grp] grp;
          projected = (case firstControl of
              None \<Rightarrow> grp
            | Some f \<Rightarrow> map snd (filter (\<lambda>(i, sp). \<not> isTurnLocalActionControl sp \<and>
                (ls_role sp \<noteq> RoleAssistant \<or> i < f \<or> terminal = Some i)) indexed));
          grounded = list_ex (\<lambda>(i, sp).
              (ls_role sp = RoleUser \<or> ls_role sp = RoleAssistant \<and> (case firstControl of None \<Rightarrow> False | Some f \<Rightarrow> i < f)) \<and>
                grounds_inbound tt sp \<or>
              grounds_synthesis tt sp) indexed
      in if grounded then projected
         else map (\<lambda>sp. if ls_role sp = RoleAssistant then sp\<lparr>ls_text := tt_removeClaims tt (ls_text sp)\<rparr> else sp) projected)"

definition projectHistoryForProvider :: "text_tests \<Rightarrow> loop_span list \<Rightarrow> loop_span list" where
  "projectHistoryForProvider tt history = concat (map (project_group tt) (history_groups history []))"

section \<open>The plan linter of the loop\<close>

definition VACUOUS_ARGV0 :: "string list" where
  "VACUOUS_ARGV0 = [''echo'', ''true'', '':'', ''printf'']"

definition SELF_REFERENTIAL_FILES :: "string list" where
  "SELF_REFERENTIAL_FILES = [''PLAN.md'', ''TODO.md'']"

definition IRREVERSIBLE_TOOL_HINTS :: "string list" where
  "IRREVERSIBLE_TOOL_HINTS = [''rm'', ''drop'', ''force_push'', ''send_money'']"

definition rx_plan_loopback :: rx where
  "rx_plan_loopback = rx_alt
     [rx_lit ''localhost'', rx_lit ''127.0.0.1'', rx_lit ''0.0.0.0'', rx_lit ''[::1]'',
      rx_seq [Alt Bol (Cls (\<lambda>c. c \<in> set '':/@'')), rx_lit ''::1'', Alt Eol (Cls (\<lambda>c. c \<in> set '':/''))]]"

definition lint_plan_step :: "plan_step \<Rightarrow> lint_rule option" where
  "lint_plan_step step =
     (case ps_trace step of
        None \<Rightarrow> Some R1
      | Some (TOther k) \<Rightarrow> Some R5
      | Some trace \<Rightarrow>
          if (case trace of TExit (a # _) _ \<Rightarrow> a \<in> set VACUOUS_ARGV0 | _ \<Rightarrow> False) then Some R3
          else if (case trace of THttp method url _ \<Rightarrow> rx_test rx_plan_loopback url \<and> toUpperCase method \<in> set [''GET'', ''HEAD'']
                     | _ \<Rightarrow> False) then Some R3
          else if (case trace of TFile path _ _ \<Rightarrow> list_ex (\<lambda>f. path = f \<or> endsWith path (''/'' @ f)) SELF_REFERENTIAL_FILES
                     | _ \<Rightarrow> False) then Some R4
          else if \<not> ps_irreversible step \<and>
             list_ex (\<lambda>t. list_ex (\<lambda>h. str_includes (toLowerCase t) h) IRREVERSIBLE_TOOL_HINTS) (ps_tools step) then Some R2
          else None)"

fun lintPlan_steps :: "plan_step list \<Rightarrow> lint_rule option" where
  "lintPlan_steps [] = None"
| "lintPlan_steps (step # steps) = (case lint_plan_step step of None \<Rightarrow> lintPlan_steps steps | Some r \<Rightarrow> Some r)"

definition lintPlan :: "turn_plan \<Rightarrow> lint_rule option" where
  "lintPlan plan = lintPlan_steps (pl_steps plan)"

definition rule_text :: "lint_rule \<Rightarrow> string" where
  "rule_text r = (case r of R1 \<Rightarrow> ''R1'' | R2 \<Rightarrow> ''R2'' | R3 \<Rightarrow> ''R3'' | R4 \<Rightarrow> ''R4'' | R5 \<Rightarrow> ''R5'')"

section \<open>Helpers\<close>

definition payloadHash :: "(string \<Rightarrow> string) \<Rightarrow> jv \<Rightarrow> string" where
  "payloadHash H payload = H (case stringify payload of None \<Rightarrow> [] | Some t \<Rightarrow> t)"

text \<open>A plan as the JSON value that is hashed, its properties in the order of the interface.\<close>

fun trace_jv :: "verification_trace \<Rightarrow> jv" where
  "trace_jv (TFile path ex sha) = JObj ([(''kind'', JStr ''file''), (''path'', JStr path), (''existsExpected'', JBool ex)] @
     (case sha of None \<Rightarrow> [] | Some h \<Rightarrow> [(''sha256'', JStr h)]))"
| "trace_jv (TSql query rows) = JObj [(''kind'', JStr ''sql''), (''query'', JStr query), (''expectRows'',
     case rows of RowsExactly n \<Rightarrow> JNum n
     | RowsOp r n \<Rightarrow> JObj [(''op'', JStr (case r of RowEq \<Rightarrow> ''='' | RowGt \<Rightarrow> ''>'' | RowGe \<Rightarrow> ''>='')), (''n'', JNum n)])]"
| "trace_jv (THttp method url status) = JObj [(''kind'', JStr ''http''), (''method'', JStr method), (''url'', JStr url), (''expectStatus'', JNum status)]"
| "trace_jv (TExit argv code) = JObj [(''kind'', JStr ''exit''), (''argv'', JArr (map JStr argv)), (''expectCode'', JNum code)]"
| "trace_jv (TOther k) = JObj [(''kind'', JStr k)]"

definition step_jv :: "plan_step \<Rightarrow> jv" where
  "step_jv step = JObj ([(''intent'', JStr (ps_intent step)), (''tools'', JArr (map JStr (ps_tools step))),
     (''irreversible'', JBool (ps_irreversible step))] @ (case ps_trace step of None \<Rightarrow> [] | Some t \<Rightarrow> [(''trace'', trace_jv t)]))"

definition plan_jv :: "turn_plan \<Rightarrow> jv" where
  "plan_jv plan = JObj [(''steps'', JArr (map step_jv (pl_steps plan)))]"

definition planHash :: "'w loop_deps \<Rightarrow> turn_plan \<Rightarrow> string" where
  "planHash d plan = payloadHash (ld_H d) (plan_jv plan)"

definition line_end :: "string \<Rightarrow> bool" where
  "line_end t \<longleftrightarrow> CHR 0x0A \<in> set t \<or> CHR 0x0D \<in> set t \<or> str_includes t [CHR 0xE2, CHR 0x80, CHR 0xA8] \<or> str_includes t [CHR 0xE2, CHR 0x80, CHR 0xA9]"

text \<open>
  The reference a span asks to forget: \<open>^forget[:\s]+(.+)$\<close> on the trimmed text. The separator is greedy and
  gives back its last character only where nothing else is left for the group.
\<close>

definition forget_ref :: "string \<Rightarrow> string option" where
  "forget_ref s =
     (let t = trim s; r = drop 6 t; sep = takeWhile (\<lambda>c. c = CHR '':'' \<or> is_space c) r; rest = drop (length sep) r in
      if toLowerCase (take 6 t) \<noteq> ''forget'' \<or> sep = [] \<or> line_end rest then None
      else if rest \<noteq> [] then Some (trim rest)
      else if length sep < 2 then None
      else Some [last sep])"

definition TOOL_RESULT_CAP :: nat where "TOOL_RESULT_CAP = 8000"
definition MAX_SYNTHESIS_ROUNDS :: nat where "MAX_SYNTHESIS_ROUNDS = 6"

definition cap_text :: "string \<Rightarrow> string" where
  "cap_text t = (if length t > TOOL_RESULT_CAP then take TOOL_RESULT_CAP t @ [CHR 0x0A, CHR 0xE2, CHR 0x80, CHR 0xA6] @ ''[truncated]'' else t)"

definition text_or_empty :: "jv \<Rightarrow> string" where
  "text_or_empty v = (case stringify v of None \<Rightarrow> [] | Some t \<Rightarrow> t)"

definition toolResultText :: "jv \<Rightarrow> string" where
  "toolResultText v =
     (case v of
        JUndef \<Rightarrow> []
      | JNull \<Rightarrow> []
      | JStr t \<Rightarrow> cap_text t
      | _ \<Rightarrow>
          (case as_record v of
             Some kvs \<Rightarrow>
               if ''output'' \<in> set (map fst kvs) then
                 cap_text (case getprop kvs ''output'' of JStr t \<Rightarrow> t | o1 \<Rightarrow> text_or_empty o1)
               else cap_text (text_or_empty v)
           | None \<Rightarrow> cap_text (text_or_empty v)))"

definition toolResultSucceeded :: "jv \<Rightarrow> bool" where
  "toolResultSucceeded v \<longleftrightarrow> result_field v ''ok'' \<noteq> JBool False"

definition coldStartSnapshot :: "string \<Rightarrow> frozen_snapshot" where
  "coldStartSnapshot takenAt = \<lparr>fs_prefixBytes = [], fs_prefixHash = ''cold-start'', fs_breakpoints = [], fs_takenAt = takenAt\<rparr>"

definition fresh_session :: session_state where
  "fresh_session = \<lparr>ss_snapshot = None, ss_coldStart = False, ss_loaded = False, ss_narrowed = False, ss_totalReplans = 0,
     ss_totalToolCalls = 0, ss_transcriptStarted = False, ss_quarantined = []\<rparr>"

section \<open>Log, transcript, progress and checkpoints\<close>

definition write_log :: "'w loop_deps \<Rightarrow> turn_event \<Rightarrow> string \<Rightarrow> jv \<Rightarrow> ('w, unit) act" where
  "write_log d ev kind payload = (\<lambda>st.
     let entry = \<lparr>le_seq = tn_seq st + 1, le_ts = ld_now d (tn_world st), le_kind = kind,
                  le_payloadHash = payloadHash (ld_H d) payload, le_payload = payload\<rparr>;
         st1 = st\<lparr>tn_seq := tn_seq st + 1\<rparr>
     in case ld_append d (tn_world st) entry of
          None \<Rightarrow> (Inl (Threw OtherError), st1)
        | Some w \<Rightarrow> (Inr (), st1\<lparr>tn_world := w, tn_trace := tn_trace st @ [ev]\<rparr>))"

definition log_event :: "'w loop_deps \<Rightarrow> string \<Rightarrow> jv \<Rightarrow> ('w, unit) act" where
  "log_event d kind payload = write_log d (EvLog kind payload) kind payload"

definition recordSpan :: "'w loop_deps \<Rightarrow> 'w turn_input \<Rightarrow> loop_span \<Rightarrow> ('w, unit) act" where
  "recordSpan d inp sp =
     (case ld_recorder d of
        None \<Rightarrow> ret ()
      | Some rc \<Rightarrow>
          if ls_provenance sp = LpLearned then ret ()
          else andThen (upd (\<lambda>st. st\<lparr>tn_transcriptOrdinal := tn_transcriptOrdinal st + 1\<rparr>)) (\<lambda>_.
               andThen (look tn_transcriptOrdinal) (\<lambda>n.
               andThen (port (\<lambda>w. rc_record rc w
                 \<lparr>tw_sessionId = ti_sessionId inp, tw_turnId = the (ti_turnId inp), tw_turnTs = the (ti_turnTs inp),
                  tw_ordinal = n, tw_span = sp\<rparr>)) (\<lambda>ok.
               if ok then ret () else raise (Threw OtherError)))))"

definition phase_text :: "tool_phase \<Rightarrow> string" where
  "phase_text ph = (case ph of Pending \<Rightarrow> ''tool-pending'' | Started \<Rightarrow> ''tool-started'' | Completed \<Rightarrow> ''tool-completed''
     | Failed \<Rightarrow> ''tool-failed'' | Denied _ \<Rightarrow> ''tool-denied'')"

definition event_type :: "progress_event \<Rightarrow> string" where
  "event_type ev = (case ev of
       ModelStarted \<Rightarrow> ''started'' | ModelThinking _ \<Rightarrow> ''thinking'' | TextDelta _ \<Rightarrow> ''text-delta''
     | ToolRequested _ _ _ \<Rightarrow> ''tool-requested'' | ToolResultSeen _ _ \<Rightarrow> ''tool-result'' | ApprovalRequired _ _ _ \<Rightarrow> ''approval-required''
     | ModelUsage _ _ _ \<Rightarrow> ''usage'' | OutboundLockout _ \<Rightarrow> ''outbound-lockout'' | TurnStarted \<Rightarrow> ''turn-started''
     | TurnUsage _ _ _ \<Rightarrow> ''turn-usage'' | ContractKnown _ \<Rightarrow> ''action-contract'' | ContractRecovery _ _ \<Rightarrow> ''action-recovery''
     | ToolProgress ph _ _ \<Rightarrow> phase_text ph)"

definition emitProgress :: "'w loop_deps \<Rightarrow> 'w turn_input \<Rightarrow> progress_event \<Rightarrow> ('w, unit) act" where
  "emitProgress d inp ev =
     (case ti_onProgress inp of
        None \<Rightarrow> ret ()
      | Some f \<Rightarrow> andThen (port (\<lambda>w. f w ev)) (\<lambda>ok.
          if ok then ret () else log_event d ''progress.sink.failed'' (JObj [(''eventType'', JStr (event_type ev))])))"

definition checkpoint_jv :: "'w turn_input \<Rightarrow> string \<Rightarrow> bool \<Rightarrow> int \<Rightarrow> int \<Rightarrow> jv" where
  "checkpoint_jv inp turnId finished nextStep highWater =
     JObj [(''sessionId'', JStr (ti_sessionId inp)), (''turnId'', JStr turnId),
       (''status'', JStr (if finished then ''complete'' else ''in-progress'')),
       (''nextStepIndex'', JNum nextStep), (''toolOrdinalHighWater'', JNum highWater)]"

definition checkpoint :: "'w loop_deps \<Rightarrow> 'w turn_input \<Rightarrow> bool \<Rightarrow> ('w, unit) act" where
  "checkpoint d inp finished =
     (case ti_turnId inp of
        None \<Rightarrow> ret ()
      | Some turnId \<Rightarrow>
          andThen (look (\<lambda>st. (tn_nextStep st, tn_highWater st))) (\<lambda>(nextStep, highWater).
          write_log d (EvCheckpoint finished nextStep highWater) ''turn.checkpoint''
            (checkpoint_jv inp turnId finished nextStep highWater)))"

definition checkpointAttempt :: "'w loop_deps \<Rightarrow> 'w turn_input \<Rightarrow> int \<Rightarrow> ('w, unit) act" where
  "checkpointAttempt d inp ordinal =
     andThen (look tn_highWater) (\<lambda>highWater.
       if \<not> isSafeInteger ordinal \<or> ordinal \<le> highWater then raise (Threw OtherError)
       else andThen (upd (\<lambda>st. st\<lparr>tn_highWater := ordinal\<rparr>)) (\<lambda>_.
            andThen (checkpoint d inp False) (\<lambda>_. seen (EvMark ordinal))))"

definition aborted :: "'w turn_input \<Rightarrow> 'w turn \<Rightarrow> bool" where
  "aborted inp st = (case ti_signal inp of None \<Rightarrow> False | Some f \<Rightarrow> f (tn_world st))"

section \<open>Verified workflows\<close>

definition executionBelongsToTurn :: "'w turn_input \<Rightarrow> tool_context \<Rightarrow> bool" where
  "executionBelongsToTurn inp c \<longleftrightarrow> tx_sessionId c = ti_sessionId inp \<and> tx_turnId c = ti_turnId inp \<and>
     isSafeInteger (tx_ordinal c) \<and> tx_ordinal c > 0"

definition ineligible :: "('w, unit) act" where
  "ineligible = upd (\<lambda>st. st\<lparr>tn_eligible := False\<rparr>)"

definition observeVerifiedExecution :: "'w loop_deps \<Rightarrow> 'w turn_input \<Rightarrow> loop_call \<Rightarrow> tool_context \<Rightarrow> jv \<Rightarrow> ('w, unit) act" where
  "observeVerifiedExecution d inp call c v =
     (case ld_workflow d of
        None \<Rightarrow> ret ()
      | Some wo \<Rightarrow>
          andThen (look tn_eligible) (\<lambda>eligible.
            if \<not> eligible then ret ()
            else if \<not> toolResultSucceeded v \<or> \<not> executionBelongsToTurn inp c \<or>
              (case lc_source call of None \<Rightarrow> False | Some p \<Rightarrow> p \<noteq> LpOperator) then ineligible
            else andThen (port (\<lambda>w. wo_capture wo w call c v)) (\<lambda>r.
              case r of None \<Rightarrow> ineligible | Some step \<Rightarrow> upd (\<lambda>st. st\<lparr>tn_steps := tn_steps st @ [step]\<rparr>))))"

definition acknowledge :: "'w loop_deps \<Rightarrow> loop_call \<Rightarrow> tool_context \<Rightarrow> jv \<Rightarrow> ('w, unit) act" where
  "acknowledge d call c v =
     (case memoryAcknowledgement (ld_facts d) call c v of
        None \<Rightarrow> ret ()
      | Some (receiptId, output) \<Rightarrow> upd (\<lambda>st. st\<lparr>tn_acks := AList.update receiptId output (tn_acks st)\<rparr>))"

section \<open>Calling the model\<close>

abbreviation te_d :: "'w turn_env \<Rightarrow> 'w loop_deps" where "te_d env \<equiv> te_deps env"
abbreviation te_i :: "'w turn_env \<Rightarrow> 'w turn_input" where "te_i env \<equiv> te_input env"

definition actionRequired :: "'w turn_env \<Rightarrow> bool" where
  "actionRequired env \<longleftrightarrow> ak_kind (te_contract env) \<noteq> AnswerOnly"

primrec run_provider :: "'w turn_env \<Rightarrow> 'w provider_run \<Rightarrow> progress_event list \<Rightarrow> ('w, model_response \<times> progress_event list) act" where
  "run_provider env (ProvReturn w r) = (\<lambda>buf st. (Inr (r, buf), st\<lparr>tn_world := w\<rparr>))"
| "run_provider env (ProvThrow w e) = (\<lambda>buf st. (Inl (Threw e), st\<lparr>tn_world := w\<rparr>))"
| "run_provider env (ProvMark w n k) = (\<lambda>buf st.
     case checkpointAttempt (te_d env) (te_i env) n (st\<lparr>tn_world := w\<rparr>) of
       (r, st1) \<Rightarrow> run_provider env (k (tn_world st1) (\<not> isl r)) buf st1)"
| "run_provider env (ProvEvent w ev k) = (\<lambda>buf st.
     let st0 = st\<lparr>tn_world := w, tn_effect := tn_effect st \<or> (case ev of ToolRequested _ _ _ \<Rightarrow> True | _ \<Rightarrow> False)\<rparr> in
     (case ev of
        TextDelta _ \<Rightarrow> run_provider env (k w True) (buf @ [ev]) st0
      | _ \<Rightarrow> (case emitProgress (te_d env) (te_i env) ev st0 of (r, st1) \<Rightarrow> run_provider env (k (tn_world st1) (\<not> isl r)) buf st1)))"

definition absorb_execution :: "'w turn_env \<Rightarrow> provider_execution \<Rightarrow> ('w, unit) act" where
  "absorb_execution env ex =
     andThen (upd (\<lambda>st. st\<lparr>tn_grounded := tn_grounded st \<or> tt_signal (ld_texts (te_d env)) (toolResultText (px_result ex))\<rparr>)) (\<lambda>_.
     andThen (look (\<lambda>st. (tn_ordinal st, tn_highWater st))) (\<lambda>(ordinal, highWater).
       if \<not> executionBelongsToTurn (te_i env) (px_context ex) \<or> tx_ordinal (px_context ex) \<le> ordinal \<or>
          tx_ordinal (px_context ex) > highWater then ineligible
       else andThen (upd (\<lambda>st. st\<lparr>tn_ordinal := tx_ordinal (px_context ex)\<rparr>)) (\<lambda>_.
            andThen (acknowledge (te_d env) (px_call ex) (px_context ex) (px_result ex)) (\<lambda>_.
            observeVerifiedExecution (te_d env) (te_i env) (px_call ex) (px_context ex) (px_result ex)))))"

definition deliver_text :: "'w turn_env \<Rightarrow> model_response \<Rightarrow> progress_event list \<Rightarrow> ('w, unit) act" where
  "deliver_text env r buf =
     andThen (look (\<lambda>st. (tn_effect st, tn_grounded st))) (\<lambda>(effect, grounded).
       if actionRequired env \<or> effect then ret ()
       else
         (let deliverable = renderTerminalReply (ld_texts (te_d env)) (mr_reply r) [] grounded in
          if deliverable = mr_reply r then each (emitProgress (te_d env) (te_i env)) buf
          else if deliverable \<noteq> [] then emitProgress (te_d env) (te_i env) (TextDelta deliverable)
          else ret ()))"

definition account_usage :: "'w turn_env \<Rightarrow> model_response \<Rightarrow> ('w, unit) act" where
  "account_usage env r =
     (case mr_usage r of
        None \<Rightarrow> ret ()
      | Some u \<Rightarrow>
          andThen (upd (\<lambda>st. st\<lparr>tn_usage := \<lparr>us_input = us_input (tn_usage st) + us_input u,
             us_output = us_output (tn_usage st) + us_output u,
             us_dollars = ld_addDollars (te_d env) (us_dollars (tn_usage st)) (us_dollars u)\<rparr>\<rparr>)) (\<lambda>_.
          andThen (look tn_usage) (\<lambda>t. emitProgress (te_d env) (te_i env) (TurnUsage (us_input t) (us_output t) (us_dollars t)))))"

definition check_budget :: "'w turn_env \<Rightarrow> ('w, unit) act" where
  "check_budget env =
     (case ld_budgetCheck (te_d env) of
        None \<Rightarrow> ret ()
      | Some f \<Rightarrow>
          andThen (look tn_usage) (\<lambda>t.
          andThen (await (\<lambda>w. f w (ti_sessionId (te_i env)) t)) (\<lambda>capped.
          if capped then raise (Halt HaltBudget) else ret ())))"

definition model_body :: "'w turn_env \<Rightarrow> loop_span list \<Rightarrow> loop_span list \<Rightarrow> ('w, model_response) act" where
  "model_body env extra late =
     andThen (look (\<lambda>st. \<lparr>mq_sessionId = ti_sessionId (te_i env), mq_turnId = ti_turnId (te_i env), mq_toolOrdinalBase = tn_ordinal st,
        mq_prefixBytes = fs_prefixBytes (te_snapshot env),
        mq_spans = te_history env @ ti_spans (te_i env) @ te_contractSpans env @ extra @ late\<rparr>)) (\<lambda>request.
     andThen (seen (EvModel request)) (\<lambda>_.
     andThen (\<lambda>st. run_provider env (ld_complete (te_d env) (tn_world st) request) [] st) (\<lambda>(r, buf).
     andThen (recordSpan (te_d env) (te_i env) \<lparr>ls_role = RoleAssistant, ls_provenance = LpUntrusted, ls_text = mr_reply r\<rparr>) (\<lambda>_.
     andThen (upd (\<lambda>st. st\<lparr>tn_effect := tn_effect st \<or> mr_plan r \<noteq> None \<or> mr_toolCalls r \<noteq> [] \<or> mr_executions r \<noteq> [] \<or> mr_evidence r \<noteq> [],
        tn_evidence := tn_evidence st @ mr_evidence r\<rparr>)) (\<lambda>_.
     andThen (each (absorb_execution env) (mr_executions r)) (\<lambda>_.
     andThen (deliver_text env r buf) (\<lambda>_.
     andThen (account_usage env r) (\<lambda>_.
     andThen (check_budget env) (\<lambda>_.
     ret r)))))))))"

definition model_failed :: "'w turn_env \<Rightarrow> stop \<Rightarrow> ('w, model_response) act" where
  "model_failed env e =
     (case e of
        Halt _ \<Rightarrow> raise e
      | Threw t \<Rightarrow>
          andThen (look (aborted (te_i env))) (\<lambda>stopped.
            if stopped then raise (Halt HaltStopped)
            else if t = AllExhausted then
              andThen (log_event (te_d env) ''provider.exhausted'' (JObj [])) (\<lambda>_. raise (Halt HaltProviders))
            else raise e))"

definition callModel :: "'w turn_env \<Rightarrow> loop_span list \<Rightarrow> ('w, model_response) act" where
  "callModel env extra =
     andThen (log_event (te_d env) ''step.intent'' (JObj [(''kind'', JStr ''model-call'')])) (\<lambda>_.
     andThen (case ld_lateContext (te_d env) of
          None \<Rightarrow> ret []
        | Some f \<Rightarrow> await (\<lambda>w. f w (ti_spans (te_i env) @ extra))) (\<lambda>late.
     andThen (upd (\<lambda>st. st\<lparr>tn_grounded := tn_grounded st \<or> list_ex (grounds_synthesis (ld_texts (te_d env))) extra \<or>
        list_ex (grounds_inbound (ld_texts (te_d env))) late\<rparr>)) (\<lambda>_.
     handle (model_body env extra late) (model_failed env))))"

section \<open>Dispatching a tool call\<close>

definition max_replans :: "'w turn_env \<Rightarrow> nat" where
  "max_replans env = (case ld_maxReplans (te_d env) of None \<Rightarrow> 2 | Some m \<Rightarrow> m)"

definition enterReplan :: "'w turn_env \<Rightarrow> halt_reason \<Rightarrow> ('w, unit) act" where
  "enterReplan env why =
     andThen (port (\<lambda>w. (ld_note (te_d env) w, ()))) (\<lambda>_.
     andThen (upd (\<lambda>st. st\<lparr>tn_sess := (tn_sess st)\<lparr>ss_totalReplans := ss_totalReplans (tn_sess st) + 1\<rparr>\<rparr>)) (\<lambda>_.
     andThen (look (\<lambda>st. ss_totalReplans (tn_sess st))) (\<lambda>n.
     andThen (log_event (te_d env) ''replan.entered'' (JObj [(''totalReplans'', JNum (int n))])) (\<lambda>_.
     if n > max_replans env then raise (Halt why) else ret ()))))"

definition open_dispatch :: "'w turn_env \<Rightarrow> loop_call \<Rightarrow> ('w, tool_context \<times> nat) act" where
  "open_dispatch env call =
     andThen (upd (\<lambda>st. st\<lparr>tn_effect := True\<rparr>)) (\<lambda>_.
     andThen (look (aborted (te_i env))) (\<lambda>stopped.
     if stopped then raise (Halt HaltStopped)
     else
     andThen (upd (\<lambda>st. st\<lparr>tn_ordinal := tn_ordinal st + 1\<rparr>)) (\<lambda>_.
     andThen (look tn_ordinal) (\<lambda>ordinal.
     andThen (checkpointAttempt (te_d env) (te_i env) ordinal) (\<lambda>_.
     andThen (upd (\<lambda>st. st\<lparr>tn_sess := (tn_sess st)\<lparr>ss_totalToolCalls := ss_totalToolCalls (tn_sess st) + 1\<rparr>\<rparr>)) (\<lambda>_.
     andThen (look (\<lambda>st. ss_totalToolCalls (tn_sess st))) (\<lambda>n.
     if (case ld_maxTotalToolCalls (te_d env) of None \<Rightarrow> False | Some m \<Rightarrow> n > m) then raise (Halt HaltCap)
     else
     andThen (port (\<lambda>w. ld_observe (te_d env) w call)) (\<lambda>trip.
     case trip of
       Some period \<Rightarrow>
         andThen (log_event (te_d env) ''guardian.tripped'' (JObj [(''period'', JNum (int period)), (''tool'', JStr (lc_name call))])) (\<lambda>_.
         raise (Halt HaltGuardian))
     | None \<Rightarrow>
         andThen (emitProgress (te_d env) (te_i env) (ToolProgress Pending n (lc_name call))) (\<lambda>_.
         ret (\<lparr>tx_sessionId = ti_sessionId (te_i env), tx_turnId = ti_turnId (te_i env), tx_ordinal = ordinal\<rparr>, n))))))))))"

text \<open>How a dispatch ends once a result is there: log, progress, evidence, transcript.\<close>

definition conclude :: "'w turn_env \<Rightarrow> loop_call \<Rightarrow> tool_context \<Rightarrow> nat \<Rightarrow> bool \<Rightarrow> jv \<Rightarrow> ('w, loop_span option) act" where
  "conclude env call c n preflight v =
     (let sp = \<lparr>ls_role = RoleTool, ls_provenance = LpUntrusted, ls_text = lc_name call @ '': '' @ toolResultText v\<rparr> in
     andThen (log_event (te_d env) ''step.result''
       (JObj ((''tool'', JStr (lc_name call)) # (if preflight then [(''preflight'', JBool True)] else [])))) (\<lambda>_.
     andThen (emitProgress (te_d env) (te_i env) (ToolProgress (if toolResultSucceeded v then Completed else Failed) n (lc_name call))) (\<lambda>_.
     andThen (upd (\<lambda>st. st\<lparr>tn_evidence := tn_evidence st @ [actionEvidence call v]\<rparr>)) (\<lambda>_.
     andThen (observeVerifiedExecution (te_d env) (te_i env) call c v) (\<lambda>_.
     andThen (if preflight then ret () else acknowledge (te_d env) call c v) (\<lambda>_.
     andThen (recordSpan (te_d env) (te_i env) sp) (\<lambda>_.
     ret (Some sp))))))))"

definition intercept :: "'w turn_env \<Rightarrow> loop_call \<Rightarrow> tool_context \<Rightarrow> nat \<Rightarrow> jv \<Rightarrow> ('w, loop_span option) act" where
  "intercept env call c n v =
     andThen (emitProgress (te_d env) (te_i env) (ToolProgress Started n (lc_name call))) (\<lambda>_.
     andThen (await (\<lambda>w. ld_post (te_d env) w call v)) (\<lambda>filtered.
     conclude env call c n True filtered))"

definition refuse :: "'w turn_env \<Rightarrow> nat \<Rightarrow> string \<Rightarrow> deny_reason \<Rightarrow> ('w, loop_span option) act" where
  "refuse env n name why = andThen (emitProgress (te_d env) (te_i env) (ToolProgress (Denied why) n name)) (\<lambda>_. ret None)"

definition failed_result :: "string \<Rightarrow> jv" where
  "failed_result msg = JObj [(''ok'', JBool False), (''output'', JStr msg)]"

definition execute :: "'w turn_env \<Rightarrow> loop_call \<Rightarrow> tool_context \<Rightarrow> ('w, jv) act" where
  "execute env call c =
     andThen (seen (EvExecute call c)) (\<lambda>_.
     case ld_execute (te_d env) of
       None \<Rightarrow> ret JUndef
     | Some f \<Rightarrow>
         andThen (port (\<lambda>w. f w call c)) (\<lambda>r.
         case r of
           Inr v \<Rightarrow> ret v
         | Inl err \<Rightarrow>
             if (case ld_propagate (te_d env) of None \<Rightarrow> False | Some p \<Rightarrow> p err call c = Some True) then raise (Threw OtherError)
             else ret (failed_result (case ek_message err of Some m \<Rightarrow> m | None \<Rightarrow> ''tool executor failed''))))"

definition after_execute :: "'w turn_env \<Rightarrow> loop_call \<Rightarrow> tool_context \<Rightarrow> nat \<Rightarrow> jv \<Rightarrow> ('w, loop_span option) act" where
  "after_execute env call c n raw =
     andThen (await (\<lambda>w. ld_post (te_d env) w call raw)) (\<lambda>filtered.
     andThen (case ld_postDispatch (te_d env) of
          None \<Rightarrow> ret filtered
        | Some f \<Rightarrow> andThen (port (\<lambda>w. f w call c filtered)) (\<lambda>ok.
            ret (if ok then filtered else failed_result ''TOOL_POST_DISPATCH_FAILED''))) (\<lambda>v.
     conclude env call c n False v))"

definition run_tool :: "'w turn_env \<Rightarrow> loop_call \<Rightarrow> tool_context \<Rightarrow> nat \<Rightarrow> ('w, loop_span option) act" where
  "run_tool env call c n =
     andThen (log_event (te_d env) ''step.intent'' (JObj [(''tool'', JStr (lc_name call)), (''ordinal'', JNum (tx_ordinal c))])) (\<lambda>_.
     andThen (emitProgress (te_d env) (te_i env) (ToolProgress Started n (lc_name call))) (\<lambda>_.
     andThen (execute env call c) (after_execute env call c n)))"

definition quarantine_hit :: "session_state \<Rightarrow> loop_call \<Rightarrow> bool" where
  "quarantine_hit s call \<longleftrightarrow> list_ex (\<lambda>r. str_includes (text_or_empty (JObj (lc_args call))) r) (ss_quarantined s)"

definition hook_ctx_of :: "loop_call \<Rightarrow> tool_context \<Rightarrow> bool \<Rightarrow> hook_ctx" where
  "hook_ctx_of call c narrowed =
     \<lparr>hx_provenance = (case lc_source call of None \<Rightarrow> LpOperator | Some p \<Rightarrow> p), hx_narrowed = narrowed,
      hx_sessionId = Some (tx_sessionId c), hx_turnId = tx_turnId c, hx_ordinal = Some (nat (tx_ordinal c))\<rparr>"

definition gate_and_run :: "'w turn_env \<Rightarrow> string \<Rightarrow> loop_call \<Rightarrow> tool_context \<Rightarrow> nat \<Rightarrow> ('w, loop_span option) act" where
  "gate_and_run env name dispatchCall c n =
     andThen (look tn_sess) (\<lambda>s.
     andThen (await (\<lambda>w. ld_pre (te_d env) w dispatchCall (hook_ctx_of dispatchCall c (ss_narrowed s)))) (\<lambda>verdict.
     andThen (seen (EvGate dispatchCall (hook_ctx_of dispatchCall c (ss_narrowed s)) verdict)) (\<lambda>_.
     if verdict = HvDeny \<or> verdict = HvAsk then
       andThen (log_event (te_d env) ''tool.gated'' (JObj [(''tool'', JStr name),
         (''verdict'', JStr (if verdict = HvDeny then ''deny'' else ''ask''))])) (\<lambda>_.
       refuse env n name DenyPolicy)
     else
       (let effective = (case verdict of HvModify c1 \<Rightarrow> c1 | _ \<Rightarrow> dispatchCall) in
        if ss_narrowed s \<and> lc_source effective = Some LpUntrusted then
          andThen (log_event (te_d env) ''tool.blocked'' (JObj [(''tool'', JStr (lc_name effective)), (''reason'', JStr ''untrusted-args'')])) (\<lambda>_.
          refuse env n (lc_name effective) DenyUntrustedArgs)
        else if quarantine_hit s effective then
          andThen (log_event (te_d env) ''tool.blocked'' (JObj [(''tool'', JStr (lc_name effective)), (''reason'', JStr ''quarantined-ref'')])) (\<lambda>_.
          refuse env n (lc_name effective) DenyQuarantinedRef)
        else run_tool env effective c n))))"

definition dispatch_call :: "'w turn_env \<Rightarrow> loop_call \<Rightarrow> ('w, loop_span option) act" where
  "dispatch_call env call =
     andThen (open_dispatch env call) (\<lambda>(c, n).
     case ld_preDispatch (te_d env) of
       None \<Rightarrow> gate_and_run env (lc_name call) call c n
     | Some f \<Rightarrow>
         andThen (port (\<lambda>w. f w call c)) (\<lambda>decision.
         case (case decision of None \<Rightarrow> Intercept (failed_result ''TOOL_PREFLIGHT_FAILED'') | Some x \<Rightarrow> x) of
           Intercept v \<Rightarrow> intercept env call c n v
         | Continue c1 \<Rightarrow>
             if lc_name c1 \<noteq> lc_name call then refuse env n (lc_name call) DenyPolicy
             else gate_and_run env (lc_name call) c1 c n))"

definition runProbe :: "'w turn_env \<Rightarrow> verification_trace option \<Rightarrow> ('w, bool) act" where
  "runProbe env trace =
     andThen (case ld_probe (te_d env) of None \<Rightarrow> ret True | Some f \<Rightarrow> await (\<lambda>w. f w trace)) (\<lambda>b.
     andThen (seen (EvProbe trace b)) (\<lambda>_. ret b))"

section \<open>What the operations leave alone\<close>

text \<open>
  A frame is a preorder on turn states that every bookkeeping step respects. The locale proves once that the
  operations above respect it; the loops below terminate because the replan count is such a frame, and the
  safety theorems instantiate it with the invariants of the trace.
\<close>

definition keeps :: "('w turn \<Rightarrow> 'w turn \<Rightarrow> bool) \<Rightarrow> ('w, 'a) act \<Rightarrow> bool" where
  "keeps R m \<longleftrightarrow> (\<forall>st. R st (snd (m st)))"

named_theorems keep_intros \<open>operations that respect a frame\<close>

fun quiet_event :: "turn_event \<Rightarrow> bool" where
  "quiet_event (EvModel _) = False"
| "quiet_event (EvExecute _ _) = False"
| "quiet_event (EvCheckpoint _ _ _) = False"
| "quiet_event _ = True"

locale book_frame =
  fixes R :: "'w turn \<Rightarrow> 'w turn \<Rightarrow> bool"
  assumes frame_refl: "R st st"
    and frame_trans: "R st st1 \<Longrightarrow> R st1 st2 \<Longrightarrow> R st st2"
    and frame_world: "R st (st\<lparr>tn_world := w\<rparr>)"
    and frame_seq: "R st (st\<lparr>tn_seq := n\<rparr>)"
    and frame_books: "R st (st\<lparr>tn_transcriptOrdinal := n\<rparr>)" "R st (st\<lparr>tn_effect := b\<rparr>)" "R st (st\<lparr>tn_grounded := b\<rparr>)"
      "R st (st\<lparr>tn_evidence := es\<rparr>)" "R st (st\<lparr>tn_acks := acks\<rparr>)" "R st (st\<lparr>tn_steps := steps\<rparr>)"
      "R st (st\<lparr>tn_eligible := b\<rparr>)" "R st (st\<lparr>tn_usage := u\<rparr>)" "R st (st\<lparr>tn_nextStep := i\<rparr>)"
      "R st (st\<lparr>tn_delivery := x\<rparr>)"
    and frame_event: "quiet_event e \<Longrightarrow> R st (st\<lparr>tn_trace := tn_trace st @ [e]\<rparr>)"
    and frame_checkpoint: "R st (st\<lparr>tn_trace := tn_trace st @ [EvCheckpoint b (tn_nextStep st) (tn_highWater st)]\<rparr>)"
begin

lemma keeps_ret [keep_intros]: "keeps R (ret x)"
  and keeps_raise [keep_intros]: "keeps R (raise e)"
  and keeps_look [keep_intros]: "keeps R (look f)"
  by (simp_all add: keeps_def ret_def raise_def look_def frame_refl)

lemma keeps_andThen [keep_intros]: "keeps R m \<Longrightarrow> (\<And>x. keeps R (f x)) \<Longrightarrow> keeps R (andThen m f)"
  unfolding keeps_def andThen_def by (auto split: prod.split sum.split) (metis frame_trans snd_conv)+

lemma keeps_handle [keep_intros]: "keeps R m \<Longrightarrow> (\<And>e. keeps R (h e)) \<Longrightarrow> keeps R (handle m h)"
  unfolding keeps_def handle_def by (auto split: prod.split sum.split) (metis frame_trans snd_conv)+

lemma keeps_port [keep_intros]: "keeps R (port f)"
  by (auto simp: keeps_def port_def frame_world split: prod.split)

lemma keeps_if [keep_intros]: "(b \<Longrightarrow> keeps R m) \<Longrightarrow> (\<not> b \<Longrightarrow> keeps R m') \<Longrightarrow> keeps R (if b then m else m')"
  by simp

lemma keeps_option [keep_intros]: "keeps R m \<Longrightarrow> (\<And>x. keeps R (f x)) \<Longrightarrow> keeps R (case r of None \<Rightarrow> m | Some x \<Rightarrow> f x)"
  by (cases r) simp_all

lemma keeps_sum [keep_intros]: "(\<And>x. keeps R (f x)) \<Longrightarrow> (\<And>x. keeps R (g x)) \<Longrightarrow> keeps R (case r of Inl x \<Rightarrow> f x | Inr x \<Rightarrow> g x)"
  by (cases r) simp_all

lemma keeps_pair [keep_intros]: "(\<And>x y. keeps R (f x y)) \<Longrightarrow> keeps R (case r of (x, y) \<Rightarrow> f x y)"
  by (cases r) simp

lemma keeps_stop [keep_intros]: "(\<And>x. keeps R (f x)) \<Longrightarrow> (\<And>x. keeps R (g x)) \<Longrightarrow> keeps R (case r of Halt x \<Rightarrow> f x | Threw x \<Rightarrow> g x)"
  by (cases r) simp_all

lemma keeps_decision [keep_intros]:
  "(\<And>x. keeps R (f x)) \<Longrightarrow> (\<And>x. keeps R (g x)) \<Longrightarrow> keeps R (case r of Continue x \<Rightarrow> f x | Intercept x \<Rightarrow> g x)"
  by (cases r) simp_all

lemma keeps_upd [keep_intros]: "(\<And>st. R st (f st)) \<Longrightarrow> keeps R (upd f)"
  by (simp add: keeps_def upd_def)

lemma keeps_await [keep_intros]: "keeps R (await f)"
  unfolding await_def by (intro keep_intros)

lemma keeps_seen [keep_intros]: "quiet_event e \<Longrightarrow> keeps R (seen e)"
  by (simp add: keeps_def seen_def upd_def frame_event)

lemma keeps_whenever [keep_intros]: "keeps R m \<Longrightarrow> keeps R (whenever b m)"
  by (simp add: whenever_def keep_intros)

lemma keeps_each [keep_intros]: "(\<And>x. keeps R (f x)) \<Longrightarrow> keeps R (each f xs)"
  by (induction xs) (auto intro: keep_intros)

lemma write_frame:
  assumes "R (st\<lparr>tn_seq := n, tn_world := w\<rparr>) (st\<lparr>tn_seq := n, tn_world := w, tn_trace := tn_trace st @ [ev]\<rparr>)"
  shows "R st (st\<lparr>tn_seq := n, tn_world := w, tn_trace := tn_trace st @ [ev]\<rparr>)"
  using frame_trans [OF frame_trans [OF frame_seq frame_world] assms] .

lemma keeps_log_event [keep_intros]: "keeps R (log_event d kind payload)"
proof -
  have "R st (st\<lparr>tn_seq := n, tn_world := w, tn_trace := tn_trace st @ [EvLog kind payload]\<rparr>)" for st n w
    by (rule write_frame) (use frame_event [of "EvLog kind payload" "st\<lparr>tn_seq := n, tn_world := w\<rparr>"] in simp)
  then show ?thesis by (auto simp: keeps_def log_event_def write_log_def Let_def frame_seq split: option.split)
qed

lemma keeps_checkpoint [keep_intros]: "keeps R (checkpoint d inp b)"
proof -
  have "R st (st\<lparr>tn_seq := n, tn_world := w, tn_trace := tn_trace st @ [EvCheckpoint b (tn_nextStep st) (tn_highWater st)]\<rparr>)" for st n w
    by (rule write_frame) (use frame_checkpoint [of "st\<lparr>tn_seq := n, tn_world := w\<rparr>" b] in simp)
  then show ?thesis by (auto simp: keeps_def checkpoint_def write_log_def Let_def frame_seq frame_refl ret_def split: option.split)
qed

lemma keeps_books [keep_intros]:
  "keeps R (recordSpan d inp sp)" "keeps R (emitProgress d inp ev)" "keeps R (checkpoint d inp b)" "keeps R ineligible"
  "keeps R (observeVerifiedExecution d inp call c v)" "keeps R (acknowledge d call c v)"
  unfolding recordSpan_def emitProgress_def ineligible_def observeVerifiedExecution_def acknowledge_def
  by (intro keep_intros frame_books; simp)+

end

locale turn_frame = book_frame +
  assumes frame_ordinal: "o1 \<ge> tn_ordinal st \<Longrightarrow> R st (st\<lparr>tn_ordinal := o1\<rparr>)"
    and frame_highWater: "h \<ge> tn_highWater st \<Longrightarrow> R st (st\<lparr>tn_highWater := h\<rparr>)"
    and frame_calls: "R st (st\<lparr>tn_sess := (tn_sess st)\<lparr>ss_totalToolCalls := ss_totalToolCalls (tn_sess st) + 1\<rparr>\<rparr>)"
begin

lemma keeps_checkpointAttempt [keep_intros]: "keeps R (checkpointAttempt d inp n)"
  unfolding keeps_def
proof
  fix st
  have "keeps R (andThen (checkpoint d inp False) (\<lambda>_. seen (EvMark n)))" by (intro keep_intros) simp
  then have *: "R st1 (snd (andThen (checkpoint d inp False) (\<lambda>_. seen (EvMark n)) st1))" for st1 by (simp add: keeps_def)
  show "R st (snd (checkpointAttempt d inp n st))"
    using frame_trans [OF frame_highWater *] frame_refl
    by (auto simp: checkpointAttempt_def raise_def)
qed

lemma keeps_run_provider [keep_intros]: "keeps R (run_provider env p buf)"
proof (induction p arbitrary: buf)
  case (ProvMark w n k)
  have "R st (snd (checkpointAttempt (te_d env) (te_i env) n (st\<lparr>tn_world := w\<rparr>)))" for st
    using frame_trans [OF frame_world] keeps_checkpointAttempt unfolding keeps_def by blast
  then show ?case using ProvMark frame_trans unfolding keeps_def by (auto split: prod.split) (metis rangeI snd_conv)
next
  case (ProvEvent w ev k)
  have st0: "R st (st\<lparr>tn_world := w, tn_effect := b\<rparr>)" for st b using frame_trans [OF frame_world frame_books(2)] by fastforce
  have emit: "R st (snd (emitProgress (te_d env) (te_i env) ev (st\<lparr>tn_world := w, tn_effect := b\<rparr>)))" for st b
    using frame_trans [OF st0] keeps_books(2) unfolding keeps_def by blast
  have emit1: "R st (snd (emitProgress (te_d env) (te_i env) ev (st\<lparr>tn_world := w\<rparr>)))" for st
    using frame_trans [OF frame_world] keeps_books(2) unfolding keeps_def by blast
  have IH: "R st (snd (run_provider env (k w' b) buf' st))" for st w' b buf' using ProvEvent unfolding keeps_def by blast
  show ?case unfolding keeps_def
  proof
    fix st
    show "R st (snd (run_provider env (ProvEvent w ev k) buf st))"
      using frame_trans [OF st0 IH] frame_trans [OF emit IH] frame_trans [OF frame_world IH] frame_trans [OF emit1 IH]
      by (cases ev) (auto simp: Let_def case_prod_unfold)
  qed
qed (auto simp: keeps_def frame_world)

lemma keeps_absorb_execution [keep_intros]: "keeps R (absorb_execution env ex)"
  unfolding keeps_def
proof
  fix st
  let ?o = "tx_ordinal (px_context ex)"
  have rest: "R st1 (snd (andThen (acknowledge (te_d env) (px_call ex) (px_context ex) (px_result ex))
      (\<lambda>_. observeVerifiedExecution (te_d env) (te_i env) (px_call ex) (px_context ex) (px_result ex)) st1))" for st1
  proof -
    have "keeps R (andThen (acknowledge (te_d env) (px_call ex) (px_context ex) (px_result ex))
      (\<lambda>_. observeVerifiedExecution (te_d env) (te_i env) (px_call ex) (px_context ex) (px_result ex)))" by (intro keep_intros)
    then show ?thesis by (simp add: keeps_def)
  qed
  have out: "R st1 (snd (ineligible st1))" for st1 using keeps_books(4) unfolding keeps_def by blast
  show "R st (snd (absorb_execution env ex st))"
    using frame_trans [OF frame_books(3) frame_trans [OF frame_ordinal rest]] frame_trans [OF frame_books(3) out]
    by (auto simp: absorb_execution_def)
qed

lemma keeps_after_model [keep_intros]:
  "keeps R (deliver_text env r buf)" "keeps R (account_usage env r)" "keeps R (check_budget env)" "keeps R (model_failed env e)"
  unfolding deliver_text_def account_usage_def check_budget_def model_failed_def Let_def
  by (intro keep_intros frame_books)+

lemma keeps_open_dispatch [keep_intros]: "keeps R (open_dispatch env call)"
  unfolding open_dispatch_def by (intro keep_intros frame_books frame_ordinal frame_calls; simp)

lemma keeps_conclude [keep_intros]:
  "keeps R (conclude env call c n b v)" "keeps R (intercept env call c n v)" "keeps R (refuse env n name why)" "keeps R (after_execute env call c n v)"
  unfolding conclude_def intercept_def refuse_def after_execute_def Let_def by (intro keep_intros frame_books)+

end

locale model_frame = turn_frame +
  assumes frame_model: "R st (st\<lparr>tn_trace := tn_trace st @ [EvModel q]\<rparr>)"
begin

lemma keeps_model [keep_intros]: "keeps R (model_body env extra late)" "keeps R (callModel env extra)"
proof -
  have [keep_intros]: "keeps R (seen (EvModel q))" for q by (simp add: keeps_def seen_def upd_def frame_model)
  have run: "keeps R (\<lambda>st. run_provider env (ld_complete (te_d env) (tn_world st) q) [] st)" for q
    using keeps_run_provider unfolding keeps_def by blast
  have upd: "R st (st\<lparr>tn_effect := b, tn_evidence := es\<rparr>)" for st b es using frame_trans [OF frame_books(2) frame_books(4)] by fastforce
  show [keep_intros]: "keeps R (model_body env extra late)" for late
    unfolding model_body_def by (intro keep_intros run upd)
  show "keeps R (callModel env extra)" unfolding callModel_def by (intro keep_intros frame_books)
qed

end

locale exec_frame = turn_frame +
  assumes frame_execute: "R st (st\<lparr>tn_trace := tn_trace st @ [EvExecute call c]\<rparr>)"
begin

lemma keeps_execute [keep_intros]: "keeps R (execute env call c)"
proof -
  have [keep_intros]: "keeps R (seen (EvExecute call c))" by (simp add: keeps_def seen_def upd_def frame_execute)
  show ?thesis unfolding execute_def by (intro keep_intros)
qed

lemma keeps_gate_and_run [keep_intros]: "keeps R (gate_and_run env name call c n)"
  unfolding gate_and_run_def run_tool_def Let_def by (intro keep_intros) simp

lemma keeps_dispatch: "keeps R (dispatch_call env call)"
  unfolding dispatch_call_def by (intro keep_intros)

end

locale free_frame = model_frame + exec_frame

definition replans :: "'w turn \<Rightarrow> nat" where
  "replans st = ss_totalReplans (tn_sess st)"

interpretation replan_frame: free_frame "\<lambda>st st'. replans st' = replans st"
  by unfold_locales (simp_all add: replans_def)

section \<open>The turn\<close>

definition plain_result :: "string \<Rightarrow> turn_status \<Rightarrow> turn_result" where
  "plain_result reply status = \<lparr>rs_reply = reply, rs_state = status, rs_haltReason = None, rs_planHash = None, rs_narrowed = None,
     rs_usage = None, rs_delivery = None, rs_contractKind = None, rs_verified = None\<rparr>"

definition clarification :: "'w turn_env \<Rightarrow> model_response \<Rightarrow> ('w, turn_result) act" where
  "clarification env r =
     andThen (log_event (te_d env) ''clarification.raised'' (JObj [(''interpretations'', JNum (mr_interpretations r))])) (\<lambda>_.
     andThen (checkpoint (te_d env) (te_i env) True) (\<lambda>_.
     ret (plain_result (mr_reply r) TsClarification)))"

definition log_lint :: "'w turn_env \<Rightarrow> lint_rule option \<Rightarrow> ('w, unit) act" where
  "log_lint env res = log_event (te_d env) ''plan.linted''
     (JObj (case res of None \<Rightarrow> [(''ok'', JBool True)] | Some r \<Rightarrow> [(''ok'', JBool False), (''rule'', JStr (rule_text r))]))"

text \<open>The plan-lint loop. It returns early with a clarification, or with the response whose plan, if any, passed.\<close>

definition replan_model :: "'w turn_env \<Rightarrow> ('w, model_response) act" where
  "replan_model env = andThen (enterReplan env HaltCap) (\<lambda>_. callModel env [])"

definition lint_once :: "'w turn_env \<Rightarrow> model_response \<Rightarrow> ('w, turn_result + bool) act" where
  "lint_once env r =
     (if mr_interpretations r > 1 then andThen (clarification env r) (\<lambda>res. ret (Inl res))
      else
        (case mr_plan r of
           None \<Rightarrow> ret (Inr True)
         | Some plan \<Rightarrow> andThen (log_lint env (lintPlan plan)) (\<lambda>_. ret (Inr (lintPlan plan = None)))))"

lemma enterReplan_budget:
  assumes "enterReplan env why st = (Inr (), st1)"
  shows "replans st1 = Suc (replans st) \<and> replans st1 \<le> max_replans env"
proof -
  define st0 where "st0 = st\<lparr>tn_world := ld_note (te_d env) (tn_world st),
      tn_sess := (tn_sess st)\<lparr>ss_totalReplans := ss_totalReplans (tn_sess st) + 1\<rparr>\<rparr>"
  let ?p = "JObj [(''totalReplans'', JNum (int (replans st0)))]"
  have eq: "enterReplan env why st = andThen (log_event (te_d env) ''replan.entered'' ?p)
      (\<lambda>_. if replans st0 > max_replans env then raise (Halt why) else ret ()) st0"
    by (simp add: enterReplan_def act_port st0_def replans_def)
  have "replans (snd (log_event (te_d env) ''replan.entered'' ?p st0)) = replans st0"
    using replan_frame.keeps_log_event unfolding keeps_def by blast
  with assms have "replans st1 = replans st0" "replans st0 \<le> max_replans env"
    by (auto simp: eq andThen_def raise_def ret_def split: prod.splits sum.splits if_splits)
  then show ?thesis by (simp add: st0_def replans_def)
qed

lemma replan_model_budget:
  assumes "replan_model env st = (Inr r, st1)"
  shows "replans st1 = Suc (replans st) \<and> replans st1 \<le> max_replans env"
proof -
  have call: "replans (snd (callModel env [] s)) = replans s" for s
    using replan_frame.keeps_model(2) unfolding keeps_def by blast
  from assms obtain st2 where "enterReplan env HaltCap st = (Inr (), st2)" "callModel env [] st2 = (Inr r, st1)"
    by (auto simp: replan_model_def andThen_def split: prod.splits sum.splits)
  with enterReplan_budget call [of st2] show ?thesis by fastforce
qed

text \<open>The loops stop because every further round costs a replan, a plan step or a synthesis round.\<close>

function lint_loop :: "'w turn_env \<Rightarrow> model_response \<Rightarrow> ('w, turn_result + model_response) act" where
  "lint_loop env r st =
     (case lint_once env r st of
        (Inl e, st1) \<Rightarrow> (Inl e, st1)
      | (Inr (Inl res), st1) \<Rightarrow> (Inr (Inl res), st1)
      | (Inr (Inr True), st1) \<Rightarrow> (Inr (Inr r), st1)
      | (Inr (Inr False), st1) \<Rightarrow>
          (case replan_model env st1 of
             (Inl e, st2) \<Rightarrow> (Inl e, st2)
           | (Inr r2, st2) \<Rightarrow> lint_loop env r2 st2))"
  by pat_completeness auto

lemma lint_once_replans: "replans (snd (lint_once env r st)) = replans st"
proof -
  have "keeps (\<lambda>st st'. replans st' = replans st) (lint_once env r)"
    unfolding lint_once_def clarification_def log_lint_def by (intro keep_intros)
  then show ?thesis by (simp add: keeps_def)
qed

termination lint_loop
proof (relation "measure (\<lambda>(env, r, st). Suc (max_replans env) - replans st)", goal_cases)
  case (2 env r st x st1 b ba xa st2 r2)
  then have "lint_once env r st = (x, st1)" "replan_model env st1 = (Inr r2, st2)" by simp_all
  with lint_once_replans [of env r st] replan_model_budget [of env st1] show ?case by fastforce
qed simp

definition plan_irreversible :: "turn_plan \<Rightarrow> bool" where
  "plan_irreversible plan = list_ex ps_irreversible (pl_steps plan)"

definition plan_call :: "string \<Rightarrow> loop_call" where
  "plan_call tool = \<lparr>lc_name = tool, lc_args = [], lc_source = None\<rparr>"

definition run_step :: "'w turn_env \<Rightarrow> turn_plan \<Rightarrow> nat \<Rightarrow> ('w, bool) act" where
  "run_step env plan i =
     andThen (upd (\<lambda>st. st\<lparr>tn_nextStep := int i\<rparr>)) (\<lambda>_.
     andThen (each (\<lambda>tool. andThen (dispatch_call env (plan_call tool)) (\<lambda>_. ret ())) (ps_tools (pl_steps plan ! i))) (\<lambda>_.
     runProbe env (ps_trace (pl_steps plan ! i))))"

definition close_step :: "'w turn_env \<Rightarrow> nat \<Rightarrow> ('w, unit) act" where
  "close_step env i =
     andThen (log_event (te_d env) ''step.verified'' (JObj [(''stepIndex'', JNum (int i))])) (\<lambda>_.
     andThen (upd (\<lambda>st. st\<lparr>tn_nextStep := int (i + 1)\<rparr>)) (\<lambda>_.
     checkpoint (te_d env) (te_i env) False))"

datatype replan_outcome = ReClarify turn_result | RePlan turn_plan model_response | ReFree model_response

definition adopt_replan :: "'w turn_env \<Rightarrow> model_response \<Rightarrow> ('w, replan_outcome) act" where
  "adopt_replan env r =
     (if mr_interpretations r > 1 then andThen (clarification env r) (\<lambda>res. ret (ReClarify res))
      else
        (case mr_plan r of
           None \<Rightarrow> ret (ReFree r)
         | Some plan \<Rightarrow>
             andThen (log_lint env (lintPlan plan)) (\<lambda>_.
             if lintPlan plan \<noteq> None then raise (Halt HaltLint)
             else andThen (upd (\<lambda>st. st\<lparr>tn_nextStep := 0\<rparr>)) (\<lambda>_.
                  andThen (checkpoint (te_d env) (te_i env) False) (\<lambda>_.
                  ret (RePlan plan r))))))"

definition fail_step :: "'w turn_env \<Rightarrow> nat \<Rightarrow> ('w, replan_outcome) act" where
  "fail_step env i =
     andThen (log_event (te_d env) ''step.failed'' (JObj [(''stepIndex'', JNum (int i))])) (\<lambda>_.
     andThen (replan_model env) (adopt_replan env))"

function exec_plan :: "'w turn_env \<Rightarrow> turn_plan \<Rightarrow> nat \<Rightarrow> model_response \<Rightarrow>
    ('w, turn_result + (turn_plan option \<times> nat \<times> model_response)) act" where
  "exec_plan env plan i r st =
     (if i < length (pl_steps plan) then
        (case run_step env plan i st of
           (Inl e, st1) \<Rightarrow> (Inl e, st1)
         | (Inr True, st1) \<Rightarrow>
             (case close_step env i st1 of
                (Inl e, st2) \<Rightarrow> (Inl e, st2)
              | (Inr _, st2) \<Rightarrow> exec_plan env plan (i + 1) r st2)
         | (Inr False, st1) \<Rightarrow>
             (case fail_step env i st1 of
                (Inl e, st2) \<Rightarrow> (Inl e, st2)
              | (Inr (ReClarify res), st2) \<Rightarrow> (Inr (Inl res), st2)
              | (Inr (RePlan plan2 r2), st2) \<Rightarrow> exec_plan env plan2 0 r2 st2
              | (Inr (ReFree r2), st2) \<Rightarrow> (Inr (Inr (None, i, r2)), st2)))
      else (Inr (Inr (Some plan, i, r)), st))"
  by pat_completeness auto

lemma step_replans:
  "replans (snd (run_step env plan i st)) = replans st" "replans (snd (close_step env i st)) = replans st"
  "replans (snd (adopt_replan env r st)) = replans st"
proof -
  let ?R = "\<lambda>(st :: 'a turn) st'. replans st' = replans st"
  have "keeps ?R (run_step env plan i)" unfolding run_step_def runProbe_def
    by (intro keep_intros replan_frame.keeps_dispatch replan_frame.frame_books) simp
  moreover have "keeps ?R (close_step env i)" unfolding close_step_def
    by (intro keep_intros replan_frame.frame_books)
  moreover have "keeps ?R (adopt_replan env r)" unfolding adopt_replan_def clarification_def log_lint_def
    by (intro keep_intros replan_frame.frame_books)
  ultimately show "replans (snd (run_step env plan i st)) = replans st" "replans (snd (close_step env i st)) = replans st"
    "replans (snd (adopt_replan env r st)) = replans st" by (simp_all add: keeps_def)
qed

lemma fail_step_budget:
  assumes "fail_step env i st = (Inr out, st1)"
  shows "replans st1 = Suc (replans st) \<and> replans st1 \<le> max_replans env"
proof -
  let ?l = "log_event (te_d env) ''step.failed'' (JObj [(''stepIndex'', JNum (int i))]) st"
  have "replans (snd ?l) = replans st" using replan_frame.keeps_log_event unfolding keeps_def by blast
  moreover from assms obtain st2 r st3 where "?l = (Inr (), st2)" "replan_model env st2 = (Inr r, st3)" "adopt_replan env r st3 = (Inr out, st1)"
    by (auto simp: fail_step_def andThen_def split: prod.splits sum.splits)
  ultimately show ?thesis using replan_model_budget [of env st2 r st3] step_replans(3) [of env r st3] by auto
qed

termination exec_plan
proof (relation "measures [\<lambda>(env, plan, i, r, st). Suc (max_replans env) - replans st, \<lambda>(env, plan, i, r, st). length (pl_steps plan) - i]",
    goal_cases)
  case (2 env plan i r st x st1 b xa st2 u)
  then have "run_step env plan i st = (x, st1)" "close_step env i st1 = (xa, st2)" by simp_all
  with 2 show ?case using step_replans(1) [of env plan i st] step_replans(2) [of env i st1] by auto
next
  case (3 env plan i r st x st1 b xa st2 out plan2 r2)
  then have "run_step env plan i st = (x, st1)" "fail_step env i st1 = (Inr (RePlan plan2 r2), st2)" by simp_all
  with step_replans(1) [of env plan i st] fail_step_budget [of env i st1] show ?case by fastforce
qed simp

fun dispatch_all :: "'w turn_env \<Rightarrow> loop_call list \<Rightarrow> ('w, loop_span list) act" where
  "dispatch_all env [] = ret []"
| "dispatch_all env (call # calls) =
     andThen (dispatch_call env call) (\<lambda>d.
     andThen (dispatch_all env calls) (\<lambda>rest.
     ret (case d of None \<Rightarrow> rest | Some sp \<Rightarrow> sp # rest)))"

definition grown_convo :: "loop_span list \<Rightarrow> model_response \<Rightarrow> loop_span list \<Rightarrow> loop_span list" where
  "grown_convo convo r results =
     convo @ (if trim (mr_reply r) \<noteq> [] then [\<lparr>ls_role = RoleAssistant, ls_provenance = LpUntrusted, ls_text = mr_reply r\<rparr>] else []) @ results"

function runToolRounds :: "'w turn_env \<Rightarrow> nat \<Rightarrow> loop_span list \<Rightarrow> model_response \<Rightarrow>
    ('w, nat \<times> loop_span list \<times> model_response) act" where
  "runToolRounds env rounds convo r st =
     (if mr_toolCalls r \<noteq> [] \<and> rounds < MAX_SYNTHESIS_ROUNDS then
        (case dispatch_all env (mr_toolCalls r) st of
           (Inl e, st1) \<Rightarrow> (Inl e, st1)
         | (Inr results, st1) \<Rightarrow>
             if results = [] then (Inr (rounds, convo, r), st1)
             else
               (case callModel env (grown_convo convo r results) st1 of
                  (Inl e, st2) \<Rightarrow> (Inl e, st2)
                | (Inr r2, st2) \<Rightarrow> runToolRounds env (rounds + 1) (grown_convo convo r results) r2 st2))
      else (Inr (rounds, convo, r), st))"
  by pat_completeness auto

termination runToolRounds
  by (relation "measure (\<lambda>(env, rounds, convo, r, st). MAX_SYNTHESIS_ROUNDS - rounds)") auto

definition turn_usage_of :: "'w turn \<Rightarrow> turn_usage option" where
  "turn_usage_of st = (if us_input (tn_usage st) > 0 \<or> us_output (tn_usage st) > 0 then Some (tn_usage st) else None)"

definition contract_now :: "'w turn_env \<Rightarrow> 'w turn \<Rightarrow> contract_verdict" where
  "contract_now env st = evaluateActionContract (te_contract env) (tn_evidence st) False"

definition unverified_end :: "'w turn_env \<Rightarrow> contract_verdict \<Rightarrow> ('w, turn_result) act" where
  "unverified_end env verdict =
     (let kind = ak_kind (te_contract env); reply = naturalUnverifiedReply kind in
     andThen (log_event (te_d env) ''action.unverified''
       (JObj [(''kind'', JStr (kind_text kind)), (''missing'', JStr (missing_text (av_missing verdict)))])) (\<lambda>_.
     andThen (log_event (te_d env) ''turn.end'' (JObj [(''state'', JStr ''ok''), (''actionStatus'', JStr ''unverified'')])) (\<lambda>_.
     andThen (checkpoint (te_d env) (te_i env) True) (\<lambda>_.
     andThen (recordSpan (te_d env) (te_i env) \<lparr>ls_role = RoleAssistant, ls_provenance = LpOperator, ls_text = reply\<rparr>) (\<lambda>_.
     andThen (look (\<lambda>st. (ss_narrowed (tn_sess st), turn_usage_of st))) (\<lambda>(narrowed, usage).
     ret ((plain_result reply TsOk)\<lparr>rs_narrowed := Some narrowed, rs_usage := usage, rs_contractKind := Some kind, rs_verified := Some False\<rparr>)))))))"

definition recover_action :: "'w turn_env \<Rightarrow> contract_verdict \<Rightarrow> nat \<Rightarrow> loop_span list \<Rightarrow> ('w, model_response) act" where
  "recover_action env verdict rounds convo =
     (let kind = ak_kind (te_contract env);
          sp = \<lparr>ls_role = RoleSystem, ls_provenance = LpOperator, ls_text = actionRecoveryInstruction (te_contract env) verdict\<rparr> in
     andThen (log_event (te_d env) ''action.recovery''
       (JObj [(''kind'', JStr (kind_text kind)), (''missing'', JStr (missing_text (av_missing verdict)))])) (\<lambda>_.
     andThen (whenever (av_missing verdict \<noteq> MissNone) (emitProgress (te_d env) (te_i env) (ContractRecovery kind (av_missing verdict)))) (\<lambda>_.
     andThen (recordSpan (te_d env) (te_i env) sp) (\<lambda>_.
     andThen (callModel env (convo @ [sp])) (\<lambda>r.
     andThen (runToolRounds env rounds (convo @ [sp]) r) (\<lambda>(rounds2, convo2, r2).
     ret r2))))))"

text \<open>The free-form part: \<open>Inl\<close> is the result of an action that stayed unverified.\<close>

definition free_form :: "'w turn_env \<Rightarrow> model_response \<Rightarrow> ('w, turn_result + model_response) act" where
  "free_form env r =
     andThen (runToolRounds env 0 [] r) (\<lambda>(rounds, convo, r1).
     andThen (look (contract_now env)) (\<lambda>verdict.
     andThen (if \<not> av_satisfied verdict \<and> ak_kind (te_contract env) \<noteq> AnswerOnly then recover_action env verdict rounds convo
        else ret r1) (\<lambda>r2.
     andThen (look (contract_now env)) (\<lambda>verdict2.
     if av_satisfied verdict2 then ret (Inr r2)
     else andThen (unverified_end env verdict2) (\<lambda>res. ret (Inl res))))))"

definition delivery_of :: "jv \<Rightarrow> string option" where
  "delivery_of v =
     (case v of
        JObj [(k, JStr e)] \<Rightarrow> if k = ''evidenceId'' \<and> hex64 e then Some e else None
      | _ \<Rightarrow> None)"

definition commit_workflow :: "'w turn_env \<Rightarrow> bool \<Rightarrow> ('w, unit) act" where
  "commit_workflow env satisfied = (\<lambda>st.
     case (ld_workflow (te_d env), ti_turnId (te_i env)) of
       (Some wo, Some turnId) \<Rightarrow>
         if actionRequired env \<and> satisfied \<and> tn_eligible st \<and> tn_steps st \<noteq> [] \<and> \<not> ss_narrowed (tn_sess st) then
           (let count = JObj [(''steps'', JNum (int (length (tn_steps st))))] in
            handle
              (andThen (await (\<lambda>w. wo_commit wo w (ti_sessionId (te_i env)) turnId (tn_steps st))) (\<lambda>v.
               andThen (upd (\<lambda>st. st\<lparr>tn_delivery := delivery_of v\<rparr>)) (\<lambda>_.
               log_event (te_d env) ''verified-workflow.committed'' count)))
              (\<lambda>_. log_event (te_d env) ''verified-workflow.failed'' count) st)
         else ret () st
     | _ \<Rightarrow> ret () st)"

definition finish :: "'w turn_env \<Rightarrow> model_response \<Rightarrow> bool \<Rightarrow> ('w, turn_result) act" where
  "finish env r planVerified =
     andThen (look (\<lambda>st. av_satisfied (evaluateActionContract (te_contract env) (tn_evidence st) planVerified))) (\<lambda>satisfied.
     andThen (commit_workflow env satisfied) (\<lambda>_.
     andThen (log_event (te_d env) ''turn.end'' (JObj ((''state'', JStr ''ok'') # (if actionRequired env
        then [(''actionStatus'', JStr (if satisfied then ''verified'' else ''unverified''))] else [])))) (\<lambda>_.
     andThen (checkpoint (te_d env) (te_i env) True) (\<lambda>_.
     look (\<lambda>st. (plain_result (renderTerminalReply (ld_texts (te_d env)) (mr_reply r) (map_values (tn_acks st)) (tn_grounded st)) TsOk)
       \<lparr>rs_narrowed := Some (ss_narrowed (tn_sess st)), rs_usage := turn_usage_of st, rs_delivery := tn_delivery st,
        rs_contractKind := (if actionRequired env then Some (ak_kind (te_contract env)) else None),
        rs_verified := (if actionRequired env then Some satisfied else None)\<rparr>)))))"

definition free_then_finish :: "'w turn_env \<Rightarrow> model_response \<Rightarrow> ('w, turn_result) act" where
  "free_then_finish env r =
     andThen (free_form env r) (\<lambda>x. case x of Inl res \<Rightarrow> ret res | Inr r1 \<Rightarrow> finish env r1 False)"

definition await_approval :: "'w turn_env \<Rightarrow> turn_plan \<Rightarrow> model_response \<Rightarrow> ('w, turn_result) act" where
  "await_approval env plan r =
     andThen (log_event (te_d env) ''plan.gate'' (JObj [(''tier'', JNum 3)])) (\<lambda>_.
     andThen (checkpoint (te_d env) (te_i env) True) (\<lambda>_.
     ret ((plain_result (mr_reply r) TsApproval)\<lparr>rs_planHash := Some (planHash (te_d env) plan)\<rparr>)))"

definition plan_verified :: "turn_plan option \<Rightarrow> nat \<Rightarrow> bool" where
  "plan_verified planOpt i = (case planOpt of None \<Rightarrow> False | Some plan \<Rightarrow> pl_steps plan \<noteq> [] \<and> i \<ge> length (pl_steps plan))"

definition after_plan :: "'w turn_env \<Rightarrow> turn_result + (turn_plan option \<times> nat \<times> model_response) \<Rightarrow> ('w, turn_result) act" where
  "after_plan env x =
     (case x of
        Inl res \<Rightarrow> ret res
      | Inr (planOpt, i, r) \<Rightarrow>
          if planOpt = None \<or> actionRequired env \<and> \<not> plan_verified planOpt i \<and> map_option pl_steps planOpt = Some []
          then free_then_finish env r
          else finish env r (plan_verified planOpt i))"

definition turn_body :: "'w turn_env \<Rightarrow> nat \<Rightarrow> ('w, turn_result) act" where
  "turn_body env startStep =
     andThen (callModel env []) (\<lambda>r0.
     andThen (lint_loop env r0) (\<lambda>linted.
     case linted of
       Inl res \<Rightarrow> ret res
     | Inr r \<Rightarrow>
         (case mr_plan r of
            None \<Rightarrow> free_then_finish env r
          | Some plan \<Rightarrow>
              if plan_irreversible plan \<and> ti_approvalToken (te_i env) \<noteq> Some (planHash (te_d env) plan) then await_approval env plan r
              else
                andThen (exec_plan env plan startStep r) (after_plan env))))"

definition halt_text :: "halt_reason \<Rightarrow> string" where
  "halt_text h = (case h of HaltGuardian \<Rightarrow> ''loop-guardian'' | HaltProviders \<Rightarrow> ''all-providers-down'' | HaltLint \<Rightarrow> ''plan-lint-failed''
     | HaltCap \<Rightarrow> ''cap-exceeded'' | HaltBudget \<Rightarrow> ''budget-capped'' | HaltStopped \<Rightarrow> ''stopped'')"

definition halted :: "'w turn_env \<Rightarrow> stop \<Rightarrow> ('w, turn_result) act" where
  "halted env e =
     (case e of
        Threw _ \<Rightarrow> raise e
      | Halt why \<Rightarrow>
          andThen (log_event (te_d env) ''turn.end'' (JObj [(''state'', JStr ''halted''), (''haltReason'', JStr (halt_text why))])) (\<lambda>_.
          andThen (checkpoint (te_d env) (te_i env) True) (\<lambda>_.
          look (\<lambda>st. (plain_result [] TsHalted)\<lparr>rs_haltReason := Some why, rs_narrowed := Some (ss_narrowed (tn_sess st)),
            rs_usage := turn_usage_of st\<rparr>))))"

section \<open>Before the first model call\<close>

definition set_session :: "(session_state \<Rightarrow> session_state) \<Rightarrow> ('w, unit) act" where
  "set_session f = upd (\<lambda>st. st\<lparr>tn_sess := f (tn_sess st)\<rparr>)"

text \<open>The result is the step at which the plan resumes.\<close>

definition resume_turn :: "'w loop_deps \<Rightarrow> 'w turn_input \<Rightarrow> ('w, nat) act" where
  "resume_turn d inp =
     andThen (look (\<lambda>st. ld_resume d (tn_world st) (ti_sessionId inp) (ti_turnId inp))) (\<lambda>resumed.
     case resumed of
       None \<Rightarrow> raise (Threw OtherError)
     | Some rs \<Rightarrow>
         (let (startStep, ordinal) = (case rs of InProgress n o1 \<Rightarrow> (n, o1) | NotInProgress \<Rightarrow> (0, 0)) in
          if \<not> isSafeInteger ordinal \<or> ordinal < 0 then raise (Threw OtherError)
          else andThen (upd (\<lambda>st. st\<lparr>tn_ordinal := ordinal, tn_nextStep := int startStep, tn_highWater := ordinal\<rparr>)) (\<lambda>_.
               ret startStep)))"

definition extend_prefix :: "'w loop_deps \<Rightarrow> string \<Rightarrow> frozen_snapshot \<Rightarrow> frozen_snapshot" where
  "extend_prefix d extension base =
     (if extension = [] then base
      else base\<lparr>fs_prefixBytes := fs_prefixBytes base @ extension, fs_prefixHash := ld_H d (fs_prefixBytes base @ extension)\<rparr>)"

definition load_snapshot :: "'w loop_deps \<Rightarrow> ('w, unit) act" where
  "load_snapshot d =
     andThen (port (ld_snapshot d)) (\<lambda>loaded.
     andThen (look (\<lambda>st. ld_now d (tn_world st))) (\<lambda>now.
     andThen (case ld_prefixExtension d of None \<Rightarrow> ret None | Some f \<Rightarrow> port f) (\<lambda>extension.
     (let base = (case loaded of None \<Rightarrow> coldStartSnapshot now | Some sn \<Rightarrow> sn);
          sn = (case extension of None \<Rightarrow> base | Some x \<Rightarrow> extend_prefix d x base) in
      andThen (set_session (\<lambda>s. s\<lparr>ss_snapshot := Some sn, ss_coldStart := ss_coldStart s \<or> loaded = None, ss_loaded := True\<rparr>)) (\<lambda>_.
      andThen (look (\<lambda>st. ss_coldStart (tn_sess st))) (\<lambda>cold.
      log_event d ''snapshot.frozen'' (JObj [(''prefixHash'', JStr (fs_prefixHash sn)), (''coldStart'', JBool cold)])))))))"

definition start_transcript :: "'w loop_deps \<Rightarrow> 'w turn_input \<Rightarrow> ('w, loop_span list) act" where
  "start_transcript d inp =
     (case ld_recorder d of
        None \<Rightarrow> ret []
      | Some rc \<Rightarrow>
          andThen (look tn_sess) (\<lambda>s.
          andThen (if ss_transcriptStarted s then ret ()
             else andThen (await (\<lambda>w. rc_start rc w (ti_sessionId inp) (the (ss_snapshot s)))) (\<lambda>sn.
               set_session (\<lambda>s. s\<lparr>ss_snapshot := Some sn, ss_transcriptStarted := True\<rparr>))) (\<lambda>_.
          await (\<lambda>w. rc_history rc w (ti_sessionId inp)))))"

definition narrowing_of :: "loop_span list \<Rightarrow> loop_span list \<Rightarrow> bool \<Rightarrow> bool" where
  "narrowing_of history spans before =
     (if list_ex (\<lambda>sp. ls_provenance sp = LpUntrusted) (filter (\<lambda>sp. ls_role sp \<noteq> RoleAssistant) history @ spans) then True
      else if list_ex (\<lambda>sp. ls_provenance sp = LpOperator) spans then False
      else before)"

definition forget_span :: "'w loop_deps \<Rightarrow> loop_span \<Rightarrow> ('w, unit) act" where
  "forget_span d sp =
     (if ls_provenance sp \<noteq> LpOperator then ret ()
      else
        (case forget_ref (ls_text sp) of
           None \<Rightarrow> ret ()
         | Some r \<Rightarrow>
             andThen (port (\<lambda>w. ld_forget d w r True)) (\<lambda>ok.
             if \<not> ok then raise (Threw OtherError)
             else andThen (set_session (\<lambda>s. s\<lparr>ss_quarantined := List.insert r (ss_quarantined s)\<rparr>)) (\<lambda>_.
                  log_event d ''forget.requested'' (JObj [(''ref'', JStr r)])))))"

definition reason_code :: "contract_kind \<Rightarrow> string" where
  "reason_code k = (case k of AnswerOnly \<Rightarrow> ''ANSWER'' | InspectRequired \<Rightarrow> ''INSPECT_VERB'' | MutateRequired \<Rightarrow> ''MUTATE_VERB''
     | DelegateRequired \<Rightarrow> ''DELEGATE_VERB'')"

definition contract_jv :: "action_contract \<Rightarrow> jv" where
  "contract_jv ct = JObj ([(''kind'', JStr (kind_text (ak_kind ct))), (''reasonCode'', JStr (reason_code (ak_kind ct)))] @
     (if ak_requiresMutation ct then [(''requiresMutation'', JBool True)] else []))"

definition contract_spans :: "action_contract \<Rightarrow> loop_span list" where
  "contract_spans ct =
     (if ak_kind ct = AnswerOnly then []
      else [\<lparr>ls_role = RoleSystem, ls_provenance = LpOperator, ls_text = actionRecoveryInstruction ct (evaluateActionContract ct [] False)\<rparr>])"

definition announce_contract :: "'w loop_deps \<Rightarrow> 'w turn_input \<Rightarrow> action_contract \<Rightarrow> ('w, unit) act" where
  "announce_contract d inp ct =
     andThen (log_event d ''action.contract'' (contract_jv ct)) (\<lambda>_.
     andThen (whenever (ak_kind ct \<noteq> AnswerOnly) (emitProgress d inp (ContractKnown (ak_kind ct)))) (\<lambda>_.
     each (recordSpan d inp) (contract_spans ct)))"

definition prepare_turn :: "'w loop_deps \<Rightarrow> 'w turn_input \<Rightarrow> ('w, 'w turn_env) act" where
  "prepare_turn d inp =
     andThen (look (\<lambda>st. ss_loaded (tn_sess st))) (\<lambda>loaded.
     andThen (if loaded then ret () else load_snapshot d) (\<lambda>_.
     andThen (start_transcript d inp) (\<lambda>history.
     andThen (look (\<lambda>st. the (ss_snapshot (tn_sess st)))) (\<lambda>snapshot.
     andThen (each (recordSpan d inp) (ti_spans inp)) (\<lambda>_.
     andThen (log_event d ''prompt.assembled'' (JObj [(''prefixHash'', JStr (fs_prefixHash snapshot)),
        (''breakpoints'', JNum (int (length (take 4 (fs_breakpoints snapshot)))))])) (\<lambda>_.
     andThen (set_session (\<lambda>s. s\<lparr>ss_narrowed := narrowing_of history (ti_spans inp) (ss_narrowed s)\<rparr>)) (\<lambda>_.
     andThen (look (\<lambda>st. ss_narrowed (tn_sess st))) (\<lambda>narrowed.
     andThen (emitProgress d inp (OutboundLockout narrowed)) (\<lambda>_.
     andThen (emitProgress d inp TurnStarted) (\<lambda>_.
     andThen (each (forget_span d) (ti_spans inp)) (\<lambda>_.
     andThen (upd (\<lambda>st. st\<lparr>tn_grounded := list_ex (grounds_inbound (ld_texts d)) (ti_spans inp)\<rparr>)) (\<lambda>_.
     (let ct = classifyActionContract (ld_verbs d) (ti_spans inp) in
      andThen (announce_contract d inp ct) (\<lambda>_.
      ret \<lparr>te_deps = d, te_input = inp, te_snapshot = snapshot, te_history = projectHistoryForProvider (ld_texts d) history,
           te_contract = ct, te_contractSpans = contract_spans ct\<rparr>))))))))))))))"

section \<open>A turn of a session\<close>

record 'w agent_loop =
  lp_world :: 'w
  lp_seq :: nat
  lp_sessions :: "(string, session_state) jsmap"

definition session_of :: "'w agent_loop \<Rightarrow> string \<Rightarrow> session_state" where
  "session_of lp sid = (case map_of (lp_sessions lp) sid of None \<Rightarrow> fresh_session | Some s \<Rightarrow> s)"

definition start_turn :: "'w agent_loop \<Rightarrow> 'w turn_input \<Rightarrow> 'w turn" where
  "start_turn lp inp =
     \<lparr>tn_world = lp_world lp, tn_seq = lp_seq lp, tn_sess = session_of lp (ti_sessionId inp), tn_transcriptOrdinal = 0, tn_ordinal = 0,
      tn_nextStep = 0, tn_highWater = 0, tn_usage = \<lparr>us_input = 0, us_output = 0, us_dollars = ''0''\<rparr>, tn_effect = False,
      tn_evidence = [], tn_acks = [], tn_grounded = False, tn_steps = [], tn_eligible = True, tn_delivery = None, tn_trace = []\<rparr>"

definition turn_main :: "'w loop_deps \<Rightarrow> 'w turn_input \<Rightarrow> ('w, turn_result) act" where
  "turn_main d inp =
     andThen (resume_turn d inp) (\<lambda>startStep.
     andThen (checkpoint d inp False) (\<lambda>_.
     andThen (log_event d ''turn.start'' (JObj [(''sessionId'', JStr (ti_sessionId inp))])) (\<lambda>_.
     andThen (prepare_turn d inp) (\<lambda>env.
     handle (turn_body env startStep) (halted env)))))"

definition no_identity :: "string option \<Rightarrow> bool" where
  "no_identity x \<longleftrightarrow> x = None \<or> x = Some []"

definition lacks_identity :: "'w loop_deps \<Rightarrow> 'w turn_input \<Rightarrow> bool" where
  "lacks_identity d inp \<longleftrightarrow> ld_recorder d \<noteq> None \<and> (no_identity (ti_turnId inp) \<or> no_identity (ti_turnTs inp))"

definition runTurn :: "'w loop_deps \<Rightarrow> 'w agent_loop \<Rightarrow> 'w turn_input \<Rightarrow> (stop + turn_result) \<times> 'w agent_loop" where
  "runTurn d lp inp =
     (if lacks_identity d inp then (Inl (Threw OtherError), lp)
      else
        (case turn_main d inp (start_turn lp inp) of
           (r, st) \<Rightarrow> (r, \<lparr>lp_world = tn_world st, lp_seq = tn_seq st,
             lp_sessions = AList.update (ti_sessionId inp) (tn_sess st) (lp_sessions lp)\<rparr>)))"

end
