(* ===== verification/Agent_Loop_Run.thy ===== *)
theory Agent_Loop_Run
  imports Agent_Loop
begin

text \<open>
  What every turn of the agent loop respects. The locale \<open>loop_frame\<close> lifts a frame of the single operations to the loops and to
  the whole body of a turn, by way of \<open>lint_frame\<close> for the planning that runs no tool and \<open>plan_frame\<close> for plans; its interpretations are the invariants of the trace, the tool budget and the number of
  model calls. The properties of turns follow from them.
\<close>

declare lint_loop.simps [simp del] exec_plan.simps [simp del] runToolRounds.simps [simp del]

section \<open>Frames of a whole turn\<close>

locale lint_frame = turn_frame R for R :: "'w turn \<Rightarrow> 'w turn \<Rightarrow> bool" +
  fixes env :: "'w turn_env"
  assumes frame_replan: "keeps R (replan_model env)"
begin

lemma keeps_lint_once [keep_intros]: "keeps R (lint_once env r)" "keeps R (clarification env r)" "keeps R (adopt_replan env r)"
  unfolding lint_once_def clarification_def log_lint_def adopt_replan_def by (intro keep_intros frame_books)+

lemma keepsD: "keeps R m \<Longrightarrow> m st = (x, st1) \<Longrightarrow> R st st1"
  unfolding keeps_def by (metis snd_conv)

lemma lint_loop_frame: "e = env \<Longrightarrow> R st (snd (lint_loop e r st))"
proof (induction e r st rule: lint_loop.induct)
  case (1 e r st)
  show ?case
  proof (cases "lint_once env r st")
    case (Pair x st1)
    note st1 = keepsD [OF keeps_lint_once(1) Pair]
    show ?thesis
    proof (cases "x = Inr (Inr False)")
      case True
      obtain y st2 where y: "replan_model env st1 = (y, st2)" by fastforce
      note st2 = frame_trans [OF st1 keepsD [OF frame_replan y]]
      have IH: "R st2 (snd (lint_loop env r2 st2))" if "y = Inr r2" for r2
        using 1(1) [of x st1 "Inr False" False y st2 r2] 1(2) True y that Pair by auto
      show ?thesis using 1(2) Pair True y st2 frame_trans [OF st2 IH] by (cases y) (auto simp: lint_loop.simps [of env r st])
    next
      case False
      with 1(2) Pair st1 show ?thesis by (auto simp: lint_loop.simps [of env r st] split: sum.splits bool.splits)
    qed
  qed
qed

lemma keeps_lint_loop [keep_intros]: "keeps R (lint_loop env r)"
  by (simp add: keeps_def lint_loop_frame)

end

locale plan_frame = lint_frame R env for R :: "'w turn \<Rightarrow> 'w turn \<Rightarrow> bool" and env :: "'w turn_env" +
  assumes frame_dispatch: "keeps R (dispatch_call env call)"
begin

lemma keeps_steps [keep_intros]: "keeps R (run_step env plan i)" "keeps R (close_step env i)" "keeps R (fail_step env i)" "keeps R (runProbe env t)"
  unfolding run_step_def close_step_def fail_step_def runProbe_def
  by (intro keep_intros frame_books frame_dispatch frame_replan; simp)+

lemma exec_plan_frame: "e = env \<Longrightarrow> R st (snd (exec_plan e plan i r st))"
proof (induction e plan i r st rule: exec_plan.induct)
  case (1 e plan i r st)
  obtain x st1 where x: "run_step env plan i st = (x, st1)" by fastforce
  note st1 = keepsD [OF keeps_steps(1) x]
  obtain y st2 where y: "close_step env i st1 = (y, st2)" by fastforce
  note st2 = frame_trans [OF st1 keepsD [OF keeps_steps(2) y]]
  obtain z st3 where z: "fail_step env i st1 = (z, st3)" by fastforce
  note st3 = frame_trans [OF st1 keepsD [OF keeps_steps(3) z]]
  show ?case
  proof (cases "i < length (pl_steps plan) \<and> \<not> isl x")
    case True
    then obtain b where b: "x = Inr b" by (cases x) auto
    show ?thesis
    proof (cases b)
      case True
      with 1 x b y \<open>i < _ \<and> _\<close> st2 frame_trans [OF st2] show ?thesis by (cases y) (auto simp: exec_plan.simps [of env plan i r st])
    next
      case False
      with 1 x b z \<open>i < _ \<and> _\<close> st3 frame_trans [OF st3] show ?thesis
        by (cases z) (auto simp: exec_plan.simps [of env plan i r st] split: replan_outcome.splits)
    qed
  next
    case False
    with 1(3) x st1 frame_refl show ?thesis by (cases x) (auto simp: exec_plan.simps [of env plan i r st])
  qed
qed

lemma keeps_exec_plan [keep_intros]: "keeps R (exec_plan env plan i r)"
  by (simp add: keeps_def exec_plan_frame)

lemma keeps_dispatch_all [keep_intros]: "keeps R (dispatch_all env calls)"
  by (induction calls) (auto intro!: keep_intros frame_dispatch)

end

locale loop_frame = model_frame R for R :: "'w turn \<Rightarrow> 'w turn \<Rightarrow> bool" +
  fixes env :: "'w turn_env"
  assumes frame_tool: "keeps R (dispatch_call env call)"
    and frame_count: "R st (st\<lparr>tn_sess := (tn_sess st)\<lparr>ss_totalReplans := ss_totalReplans (tn_sess st) + 1\<rparr>\<rparr>)"

sublocale loop_frame \<subseteq> plan_frame R env
proof unfold_locales
  show "keeps R (replan_model env)" unfolding replan_model_def enterReplan_def by (intro keep_intros frame_count)
qed (rule frame_tool)

context loop_frame
begin

lemma runToolRounds_frame: "e = env \<Longrightarrow> R st (snd (runToolRounds e rounds convo r st))"
proof (induction e rounds convo r st rule: runToolRounds.induct)
  case (1 e rounds convo r st)
  obtain x st1 where x: "dispatch_all env (mr_toolCalls r) st = (x, st1)" by fastforce
  note st1 = keepsD [OF keeps_dispatch_all x]
  show ?case
  proof (cases x)
    case (Inr results)
    obtain y st2 where y: "callModel env (grown_convo convo r results) st1 = (y, st2)" by fastforce
    note st2 = frame_trans [OF st1 keepsD [OF keeps_model(2) y]]
    from 1 x Inr y st1 st2 frame_trans [OF st2] frame_refl show ?thesis
      by (cases y) (auto simp: runToolRounds.simps [of env rounds convo r st])
  qed (use 1(2) x st1 frame_refl in \<open>auto simp: runToolRounds.simps [of env rounds convo r st]\<close>)
qed

lemma keeps_runToolRounds [keep_intros]: "keeps R (runToolRounds env rounds convo r)"
  by (simp add: keeps_def runToolRounds_frame)

lemma keeps_endings [keep_intros]:
  "keeps R (unverified_end env v)" "keeps R (recover_action env v rounds convo)" "keeps R (await_approval env plan r)" "keeps R (halted env e)"
  unfolding unverified_end_def recover_action_def await_approval_def halted_def Let_def
  by (intro keep_intros; (simp split: stop.split)?; (intro conjI allI impI)?; intro keep_intros)+

lemma keeps_free_form [keep_intros]: "keeps R (free_form env r)"
  unfolding free_form_def by (intro keep_intros)

lemma keeps_commit [keep_intros]: "keeps R (commit_workflow env b)"
proof -
  have *: "keeps R (handle (andThen (await (\<lambda>w. wo_commit wo w sid t steps)) (\<lambda>v. andThen (upd (\<lambda>st. st\<lparr>tn_delivery := delivery_of v\<rparr>))
      (\<lambda>_. log_event d k p))) (\<lambda>_. log_event d k2 p))" for wo sid t steps d k k2 p
    by (intro keep_intros frame_books)
  show ?thesis unfolding keeps_def commit_workflow_def Let_def
    by (auto simp: ret_def frame_refl intro: * [unfolded keeps_def, rule_format] split: option.split)
qed

lemma keeps_finish [keep_intros]: "keeps R (finish env r b)" "keeps R (free_then_finish env r)"
  unfolding free_then_finish_def finish_def by (intro keep_intros)+

theorem keeps_turn_body [keep_intros]: "keeps R (turn_body env startStep)"
  unfolding turn_body_def after_plan_def by (intro keep_intros)

end

section \<open>The invariant of the trace\<close>

fun is_execute :: "turn_event \<Rightarrow> bool" where
  "is_execute (EvExecute _ _) = True"
| "is_execute _ = False"

definition executions :: "turn_event list \<Rightarrow> nat" where
  "executions tr = length (filter is_execute tr)"

definition under_cap :: "'w loop_deps \<Rightarrow> nat \<Rightarrow> bool" where
  "under_cap d n = (case ld_maxTotalToolCalls d of None \<Rightarrow> True | Some m \<Rightarrow> n \<le> m)"

definition intent_event :: "loop_call \<Rightarrow> tool_context \<Rightarrow> turn_event" where
  "intent_event call c = EvLog ''step.intent'' (JObj [(''tool'', JStr (lc_name call)), (''ordinal'', JNum (tx_ordinal c))])"

text \<open>
  Why a tool call was run: the gate was asked about it with the context of the turn and admitted this very call, it is
  not motivated by untrusted material in a narrowed session, it names no forgotten reference, and
  its position was checkpointed and its intent logged before, both for the first time.
\<close>

definition gate_admitted :: "'w loop_deps \<Rightarrow> session_state \<Rightarrow> turn_event list \<Rightarrow> loop_call \<Rightarrow> tool_context \<Rightarrow> bool" where
  "gate_admitted d s pre call c \<longleftrightarrow>
     (\<exists>asked v w. EvGate asked (hook_ctx_of asked c (ss_narrowed s)) v \<in> set pre \<and>
        snd (ld_pre d w asked (hook_ctx_of asked c (ss_narrowed s))) = Some v \<and> (v = HvAllow \<and> call = asked \<or> v = HvModify call))"

definition marked :: "'w turn_input \<Rightarrow> int \<Rightarrow> turn_event list \<Rightarrow> bool" where
  "marked inp o1 tr \<longleftrightarrow> EvMark o1 \<in> set tr \<and> (ti_turnId inp = None \<or> (\<exists>i. EvCheckpoint False i o1 \<in> set tr))"

definition execution_ok :: "'w loop_deps \<Rightarrow> 'w turn_input \<Rightarrow> session_state \<Rightarrow> turn_event list \<Rightarrow> loop_call \<Rightarrow> tool_context \<Rightarrow> bool" where
  "execution_ok d inp s pre call c \<longleftrightarrow>
     gate_admitted d s pre call c \<and> \<not> (ss_narrowed s \<and> lc_source call = Some LpUntrusted) \<and> \<not> quarantine_hit s call \<and>
     marked inp (tx_ordinal c) pre \<and> intent_event call c \<in> set pre \<and>
     (\<forall>call' c'. EvExecute call' c' \<in> set pre \<longrightarrow> tx_ordinal c' < tx_ordinal c) \<and>
     tx_sessionId c = ti_sessionId inp \<and> tx_turnId c = ti_turnId inp"

definition trace_ok :: "'w loop_deps \<Rightarrow> 'w turn_input \<Rightarrow> session_state \<Rightarrow> turn_event list \<Rightarrow> bool" where
  "trace_ok d inp s tr \<longleftrightarrow> (\<forall>pre call c post. tr = pre @ EvExecute call c # post \<longrightarrow> execution_ok d inp s pre call c)"

lemma trace_ok_Nil [simp]: "trace_ok d inp s []"
  by (simp add: trace_ok_def)

lemma trace_ok_snoc:
  "trace_ok d inp s (tr @ [e]) \<longleftrightarrow> trace_ok d inp s tr \<and> (case e of EvExecute call c \<Rightarrow> execution_ok d inp s tr call c | _ \<Rightarrow> True)"
proof -
  have "tr @ [e] = pre @ EvExecute call c # post \<longleftrightarrow>
      (pre = tr \<and> e = EvExecute call c \<and> post = []) \<or> (\<exists>post'. tr = pre @ EvExecute call c # post' \<and> post = post' @ [e])" for pre call c post
    by (cases post rule: rev_cases) auto
  then show ?thesis unfolding trace_ok_def by (auto split: turn_event.split)
qed

definition turn_inv :: "'w turn_env \<Rightarrow> session_state \<Rightarrow> int \<Rightarrow> 'w turn \<Rightarrow> bool" where
  "turn_inv env s base st \<longleftrightarrow>
     ss_narrowed (tn_sess st) = ss_narrowed s \<and> ss_quarantined (tn_sess st) = ss_quarantined s \<and> trace_ok (te_d env) (te_i env) s (tn_trace st) \<and>
     base \<le> tn_ordinal st \<and>
     (\<forall>call c. EvExecute call c \<in> set (tn_trace st) \<longrightarrow> base < tx_ordinal c \<and> tx_ordinal c \<le> tn_ordinal st) \<and>
     ss_totalToolCalls s + executions (tn_trace st) \<le> ss_totalToolCalls (tn_sess st) \<and>
     (executions (tn_trace st) = 0 \<or> under_cap (te_d env) (ss_totalToolCalls s + executions (tn_trace st)))"

text \<open>Between the opening of a dispatch and the execution: position \<open>o1\<close> is fresh and the events \<open>P\<close> have happened.\<close>

definition ready :: "'w turn_env \<Rightarrow> session_state \<Rightarrow> int \<Rightarrow> int \<Rightarrow> turn_event set \<Rightarrow> bool \<Rightarrow> 'w turn \<Rightarrow> bool" where
  "ready env s base o1 P counted st \<longleftrightarrow> turn_inv env s base st \<and> base < o1 \<and> o1 \<le> tn_ordinal st \<and> P \<subseteq> set (tn_trace st) \<and>
     (\<forall>call c. EvExecute call c \<in> set (tn_trace st) \<longrightarrow> tx_ordinal c < o1) \<and>
     (counted \<longrightarrow> marked (te_i env) o1 (tn_trace st) \<and> ss_totalToolCalls s + executions (tn_trace st) + 1 \<le> ss_totalToolCalls (tn_sess st) \<and>
        under_cap (te_d env) (ss_totalToolCalls s + executions (tn_trace st) + 1))"

lemma quiet_executions [simp]: "quiet_event e \<Longrightarrow> executions (tr @ [e]) = executions tr" "executions (tr @ [EvModel q]) = executions tr"
  "executions (tr @ [EvExecute call c]) = executions tr + 1"
  by (cases e) (simp_all add: executions_def)

lemma turn_inv_event: "turn_inv env s base st \<Longrightarrow> \<not> is_execute e \<Longrightarrow> turn_inv env s base (st\<lparr>tn_trace := tn_trace st @ [e]\<rparr>)"
  by (cases e) (auto simp: turn_inv_def trace_ok_snoc executions_def)

lemma ready_event: "ready env s base o1 P b st \<Longrightarrow> \<not> is_execute e \<Longrightarrow> ready env s base o1 (insert e P) b (st\<lparr>tn_trace := tn_trace st @ [e]\<rparr>)"
  using turn_inv_event [of env s base st e] by (cases e) (auto simp: ready_def executions_def marked_def)

lemma quiet_not_execute: "quiet_event e \<Longrightarrow> \<not> is_execute e"
  by (cases e) simp_all

lemma turn_inv_mono:
  assumes "turn_inv env s base st" "tn_trace st' = tn_trace st" "tn_ordinal st \<le> tn_ordinal st'"
    and "ss_narrowed (tn_sess st') = ss_narrowed (tn_sess st)" "ss_quarantined (tn_sess st') = ss_quarantined (tn_sess st)"
    and "ss_totalToolCalls (tn_sess st) \<le> ss_totalToolCalls (tn_sess st')"
  shows "turn_inv env s base st'"
  using assms unfolding turn_inv_def by simp (meson order_trans)

lemma ready_mono:
  assumes "ready env s base o1 P b st" "tn_trace st' = tn_trace st" "tn_ordinal st \<le> tn_ordinal st'"
    and "ss_narrowed (tn_sess st') = ss_narrowed (tn_sess st)" "ss_quarantined (tn_sess st') = ss_quarantined (tn_sess st)"
    and "ss_totalToolCalls (tn_sess st) \<le> ss_totalToolCalls (tn_sess st')"
  shows "ready env s base o1 P b st'"
  using assms turn_inv_mono [of env s base st st'] unfolding ready_def by simp linarith

interpretation inv_frame: model_frame "\<lambda>st st'. turn_inv env s base st \<longrightarrow> turn_inv env s base st'" for env s base
proof (unfold_locales, goal_cases)
  case (15 e st)
  then show ?case using turn_inv_event [of env s base st e] quiet_not_execute by blast
next
  case (16 st b)
  show ?case using turn_inv_event [of env s base st "EvCheckpoint b (tn_nextStep st) (tn_highWater st)"] by simp
next
  case (20 st q)
  then show ?case using turn_inv_event [of env s base st "EvModel q"] by simp
qed (blast | (rule impI, erule turn_inv_mono; simp))+

interpretation ready_frame: turn_frame "\<lambda>st st'. ready env s base o1 P b st \<longrightarrow> ready env s base o1 P b st'" for env s base o1 P b
proof (unfold_locales, goal_cases)
  case (15 e st)
  then show ?case using ready_event [of env s base o1 P b st e] quiet_not_execute by (auto simp: ready_def)
next
  case (16 st b')
  show ?case using ready_event [of env s base o1 P b st "EvCheckpoint b' (tn_nextStep st) (tn_highWater st)"] by (auto simp: ready_def)
qed (blast | (rule impI, erule ready_mono; simp))+

section \<open>A dispatch keeps the invariant\<close>

lemma andThen_InrE:
  assumes "andThen m f st = (Inr y, st2)"
  obtains x st1 where "m st = (Inr x, st1)" "f x st1 = (Inr y, st2)"
  using assms by (auto simp: andThen_def split: prod.splits sum.splits)

lemma inv_andThen:
  assumes "I (snd (m st))" and "\<And>x st1. m st = (Inr x, st1) \<Longrightarrow> I (snd (f x st1))"
  shows "I (snd (andThen m f st))"
  using assms by (cases "m st"; cases "fst (m st)") (auto simp: andThen_def)

lemma keeps_inv: "keeps (\<lambda>st st'. I st \<longrightarrow> I st') m \<Longrightarrow> I st \<Longrightarrow> I (snd (m st))"
  by (simp add: keeps_def)

lemma log_event_seen: "log_event d k p st = (Inr u, st1) \<Longrightarrow> EvLog k p \<in> set (tn_trace st1)"
  by (auto simp: log_event_def write_log_def Let_def split: option.splits)

lemma checkpointAttempt_seen:
  assumes "checkpointAttempt d inp n st = (Inr u, st1)"
  shows "marked inp n (tn_trace st1)"
proof -
  from assms obtain x st2 where "checkpoint d inp False (st\<lparr>tn_highWater := n\<rparr>) = (Inr x, st2)" "seen (EvMark n) st2 = (Inr u, st1)"
    by (auto simp: checkpointAttempt_def raise_def split: if_splits elim!: andThen_InrE)
  then show ?thesis
    by (auto simp: marked_def checkpoint_def write_log_def seen_def upd_def Let_def split: option.splits)
qed

lemma ready_inv: "ready env s base o1 P b st \<Longrightarrow> turn_inv env s base st"
  by (simp add: ready_def)

lemma ready_insert: "ready env s base o1 P b st \<Longrightarrow> e \<in> set (tn_trace st) \<Longrightarrow> ready env s base o1 (insert e P) b st"
  by (simp add: ready_def)

lemma ready_start:
  "turn_inv env s base st \<Longrightarrow> ready env s base (tn_ordinal st + 1) {} False (st\<lparr>tn_effect := b, tn_ordinal := tn_ordinal st + 1\<rparr>)"
  unfolding ready_def turn_inv_def by (auto simp: zle_add1_eq_le intro: add_increasing2)

lemma ready_counted:
  assumes "ready env s base o1 P False st" and "marked (te_i env) o1 (tn_trace st)" and "under_cap (te_d env) (ss_totalToolCalls (tn_sess st) + 1)"
  shows "ready env s base o1 P True (st\<lparr>tn_sess := (tn_sess st)\<lparr>ss_totalToolCalls := ss_totalToolCalls (tn_sess st) + 1\<rparr>\<rparr>)"
proof -
  have "ss_totalToolCalls s + executions (tn_trace st) \<le> ss_totalToolCalls (tn_sess st)" using assms(1) by (simp add: ready_def turn_inv_def)
  then have "under_cap (te_d env) (ss_totalToolCalls s + executions (tn_trace st) + 1)"
    using assms(3) by (auto simp: under_cap_def split: option.splits)
  with assms(1,2) show ?thesis by (auto simp: ready_def turn_inv_def)
qed

definition context_at :: "'w turn_env \<Rightarrow> int \<Rightarrow> tool_context" where
  "context_at env o1 = \<lparr>tx_sessionId = ti_sessionId (te_i env), tx_turnId = ti_turnId (te_i env), tx_ordinal = o1\<rparr>"

lemma open_dispatch_ready:
  assumes "turn_inv env s base st" and "open_dispatch env call st = (Inr (c, n), st1)"
  shows "c = context_at env (tx_ordinal c) \<and> ready env s base (tx_ordinal c) {} True st1"
proof -
  let ?o = "tn_ordinal st + 1"
  define st0 where "st0 = st\<lparr>tn_effect := True, tn_ordinal := ?o\<rparr>"
  have st0: "ready env s base ?o {} False st0" unfolding st0_def by (rule ready_start [OF assms(1)])
  define count where "count = (\<lambda>st :: 'a turn. st\<lparr>tn_sess := (tn_sess st)\<lparr>ss_totalToolCalls := ss_totalToolCalls (tn_sess st) + 1\<rparr>\<rparr>)"
  define tail where "tail = (\<lambda>n. andThen (port (\<lambda>w. ld_observe (te_d env) w call)) (\<lambda>trip. case trip of
       Some period \<Rightarrow> andThen (log_event (te_d env) ''guardian.tripped'' (JObj [(''period'', JNum (int period)), (''tool'', JStr (lc_name call))])) (\<lambda>_.
         raise (Halt HaltGuardian))
     | None \<Rightarrow> andThen (emitProgress (te_d env) (te_i env) (ToolProgress Pending n (lc_name call))) (\<lambda>_. ret (context_at env ?o, n))))"
  obtain s1 where s1: "checkpointAttempt (te_d env) (te_i env) ?o st0 = (Inr (), s1)" and
    cap: "under_cap (te_d env) (ss_totalToolCalls (tn_sess s1) + 1)" and
    t: "tail (ss_totalToolCalls (tn_sess s1) + 1) (count s1) = (Inr (c, n), st1)"
  proof -
    define G where "G = andThen (upd count) (\<lambda>_. andThen (look (\<lambda>st. ss_totalToolCalls (tn_sess st))) (\<lambda>n.
        if (case ld_maxTotalToolCalls (te_d env) of None \<Rightarrow> False | Some m \<Rightarrow> n > m) then raise (Halt HaltCap) else tail n))"
    have "andThen (checkpointAttempt (te_d env) (te_i env) ?o) (\<lambda>_. G) st0 = (Inr (c, n), st1)"
      using assms(2) by (auto simp: open_dispatch_def G_def count_def [abs_def] tail_def st0_def context_at_def raise_def cong: if_cong split: if_splits)
    then obtain s1 where "checkpointAttempt (te_d env) (te_i env) ?o st0 = (Inr (), s1)" "G s1 = (Inr (c, n), st1)"
      by (rule andThen_InrE) simp
    then show thesis
      by (intro that [of s1]) (auto simp: G_def under_cap_def count_def raise_def split: option.splits if_splits)
  qed
  have c: "c = context_at env ?o" using t by (auto simp: tail_def act_port raise_def ret_def split: prod.splits option.splits elim!: andThen_InrE)
  have "ready env s base ?o {} False (snd (checkpointAttempt (te_d env) (te_i env) ?o st0))"
    by (rule keeps_inv [OF ready_frame.keeps_checkpointAttempt st0])
  then have "ready env s base ?o {} False s1" using s1 by simp
  then have r: "ready env s base ?o {} True (count s1)" unfolding count_def by (rule ready_counted [OF _ checkpointAttempt_seen [OF s1] cap])
  have "keeps (\<lambda>st st'. ready env s base ?o {} True st \<longrightarrow> ready env s base ?o {} True st') (tail k)" for k
    unfolding tail_def by (intro keep_intros)
  from keeps_inv [OF this r] t have "ready env s base ?o {} True st1" by (metis snd_conv)
  with c show ?thesis by (simp add: context_at_def)
qed

lemma executed_inv:
  assumes "ready env s base (tx_ordinal c) P True st" and "c = context_at env (tx_ordinal c)"
    and "intent_event call c \<in> P" "gate_admitted (te_d env) s (tn_trace st) call c"
    and "\<not> (ss_narrowed s \<and> lc_source call = Some LpUntrusted)" "\<not> quarantine_hit s call"
  shows "turn_inv env s base (st\<lparr>tn_trace := tn_trace st @ [EvExecute call c]\<rparr>)"
proof -
  have id: "tx_sessionId c = ti_sessionId (te_i env)" "tx_turnId c = ti_turnId (te_i env)" using assms(2) by (metis context_at_def tool_context.select_convs)+
  have "execution_ok (te_d env) (te_i env) s (tn_trace st) call c" using assms id by (auto simp: execution_ok_def ready_def)
  with assms(1) show ?thesis by (auto simp: ready_def turn_inv_def trace_ok_snoc)
qed

lemma gate_admitted_mono: "gate_admitted d s pre call c \<Longrightarrow> set pre \<subseteq> set pre' \<Longrightarrow> gate_admitted d s pre' call c"
  unfolding gate_admitted_def by blast

lemma execute_inv:
  assumes "turn_inv env s base (st\<lparr>tn_trace := tn_trace st @ [EvExecute call c]\<rparr>)"
  shows "turn_inv env s base (snd (execute env call c st))"
proof -
  define G where "G = (case ld_execute (te_d env) of None \<Rightarrow> ret JUndef | Some f \<Rightarrow> andThen (port (\<lambda>w. f w call c)) (\<lambda>r. case r of
     Inl err \<Rightarrow> if (case ld_propagate (te_d env) of None \<Rightarrow> False | Some p \<Rightarrow> p err call c = Some True) then raise (Threw OtherError)
             else ret (failed_result (case ek_message err of Some m \<Rightarrow> m | None \<Rightarrow> ''tool executor failed''))
   | Inr v \<Rightarrow> ret v))"
  have "keeps (\<lambda>st st'. turn_inv env s base st \<longrightarrow> turn_inv env s base st') G" unfolding G_def by (intro keep_intros)
  from keeps_inv [OF this assms] show ?thesis by (simp add: execute_def G_def)
qed

lemma run_tool_inv:
  assumes r: "ready env s base (tx_ordinal c) {g} True st" and c: "c = context_at env (tx_ordinal c)"
    and g: "\<And>pre. g \<in> set pre \<Longrightarrow> gate_admitted (te_d env) s pre call c"
    and ok: "\<not> (ss_narrowed s \<and> lc_source call = Some LpUntrusted)" "\<not> quarantine_hit s call"
  shows "turn_inv env s base (snd (run_tool env call c n st))"
  unfolding run_tool_def
proof (rule inv_andThen)
  let ?L = "log_event (te_d env) ''step.intent'' (JObj [(''tool'', JStr (lc_name call)), (''ordinal'', JNum (tx_ordinal c))])"
  have r1: "ready env s base (tx_ordinal c) {g} True (snd (?L st))"
    by (rule keeps_inv [OF ready_frame.keeps_log_event r])
  then show "turn_inv env s base (snd (?L st))" by (rule ready_inv)
  fix u st1
  assume l: "?L st = (Inr u, st1)"
  have r1': "ready env s base (tx_ordinal c) {intent_event call c, g} True st1"
    using ready_insert [of env s base "tx_ordinal c" "{g}" True st1 "intent_event call c"] r1 l log_event_seen [OF l]
    by (simp add: intent_event_def)
  let ?E = "emitProgress (te_d env) (te_i env) (ToolProgress Started n (lc_name call))"
  let ?P = "{intent_event call c, g}"
  have r2: "ready env s base (tx_ordinal c) ?P True (snd (?E st1))" by (rule keeps_inv [OF ready_frame.keeps_books(2) r1'])
  show "turn_inv env s base (snd (andThen ?E (\<lambda>_. andThen (execute env call c) (after_execute env call c n)) st1))"
  proof (rule inv_andThen)
    show "turn_inv env s base (snd (?E st1))" using r2 by (rule ready_inv)
    fix u st2
    assume "?E st1 = (Inr u, st2)"
    with r2 have r2': "ready env s base (tx_ordinal c) ?P True st2" by simp
    then have "gate_admitted (te_d env) s (tn_trace st2) call c" by (intro g) (simp add: ready_def)
    then have "turn_inv env s base (st2\<lparr>tn_trace := tn_trace st2 @ [EvExecute call c]\<rparr>)" by (intro executed_inv [OF r2' c] ok) simp_all
    then have ex: "turn_inv env s base (snd (execute env call c st2))" by (rule execute_inv)
    then show "turn_inv env s base (snd (andThen (execute env call c) (after_execute env call c n) st2))"
      by (rule inv_andThen) (use ex keeps_inv [OF inv_frame.keeps_conclude(4)] in auto)
  qed
qed

lemma gate_and_run_inv:
  assumes r: "ready env s base (tx_ordinal c) {} True st" and c: "c = context_at env (tx_ordinal c)"
  shows "turn_inv env s base (snd (gate_and_run env name asked c n st))"
proof -
  let ?x = "hook_ctx_of asked c (ss_narrowed s)"
  let ?A = "await (\<lambda>w. ld_pre (te_d env) w asked ?x)"
  define G where "G v = (if v = HvDeny \<or> v = HvAsk then
       andThen (log_event (te_d env) ''tool.gated'' (JObj [(''tool'', JStr name), (''verdict'', JStr (if v = HvDeny then ''deny'' else ''ask''))]))
         (\<lambda>_. refuse env n name DenyPolicy)
     else let effective = (case v of HvModify c1 \<Rightarrow> c1 | _ \<Rightarrow> asked) in
        if ss_narrowed (tn_sess st) \<and> lc_source effective = Some LpUntrusted then
          andThen (log_event (te_d env) ''tool.blocked'' (JObj [(''tool'', JStr (lc_name effective)), (''reason'', JStr ''untrusted-args'')])) (\<lambda>_.
          refuse env n (lc_name effective) DenyUntrustedArgs)
        else if quarantine_hit (tn_sess st) effective then
          andThen (log_event (te_d env) ''tool.blocked'' (JObj [(''tool'', JStr (lc_name effective)), (''reason'', JStr ''quarantined-ref'')])) (\<lambda>_.
          refuse env n (lc_name effective) DenyQuarantinedRef)
        else run_tool env effective c n)" for v
  have same: "ss_narrowed (tn_sess st) = ss_narrowed s" "quarantine_hit (tn_sess st) = quarantine_hit s"
    using r by (auto simp: ready_def turn_inv_def quarantine_hit_def)
  have "gate_and_run env name asked c n st = andThen ?A (\<lambda>v. andThen (seen (EvGate asked ?x v)) (\<lambda>_. G v)) st"
    by (simp add: gate_and_run_def G_def same cong: if_cong)
  moreover have "turn_inv env s base (snd (andThen ?A (\<lambda>v. andThen (seen (EvGate asked ?x v)) (\<lambda>_. G v)) st))"
  proof (rule inv_andThen)
    have r1: "ready env s base (tx_ordinal c) {} True (snd (?A st))" by (rule keeps_inv [OF ready_frame.keeps_await r])
    then show "turn_inv env s base (snd (?A st))" by (rule ready_inv)
    fix v st1
    assume a: "?A st = (Inr v, st1)"
    then obtain w where w: "snd (ld_pre (te_d env) w asked ?x) = Some v"
      by (auto simp: await_def act_port raise_def ret_def split: prod.splits option.splits) (metis snd_conv)
    define st2 where "st2 = st1\<lparr>tn_trace := tn_trace st1 @ [EvGate asked ?x v]\<rparr>"
    have r2: "ready env s base (tx_ordinal c) {EvGate asked ?x v} True st2"
      using ready_event [of env s base "tx_ordinal c" "{}" True st1 "EvGate asked ?x v"] r1 a
      unfolding st2_def by (simp add: insert_commute)
    have quiet: "keeps (\<lambda>st st'. turn_inv env s base st \<longrightarrow> turn_inv env s base st') (andThen (log_event d k p) (\<lambda>_. refuse env n nm why))" for d k p nm why
      by (intro keep_intros)
    have run: "turn_inv env s base (snd (run_tool env call c n st2))"
      if "v = HvAllow \<and> call = asked \<or> v = HvModify call" "\<not> (ss_narrowed s \<and> lc_source call = Some LpUntrusted)" "\<not> quarantine_hit s call" for call
      by (rule run_tool_inv [OF r2 c _ that(2,3)]) (use w that(1) in \<open>auto simp: gate_admitted_def\<close>)
    have "turn_inv env s base (snd (G v st2))"
      using keeps_inv [OF quiet ready_inv [OF r2]] run by (cases v) (simp_all add: G_def same Let_def)
    then show "turn_inv env s base (snd (andThen (seen (EvGate asked ?x v)) (\<lambda>_. G v) st1))" by (simp add: st2_def)
  qed
  ultimately show ?thesis by simp
qed

lemma dispatch_inv: "keeps (\<lambda>st st'. turn_inv env s base st \<longrightarrow> turn_inv env s base st') (dispatch_call env call)"
  unfolding keeps_def dispatch_call_def
proof (intro allI impI)
  fix st
  assume inv: "turn_inv env s base st"
  let ?rest = "\<lambda>(c, n). case ld_preDispatch (te_d env) of None \<Rightarrow> gate_and_run env (lc_name call) call c n
     | Some f \<Rightarrow> andThen (port (\<lambda>w. f w call c)) (\<lambda>decision.
         case (case decision of None \<Rightarrow> Intercept (failed_result ''TOOL_PREFLIGHT_FAILED'') | Some x \<Rightarrow> x) of
           Continue c1 \<Rightarrow> if lc_name c1 \<noteq> lc_name call then refuse env n (lc_name call) DenyPolicy else gate_and_run env (lc_name call) c1 c n
         | Intercept v \<Rightarrow> intercept env call c n v)"
  show "turn_inv env s base (snd (andThen (open_dispatch env call) ?rest st))"
  proof (rule inv_andThen)
    show "turn_inv env s base (snd (open_dispatch env call st))" by (rule keeps_inv [OF inv_frame.keeps_open_dispatch inv])
    fix x st1
    assume o1: "open_dispatch env call st = (Inr x, st1)"
    obtain c n where x: "x = (c, n)" by fastforce
    note r = open_dispatch_ready [OF inv o1 [unfolded x]]
    have world: "ready env s base (tx_ordinal c) {} True (st1\<lparr>tn_world := w\<rparr>)" for w
      by (rule ready_mono [OF conjunct2 [OF r]]) simp_all
    then have inv1: "turn_inv env s base (st1\<lparr>tn_world := w\<rparr>)" for w by (rule ready_inv)
    show "turn_inv env s base (snd (?rest x st1))"
      using gate_and_run_inv r gate_and_run_inv [OF world] keeps_inv [OF inv_frame.keeps_conclude(2) inv1] keeps_inv [OF inv_frame.keeps_conclude(3) inv1]
      by (auto simp: x act_port split: option.split pre_decision.split prod.split)
  qed
qed

interpretation safe_turn: loop_frame "\<lambda>st st'. turn_inv env s base st \<longrightarrow> turn_inv env s base st'" env for env s base
  by (unfold_locales, rule dispatch_inv) (rule impI, erule turn_inv_mono; simp)

section \<open>Preparing a turn\<close>

text \<open>Bookkeeping leaves the counters, the position and everything but the log in the trace alone.\<close>

fun loud_event :: "turn_event \<Rightarrow> bool" where
  "loud_event (EvModel _) = True"
| "loud_event (EvExecute _ _) = True"
| "loud_event _ = False"

definition untouched :: "'w turn \<Rightarrow> 'w turn \<Rightarrow> bool" where
  "untouched st st' \<longleftrightarrow> ss_totalToolCalls (tn_sess st') = ss_totalToolCalls (tn_sess st) \<and> replans st' = replans st \<and>
     tn_ordinal st' = tn_ordinal st \<and> tn_highWater st' = tn_highWater st \<and>
     filter loud_event (tn_trace st') = filter loud_event (tn_trace st)"

interpretation prep_frame: book_frame untouched
proof (unfold_locales, goal_cases)
  case (15 e st)
  then show ?case by (cases e) (simp_all add: untouched_def replans_def)
qed (simp_all add: untouched_def replans_def)

locale entry_frame = book_frame +
  assumes frame_session: "(\<And>s. ss_totalToolCalls (f s) = ss_totalToolCalls s) \<Longrightarrow> (\<And>s. ss_totalReplans (f s) = ss_totalReplans s) \<Longrightarrow>
    R st (st\<lparr>tn_sess := f (tn_sess st)\<rparr>)"
begin

lemma keeps_set_session [keep_intros]:
  "(\<And>s. ss_totalToolCalls (f s) = ss_totalToolCalls s) \<Longrightarrow> (\<And>s. ss_totalReplans (f s) = ss_totalReplans s) \<Longrightarrow> keeps R (set_session f)"
  unfolding set_session_def by (intro keeps_upd frame_session) simp_all

lemma keeps_prepare: "keeps R (prepare_turn d inp)"
proof -
  have [keep_intros]: "keeps R (load_snapshot d)" unfolding load_snapshot_def Let_def by (intro keep_intros) simp_all
  have [keep_intros]: "keeps R (start_transcript d inp)" unfolding start_transcript_def by (intro keep_intros) simp_all
  have [keep_intros]: "keeps R (forget_span d sp)" for sp unfolding forget_span_def by (intro keep_intros) simp_all
  have [keep_intros]: "keeps R (announce_contract d inp ct)" for ct unfolding announce_contract_def by (intro keep_intros)
  show ?thesis unfolding prepare_turn_def Let_def by (intro keep_intros frame_books) simp_all
qed

end

interpretation prep_entry: entry_frame untouched
  by unfold_locales (simp add: untouched_def replans_def)

definition yields :: "('a \<Rightarrow> bool) \<Rightarrow> ('w, 'a) act \<Rightarrow> bool" where
  "yields Q m \<longleftrightarrow> (\<forall>st x st1. m st = (Inr x, st1) \<longrightarrow> Q x)"

lemma yields_andThen: "(\<And>x. yields Q (f x)) \<Longrightarrow> yields Q (andThen m f)"
  by (auto simp: yields_def elim!: andThen_InrE)

lemma yields_ret: "Q x \<Longrightarrow> yields Q (ret x)"
  by (simp add: yields_def ret_def)

text \<open>A turn runs in an environment made of its own dependencies and input.\<close>

lemma prepare_env:
  assumes "prepare_turn d inp st = (Inr env, st1)"
  shows "te_deps env = d \<and> te_input env = inp \<and> te_contract env = classifyActionContract (ld_verbs d) (ti_spans inp)"
proof -
  let ?Q = "\<lambda>env :: 'a turn_env. te_deps env = d \<and> te_input env = inp \<and> te_contract env = classifyActionContract (ld_verbs d) (ti_spans inp)"
  have "yields ?Q (prepare_turn d inp)" unfolding prepare_turn_def Let_def by (intro yields_andThen yields_ret) simp
  with assms show ?thesis unfolding yields_def by blast
qed

definition resumed_at :: "'w loop_deps \<Rightarrow> 'w turn_input \<Rightarrow> 'w turn \<Rightarrow> int" where
  "resumed_at d inp st = (case ld_resume d (tn_world st) (ti_sessionId inp) (ti_turnId inp) of Some (InProgress n o1) \<Rightarrow> o1 | _ \<Rightarrow> 0)"

definition resumed_step :: "'w loop_deps \<Rightarrow> 'w turn_input \<Rightarrow> 'w turn \<Rightarrow> nat" where
  "resumed_step d inp st = (case ld_resume d (tn_world st) (ti_sessionId inp) (ti_turnId inp) of Some (InProgress n o1) \<Rightarrow> n | _ \<Rightarrow> 0)"

definition enter_turn :: "'w loop_deps \<Rightarrow> 'w turn_input \<Rightarrow> ('w, 'w turn_env) act" where
  "enter_turn d inp = andThen (checkpoint d inp False) (\<lambda>_.
     andThen (log_event d ''turn.start'' (JObj [(''sessionId'', JStr (ti_sessionId inp))])) (\<lambda>_. prepare_turn d inp))"

context entry_frame
begin

lemma keeps_enter: "keeps R (enter_turn d inp)"
  unfolding enter_turn_def by (intro keep_intros keeps_prepare)

end

lemma andThen_assoc: "andThen (andThen m f) g = andThen m (\<lambda>x. andThen (f x) g)"
  by (auto simp: andThen_def fun_eq_iff split: prod.split sum.split)

lemma turn_main_eq:
  "turn_main d inp = andThen (resume_turn d inp) (\<lambda>startStep. andThen (enter_turn d inp) (\<lambda>env. handle (turn_body env startStep) (halted env)))"
  by (simp add: turn_main_def enter_turn_def andThen_assoc)

text \<open>How a turn unfolds: it fails while it is prepared, and then nothing ran, or its body runs in the prepared environment.\<close>

definition quiet_start :: "'w turn \<Rightarrow> 'w turn \<Rightarrow> bool" where
  "quiet_start st st1 \<longleftrightarrow> filter loud_event (tn_trace st1) = [] \<and>
     ss_totalToolCalls (tn_sess st1) = ss_totalToolCalls (tn_sess st) \<and> replans st1 = replans st"

lemma turn_main_cases:
  assumes run: "turn_main d inp st = (res, st')" and start: "tn_trace st = []"
  obtains
    (unprepared) "quiet_start st st'" "isl res"
  | (ran) env st1 startStep st0 where "te_deps env = d" "te_input env = inp" "te_contract env = classifyActionContract (ld_verbs d) (ti_spans inp)"
      "quiet_start st st1" "tn_ordinal st1 = resumed_at d inp st" "tn_highWater st1 = resumed_at d inp st"
      "handle (turn_body env startStep) (halted env) st1 = (res, st')" "enter_turn d inp st0 = (Inr env, st1)" "tn_trace st0 = []"
      "startStep = resumed_step d inp st"
proof -
  obtain x st0 where r: "resume_turn d inp st = (x, st0)" by fastforce
  have tr0: "tn_trace st0 = []" and st0: "quiet_start st st0" using r start
    by (auto simp: resume_turn_def raise_def ret_def quiet_start_def replans_def Let_def split: option.splits turn_state.splits if_splits)
  show thesis
  proof (cases x)
    case (Inl e)
    with run r have "res = Inl e" "st' = st0" by (simp_all add: turn_main_eq andThen_def)
    with st0 unprepared show thesis by simp
  next
    case (Inr startStep)
    have at: "tn_ordinal st0 = resumed_at d inp st" "tn_highWater st0 = resumed_at d inp st" "startStep = resumed_step d inp st"
      using r Inr by (auto simp: resume_turn_def raise_def ret_def resumed_at_def resumed_step_def Let_def split: option.splits turn_state.splits if_splits)
    obtain y st1 where p: "enter_turn d inp st0 = (y, st1)" by fastforce
    have u: "untouched st0 st1" using prep_entry.keeps_enter p unfolding keeps_def by (metis snd_conv)
    with st0 have q: "quiet_start st st1" by (simp add: quiet_start_def untouched_def)
    show thesis
    proof (cases y)
      case (Inl e)
      with run r Inr p have "res = Inl e" "st' = st1" by (simp_all add: turn_main_eq andThen_def)
      with q unprepared show thesis by simp
    next
      case y: (Inr env)
      with p obtain s1 where "prepare_turn d inp s1 = (Inr env, st1)" by (auto simp: enter_turn_def elim!: andThen_InrE)
      moreover from run r Inr p y have "handle (turn_body env startStep) (halted env) st1 = (res, st')" by (simp add: turn_main_eq andThen_def)
      ultimately show thesis using prepare_env [of d inp s1 env st1] q u at p y tr0 by (intro ran) (auto simp: untouched_def)
    qed
  qed
qed

end
