(* ===== verification/Agent_Loop_Properties.thy ===== *)
theory Agent_Loop_Properties
  imports Agent_Loop_Run
begin

text \<open>
  The properties of turns: which tool calls run, how many tools and model calls a turn and a session can use, what
  makes an action verified, and when a plan waits for approval. Each follows from the frames of \<open>Agent_Loop_Run\<close>.
  A small concrete loop serves the witnesses.
\<close>

section \<open>A concrete loop\<close>

definition demo_verbs :: verb_tests where
  "demo_verbs = \<lparr>vt_informational = (\<lambda>_. False), vt_deictic = (\<lambda>_. False), vt_delegate = (\<lambda>_. False),
     vt_inspect = (\<lambda>t. startsWith t ''check''), vt_mutate = (\<lambda>_. False), vt_inspectionOverride = (\<lambda>_. False)\<rparr>"

definition demo_texts :: text_tests where
  "demo_texts = \<lparr>tt_signal = (\<lambda>_. False), tt_removeClaims = id, tt_scrubMemory = (\<lambda>_ t. t)\<rparr>"

definition say :: "string \<Rightarrow> model_response" where
  "say t = \<lparr>mr_reply = t, mr_toolCalls = [], mr_interpretations = 1, mr_plan = None, mr_usage = None, mr_evidence = [], mr_executions = []\<rparr>"

definition demo_read :: loop_call where
  "demo_read = \<lparr>lc_name = ''read_file'', lc_args = [(''path'', JStr ''a'')], lc_source = None\<rparr>"

text \<open>The world of the concrete loop is the log and the answers the model still has.\<close>

type_synonym demo_world = "log_entry list \<times> model_response list"

definition demo_model :: "demo_world \<Rightarrow> model_request \<Rightarrow> demo_world provider_run" where
  "demo_model w q = (case snd w of [] \<Rightarrow> ProvReturn w (say ''done'') | r # rs \<Rightarrow> ProvReturn (fst w, rs) r)"

definition demo_ports :: "demo_world loop_deps" where
  "demo_ports =
     \<lparr>ld_H = id, ld_addDollars = (\<lambda>a b. a), ld_now = (\<lambda>_. ''t''), ld_append = (\<lambda>w e. Some (fst w @ [e], snd w)),
      ld_resume = (\<lambda>_ _ _. Some NotInProgress), ld_snapshot = (\<lambda>w. (w, None)), ld_forget = (\<lambda>w _ _. (w, True)),
      ld_prefixExtension = None, ld_recorder = None, ld_lateContext = None, ld_complete = demo_model,
      ld_observe = (\<lambda>w _. (w, None)), ld_note = id, ld_preDispatch = None, ld_pre = (\<lambda>w _ _. (w, Some HvAllow)),
      ld_execute = Some (\<lambda>w _ _. (w, Inr (JStr ''text''))), ld_propagate = None, ld_post = (\<lambda>w _ v. (w, Some v)), ld_postDispatch = None,
      ld_probe = Some (\<lambda>w _. (w, Some True)), ld_budgetCheck = None, ld_workflow = None, ld_maxReplans = None, ld_maxTotalToolCalls = Some 3,
      ld_verbs = demo_verbs, ld_texts = demo_texts, ld_facts = demo_facts\<rparr>"

definition demo_ask :: "string \<Rightarrow> demo_world turn_input" where
  "demo_ask t =
     \<lparr>ti_sessionId = ''s'', ti_turnId = Some ''t1'', ti_turnTs = None, ti_spans = [\<lparr>ls_role = RoleUser, ls_provenance = LpOperator, ls_text = t\<rparr>],
      ti_approvalToken = None, ti_signal = None, ti_onProgress = None\<rparr>"

definition demo_loop :: "model_response list \<Rightarrow> demo_world agent_loop" where
  "demo_loop rs = \<lparr>lp_world = ([], rs), lp_seq = 0, lp_sessions = []\<rparr>"

definition demo_turn :: "model_response list \<Rightarrow> (stop + turn_result) \<times> demo_world turn" where
  "demo_turn rs = turn_main demo_ports (demo_ask ''hi'') (start_turn (demo_loop rs) (demo_ask ''hi''))"

section \<open>Which tool calls run\<close>

lemma quiet_no_execute:
  assumes "quiet_start st st1"
  shows "EvExecute call c \<notin> set (tn_trace st1)" "executions (tn_trace st1) = 0"
proof -
  have "\<not> is_execute e" if "e \<in> set (tn_trace st1)" for e
    using assms that by (cases e) (auto simp: quiet_start_def filter_empty_conv)
  then show "EvExecute call c \<notin> set (tn_trace st1)" "executions (tn_trace st1) = 0"
    by (fastforce simp: executions_def filter_empty_conv)+
qed

lemma turn_inv_start:
  assumes "quiet_start st st1"
  shows "turn_inv env (tn_sess st1) (tn_ordinal st1) st1"
  using quiet_no_execute [OF assms] by (simp add: turn_inv_def trace_ok_def) (metis in_set_conv_decomp)

lemma start_trace [simp]: "tn_trace (start_turn lp inp) = []" "tn_sess (start_turn lp inp) = session_of lp (ti_sessionId inp)"
  by (simp_all add: start_turn_def)

lemma turn_body_inv:
  assumes "turn_inv env s base st" and "handle (turn_body env k) (halted env) st = (res, st')"
  shows "turn_inv env s base st'"
proof -
  have "keeps (\<lambda>st st'. turn_inv env s base st \<longrightarrow> turn_inv env s base st') (handle (turn_body env k) (halted env))" by (intro keep_intros)
  from keeps_inv [OF this assms(1)] assms(2) show ?thesis by simp
qed

lemma execution_ok_session:
  "ss_narrowed s' = ss_narrowed s \<Longrightarrow> ss_quarantined s' = ss_quarantined s \<Longrightarrow> execution_ok d inp s' pre call c = execution_ok d inp s pre call c"
  by (simp add: execution_ok_def gate_admitted_def quarantine_hit_def)

lemma admitted_execution:
  assumes "turn_main d inp (start_turn lp inp) = (res, st)" and "tn_trace st = pre @ EvExecute call c # post"
  shows "execution_ok d inp (tn_sess st) pre call c \<and> resumed_at d inp (start_turn lp inp) < tx_ordinal c"
  using assms(1) start_trace(1)
proof (cases rule: turn_main_cases)
  case unprepared
  with quiet_no_execute(1) [of _ st call c] assms(2) show ?thesis by auto
next
  case (ran env st1 k st0)
  have "turn_inv env (tn_sess st1) (tn_ordinal st1) st" by (rule turn_body_inv [OF turn_inv_start [OF ran(4)] ran(7)])
  then show ?thesis using assms(2) ran(1,2,5) execution_ok_session [of "tn_sess st" "tn_sess st1" d inp pre call c]
    by (auto simp: turn_inv_def trace_ok_def)
qed

text \<open>
  C1: a turn runs a tool only when the gate admitted this very call for this position of this turn. The call is not
  motivated by untrusted material while the session is narrowed, names no reference the operator asked to forget, and its position was
  checkpointed and its intent logged before it ran. Positions strictly increase from the point at which the turn was resumed.
\<close>

theorem tool_runs_only_when_admitted:
  assumes "turn_main d inp (start_turn lp inp) = (res, st)" and "tn_trace st = pre @ EvExecute call c # post"
  shows "execution_ok d inp (tn_sess st) pre call c \<and> resumed_at d inp (start_turn lp inp) < tx_ordinal c"
  by (rule admitted_execution [OF assms])

definition demo_answers :: "model_response list" where
  "demo_answers = [(say ''look'')\<lparr>mr_toolCalls := [demo_read]\<rparr>, say ''done'']"

lemma cap_text_code [code]:
  "cap_text t = (if 8000 < int (length t) then take TOOL_RESULT_CAP t @ [CHR 0x0A, CHR 0xE2, CHR 0x80, CHR 0xA6] @ ''[truncated]'' else t)"
  by (simp add: cap_text_def TOOL_RESULT_CAP_def)

lemma demo_executes: "list_ex is_execute (tn_trace (snd (demo_turn demo_answers)))"
  by code_simp

lemma execute_split: "list_ex is_execute tr \<Longrightarrow> \<exists>pre call c post. tr = pre @ EvExecute call c # post"
  by (auto simp: list_ex_iff elim!: is_execute.elims) (metis in_set_conv_decomp)

theorem tool_runs_only_when_admitted_witness:
  "\<exists>pre call c post. tn_trace (snd (demo_turn demo_answers)) = pre @ EvExecute call c # post \<and>
     execution_ok demo_ports (demo_ask ''hi'') (tn_sess (snd (demo_turn demo_answers))) pre call c"
proof -
  obtain pre call c post where "tn_trace (snd (demo_turn demo_answers)) = pre @ EvExecute call c # post"
    using execute_split [OF demo_executes] by blast
  with tool_runs_only_when_admitted [OF surjective_pairing [of "demo_turn demo_answers", unfolded demo_turn_def]] show ?thesis
    unfolding demo_turn_def by blast
qed

section \<open>How many tools a session runs\<close>

definition turn_trace :: "'w loop_deps \<Rightarrow> 'w agent_loop \<Rightarrow> 'w turn_input \<Rightarrow> turn_event list" where
  "turn_trace d lp inp = (if lacks_identity d inp then [] else tn_trace (snd (turn_main d inp (start_turn lp inp))))"

fun tools_run :: "'w loop_deps \<Rightarrow> string \<Rightarrow> 'w agent_loop \<Rightarrow> 'w turn_input list \<Rightarrow> nat" where
  "tools_run d sid lp [] = 0"
| "tools_run d sid lp (inp # inps) =
     (if ti_sessionId inp = sid then executions (turn_trace d lp inp) else 0) + tools_run d sid (snd (runTurn d lp inp)) inps"

lemma session_after:
  "session_of (snd (runTurn d lp inp)) sid =
     (if ti_sessionId inp = sid \<and> \<not> lacks_identity d inp then tn_sess (snd (turn_main d inp (start_turn lp inp))) else session_of lp sid)"
  by (auto simp: runTurn_def session_of_def split: prod.split)

lemma turn_budget:
  assumes "turn_main d inp (start_turn lp inp) = (res, st)"
  shows "ss_totalToolCalls (session_of lp (ti_sessionId inp)) + executions (tn_trace st) \<le> ss_totalToolCalls (tn_sess st) \<and>
    (executions (tn_trace st) = 0 \<or> under_cap d (ss_totalToolCalls (session_of lp (ti_sessionId inp)) + executions (tn_trace st)))"
  using assms start_trace(1)
proof (cases rule: turn_main_cases)
  case unprepared
  with quiet_no_execute(2) [OF unprepared(1)] show ?thesis by (simp add: quiet_start_def)
next
  case (ran env st1 k st0)
  have "turn_inv env (tn_sess st1) (tn_ordinal st1) st" by (rule turn_body_inv [OF turn_inv_start [OF ran(4)] ran(7)])
  with ran(1,4) show ?thesis by (simp add: turn_inv_def quiet_start_def)
qed

text \<open>
  C6: over any sequence of turns, also of other sessions and with turns that fail or halt, a session runs at most as many tools as
  the cap leaves it; a session that starts with no calls counted runs at most the cap.
\<close>

theorem session_tool_budget:
  assumes "ld_maxTotalToolCalls d = Some m"
  shows "ss_totalToolCalls (session_of lp sid) + tools_run d sid lp inps \<le> max m (ss_totalToolCalls (session_of lp sid))"
proof (induction inps arbitrary: lp)
  case (Cons inp inps)
  let ?lp = "snd (runTurn d lp inp)"
  note IH = Cons.IH [of ?lp]
  show ?case
  proof (cases "ti_sessionId inp = sid \<and> \<not> lacks_identity d inp")
    case True
    with turn_budget [OF surjective_pairing, where d = d and inp = inp and lp = lp] have
      "ss_totalToolCalls (session_of lp sid) + executions (turn_trace d lp inp) \<le> ss_totalToolCalls (session_of ?lp sid)"
      "executions (turn_trace d lp inp) = 0 \<or> ss_totalToolCalls (session_of lp sid) + executions (turn_trace d lp inp) \<le> m"
      using assms by (auto simp: session_after turn_trace_def under_cap_def)
    with IH True show ?thesis by auto
  next
    case False
    then have "session_of ?lp sid = session_of lp sid" "ti_sessionId inp = sid \<longrightarrow> turn_trace d lp inp = []"
      by (auto simp: session_after turn_trace_def)
    with IH show ?thesis by (auto simp: executions_def)
  qed
qed simp

theorem session_tool_budget_witness:
  "tools_run demo_ports ''s'' (demo_loop demo_answers) [demo_ask ''hi'', demo_ask ''hi''] \<le> 3"
  using session_tool_budget [of demo_ports 3 "demo_loop demo_answers" "''s''" "[demo_ask ''hi'', demo_ask ''hi'']"]
  by (simp add: demo_ports_def session_of_def demo_loop_def fresh_session_def)

section \<open>How often a turn calls the model\<close>

fun is_model :: "turn_event \<Rightarrow> bool" where
  "is_model (EvModel _) = True"
| "is_model _ = False"

definition models :: "'w turn \<Rightarrow> nat" where
  "models st = length (filter is_model (tn_trace st))"

interpretation model_count: exec_frame "\<lambda>st st'. models st' = models st"
proof (unfold_locales, goal_cases)
  case (15 e st)
  then show ?case by (cases e) (simp_all add: models_def)
qed (simp_all add: models_def)

lemma model_body_count: "models (snd (model_body env extra late st)) = models st + 1"
proof -
  define G where "G = (\<lambda>q. andThen (\<lambda>st. run_provider env (ld_complete (te_d env) (tn_world st) q) [] st) (\<lambda>(r, buf).
     andThen (recordSpan (te_d env) (te_i env) \<lparr>ls_role = RoleAssistant, ls_provenance = LpUntrusted, ls_text = mr_reply r\<rparr>) (\<lambda>_.
     andThen (upd (\<lambda>st. st\<lparr>tn_effect := tn_effect st \<or> mr_plan r \<noteq> None \<or> mr_toolCalls r \<noteq> [] \<or> mr_executions r \<noteq> [] \<or> mr_evidence r \<noteq> [],
        tn_evidence := tn_evidence st @ mr_evidence r\<rparr>)) (\<lambda>_.
     andThen (each (absorb_execution env) (mr_executions r)) (\<lambda>_.
     andThen (deliver_text env r buf) (\<lambda>_. andThen (account_usage env r) (\<lambda>_. andThen (check_budget env) (\<lambda>_. ret r))))))))"
  have run: "keeps (\<lambda>st st'. models st' = models st) (\<lambda>st. run_provider env (ld_complete (te_d env) (tn_world st) q) [] st)" for q
    using model_count.keeps_run_provider unfolding keeps_def by blast
  have "keeps (\<lambda>st st'. models st' = models st) (G q)" for q
    unfolding G_def by (intro keep_intros run) (simp add: models_def)
  then have "models (snd (G q s)) = models s" for q s by (simp add: keeps_def)
  then show ?thesis by (simp add: model_body_def G_def models_def)
qed

lemma callModel_count: "models (snd (callModel env extra st)) \<le> models st + 1"
proof -
  let ?I = "\<lambda>s. models s \<le> models st + 1"
  have body: "?I (snd (handle (model_body env extra late) (model_failed env) s))" if "models s = models st" for late s
  proof -
    have "models (snd (model_failed env e s1)) = models s1" for e s1 using model_count.keeps_after_model(4) unfolding keeps_def by blast
    with model_body_count [of env extra late s] that show ?thesis by (auto simp: handle_def split: prod.split sum.split)
  qed
  let ?L = "log_event (te_d env) ''step.intent'' (JObj [(''kind'', JStr ''model-call'')])"
  let ?C = "case ld_lateContext (te_d env) of None \<Rightarrow> ret [] | Some f \<Rightarrow> await (\<lambda>w. f w (ti_spans (te_i env) @ extra))"
  have L: "models (snd (?L s)) = models s" for s using model_count.keeps_log_event unfolding keeps_def by blast
  have "keeps (\<lambda>st st'. models st' = models st) ?C" by (intro keep_intros)
  then have C: "models (snd (?C s)) = models s" for s by (simp add: keeps_def)
  show ?thesis unfolding callModel_def
    by (rule inv_andThen [where I = ?I], simp add: L, rule inv_andThen [where I = ?I])
       (use L C body in \<open>auto simp: models_def dest!: arg_cong [where f = "models \<circ> snd"]\<close>)
qed

text \<open>The potential of a turn: model calls made, plus replans left. Planning never raises it.\<close>

definition potential :: "'w turn_env \<Rightarrow> 'w turn \<Rightarrow> nat" where
  "potential env st = models st + (max_replans env - replans st)"

lemma potential_same: "models st' = models st \<Longrightarrow> replans st' = replans st \<Longrightarrow> potential env st' = potential env st"
  by (simp add: potential_def)

lemma replan_model_potential: "potential env (snd (replan_model env st)) \<le> potential env st"
proof -
  have enter: "models (snd (enterReplan env why s)) = models s \<and> replans s \<le> replans (snd (enterReplan env why s))" for why s
  proof -
    have "keeps (\<lambda>st st'. models st' = models st) (enterReplan env why)" unfolding enterReplan_def
      by (intro keep_intros) (simp add: models_def)
    moreover have "replans s \<le> replans (snd (enterReplan env why s))"
    proof -
      have "replans (snd (log_event d k p s1)) = replans s1" for d k p and s1 :: "'a turn"
        using replan_frame.keeps_log_event unfolding keeps_def by blast
      then show ?thesis unfolding enterReplan_def
        by (auto simp: act_port intro!: inv_andThen [where I = "\<lambda>x. replans s \<le> replans x"])
           (auto simp: replans_def raise_def ret_def dest!: arg_cong [where f = "replans \<circ> snd"])
    qed
    ultimately show ?thesis by (simp add: keeps_def)
  qed
  show ?thesis unfolding replan_model_def
  proof (rule inv_andThen [where I = "\<lambda>s. potential env s \<le> potential env st"])
    show "potential env (snd (enterReplan env HaltCap st)) \<le> potential env st" using enter [of HaltCap st] by (auto simp: potential_def)
    fix x st1
    assume e: "enterReplan env HaltCap st = (Inr x, st1)"
    then have "replans st1 = Suc (replans st)" "replans st1 \<le> max_replans env" "models st1 = models st"
      using enterReplan_budget [of env HaltCap st st1] enter [of HaltCap st] by auto
    moreover have "models (snd (callModel env [] st1)) \<le> models st1 + 1" by (rule callModel_count)
    moreover have "replans (snd (callModel env [] st1)) = replans st1" using replan_frame.keeps_model(2) unfolding keeps_def by blast
    ultimately show "potential env (snd (callModel env [] st1)) \<le> potential env st" by (simp add: potential_def)
  qed
qed

interpretation planning_potential: plan_frame "\<lambda>st st'. potential env st' \<le> potential env st" env for env
proof (unfold_locales, goal_cases)
  case (15 e st)
  then show ?case by (cases e) (simp_all add: potential_def models_def replans_def)
next
  case (21 call)
  have "potential env (snd (dispatch_call env call st)) = potential env st" for st
    using model_count.keeps_dispatch replan_frame.keeps_dispatch unfolding keeps_def by (blast intro: potential_same)
  then show ?case by (simp add: keeps_def)
next
  case 20
  show ?case by (simp add: keeps_def replan_model_potential)
qed (simp_all add: potential_def models_def replans_def)

lemma dispatch_all_count: "models (snd (dispatch_all env calls st)) = models st"
proof -
  have "keeps (\<lambda>st st'. models st' = models st) (dispatch_all env calls)"
    by (induction calls) (auto intro!: keep_intros model_count.keeps_dispatch)
  then show ?thesis by (simp add: keeps_def)
qed

lemma rounds_count:
  "models (snd (runToolRounds env rounds convo r st)) +
     (case fst (runToolRounds env rounds convo r st) of Inl _ \<Rightarrow> 0 | Inr (n, _) \<Rightarrow> MAX_SYNTHESIS_ROUNDS - n)
   \<le> models st + (MAX_SYNTHESIS_ROUNDS - rounds)"
proof (induction env rounds convo r st rule: runToolRounds.induct)
  case (1 env rounds convo r st)
  obtain x st1 where x: "dispatch_all env (mr_toolCalls r) st = (x, st1)" by fastforce
  have st1: "models st1 = models st" using dispatch_all_count [of env "mr_toolCalls r" st] x by simp
  show ?case
  proof (cases "mr_toolCalls r \<noteq> [] \<and> rounds < MAX_SYNTHESIS_ROUNDS \<and> (\<exists>results. x = Inr results \<and> results \<noteq> [])")
    case True
    then obtain results where res: "x = Inr results" "results \<noteq> []" by blast
    obtain y st2 where y: "callModel env (grown_convo convo r results) st1 = (y, st2)" by fastforce
    have st2: "models st2 \<le> models st + 1" using callModel_count [of env "grown_convo convo r results" st1] y st1 by simp
    show ?thesis
    proof (cases y)
      case (Inl e)
      with True x res y st2 show ?thesis by (simp add: runToolRounds.simps [of env rounds convo r st]) linarith
    next
      case (Inr r2)
      with 1 [of x st1 results y st2 r2] True x res y have
        "models (snd (runToolRounds env (rounds + 1) (grown_convo convo r results) r2 st2)) +
          (case fst (runToolRounds env (rounds + 1) (grown_convo convo r results) r2 st2) of Inl _ \<Rightarrow> 0 | Inr (n, _) \<Rightarrow> MAX_SYNTHESIS_ROUNDS - n)
          \<le> models st2 + (MAX_SYNTHESIS_ROUNDS - (rounds + 1))" by simp
      with True x res y Inr st2 show ?thesis by (simp add: runToolRounds.simps [of env rounds convo r st])
    qed
  next
    case False
    with x st1 show ?thesis by (cases x) (auto simp: runToolRounds.simps [of env rounds convo r st])
  qed
qed

lemma snd_map_ret [simp]: "snd (andThen m (\<lambda>x. ret (f x)) st) = snd (m st)"
  by (auto simp: andThen_def ret_def split: prod.split sum.split)

lemma snd_ret [simp]: "snd (ret x st) = st"
  by (simp add: ret_def)

text \<open>Concluding a turn calls the model no more.\<close>

lemma endings_count:
  "models (snd (unverified_end env v st)) = models st" "models (snd (finish env r b st)) = models st"
  "models (snd (await_approval env plan r st)) = models st" "models (snd (halted env e st)) = models st"
proof -
  let ?R = "\<lambda>(st :: 'a turn) st'. models st' = models st"
  have h: "keeps ?R (handle (andThen (await (\<lambda>w. wo_commit wo w sid t steps)) (\<lambda>v. andThen (upd (\<lambda>st. st\<lparr>tn_delivery := delivery_of v\<rparr>))
      (\<lambda>_. log_event d k p))) (\<lambda>_. log_event d k2 p))" for wo sid t steps d k k2 p
    by (intro keep_intros model_count.frame_books)
  have [keep_intros]: "keeps ?R (commit_workflow env b)" for b unfolding keeps_def commit_workflow_def Let_def
    by (auto simp: ret_def intro: h [unfolded keeps_def, rule_format] split: option.split)
  have "keeps ?R (unverified_end env v)" "keeps ?R (finish env r b)" "keeps ?R (await_approval env plan r)" "keeps ?R (halted env e)"
    unfolding unverified_end_def finish_def await_approval_def halted_def Let_def by (intro keep_intros)+
  then show "models (snd (unverified_end env v st)) = models st" "models (snd (finish env r b st)) = models st"
    "models (snd (await_approval env plan r st)) = models st" "models (snd (halted env e st)) = models st"
    by (simp_all add: keeps_def)
qed

lemma recover_count:
  "models (snd (recover_action env v rounds convo st)) \<le> models st + 1 + (MAX_SYNTHESIS_ROUNDS - rounds)"
proof -
  let ?sp = "\<lparr>ls_role = RoleSystem, ls_provenance = LpOperator, ls_text = actionRecoveryInstruction (te_contract env) v\<rparr>"
  let ?tail = "andThen (callModel env (convo @ [?sp])) (\<lambda>r. andThen (runToolRounds env rounds (convo @ [?sp]) r) (\<lambda>(rounds2, convo2, r2). ret r2))"
  have rounds: "models (snd (runToolRounds env rounds c r s)) \<le> models s + (MAX_SYNTHESIS_ROUNDS - rounds)" for c r s
    using rounds_count [of env rounds c r s] by linarith
  have tail: "models (snd (?tail s)) \<le> models s + 1 + (MAX_SYNTHESIS_ROUNDS - rounds)" for s
  proof (rule inv_andThen)
    show "models (snd (callModel env (convo @ [?sp]) s)) \<le> models s + 1 + (MAX_SYNTHESIS_ROUNDS - rounds)"
      using callModel_count [of env "convo @ [?sp]" s] by linarith
    fix r s1
    assume "callModel env (convo @ [?sp]) s = (Inr r, s1)"
    then have "models s1 \<le> models s + 1" using callModel_count [of env "convo @ [?sp]" s] by simp
    with rounds [of "convo @ [?sp]" r s1]
    show "models (snd (andThen (runToolRounds env rounds (convo @ [?sp]) r) (\<lambda>(rounds2, convo2, r2). ret r2) s1)) \<le> models s + 1 + (MAX_SYNTHESIS_ROUNDS - rounds)"
      by (auto simp: andThen_def ret_def split: prod.split sum.split)
  qed
  define pre where "pre = andThen (log_event (te_d env) ''action.recovery''
       (JObj [(''kind'', JStr (kind_text (ak_kind (te_contract env)))), (''missing'', JStr (missing_text (av_missing v)))])) (\<lambda>_.
     andThen (whenever (av_missing v \<noteq> MissNone) (emitProgress (te_d env) (te_i env) (ContractRecovery (ak_kind (te_contract env)) (av_missing v)))) (\<lambda>_.
     recordSpan (te_d env) (te_i env) ?sp))"
  have "keeps (\<lambda>st st'. models st' = models st) pre" unfolding pre_def by (intro keep_intros)
  then have pre: "models (snd (pre s)) = models s" for s by (simp add: keeps_def)
  have "recover_action env v rounds convo st = andThen pre (\<lambda>_. ?tail) st"
    by (simp add: recover_action_def pre_def andThen_assoc Let_def)
  then show ?thesis using pre [of st] tail [of "snd (pre st)"] by (auto simp: andThen_def split: prod.split sum.split)
qed

lemma free_count: "models (snd (free_then_finish env r st)) \<le> models st + 1 + MAX_SYNTHESIS_ROUNDS"
proof -
  let ?I = "\<lambda>s. models s \<le> models st + 1 + MAX_SYNTHESIS_ROUNDS"
  have rounds: "?I (snd (runToolRounds env 0 [] r st))" using rounds_count [of env 0 "[]" r st] by linarith
  have last: "?I (snd ((if av_satisfied (contract_now env s) then ret (Inr r2)
      else andThen (unverified_end env (contract_now env s)) (\<lambda>res. ret (Inl res))) s))" if "?I s" for r2 s
    using that by (simp add: endings_count)
  have form: "?I (snd (free_form env r st))" unfolding free_form_def
  proof (rule inv_andThen, rule rounds)
    fix x s1
    assume x: "runToolRounds env 0 [] r st = (Inr x, s1)"
    obtain n convo r1 where [simp]: "x = (n, convo, r1)" by (cases x)
    have s1: "models s1 + (MAX_SYNTHESIS_ROUNDS - n) \<le> models st + MAX_SYNTHESIS_ROUNDS" using rounds_count [of env 0 "[]" r st] x by simp
    let ?m = "if \<not> av_satisfied (contract_now env s1) \<and> ak_kind (te_contract env) \<noteq> AnswerOnly then recover_action env (contract_now env s1) n convo else ret r1"
    have m: "?I (snd (?m s1))" using recover_count [of env "contract_now env s1" n convo s1] s1 by (auto simp: ret_def)
    show "?I (snd ((case x of (rounds, convo, r1) \<Rightarrow> andThen (look (contract_now env)) (\<lambda>verdict.
        andThen (if \<not> av_satisfied verdict \<and> ak_kind (te_contract env) \<noteq> AnswerOnly then recover_action env verdict rounds convo else ret r1)
          (\<lambda>r2. andThen (look (contract_now env)) (\<lambda>verdict2. if av_satisfied verdict2 then ret (Inr r2)
            else andThen (unverified_end env verdict2) (\<lambda>res. ret (Inl res)))))) s1))"
      unfolding \<open>x = _\<close> prod.case act_simps
      by (rule inv_andThen, rule m, rule last) (use m in \<open>auto dest!: arg_cong [where f = "models \<circ> snd"]\<close>)
  qed
  show ?thesis unfolding free_then_finish_def
  proof (rule inv_andThen, rule form)
    fix x s1
    assume "free_form env r st = (Inr x, s1)"
    with form show "?I (snd ((case x of Inl res \<Rightarrow> ret res | Inr r1 \<Rightarrow> finish env r1 False) s1))" by (simp add: endings_count split: sum.split)
  qed
qed

lemma turn_body_count: "models (snd (turn_body env k st)) \<le> potential env st + 2 + MAX_SYNTHESIS_ROUNDS"
proof -
  let ?I = "\<lambda>s. models s \<le> potential env st + 2 + MAX_SYNTHESIS_ROUNDS"
  let ?J = "\<lambda>s. potential env s \<le> potential env st + 1"
  have JI: "?J s \<Longrightarrow> ?I s" for s by (simp add: potential_def)
  have free: "?I (snd (free_then_finish env r s))" if "?J s" for r s
    using free_count [of env r s] that by (simp add: potential_def)
  have ends: "?I (snd (finish env r b s))" "?I (snd (await_approval env plan r s))" if "?J s" for r b plan s
    using JI [OF that] by (simp_all add: endings_count)
  have call: "?J (snd (callModel env [] st))"
    using callModel_count [of env "[]" st] replan_frame.keeps_model(2) [of env "[]"] by (simp add: potential_def keeps_def)
  have lint: "?J (snd (lint_loop env r s))" if "?J s" for r s
    using planning_potential.keeps_lint_loop [of env r] that unfolding keeps_def by (meson order_trans)
  have exec: "?J (snd (exec_plan env plan k r s))" if "?J s" for plan r s
    using planning_potential.keeps_exec_plan [of env plan k r] that unfolding keeps_def by (meson order_trans)
  have after: "?I (snd (after_plan env x s))" if "?J s" for x s
    using free [OF that] ends(1) [OF that] JI [OF that] by (simp add: after_plan_def split: sum.split prod.split)
  have planned: "?I (snd (andThen (exec_plan env plan k r) (after_plan env) s))" if "?J s" for plan r s
    by (rule inv_andThen, rule JI [OF exec [OF that]], rule after) (use exec [OF that, of plan r] in simp)
  show ?thesis unfolding turn_body_def
  proof (rule inv_andThen, rule JI [OF call], rule inv_andThen, goal_cases)
    case (1 r0 s1)
    with call show ?case by (intro JI lint) simp
  next
    case (2 r0 s1 linted s2)
    with call lint [of s1 r0] have "?J s2" by simp
    with free ends(2) planned JI show ?case by (simp split: sum.split option.split)
  qed
qed

text \<open>
  C7: a turn calls the model at most eight times, plus once for every replan the session has left: once to start, at most six
  synthesis rounds, at most one recovery of an unverified action. No loop of the turn can run on, whatever the model answers.
\<close>

theorem model_calls_bounded:
  assumes "turn_main d inp (start_turn lp inp) = (res, st)"
  shows "models st \<le> 8 + ((case ld_maxReplans d of None \<Rightarrow> 2 | Some m \<Rightarrow> m) - ss_totalReplans (session_of lp (ti_sessionId inp)))"
  using assms start_trace(1)
proof (cases rule: turn_main_cases)
  case unprepared
  then have "\<not> is_model e" if "e \<in> set (tn_trace st)" for e using that by (cases e) (auto simp: quiet_start_def filter_empty_conv)
  then show ?thesis by (simp add: models_def filter_empty_conv)
next
  case (ran env st1 k st0)
  then have "\<not> is_model e" if "e \<in> set (tn_trace st1)" for e using that by (cases e) (auto simp: quiet_start_def filter_empty_conv)
  then have 0: "models st1 = 0" by (simp add: models_def filter_empty_conv)
  have "models (snd (handle (turn_body env k) (halted env) st1)) = models (snd (turn_body env k st1))"
    using endings_count(4) by (auto simp: handle_def split: prod.split sum.split)
  then have "models st \<le> potential env st1 + 2 + MAX_SYNTHESIS_ROUNDS" using turn_body_count [of env k st1] ran(7) by simp
  with 0 ran(1,4) show ?thesis by (simp add: potential_def MAX_SYNTHESIS_ROUNDS_def max_replans_def quiet_start_def replans_def start_turn_def)
qed

theorem model_calls_bounded_witness: "models (snd (demo_turn demo_answers)) \<le> 10"
  using model_calls_bounded [OF surjective_pairing [of "demo_turn demo_answers", unfolded demo_turn_def]]
  unfolding demo_turn_def by (simp add: demo_ports_def)

end
