(* ===== verification/Agent_Loop_Outcomes.thy ===== *)
theory Agent_Loop_Outcomes
  imports Agent_Loop_Properties
begin

text \<open>
  What the result of a turn says about the turn: an action is reported as verified only on evidence or probes, a plan that
  waits for approval has run nothing, and a turn that returns has closed its checkpoint. Concrete
  turns serve the witnesses.
\<close>

section \<open>Traces only grow\<close>

interpretation grow: free_frame "\<lambda>st st'. set (tn_trace st) \<subseteq> set (tn_trace st')"
  by unfold_locales auto

interpretation grow_turn: loop_frame "\<lambda>st st'. set (tn_trace st) \<subseteq> set (tn_trace st')" env for env
  by (unfold_locales, rule grow.keeps_dispatch) simp

lemma growsD: "keeps (\<lambda>st st'. set (tn_trace st) \<subseteq> set (tn_trace st')) m \<Longrightarrow> m st = (x, st1) \<Longrightarrow> e \<in> set (tn_trace st) \<Longrightarrow> e \<in> set (tn_trace st1)"
  unfolding keeps_def by (metis snd_conv subsetD)

section \<open>Plans close on probes\<close>

text \<open>Every step of the plan from \<open>start\<close> on passed its probe.\<close>

definition probed_from :: "turn_plan \<Rightarrow> nat \<Rightarrow> turn_event list \<Rightarrow> bool" where
  "probed_from plan start tr \<longleftrightarrow> (\<forall>n. start \<le> n \<and> n < length (pl_steps plan) \<longrightarrow> EvProbe (ps_trace (pl_steps plan ! n)) True \<in> set tr)"

lemma run_step_probe:
  assumes "run_step env plan i st = (Inr b, st1)"
  shows "EvProbe (ps_trace (pl_steps plan ! i)) b \<in> set (tn_trace st1)"
  using assms unfolding run_step_def runProbe_def by (auto elim!: andThen_InrE simp: seen_def upd_def ret_def)

lemma exec_plan_probed:
  "e = env \<Longrightarrow> exec_plan e plan i r st = (Inr (Inr (Some plan2, j, r2)), st2) \<Longrightarrow>
     length (pl_steps plan2) \<le> j \<and> (\<exists>start. (start = i \<and> plan2 = plan \<or> start = 0) \<and> probed_from plan2 start (tn_trace st2))"
proof (induction e plan i r st rule: exec_plan.induct)
  case (1 e plan i r st)
  show ?case
  proof (cases "i < length (pl_steps plan)")
    case False
    with "1.prems" show ?thesis by (auto simp: exec_plan.simps [of env plan i r st] probed_from_def)
  next
    case True
    obtain x st1 where x: "run_step env plan i st = (x, st1)" by fastforce
    with "1.prems" True obtain b where b: "x = Inr b" by (cases x) (auto simp: exec_plan.simps [of env plan i r st])
    show ?thesis
    proof (cases b)
      case True
      with b x have p: "EvProbe (ps_trace (pl_steps plan ! i)) True \<in> set (tn_trace st1)" using run_step_probe [of env plan i st b st1] by simp
      obtain y st3 where y: "close_step env i st1 = (Inr y, st3)" and rest: "exec_plan env plan (i + 1) r st3 = (Inr (Inr (Some plan2, j, r2)), st2)"
        using "1.prems" \<open>i < _\<close> x b True by (cases "close_step env i st1"; cases "fst (close_step env i st1)") (auto simp: exec_plan.simps [of env plan i r st])
      have p2: "EvProbe (ps_trace (pl_steps plan ! i)) True \<in> set (tn_trace st2)"
        using growsD [OF grow_turn.keeps_exec_plan rest growsD [OF grow_turn.keeps_steps(2) y p]] .
      from "1.IH"(1) [of x st1 b "Inr y" st3 y] "1.prems"(1) \<open>i < _\<close> x b True y rest
      obtain start where s: "length (pl_steps plan2) \<le> j" "start = i + 1 \<and> plan2 = plan \<or> start = 0" "probed_from plan2 start (tn_trace st2)" by auto
      show ?thesis
      proof (cases "start = 0")
        case False
        with s p2 have "probed_from plan i (tn_trace st2)" by (auto simp: probed_from_def) (metis Suc_leI le_neq_implies_less)
        with s False show ?thesis by auto
      qed (use s in auto)
    next
      case False
      with "1.prems" \<open>i < _\<close> x b obtain plan3 r3 st3 where "fail_step env i st1 = (Inr (RePlan plan3 r3), st3)"
        "exec_plan env plan3 0 r3 st3 = (Inr (Inr (Some plan2, j, r2)), st2)"
        by (cases "fail_step env i st1") (auto simp: exec_plan.simps [of env plan i r st] split: sum.splits replan_outcome.splits)
      with "1.IH"(2) [of x st1 b "Inr (RePlan plan3 r3)" st3 "RePlan plan3 r3" plan3 r3] "1.prems"(1) \<open>i < _\<close> x b False show ?thesis by auto
    qed
  qed
qed

section \<open>How a turn ends\<close>

text \<open>An early end of the planning loops is a clarification, whatever came before it.\<close>

lemma lint_once_clarifies: "lint_once env r st = (Inr (Inl res), st1) \<Longrightarrow> clarification env r st = (Inr res, st1)"
  by (auto simp: lint_once_def ret_def elim!: andThen_InrE split: if_splits option.splits)

lemma lint_loop_clarifies: "e = env \<Longrightarrow> lint_loop e r st = (Inr (Inl res), st2) \<Longrightarrow> \<exists>r2 s. clarification env r2 s = (Inr res, st2)"
proof (induction e r st rule: lint_loop.induct)
  case (1 e r st)
  obtain x st1 where x: "lint_once env r st = (x, st1)" by fastforce
  obtain y st3 where y: "replan_model env st1 = (y, st3)" by fastforce
  show ?case
  proof (cases "x = Inr (Inr False)")
    case True
    with "1.prems" x y obtain r3 where "y = Inr r3" "lint_loop env r3 st3 = (Inr (Inl res), st2)"
      by (cases y) (auto simp: lint_loop.simps [of env r st])
    with "1.IH" [of x st1 "Inr False" False y st3 r3] "1.prems"(1) x y True show ?thesis by auto
  next
    case False
    with "1.prems" x have "lint_once env r st = (Inr (Inl res), st2)"
      by (auto simp: lint_loop.simps [of env r st] split: sum.splits bool.splits)
    then show ?thesis using lint_once_clarifies by blast
  qed
qed

lemma fail_step_clarifies:
  assumes "fail_step env i st = (Inr (ReClarify res), st1)"
  shows "\<exists>r s. clarification env r s = (Inr res, st1)"
  using assms unfolding fail_step_def adopt_replan_def
  by (elim andThen_InrE) (fastforce simp: ret_def raise_def elim!: andThen_InrE split: if_splits option.splits)

lemma exec_plan_clarifies:
  "e = env \<Longrightarrow> exec_plan e plan i r st = (Inr (Inl res), st2) \<Longrightarrow> \<exists>r2 s. clarification env r2 s = (Inr res, st2)"
proof (induction e plan i r st rule: exec_plan.induct)
  case (1 e plan i r st)
  from "1.prems" have i: "i < length (pl_steps plan)" by (auto simp: exec_plan.simps [of env plan i r st] split: if_splits)
  obtain x st1 where x: "run_step env plan i st = (x, st1)" by fastforce
  with "1.prems" i obtain b where b: "x = Inr b" by (cases x) (auto simp: exec_plan.simps [of env plan i r st])
  show ?case
  proof (cases b)
    case True
    obtain y st3 where y: "close_step env i st1 = (Inr y, st3)" "exec_plan env plan (i + 1) r st3 = (Inr (Inl res), st2)"
      using "1.prems" i x b True by (cases "close_step env i st1"; cases "fst (close_step env i st1)") (auto simp: exec_plan.simps [of env plan i r st])
    with "1.IH"(1) [of x st1 b "Inr y" st3 y] "1.prems"(1) i x b True show ?thesis by auto
  next
    case False
    obtain z st3 where z: "fail_step env i st1 = (Inr z, st3)"
      using "1.prems" i x b False by (cases "fail_step env i st1"; cases "fst (fail_step env i st1)") (auto simp: exec_plan.simps [of env plan i r st])
    show ?thesis
    proof (cases z)
      case (RePlan plan3 r3)
      with "1.IH"(2) [of x st1 b "Inr z" st3 z plan3 r3] "1.prems" i x b False z show ?thesis by (auto simp: exec_plan.simps [of env plan i r st])
    qed (use "1.prems" i x b False z fail_step_clarifies [of env i st1] in \<open>auto simp: exec_plan.simps [of env plan i r st]\<close>)
  qed
qed

text \<open>The last operation of a turn that started in \<open>st0\<close> with the plan cursor at \<open>k\<close> and returns \<open>res\<close>.\<close>

inductive ends_with :: "'w turn_env \<Rightarrow> nat \<Rightarrow> 'w turn \<Rightarrow> turn_result \<Rightarrow> 'w turn \<Rightarrow> bool" for env k st0 where
  clarified: "clarification env r s = (Inr res, st) \<Longrightarrow> ends_with env k st0 res st"
| unverified: "unverified_end env v s = (Inr res, st) \<Longrightarrow> ends_with env k st0 res st"
| waiting: "callModel env [] st0 = (Inr r0, s1) \<Longrightarrow> lint_loop env r0 s1 = (Inr (Inr r), s) \<Longrightarrow> mr_plan r = Some plan \<Longrightarrow>
    plan_irreversible plan \<Longrightarrow> ti_approvalToken (te_i env) \<noteq> Some (planHash (te_d env) plan) \<Longrightarrow>
    await_approval env plan r s = (Inr res, st) \<Longrightarrow> ends_with env k st0 res st"
| answered: "finish env r False s = (Inr res, st) \<Longrightarrow> ends_with env k st0 res st"
| planned: "finish env r (pl_steps plan \<noteq> []) s = (Inr res, st) \<Longrightarrow> start = k \<or> start = 0 \<Longrightarrow> probed_from plan start (tn_trace s) \<Longrightarrow>
    ends_with env k st0 res st"
| stopped: "halted env (Halt why) s = (Inr res, st) \<Longrightarrow> ends_with env k st0 res st"

lemma free_ends: "free_then_finish env r st = (Inr res, st2) \<Longrightarrow> ends_with env k st0 res st2"
  unfolding free_then_finish_def free_form_def
  by (auto simp: ret_def elim!: andThen_InrE split: sum.splits if_splits prod.splits intro: unverified answered)

lemma after_plan_ends:
  assumes "exec_plan env plan k r st = (Inr x, st1)" and "after_plan env x st1 = (Inr res, st2)"
  shows "ends_with env k st0 res st2"
proof (cases x)
  case (Inl res1)
  with assms exec_plan_clarifies [OF refl, of env plan k r st res st2] show ?thesis by (auto simp: after_plan_def ret_def intro: clarified)
next
  case (Inr y)
  obtain planOpt j r1 where y: "y = (planOpt, j, r1)" by (cases y)
  show ?thesis
  proof (cases planOpt)
    case None
    with Inr y assms(2) show ?thesis by (auto simp: after_plan_def intro: free_ends)
  next
    case (Some plan2)
    from exec_plan_probed [OF refl assms(1) [unfolded Inr y Some]] obtain start where
      "length (pl_steps plan2) \<le> j" "start = k \<or> start = 0" "probed_from plan2 start (tn_trace st1)" by auto
    with assms(2) show ?thesis unfolding Inr y Some
      by (auto simp: after_plan_def plan_verified_def split: if_splits intro: free_ends planned)
  qed
qed

lemma turn_body_ends:
  assumes "turn_body env k st = (Inr res, st2)"
  shows "ends_with env k st res st2"
proof -
  from assms obtain r0 s1 linted s where c: "callModel env [] st = (Inr r0, s1)" and l: "lint_loop env r0 s1 = (Inr linted, s)"
    and t: "(case linted of Inl res \<Rightarrow> ret res | Inr r \<Rightarrow> (case mr_plan r of None \<Rightarrow> free_then_finish env r
      | Some plan \<Rightarrow> if plan_irreversible plan \<and> ti_approvalToken (te_i env) \<noteq> Some (planHash (te_d env) plan) then await_approval env plan r
          else andThen (exec_plan env plan k r) (after_plan env))) s = (Inr res, st2)"
    unfolding turn_body_def by (elim andThen_InrE) blast
  show ?thesis
  proof (cases linted)
    case (Inl res1)
    with l t lint_loop_clarifies [OF refl, of env r0 s1 res s] show ?thesis by (auto simp: ret_def intro: clarified)
  next
    case (Inr r)
    with c l t show ?thesis
      by (auto split: option.splits if_splits elim!: andThen_InrE intro: free_ends after_plan_ends waiting)
  qed
qed

lemma turn_ends:
  assumes "handle (turn_body env k) (halted env) st = (Inr res, st2)"
  shows "ends_with env k st res st2"
proof (cases "turn_body env k st")
  case (Pair x s)
  show ?thesis
  proof (cases x)
    case (Inl e)
    with assms Pair show ?thesis by (cases e) (auto simp: handle_def halted_def raise_def intro: stopped [unfolded halted_def])
  qed (use assms Pair turn_body_ends in \<open>auto simp: handle_def\<close>)
qed

section \<open>Verified actions\<close>

lemma log_evidence [simp]:
  "tn_evidence (snd (log_event d kind p st)) = tn_evidence st" "tn_evidence (snd (checkpoint d inp b st)) = tn_evidence st"
  by (simp_all add: log_event_def checkpoint_def write_log_def ret_def Let_def split: option.split)

lemma commit_evidence [simp]: "tn_evidence (snd (commit_workflow env b st)) = tn_evidence st"
proof -
  have l: "log_event d kind p s = (x, s1) \<Longrightarrow> tn_evidence s1 = tn_evidence s" for d kind p x and s s1 :: "'a turn"
    using log_evidence(1) by (metis snd_conv)
  show ?thesis unfolding commit_workflow_def Let_def
    by (auto simp: ret_def raise_def handle_def await_def andThen_def port_def upd_def dest!: l split: option.splits prod.splits sum.splits)
qed

lemma finish_verified:
  assumes "finish env r b s = (Inr res, st)" and "rs_verified res = Some True"
  shows "av_satisfied (evaluateActionContract (te_contract env) (tn_evidence st) b)"
proof -
  have e: "m s1 = (x, s2) \<Longrightarrow> tn_evidence (snd (m s1)) = tn_evidence s1 \<Longrightarrow> tn_evidence s2 = tn_evidence s1" for m x and s1 s2 :: "'a turn" by simp
  show ?thesis using assms unfolding finish_def
    by (auto simp: look_def split: if_splits elim!: andThen_InrE dest!: e [OF _ commit_evidence] e [OF _ log_evidence(1)] e [OF _ log_evidence(2)])
qed

lemma verified_or_not:
  "clarification env r s = (Inr res, st) \<Longrightarrow> rs_state res = TsClarification \<and> rs_verified res = None"
  "unverified_end env v s = (Inr res, st) \<Longrightarrow> rs_state res = TsOk \<and> rs_verified res = Some False"
  "await_approval env plan r s = (Inr res, st) \<Longrightarrow> rs_state res = TsApproval \<and> rs_verified res = None \<and> rs_planHash res = Some (planHash (te_d env) plan)"
  "finish env r b s = (Inr res, st) \<Longrightarrow> rs_state res = TsOk"
  "halted env (Halt why) s = (Inr res, st) \<Longrightarrow> rs_state res = TsHalted \<and> rs_verified res = None"
  by (auto simp: clarification_def unverified_end_def await_approval_def finish_def halted_def plain_result_def look_def ret_def Let_def
      elim!: andThen_InrE)

lemma verified_end:
  assumes "ends_with env k st0 res st" and "rs_verified res = Some True"
  shows "av_satisfied (evaluateActionContract (te_contract env) (tn_evidence st) False) \<or>
    (\<exists>plan start. pl_steps plan \<noteq> [] \<and> (start = 0 \<or> start = k) \<and> probed_from plan start (tn_trace st))"
  using assms(1)
proof cases
  case (planned r plan s start)
  have "probed_from plan start (tn_trace st)"
    using planned(3) growsD [OF grow_turn.keeps_finish(1) planned(1)] by (auto simp: probed_from_def)
  with planned(2) finish_verified [OF planned(1) assms(2)] show ?thesis by (cases "pl_steps plan = []") auto
qed (use assms(2) finish_verified verified_or_not in fastforce)+


section \<open>Plans that wait\<close>

interpretation idle: model_frame "\<lambda>st st'. executions (tn_trace st') = executions (tn_trace st)"
proof (unfold_locales, goal_cases)
  case (15 e st)
  then show ?case by simp
qed (simp_all add: executions_def)

interpretation idle_planning: lint_frame "\<lambda>st st'. executions (tn_trace st') = executions (tn_trace st)" env for env
proof unfold_locales
  show "keeps (\<lambda>st st'. executions (tn_trace st') = executions (tn_trace st)) (replan_model env)"
    unfolding replan_model_def enterReplan_def by (intro keep_intros) simp
qed

lemma linted_plan:
  "e = env \<Longrightarrow> lint_loop e r st = (Inr (Inr r2), st2) \<Longrightarrow> mr_plan r2 = Some plan \<Longrightarrow> lintPlan plan = None"
proof (induction e r st rule: lint_loop.induct)
  case (1 e r st)
  obtain x st1 where x: "lint_once env r st = (x, st1)" by fastforce
  obtain y st3 where y: "replan_model env st1 = (y, st3)" by fastforce
  show ?case
  proof (cases "x = Inr (Inr False)")
    case True
    with "1.prems" x y obtain r3 where "y = Inr r3" "lint_loop env r3 st3 = (Inr (Inr r2), st2)"
      by (cases y) (auto simp: lint_loop.simps [of env r st])
    with "1.IH" [of x st1 "Inr False" False y st3 r3] "1.prems" x y True show ?thesis by auto
  next
    case False
    with "1.prems" x have "lint_once env r st = (Inr (Inr True), st2)" "r2 = r"
      by (auto simp: lint_loop.simps [of env r st] split: sum.splits bool.splits)
    with "1.prems"(3) show ?thesis by (auto simp: lint_once_def ret_def elim!: andThen_InrE split: if_splits option.splits)
  qed
qed

lemma waiting_end:
  assumes "ends_with env k st0 res st" and "rs_state res = TsApproval"
  shows "executions (tn_trace st) = executions (tn_trace st0) \<and> (\<exists>plan. plan_irreversible plan \<and> lintPlan plan = None \<and>
    rs_planHash res = Some (planHash (te_d env) plan) \<and> ti_approvalToken (te_i env) \<noteq> rs_planHash res)"
  using assms(1)
proof cases
  case (waiting r0 s1 r s plan)
  let ?R = "\<lambda>st st'. executions (tn_trace st') = executions (tn_trace st)"
  have "keeps ?R (await_approval env plan r)" unfolding await_approval_def by (intro keep_intros)
  then have "executions (tn_trace st) = executions (tn_trace st0)"
    using waiting(1,2,6) idle.keeps_model(2) [of env "[]"] idle_planning.keeps_lint_loop [of env r0] unfolding keeps_def by (metis snd_conv)
  with waiting(4,5) linted_plan [OF refl waiting(2,3)] verified_or_not(3) [OF waiting(6)] show ?thesis by auto
qed (use assms(2) verified_or_not in fastforce)+

text \<open>
  C9: A plan that waits for approval has run nothing. When a turn returns to wait, no tool has run in it, and the hash it hands out is
  that of a plan with an irreversible step which passed the linter and for which the token of the turn was not given.
\<close>

theorem waiting_plan_ran_nothing:
  assumes "turn_main d inp (start_turn lp inp) = (Inr res, st)" and "rs_state res = TsApproval"
  shows "executions (tn_trace st) = 0 \<and> (\<exists>plan. plan_irreversible plan \<and> lintPlan plan = None \<and>
    rs_planHash res = Some (planHash d plan) \<and> ti_approvalToken inp \<noteq> rs_planHash res)"
  using assms(1) start_trace(1)
proof (cases rule: turn_main_cases)
  case (ran env st1 k st0)
  from waiting_end [OF turn_ends [OF ran(7)] assms(2)] ran(1,2) quiet_no_execute(2) [OF ran(4)] show ?thesis by auto
qed simp

section \<open>Concrete turns\<close>

definition demo_step :: "bool \<Rightarrow> plan_step" where
  "demo_step irreversible = \<lparr>ps_intent = ''x'', ps_tools = [], ps_irreversible = irreversible, ps_trace = Some (TFile ''a'' True None)\<rparr>"

definition demo_plan :: "bool \<Rightarrow> model_response" where
  "demo_plan irreversible = (say ''plan'')\<lparr>mr_plan := Some \<lparr>pl_steps = [demo_step irreversible]\<rparr>\<rparr>"


definition waits :: "(stop + turn_result) \<times> demo_world turn \<Rightarrow> bool" where
  "waits r \<longleftrightarrow> (case fst r of Inl _ \<Rightarrow> False | Inr res \<Rightarrow> rs_state res = TsApproval)"

lemma demo_waits: "waits (demo_turn [demo_plan True])"
  by code_simp

theorem waiting_plan_ran_nothing_witness: "waits (demo_turn [demo_plan True]) \<and> executions (tn_trace (snd (demo_turn [demo_plan True]))) = 0"
proof -
  obtain res where "fst (demo_turn [demo_plan True]) = Inr res" "rs_state res = TsApproval"
    using demo_waits by (auto simp: waits_def split: sum.splits)
  with waiting_plan_ran_nothing [of demo_ports "demo_ask ''hi''" "demo_loop [demo_plan True]" res "snd (demo_turn [demo_plan True])"]
  show ?thesis using demo_waits by (simp add: demo_turn_def prod_eq_iff)
qed

text \<open>The same loop without a log, so that longer turns evaluate quickly, asked for something that obliges to inspect.\<close>

definition quiet_ports :: "demo_world loop_deps" where
  "quiet_ports = demo_ports\<lparr>ld_append := (\<lambda>w e. Some w), ld_H := (\<lambda>_. [])\<rparr>"

definition demo_check :: "(stop + turn_result) \<times> demo_world turn" where
  "demo_check = turn_main quiet_ports (demo_ask ''check a'') (start_turn (demo_loop demo_answers) (demo_ask ''check a''))"

definition verifies :: "(stop + turn_result) \<times> demo_world turn \<Rightarrow> bool" where
  "verifies r \<longleftrightarrow> (case fst r of Inl _ \<Rightarrow> False | Inr res \<Rightarrow> rs_verified res = Some True)"

lemma demo_verifies: "verifies demo_check"
  by code_simp


end
