(* ===== verification/Session_Log.thy ===== *)
theory Session_Log
  imports Agent_Loop_Outcomes
begin

text \<open>
  The durable session log (\<open>core-ts/src/runtime/session-log.ts\<close>): one JSON line per entry, the scan that finds where an
  interrupted turn resumes, and the list of recent sessions. Together with the agent loop it gives the durability of
  tool positions: a turn that resumes after a crash never reuses the position of a tool call that may have run.

  \<open>JSON.parse\<close> is the parameter \<open>parse\<close>; what is used of it is that it inverts the text of an entry that was written.
\<close>

section \<open>The log\<close>

definition entry_jv :: "log_entry \<Rightarrow> jv" where
  "entry_jv e = JObj [(''seq'', JNum (int (le_seq e))), (''ts'', JStr (le_ts e)), (''kind'', JStr (le_kind e)),
     (''payloadHash'', JStr (le_payloadHash e)), (''payload'', le_payload e)]"

definition append_line :: "log_entry \<Rightarrow> string" where
  "append_line e = json_text (entry_jv e)"

record checkpoint_row =
  ck_sessionId :: string
  ck_turnId :: string
  ck_complete :: bool
  ck_nextStepIndex :: nat
  ck_highWater :: nat

definition safe_natural :: "jv \<Rightarrow> nat option" where
  "safe_natural v = (case v of JNum n \<Rightarrow> if isSafeInteger n \<and> n \<ge> 0 then Some (nat n) else None | _ \<Rightarrow> None)"

definition checkpoint_row_of :: "jv \<Rightarrow> checkpoint_row option" where
  "checkpoint_row_of v =
     (case as_record v of
        None \<Rightarrow> None
      | Some payload \<Rightarrow>
          (case (getprop payload ''sessionId'', getprop payload ''turnId'', getprop payload ''status'',
                 safe_natural (getprop payload ''nextStepIndex''), safe_natural (getprop payload ''toolOrdinalHighWater'')) of
             (JStr sid, JStr tid, JStr status, Some n, Some h) \<Rightarrow>
               if status = ''in-progress'' \<or> status = ''complete''
               then Some \<lparr>ck_sessionId = sid, ck_turnId = tid, ck_complete = (status = ''complete''), ck_nextStepIndex = n, ck_highWater = h\<rparr>
               else None
           | _ \<Rightarrow> None))"

text \<open>\<open>None\<close> is the error \<open>SESSION_LOG_CORRUPT\<close>.\<close>

fun latest_checkpoint :: "(string \<Rightarrow> jv option) \<Rightarrow> string \<Rightarrow> string \<Rightarrow> checkpoint_row option \<Rightarrow> string list \<Rightarrow> checkpoint_row option option" where
  "latest_checkpoint parse sid tid latest [] = Some latest"
| "latest_checkpoint parse sid tid latest (line # lines) =
     (case parse line of
        None \<Rightarrow> None
      | Some v \<Rightarrow>
          (case as_record v of
             None \<Rightarrow> None
           | Some raw \<Rightarrow>
               if getprop raw ''kind'' \<noteq> JStr ''turn.checkpoint'' then latest_checkpoint parse sid tid latest lines
               else
                 (case checkpoint_row_of (getprop raw ''payload'') of
                    None \<Rightarrow> None
                  | Some row \<Rightarrow> latest_checkpoint parse sid tid
                      (if ck_sessionId row = sid \<and> ck_turnId row = tid then Some row else latest) lines)))"

definition resume_log :: "(string \<Rightarrow> jv option) \<Rightarrow> string list \<Rightarrow> string \<Rightarrow> string option \<Rightarrow> turn_state option" where
  "resume_log parse lines sid turnId =
     (case turnId of
        None \<Rightarrow> Some NotInProgress
      | Some tid \<Rightarrow>
          if tid = [] then Some NotInProgress
          else
            (case latest_checkpoint parse sid tid None lines of
               None \<Rightarrow> None
             | Some None \<Rightarrow> Some NotInProgress
             | Some (Some row) \<Rightarrow> Some (if ck_complete row then NotInProgress else InProgress (ck_nextStepIndex row) (int (ck_highWater row)))))"

record session_summary =
  sm_sessionId :: string
  sm_turns :: nat
  sm_lastAt :: string

definition turn_start_of :: "(string \<Rightarrow> jv option) \<Rightarrow> string \<Rightarrow> (string \<times> string) option" where
  "turn_start_of parse line =
     (if trim line = [] then None
      else
        (case parse line of
           None \<Rightarrow> None
         | Some v \<Rightarrow>
             (case as_record v of
                None \<Rightarrow> None
              | Some e \<Rightarrow>
                  if getprop e ''kind'' \<noteq> JStr ''turn.start'' then None
                  else
                    (case (case as_record (getprop e ''payload'') of None \<Rightarrow> JUndef | Some p \<Rightarrow> getprop p ''sessionId'') of
                       JStr sid \<Rightarrow> Some (sid, case getprop e ''ts'' of JStr ts \<Rightarrow> ts | _ \<Rightarrow> [])
                     | _ \<Rightarrow> None))))"

definition count_start :: "(string, nat \<times> string) jsmap \<Rightarrow> string \<times> string \<Rightarrow> (string, nat \<times> string) jsmap" where
  "count_start m s = (case s of (sid, ts) \<Rightarrow>
     (case map_of m sid of
        None \<Rightarrow> AList.update sid (1, ts) m
      | Some (n, lastAt) \<Rightarrow> AList.update sid (n + 1, if ts > lastAt then ts else lastAt) m))"

text \<open>Latest first; sessions with the same time stay in the order of their first turn.\<close>

definition recent_sessions :: "(string \<Rightarrow> jv option) \<Rightarrow> string list \<Rightarrow> nat \<Rightarrow> session_summary list" where
  "recent_sessions parse lines n =
     take n (rev (sort_key sm_lastAt (rev (map (\<lambda>(sid, turns, lastAt). \<lparr>sm_sessionId = sid, sm_turns = turns, sm_lastAt = lastAt\<rparr>)
       (foldl count_start [] (List.map_filter (turn_start_of parse) lines))))))"

section \<open>High-water marks grow\<close>

fun checkpoints :: "turn_event list \<Rightarrow> (bool \<times> int \<times> int) list" where
  "checkpoints [] = []"
| "checkpoints (EvCheckpoint b i h # es) = (b, i, h) # checkpoints es"
| "checkpoints (e # es) = checkpoints es"

definition high_waters :: "turn_event list \<Rightarrow> int list" where
  "high_waters tr = map (snd \<circ> snd) (checkpoints tr)"

lemma checkpoints_append [simp]: "checkpoints (es @ fs) = checkpoints es @ checkpoints fs"
  by (induction es rule: checkpoints.induct) simp_all

lemma in_checkpoints: "(b, i, h) \<in> set (checkpoints tr) \<longleftrightarrow> EvCheckpoint b i h \<in> set tr"
  by (induction tr rule: checkpoints.induct) auto

lemma high_waters_append [simp]: "high_waters (es @ fs) = high_waters es @ high_waters fs" "high_waters [] = []"
  "high_waters [EvCheckpoint b i h] = [h]" "\<not> quiet_event e \<Longrightarrow> loud_event e \<Longrightarrow> high_waters [e] = []" "quiet_event e \<Longrightarrow> high_waters [e] = []"
  by (simp_all add: high_waters_def) (cases e; simp)+

definition water_inv :: "'w turn \<Rightarrow> bool" where
  "water_inv st \<longleftrightarrow> sorted (high_waters (tn_trace st)) \<and> (\<forall>h \<in> set (high_waters (tn_trace st)). h \<le> tn_highWater st)"

lemma water_event: "water_inv st \<Longrightarrow> high_waters [e] = [] \<Longrightarrow> water_inv (st\<lparr>tn_trace := tn_trace st @ [e]\<rparr>)"
  by (simp add: water_inv_def)

lemma water_same: "water_inv st \<Longrightarrow> tn_trace st' = tn_trace st \<Longrightarrow> tn_highWater st \<le> tn_highWater st' \<Longrightarrow> water_inv st'"
  by (auto simp: water_inv_def intro: order_trans)

interpretation water_frame: free_frame "\<lambda>st st'. water_inv st \<longrightarrow> water_inv st'"
proof (unfold_locales, goal_cases)
  case (15 e st)
  then show ?case by (auto intro: water_event)
next
  case (16 st b)
  show ?case by (auto simp: water_inv_def sorted_append)
next
  case (20 st q)
  show ?case by (auto intro: water_event)
next
  case (21 st call c)
  show ?case by (auto intro: water_event)
qed (blast | (rule impI, erule water_same; simp))+

interpretation water_turn: loop_frame "\<lambda>st st'. water_inv st \<longrightarrow> water_inv st'" env for env
  by (unfold_locales, rule water_frame.keeps_dispatch) (rule impI, erule water_same; simp)

interpretation water_entry: entry_frame "\<lambda>st st'. water_inv st \<longrightarrow> water_inv st'"
  by unfold_locales (rule impI, erule water_same; simp)

lemma turn_waters_sorted:
  assumes "turn_main d inp (start_turn lp inp) = (res, st)" and "tn_trace st = pre @ EvExecute call c # post"
  shows "sorted (high_waters (tn_trace st))"
  using assms(1) start_trace(1)
proof (cases rule: turn_main_cases)
  case unprepared
  with quiet_no_execute(1) [of _ st call c] assms(2) show ?thesis by auto
next
  case (ran env st1 k st0)
  have "water_inv st0" using ran(9) by (simp add: water_inv_def)
  then have "water_inv st1" using keeps_inv [OF water_entry.keeps_enter] ran(8) by (metis snd_conv)
  moreover have "keeps (\<lambda>st st'. water_inv st \<longrightarrow> water_inv st') (handle (turn_body env k) (halted env))" by (intro keep_intros)
  ultimately have "water_inv st" using keeps_inv ran(7) by (metis snd_conv)
  then show ?thesis by (simp add: water_inv_def)
qed

section \<open>Resuming\<close>

lemma latest_append:
  "latest_checkpoint parse sid tid l (xs @ ys) =
     (case latest_checkpoint parse sid tid l xs of None \<Rightarrow> None | Some l1 \<Rightarrow> latest_checkpoint parse sid tid l1 ys)"
  by (induction xs arbitrary: l) (simp_all split: option.split)

definition written_checkpoints :: "'w turn_input \<Rightarrow> string \<Rightarrow> turn_event list \<Rightarrow> jv list" where
  "written_checkpoints inp tid tr = map (\<lambda>(b, i, h). checkpoint_jv inp tid b i h) (checkpoints tr)"

definition is_checkpoint :: "log_entry \<Rightarrow> bool" where
  "is_checkpoint e \<longleftrightarrow> le_kind e = ''turn.checkpoint''"

lemma checkpoint_row_jv:
  "checkpoint_row_of (checkpoint_jv inp tid b i h) = Some row \<Longrightarrow>
     ck_sessionId row = ti_sessionId inp \<and> ck_turnId row = tid \<and> ck_complete row = b \<and> int (ck_highWater row) = h"
  by (auto simp: checkpoint_row_of_def checkpoint_jv_def as_record_def getprop_def safe_natural_def split: if_splits)

lemma entry_parsed:
  "as_record (entry_jv e) = Some [(''seq'', JNum (int (le_seq e))), (''ts'', JStr (le_ts e)), (''kind'', JStr (le_kind e)),
     (''payloadHash'', JStr (le_payloadHash e)), (''payload'', le_payload e)]"
  by (simp add: entry_jv_def as_record_def)

lemma latest_is_last:
  assumes "latest_checkpoint parse (ti_sessionId inp) tid l (map append_line es) = Some r"
    and "\<forall>e \<in> set es. parse (append_line e) = Some (entry_jv e)"
    and "map le_payload (filter is_checkpoint es) = map (\<lambda>(b, i, h). checkpoint_jv inp tid b i h) cks" and "cks \<noteq> []"
  shows "\<exists>row. r = Some row \<and> ck_complete row = fst (last cks) \<and> int (ck_highWater row) = snd (snd (last cks))"
  using assms
proof (induction es arbitrary: l cks)
  case (Cons e es)
  note parsed = Cons.prems(2) [rule_format, of e, simplified]
  show ?case
  proof (cases "is_checkpoint e")
    case True
    with Cons.prems(3,4) obtain b i h cks1 where cks: "cks = (b, i, h) # cks1" "le_payload e = checkpoint_jv inp tid b i h"
      "map le_payload (filter is_checkpoint es) = map (\<lambda>(b, i, h). checkpoint_jv inp tid b i h) cks1" by (cases cks) auto
    with Cons.prems(1) True parsed obtain row where row: "checkpoint_row_of (checkpoint_jv inp tid b i h) = Some row"
      "latest_checkpoint parse (ti_sessionId inp) tid (Some row) (map append_line es) = Some r"
      by (auto simp: entry_parsed getprop_def is_checkpoint_def dest: checkpoint_row_jv split: option.splits if_splits)
    show ?thesis
    proof (cases "cks1 = []")
      case True
      have rest: "latest_checkpoint parse (ti_sessionId inp) tid l' (map append_line es') = Some l'"
        if "\<forall>e \<in> set es'. parse (append_line e) = Some (entry_jv e)" "filter is_checkpoint es' = []" for l' es'
        using that by (induction es') (auto simp: entry_parsed getprop_def is_checkpoint_def split: if_splits)
      have "r = Some row" using row(2) rest [of es "Some row"] Cons.prems(2) cks(3) True by auto
      with checkpoint_row_jv [OF row(1)] cks(1) True show ?thesis by simp
    next
      case False
      with Cons.IH [OF row(2) _ cks(3)] Cons.prems(2) cks(1) show ?thesis by auto
    qed
  next
    case False
    with Cons.prems(1) parsed have "latest_checkpoint parse (ti_sessionId inp) tid l (map append_line es) = Some r"
      by (auto simp: entry_parsed getprop_def is_checkpoint_def split: if_splits)
    from Cons.IH [OF this _ _ Cons.prems(4)] Cons.prems(2,3) False show ?thesis by auto
  qed
qed simp

text \<open>
  What a crash leaves: the entries of the old log and those of the part \<open>pre\<close> of the turn that was reached, one line each,
  with the turn's own checkpoints in the order in which they were written.
\<close>

definition crash_log :: "(string \<Rightarrow> jv option) \<Rightarrow> 'w turn_input \<Rightarrow> string \<Rightarrow> turn_event list \<Rightarrow> log_entry list \<Rightarrow> bool" where
  "crash_log parse inp tid pre es \<longleftrightarrow> (\<forall>e \<in> set es. parse (append_line e) = Some (entry_jv e)) \<and>
     map le_payload (filter is_checkpoint es) = written_checkpoints inp tid pre"

lemma sorted_le_last: "sorted xs \<Longrightarrow> x \<in> set xs \<Longrightarrow> (x :: int) \<le> last xs"
  by (induction xs) auto

lemma crash_resumes_above:
  assumes run: "turn_main d inp (start_turn lp inp) = (res, st)" and tid: "ti_turnId inp = Some tid"
    and crash: "tn_trace st = pre @ rest" and log: "crash_log parse inp tid pre es"
    and res: "resume_log parse (old @ map append_line es) (ti_sessionId inp) (Some tid) = Some (InProgress n hw)"
    and ran: "EvExecute call c \<in> set pre"
  shows "tx_ordinal c \<le> hw"
proof -
  from ran obtain pre0 post0 where pre: "pre = pre0 @ EvExecute call c # post0" by (meson split_list)
  have tr: "tn_trace st = pre0 @ EvExecute call c # (post0 @ rest)" using crash pre by simp
  have "execution_ok d inp (tn_sess st) pre0 call c" using admitted_execution [OF run tr] by simp
  then obtain i where "EvCheckpoint False i (tx_ordinal c) \<in> set pre" using tid pre by (auto simp: execution_ok_def marked_def)
  then have ck: "(False, i, tx_ordinal c) \<in> set (checkpoints pre)" by (simp add: in_checkpoints)
  have "sorted (high_waters pre)" using turn_waters_sorted [OF run tr] crash by (simp add: sorted_append)
  moreover have "tx_ordinal c \<in> set (high_waters pre)" using ck by (force simp: high_waters_def)
  ultimately have le: "tx_ordinal c \<le> last (high_waters pre)" by (rule sorted_le_last)
  have ne: "checkpoints pre \<noteq> []" using ck by auto
  from res obtain row where "latest_checkpoint parse (ti_sessionId inp) tid None (old @ map append_line es) = Some (Some row)"
    "hw = int (ck_highWater row)" by (auto simp: resume_log_def split: if_splits option.splits)
  then obtain l1 where "latest_checkpoint parse (ti_sessionId inp) tid l1 (map append_line es) = Some (Some row)"
    by (auto simp: latest_append split: option.splits)
  from latest_is_last [OF this _ _ ne] log have "int (ck_highWater row) = snd (snd (last (checkpoints pre)))"
    by (simp add: crash_log_def written_checkpoints_def)
  with le \<open>hw = _\<close> ne show ?thesis by (simp add: high_waters_def last_map)
qed


definition demo_crashed :: "turn_event list" where
  "demo_crashed = takeWhile (\<lambda>e. case e of EvCheckpoint b _ _ \<Rightarrow> \<not> b | _ \<Rightarrow> True) (tn_trace (snd (demo_turn demo_answers)))"

definition demo_entry :: "bool \<Rightarrow> int \<Rightarrow> log_entry" where
  "demo_entry b h = \<lparr>le_seq = 0, le_ts = [], le_kind = ''turn.checkpoint'', le_payloadHash = [], le_payload = checkpoint_jv (demo_ask ''hi'') ''t1'' b 0 h\<rparr>"

definition demo_entries :: "log_entry list" where
  "demo_entries = [demo_entry False 0, demo_entry False 1, demo_entry True 1]"

definition demo_parse :: "string \<Rightarrow> jv option" where
  "demo_parse = map_of (map (\<lambda>e. (append_line e, entry_jv e)) demo_entries)"

definition demo_again :: "demo_world loop_deps" where
  "demo_again = demo_ports\<lparr>ld_resume := (\<lambda>_ _ _. Some (InProgress 0 1))\<rparr>"

definition demo_turn2 :: "(stop + turn_result) \<times> demo_world turn" where
  "demo_turn2 = turn_main demo_again (demo_ask ''hi'') (start_turn (demo_loop demo_answers) (demo_ask ''hi''))"

definition crash_points :: "turn_event list \<Rightarrow> bool" where
  "crash_points tr \<longleftrightarrow> list_ex is_execute tr \<and> checkpoints tr = [(False, 0, 0), (False, 0, 1)]"

lemma demo_crash_points: "crash_points demo_crashed"
  by code_simp

lemma demo_lines_differ: "distinct (map append_line demo_entries)"
  by code_simp

lemma demo_parses: "e \<in> set demo_entries \<Longrightarrow> demo_parse (append_line e) = Some (entry_jv e)"
  using demo_lines_differ by (auto simp: demo_parse_def comp_def intro!: map_of_is_SomeI)

lemma demo_runs_again: "list_ex is_execute (tn_trace (snd demo_turn2))"
  by code_simp

lemma demo_crash_log: "crash_log demo_parse (demo_ask ''hi'') ''t1'' demo_crashed [demo_entry False 0, demo_entry False 1]"
  using demo_crash_points
  by (auto simp: crash_points_def crash_log_def written_checkpoints_def is_checkpoint_def demo_entries_def intro!: demo_parses)
     (simp_all add: demo_entry_def)

lemma demo_rows: "checkpoint_row_of (le_payload (demo_entry b h)) =
    (if isSafeInteger h \<and> h \<ge> 0 then Some \<lparr>ck_sessionId = ''s'', ck_turnId = ''t1'', ck_complete = b, ck_nextStepIndex = 0, ck_highWater = nat h\<rparr> else None)"
  by (simp add: checkpoint_row_of_def demo_entry_def checkpoint_jv_def as_record_def getprop_def safe_natural_def isSafeInteger_def demo_ask_def)

lemma demo_kind [simp]: "le_kind (demo_entry b h) = ''turn.checkpoint''"
  by (simp add: demo_entry_def)

lemma demo_safe [simp]: "isSafeInteger 0" "isSafeInteger 1"
  by (simp_all add: isSafeInteger_def MAX_SAFE_USD_NANOS_def)

lemma demo_in_progress: "resume_log demo_parse ([] @ map append_line [demo_entry False 0, demo_entry False 1]) ''s'' (Some ''t1'') = Some (InProgress 0 1)"
  using demo_parses [of "demo_entry False 0"] demo_parses [of "demo_entry False 1"]
  by (simp add: resume_log_def demo_entries_def entry_parsed getprop_def demo_rows)


section \<open>Finished turns\<close>

definition closed :: "turn_event list \<Rightarrow> bool" where
  "closed tr \<longleftrightarrow> checkpoints tr \<noteq> [] \<and> fst (last (checkpoints tr))"

lemma record_keeps_closed: "recordSpan d inp sp s = (x, s1) \<Longrightarrow> closed (tn_trace s) \<Longrightarrow> closed (tn_trace s1)"
  by (auto simp: recordSpan_def ret_def raise_def act_port split: option.splits if_splits prod.splits)

lemma checkpoint_closes: "checkpoint d inp True s = (Inr x, s1) \<Longrightarrow> ti_turnId inp = Some tid \<Longrightarrow> closed (tn_trace s1)"
  by (auto simp: checkpoint_def write_log_def Let_def closed_def split: option.splits)

lemma end_closes:
  assumes "ends_with env k st0 res st" and tid: "ti_turnId (te_i env) = Some tid"
  shows "closed (tn_trace st)"
  using assms(1)
  by cases (auto simp: clarification_def unverified_end_def await_approval_def finish_def halted_def look_def ret_def Let_def
      elim!: andThen_InrE dest!: checkpoint_closes [OF _ tid] dest: record_keeps_closed)

text \<open>
  C10: a turn that returned is not run again. However it ended, with an answer, a question, a plan that waits or a halt, the log it left
  shows it as complete: the scan of a log that reads finds nothing to resume for it.
\<close>

theorem finished_turn_is_not_resumed:
  assumes "turn_main d inp (start_turn lp inp) = (Inr res, st)" and tid: "ti_turnId inp = Some tid"
    and log: "crash_log parse inp tid (tn_trace st) es"
    and reads: "resume_log parse (old @ map append_line es) (ti_sessionId inp) (Some tid) = Some rs"
  shows "rs = NotInProgress"
  using assms(1) start_trace(1)
proof (cases rule: turn_main_cases)
  case (ran env st1 k st0)
  have "closed (tn_trace st)" by (rule end_closes [OF turn_ends [OF ran(7)]]) (use tid ran(2) in simp)
  then have ck: "checkpoints (tn_trace st) \<noteq> []" "fst (last (checkpoints (tn_trace st)))" by (simp_all add: closed_def)
  show ?thesis
  proof (cases "tid = []")
    case False
    with reads obtain r where "latest_checkpoint parse (ti_sessionId inp) tid None (old @ map append_line es) = Some r"
      and rs: "rs = (case r of Some row \<Rightarrow> if ck_complete row then NotInProgress else InProgress (ck_nextStepIndex row) (int (ck_highWater row)) | None \<Rightarrow> NotInProgress)"
      by (auto simp: resume_log_def split: option.splits)
    then obtain l where "latest_checkpoint parse (ti_sessionId inp) tid l (map append_line es) = Some r"
      by (auto simp: latest_append split: option.splits)
    from latest_is_last [OF this _ _ ck(1)] log ck(2) rs show ?thesis by (auto simp: crash_log_def written_checkpoints_def)
  qed (use reads in \<open>simp add: resume_log_def\<close>)
qed simp

lemma demo_checkpoints: "checkpoints (tn_trace (snd (demo_turn demo_answers))) = [(False, 0, 0), (False, 0, 1), (True, 0, 1)]"
  by code_simp

definition demo_returns :: bool where
  "demo_returns = (case fst (demo_turn demo_answers) of Inl _ \<Rightarrow> False | Inr _ \<Rightarrow> True)"

lemma demo_returned: "demo_returns"
  by code_simp

theorem finished_turn_is_not_resumed_witness:
  "resume_log demo_parse (map append_line demo_entries) ''s'' (Some ''t1'') = Some NotInProgress"
proof -
  obtain res where res: "turn_main demo_ports (demo_ask ''hi'') (start_turn (demo_loop demo_answers) (demo_ask ''hi'')) = (Inr res, snd (demo_turn demo_answers))"
    using demo_returned by (auto simp: demo_returns_def demo_turn_def prod_eq_iff split: sum.splits)
  have log: "crash_log demo_parse (demo_ask ''hi'') ''t1'' (tn_trace (snd (demo_turn demo_answers))) demo_entries"
    using demo_parses demo_checkpoints by (simp add: crash_log_def written_checkpoints_def is_checkpoint_def demo_entries_def) (simp add: demo_entry_def)
  obtain rs where rs: "resume_log demo_parse ([] @ map append_line demo_entries) ''s'' (Some ''t1'') = Some rs"
    using demo_parses by (simp add: resume_log_def demo_entries_def entry_parsed getprop_def demo_rows)
  from finished_turn_is_not_resumed [OF res _ log, of "[]" rs] rs show ?thesis by (simp add: demo_ask_def)
qed

end
