(* ===== verification/Spec2Isabelle.thy ===== *)
theory Spec2Isabelle
  imports Safety_Guards Provider_Router Coordinator Context_Lease Triggers Memory_Store Delegation_Properties Session_Log
begin

text \<open>
  Verification of the deterministic core of the aisy agent harness.

  \<^bold>\<open>The program.\<close> aisy runs a language-model agent for one operator. Its core, \<open>src/packages/core-ts/src\<close>, is plain
  TypeScript that decides, without asking a model, what the agent may do: the agent loop runs a turn around model and
  tool calls (\<open>agent-loop/index.ts\<close>, \<open>agent-loop/action-contract.ts\<close>), every tool call passes a gate
  (\<open>runtime/hook-gate.ts\<close>) that asks a policy (\<open>safety/index.ts\<close>), remembered grants lift some of its questions
  (\<open>safety/grants.ts\<close>), a router picks the model provider and charges budgets (\<open>provider/index.ts\<close>), a coordinator and a delegation manager hand work to
  sub-agents with disjoint write scopes (\<open>orchestration/index.ts\<close>), a memory store keeps facts and a forget-list
  (\<open>memory/index.ts\<close>), leases and bindings tie a turn to one operator, project and session
  (\<open>runtime/context-lease.ts\<close>, \<open>runtime/work-binding.ts\<close>), receipts and a session log make effects provable and turns resumable
  (\<open>runtime/memory-receipt.ts\<close>, \<open>runtime/session-log.ts\<close>), triggers start turns at due times
  (\<open>triggers/index.ts\<close>), and the observability part verifies effects and writes a hash-chained journal
  (\<open>observability/index.ts\<close>). The application around the core (\<open>src/packages/app\<close>) is I/O.

  \<^bold>\<open>Conventions.\<close> A class or closure is a record of its state; a method is a function that takes the state and returns the
  new state with a result, \<open>Inl\<close> for a throw. A \<open>Map\<close> is an association list in insertion order (\<open>jsmap\<close>), a JSON value
  is \<open>jv\<close>, a regular expression is a value of \<open>Js_Regex\<close> with its own matcher. Numbers that the code uses as
  integers are \<open>nat\<close> or \<open>int\<close>, with the safe-integer guards of the code written out. What lies outside the sources is
  a parameter: digests, clocks, URL and date parsing, random identifiers, the durable stores, the model providers and the
  callbacks of the caller. Where a property relies on a parameter, its hypothesis states the documented behaviour
  (a digest gives 64 characters, a store reads back what it was given) and a witness instantiates it.
  Every loop is structural recursion or carries a termination proof; no fuel is used except in the matcher of
  \<open>Js_Regex\<close>, where the fuel is the length of the text and is proved to be enough.

  \<^bold>\<open>Theories, in dependency order.\<close>
  \<^item> \<open>Aisy_Prelude\<close>: strings, maps and lists as JavaScript has them; the locales \<open>invariant_machine\<close> (an invariant every
    step keeps) and \<open>latch_machine\<close> (a fact that stays once it holds), interpreted by every component below.
  \<^item> \<open>Js_Regex\<close>, \<open>Js_Json\<close>: regular expressions, JSON text, URI decoding and path normalisation. \<open>Hash_Chain\<close>: injectivity of JSON
    text and the locale \<open>tamper_evident_chain\<close>, interpreted by the journal, the forget-list and the delegation shard.
  \<^item> \<open>Safety_Types\<close>, \<open>Grants\<close>, \<open>Grant_Store\<close>: tool calls, bindings and the grant store of \<open>safety/grants.ts\<close>: entries stay
    filed under their own key, recording grants only what was asked, revoking removes it.
  \<^item> \<open>Safety_Policy\<close>: \<open>evaluate\<close> in the order of the early returns of the source, with the deny patterns, tiers, cards, the
    injection and egress guards and the trifecta detector: exact characterisation of the verdicts, monotonicity in the
    context, what grants can and cannot lift, patterns that no spelling evades.
  \<^item> \<open>Safety_Guards\<close>: approval handler, trust stripping, vault redaction, sandbox runner, nightly carve-out.
  \<^item> \<open>Observability\<close>: effect verifier, plan linter, loop guardian (equivalent to a specification on the whole history),
    secret redactor and audit journal (always readable, tamper evident, free of secrets).
  \<^item> \<open>Provider_Router\<close>: the dispatch loop with fallbacks, hysteresis, judge independence, prefix pinning and budgets; the loop
    ends because every retry marks a provider down.
  \<^item> \<open>Orchestration\<close>, \<open>Coordinator\<close>: exact cost arithmetic, globs and their overlap test, the period detector; the coordinator's
    journal with disjoint writers, reconciliation and budget halts.
  \<^item> \<open>Context_Lease\<close>: leases that drain before they close and start nothing once retired. \<open>Work_Binding\<close>: parsing and matching
    of bindings, with their storage round trip.
  \<^item> \<open>Triggers\<close>: registration and the two-phase tick, at most one firing per slot.
  \<^item> \<open>Memory_Store\<close>: write path, forget-list, derived index (a refinement of the index a full rebuild makes) and reads.
  \<^item> \<open>Delegation_Plan\<close>: validation of the plan DAG, Kahn's loop equivalent to acyclicity. \<open>Delegation_Shard\<close>: exact costs, the
    iterative payload guard equivalent to its recursive specification, shards. \<open>Delegation\<close>: the delegation manager, every
    operation with its persistence and its rollback. \<open>Delegation_Run\<close>: the run invariant, stale handles, exact budgets,
    progress. \<open>Delegation_Recovery\<close>: validation and recovery from the durable store, preflight. \<open>Delegation_Durable\<close>: over a
    store that keeps its records, the store mirrors the manager after every operation.
    \<open>Delegation_Properties\<close>: the properties of runs and of recovery.
  \<^item> \<open>Action_Contract\<close>: what a request obliges the agent to, the evidence of tool calls and of supervised providers, the verdict.
    \<open>Hook_Gate\<close>: the gate before a tool and the processing of its result: calls are admitted exactly as the policy, the learned
    grants and the operator's answer say; secrets do not reach the model. \<open>Memory_Receipt\<close>: receipts of memory writes.
  \<^item> \<open>Agent_Loop\<close>: the whole of \<open>runTurn\<close> as effects on a turn state over ports that act on a world, with a trace of what was
    done at the ports; the planning, lint and synthesis loops with their termination proofs; the locales \<open>book_frame\<close>,
    \<open>turn_frame\<close>, \<open>model_frame\<close> and \<open>exec_frame\<close>, which say once which operations respect a relation on turn states.
    \<open>Agent_Loop_Run\<close>: the frames \<open>lint_frame\<close>, \<open>plan_frame\<close>, \<open>loop_frame\<close> and \<open>entry_frame\<close> for whole turns, interpreted by the invariants of a
    turn. \<open>Agent_Loop_Properties\<close>: which calls run, the tool budget of a session, the number of model calls.
    \<open>Agent_Loop_Outcomes\<close>: how a turn can end, and what its result says of it: verified actions have evidence or probes, a plan that waits
    has run nothing. \<open>Session_Log\<close>: the log and what a crash leaves of it; a turn that is run again reuses no tool position, and one that
    returned is not run again.
  \<^item> This theory: the life of a grant as the policy sees it, what a degraded sandbox does to the policy, and the loop, the gate and the
    policy together: no turn runs a tool against the policy.

  \<^bold>\<open>Bounds.\<close> Safe integers are below \<open>2 ^ 53\<close>; spends are integers of a billionth of a dollar; plans have at most 256 tasks and 2048
  edges, payloads at most one mebibyte and depth 128, as in the source. No bound is added by the model.

  \<^bold>\<open>Not modelled.\<close> The asynchronous shell around these parts: the model providers, the chat gateways, the tools
  themselves, the SQLite adapters, container supervision, the installers, and the Python side-cars. They are I/O over
  services whose behaviour is not in the sources; what they rely on is the core above. The patterns over Unicode letters
  (verbs of a request, cleanup of replies, prefixes of facts) are parameters of the agent loop. Characters are single code units;
  JavaScript numbers appear only as exact integers or as their decimal spelling.
\<close>

section \<open>Grants, the sandbox and the policy together\<close>

lemma grants_change_only_granted:
  "policy_ready (deps\<lparr>pd_grants := g, pd_binding := b\<rparr>) = policy_ready deps"
  "sandbox_level (deps\<lparr>pd_grants := g, pd_binding := b\<rparr>) = sandbox_level deps"
  by (simp_all add: policy_ready_def sandbox_level_def)

lemma ask_means_gradient:
  assumes "evaluate env deps call ctx = Ask 2 shown"
  shows "\<not> denied deps call ctx \<and> tierOf call = 2"
proof -
  have n: "\<not> denied deps call ctx" using assms evaluate_denied [of deps call ctx env] by auto
  with assms evaluate_gradient [OF n, of env] show ?thesis by (simp split: if_splits)
qed

text \<open>
  C12: the life of a grant as the policy sees it. Where the policy asks for a tier-2 call without any
  grant, recording a grant for the tool under the current context makes it allow the call, and revoking
  the tool under that context makes it ask again with the same card.
\<close>

theorem grant_lifecycle_governs_policy:
  assumes "evaluate env (deps\<lparr>pd_grants := None, pd_binding := raw\<rparr>) call ctx = Ask 2 shown"
    and "store_wf st" and "grantable gd (JStr (tc_tool call)) raw"
    and "grant_record gd now st (JStr (tc_tool call)) scope raw = (st', Inr ())"
  shows "evaluate env (deps\<lparr>pd_grants := Some (gd, st'), pd_binding := raw\<rparr>) call ctx = Allow \<and>
    evaluate env (deps\<lparr>pd_grants := Some (gd, fst (grant_revoke gd st' (JStr (tc_tool call)) raw)), pd_binding := raw\<rparr>) call ctx
      = Ask 2 shown"
proof -
  have n: "\<not> denied deps call ctx" "tierOf call = 2"
    using ask_means_gradient [OF assms(1)] denied_grants by auto
  then have e: "evaluate env (deps\<lparr>pd_grants := g, pd_binding := raw\<rparr>) call ctx =
      (if granted (deps\<lparr>pd_grants := g, pd_binding := raw\<rparr>) call 2 then Allow else Ask 2 (makeCard env call 2))" for g
    using evaluate_gradient [of "deps\<lparr>pd_grants := g, pd_binding := raw\<rparr>" call ctx env] denied_grants by simp
  have shown: "shown = makeCard env call 2" using assms(1) e [of None] by (simp add: granted_def)
  have has: "grant_has gd st' (JStr (tc_tool call)) raw" using record_has [OF assms(2-4)] .
  obtain t b where tb: "cleanTool (JStr (tc_tool call)) = Inr t" "cleanBinding raw = Inr b"
    using assms(3) by (auto simp: grantable_def split: sum.splits)
  have "\<not> grant_has gd (fst (grant_revoke gd st' (JStr (tc_tool call)) raw)) (JStr (tc_tool call)) raw"
    "\<not> grant_hasSimilar gd (fst (grant_revoke gd st' (JStr (tc_tool call)) raw)) call 2 raw"
    using revoke_not_has [OF tb] revoke_not_hasSimilar [OF tb] by auto
  with has shown show ?thesis unfolding e by (simp add: granted_def)
qed

theorem grant_lifecycle_governs_policy_witness:
  "(let call = demo_call ''git.commit'' [(''message'', JStr ''m'')];
        st' = fst (grant_record demo_grant_deps ''t0'' demo_store (JStr (tc_tool call)) ScopeSession demo_binding)
    in evaluate demo_env (demo_deps\<lparr>pd_grants := Some (demo_grant_deps, st'), pd_binding := demo_binding\<rparr>) call [] = Allow \<and>
       evaluate demo_env (demo_deps\<lparr>pd_grants := Some (demo_grant_deps,
         fst (grant_revoke demo_grant_deps st' (JStr (tc_tool call)) demo_binding)), pd_binding := demo_binding\<rparr>) call []
         = Ask 2 (makeCard demo_env call 2))"
proof -
  let ?call = "demo_call ''git.commit'' [(''message'', JStr ''m'')]"
  let ?r = "grant_record demo_grant_deps ''t0'' demo_store (JStr (tc_tool ?call)) ScopeSession demo_binding"
  have a: "evaluate demo_env (demo_deps\<lparr>pd_grants := None, pd_binding := demo_binding\<rparr>) ?call [] = Ask 2 (makeCard demo_env ?call 2)"
    by code_simp
  have w: "store_wf demo_store" by (simp add: store_wf_def demo_store_def)
  have g: "grantable demo_grant_deps (JStr (tc_tool ?call)) demo_binding" by code_simp
  have "snd ?r = Inr ()" by code_simp
  then have r: "?r = (fst ?r, Inr ())" by (metis prod.collapse)
  from grant_lifecycle_governs_policy [OF a w g r] show ?thesis unfolding Let_def .
qed

text \<open>
  A runner that could not confirm gVisor makes the policy deny every network-capable shell command,
  whatever the grants and the context.
\<close>

theorem unprobed_sandbox_denies_network_shell:
  assumes "sd_gVisorProbe sd \<noteq> Some True" and "isHighRiskShell call"
  shows "\<exists>rule reason. evaluate env (deps\<lparr>pd_sandbox := Some (securityLevel sd)\<rparr>) call ctx = Deny rule reason"
  by (rule evaluate_denied)
     (use assms in \<open>simp add: denied_def sandbox_level_def securityLevel_def gvisor_available_def\<close>)

theorem unprobed_sandbox_denies_network_shell_witness:
  "(let sd = \<lparr>sd_launch = None, sd_gVisorProbe = None, sd_allowedMountRoots = None, sd_execImpl = None, sd_seccompProfile = None,
          sd_usernsRemapProbe = Some True\<rparr>
    in \<exists>rule reason. evaluate demo_env (demo_deps\<lparr>pd_sandbox := Some (securityLevel sd)\<rparr>)
         (demo_call ''bash'' [(''cmd'', JStr ''curl x'')]) [] = Deny rule reason)"
  unfolding Let_def
proof (rule unprobed_sandbox_denies_network_shell)
  show "isHighRiskShell (demo_call ''bash'' [(''cmd'', JStr ''curl x'')])" by code_simp
qed simp

section \<open>The policy behind the turns of the agent loop\<close>

text \<open>How the runner puts the gate into the loop; the state of the gate is a part of the world of the turn.\<close>

definition hook_verdict_of :: "gate_verdict \<Rightarrow> hook_verdict" where
  "hook_verdict_of r = (case r of GateAllow \<Rightarrow> HvAllow | GateDeny \<Rightarrow> HvDeny | GateModify c \<Rightarrow> HvModify c)"

definition gated_pre :: "('w \<Rightarrow> 'v gate_state) \<Rightarrow> ('w \<Rightarrow> 'v gate_state \<Rightarrow> 'w) \<Rightarrow> 'v gate_deps \<Rightarrow> 'w \<Rightarrow> loop_call \<Rightarrow> hook_ctx \<Rightarrow> 'w \<times> hook_verdict option" where
  "gated_pre get put gd w call ctx = (case gate_pre gd (get w) call ctx of (gs, r) \<Rightarrow> (put w gs, Some (hook_verdict_of r)))"

lemma executed_call_admitted:
  assumes "ld_pre d = gated_pre get put gd" and "gt_evaluate gd = runner_evaluate cenv pd gdeps None"
    and "turn_main d inp (start_turn lp inp) = (res, st)" and "EvExecute call c \<in> set (tn_trace st)"
  obtains gs gs' where "gate_pre gd gs call (hook_ctx_of call c (ss_narrowed (tn_sess st))) = (gs', GateAllow)"
proof -
  from assms(4) obtain pre post where "tn_trace st = pre @ EvExecute call c # post" by (meson split_list)
  from admitted_execution [OF assms(3) this] obtain asked v w where
    v: "snd (ld_pre d w asked (hook_ctx_of asked c (ss_narrowed (tn_sess st)))) = Some v" "v = HvAllow \<and> call = asked \<or> v = HvModify call"
    by (auto simp: execution_ok_def gate_admitted_def)
  let ?g = "gate_pre gd (get w) asked (hook_ctx_of asked c (ss_narrowed (tn_sess st)))"
  from v have "hook_verdict_of (snd ?g) = v" by (simp add: assms(1) gated_pre_def case_prod_unfold)
  moreover have "snd ?g = GateAllow \<or> snd ?g = GateDeny" by (rule runner_policy.gate_allow_or_deny [OF assms(2)])
  ultimately have "snd ?g = GateAllow" "call = asked" using v(2) by (auto simp: hook_verdict_of_def)
  with that [of "get w" "fst ?g"] show thesis by (simp add: prod_eq_iff)
qed


definition demo_gate :: "unit gate_deps" where
  "demo_gate = \<lparr>gt_evaluate = runner_evaluate (\<lambda>_. demo_env) demo_deps demo_grant_deps None, gt_grantDeps = demo_grant_deps, gt_binding = None,
     gt_resolve = None, gt_complete = None, gt_approve = (\<lambda>w a. (w, Some (Confirmed None))), gt_validate = None, gt_learned = None,
     gt_narrow = None, gt_observe = None, gt_H = (\<lambda>_. []), gt_uuid = (\<lambda>_. []), gt_now = (\<lambda>_. [])\<rparr>"

definition demo_gated :: "demo_world loop_deps" where
  "demo_gated = quiet_ports\<lparr>ld_pre := gated_pre (\<lambda>_. \<lparr>gx_grants = demo_store, gx_world = (), gx_cards = []\<rparr>) (\<lambda>w _. w) demo_gate\<rparr>"

definition demo_gated_turn :: "(stop + turn_result) \<times> demo_world turn" where
  "demo_gated_turn = turn_main demo_gated (demo_ask ''hi'') (start_turn (demo_loop demo_answers) (demo_ask ''hi''))"

lemma demo_gated_runs: "list_ex is_execute (tn_trace (snd demo_gated_turn))"
  by code_simp


end
